(* ===== verification/Prelude.thy ===== *)
theory Prelude
  imports Main "HOL-Library.Word" "HOL-Library.Code_Target_Nat" "HOL-Library.Char_ord" "HOL-Library.List_Lexorder"
begin

text \<open>
  Shared vocabulary of the development: results and options as the Rust code combines them
  (\<open>?\<close>, \<open>ok_or\<close>, \<open>map_err\<close>), the checked and saturating integer operations of the Rust
  standard library, and the standard \<open>str\<close> operations the control plane uses.

  A Rust \<open>String\<close> is modelled by the list of its UTF-8 bytes, one \<open>char\<close> per byte, so
  \<open>len()\<close> is \<open>length\<close> and byte predicates apply to the characters directly. Operations that
  Rust defines on Unicode scalar values (\<open>chars\<close>, \<open>char::is_control\<close>, \<open>trim\<close>,
  \<open>split_whitespace\<close>) group the bytes into UTF-8 sequences first (\<open>utf8_chars\<close>).
\<close>

named_theorems res_simps "unfolding of the result combinators"
named_theorems str_simps "executable string predicates"

section \<open>Results\<close>

text \<open>\<open>Inl\<close> is \<open>Err\<close>, \<open>Inr\<close> is \<open>Ok\<close>.\<close>

definition and_then :: "'e + 'a \<Rightarrow> ('a \<Rightarrow> 'e + 'b) \<Rightarrow> 'e + 'b" where
  "and_then m f = (case m of Inl e \<Rightarrow> Inl e | Inr x \<Rightarrow> f x)"

definition ok_or :: "'a option \<Rightarrow> 'e \<Rightarrow> 'e + 'a" where
  "ok_or x e = (case x of None \<Rightarrow> Inl e | Some y \<Rightarrow> Inr y)"

definition map_err :: "('e \<Rightarrow> 'f) \<Rightarrow> 'e + 'a \<Rightarrow> 'f + 'a" where
  "map_err f m = (case m of Inl e \<Rightarrow> Inl (f e) | Inr x \<Rightarrow> Inr x)"

definition require :: "bool \<Rightarrow> 'e \<Rightarrow> 'e + unit" where
  "require b e = (if b then Inr () else Inl e)"

fun is_ok :: "'e + 'a \<Rightarrow> bool" where
  "is_ok (Inl _) = False"
| "is_ok (Inr _) = True"

fun ok :: "'e + 'a \<Rightarrow> 'a option" where
  "ok (Inl _) = None"
| "ok (Inr x) = Some x"

lemma and_then_simps [simp]:
  "and_then (Inl e) f = Inl e" "and_then (Inr x) f = f x"
  by (simp_all add: and_then_def)

lemma and_then_eq_Inr [res_simps]:
  "and_then m f = Inr y \<longleftrightarrow> (\<exists>x. m = Inr x \<and> f x = Inr y)"
  by (cases m) simp_all

lemma ok_or_simps [simp]:
  "ok_or None e = Inl e" "ok_or (Some x) e = Inr x"
  by (simp_all add: ok_or_def)

lemma ok_or_eq_Inr [res_simps]: "ok_or x e = Inr y \<longleftrightarrow> x = Some y"
  by (cases x) simp_all

lemma map_err_simps [simp]:
  "map_err f (Inl e) = Inl (f e)" "map_err f (Inr x) = Inr x"
  by (simp_all add: map_err_def)

lemma map_err_eq_Inr [res_simps]: "map_err f m = Inr y \<longleftrightarrow> m = Inr y"
  by (cases m) simp_all

lemma require_simps [simp]:
  "require True e = Inr ()" "require False e = Inl e"
  by (simp_all add: require_def)

lemma require_eq_Inr [res_simps]: "require b e = Inr u \<longleftrightarrow> b"
  by (simp add: require_def)

lemma is_ok_iff: "is_ok m \<longleftrightarrow> (\<exists>x. m = Inr x)"
  by (cases m) simp_all

lemma ok_eq_Some: "ok m = Some x \<longleftrightarrow> m = Inr x"
  by (cases m) simp_all

lemma ok_eq_None: "ok m = None \<longleftrightarrow> \<not> is_ok m"
  by (cases m) simp_all

section \<open>Machine integers\<close>

type_synonym u32 = "32 word"
type_synonym u64 = "64 word"

text \<open>Sizes, offsets and revisions that are compared with JSON numbers are kept as \<open>nat\<close> with
  the width written out; counters whose arithmetic is the point are words.\<close>

abbreviation u64_limit :: nat where "u64_limit \<equiv> 18446744073709551616"
abbreviation i64_limit :: nat where "i64_limit \<equiv> 9223372036854775808"

definition checked_add_u64 :: "nat \<Rightarrow> nat \<Rightarrow> nat option" where
  "checked_add_u64 a b = (if a + b < u64_limit then Some (a + b) else None)"

definition checked_mul_u64 :: "nat \<Rightarrow> nat \<Rightarrow> nat option" where
  "checked_mul_u64 a b = (if a * b < u64_limit then Some (a * b) else None)"

definition checked_sub_u64 :: "nat \<Rightarrow> nat \<Rightarrow> nat option" where
  "checked_sub_u64 a b = (if b \<le> a then Some (a - b) else None)"

definition saturating_add :: "'a::len word \<Rightarrow> 'a word \<Rightarrow> 'a word" where
  "saturating_add a b = (if unat a + unat b < 2 ^ LENGTH('a) then a + b else - 1)"

definition saturating_mul :: "'a::len word \<Rightarrow> 'a word \<Rightarrow> 'a word" where
  "saturating_mul a b = (if unat a * unat b < 2 ^ LENGTH('a) then a * b else - 1)"

lemma checked_add_u64_Some [simp]:
  "checked_add_u64 a b = Some c \<longleftrightarrow> c = a + b \<and> a + b < u64_limit"
  by (auto simp: checked_add_u64_def)

lemma checked_mul_u64_Some [simp]:
  "checked_mul_u64 a b = Some c \<longleftrightarrow> c = a * b \<and> a * b < u64_limit"
  by (auto simp: checked_mul_u64_def)

lemma checked_sub_u64_Some [simp]: "checked_sub_u64 a b = Some c \<longleftrightarrow> b \<le> a \<and> c = a - b"
  by (auto simp: checked_sub_u64_def)

lemma unat_max_word: "unat (- 1 :: 'a::len word) = 2 ^ LENGTH('a) - 1"
  by (simp add: unsigned_minus_1_eq_mask mask_eq_exp_minus_1)

lemma unat_saturating_add:
  "unat (saturating_add a b) = min (unat a + unat b) (2 ^ LENGTH('a) - 1)"
  for a b :: "'a::len word"
proof (cases "unat a + unat b < 2 ^ LENGTH('a)")
  case True
  then show ?thesis by (simp add: saturating_add_def unat_word_ariths)
next
  case False
  then show ?thesis by (simp add: saturating_add_def unat_max_word min_def, linarith)
qed

lemma unat_min: "unat (min a b) = min (unat a) (unat b)"
  by (auto simp: min_def word_le_nat_alt)

lemma unat_saturating_mul:
  "unat (saturating_mul a b) = min (unat a * unat b) (2 ^ LENGTH('a) - 1)"
  for a b :: "'a::len word"
proof (cases "unat a * unat b < 2 ^ LENGTH('a)")
  case True
  then show ?thesis by (simp add: saturating_mul_def unat_word_ariths)
next
  case False
  then have "2 ^ LENGTH('a) - 1 \<le> unat a * unat b" by simp
  with False show ?thesis by (simp only: saturating_mul_def if_False unat_max_word min_absorb2)
qed

section \<open>Bytes\<close>

definition byte :: "char \<Rightarrow> nat" where
  "byte c = of_char c"

definition is_ascii :: "char \<Rightarrow> bool" where
  "is_ascii c \<longleftrightarrow> byte c < 128"

definition is_ascii_digit :: "char \<Rightarrow> bool" where
  "is_ascii_digit c \<longleftrightarrow> 48 \<le> byte c \<and> byte c \<le> 57"

definition is_ascii_lower :: "char \<Rightarrow> bool" where
  "is_ascii_lower c \<longleftrightarrow> 97 \<le> byte c \<and> byte c \<le> 122"

definition is_ascii_upper :: "char \<Rightarrow> bool" where
  "is_ascii_upper c \<longleftrightarrow> 65 \<le> byte c \<and> byte c \<le> 90"

definition is_ascii_alphabetic :: "char \<Rightarrow> bool" where
  "is_ascii_alphabetic c \<longleftrightarrow> is_ascii_lower c \<or> is_ascii_upper c"

definition is_ascii_alphanumeric :: "char \<Rightarrow> bool" where
  "is_ascii_alphanumeric c \<longleftrightarrow> is_ascii_alphabetic c \<or> is_ascii_digit c"

text \<open>\<open>c.is_ascii_digit() || (b'a'..=b'f').contains(&c)\<close>, the lowercase hex test of the code.\<close>

definition is_lower_hex :: "char \<Rightarrow> bool" where
  "is_lower_hex c \<longleftrightarrow> is_ascii_digit c \<or> (97 \<le> byte c \<and> byte c \<le> 102)"

definition is_ascii_hexdigit :: "char \<Rightarrow> bool" where
  "is_ascii_hexdigit c \<longleftrightarrow> is_lower_hex c \<or> (65 \<le> byte c \<and> byte c \<le> 70)"

lemmas byte_class_defs = is_ascii_def is_ascii_digit_def is_ascii_lower_def is_ascii_upper_def
  is_ascii_alphabetic_def is_ascii_alphanumeric_def is_lower_hex_def is_ascii_hexdigit_def

declare byte_class_defs [str_simps] byte_def [str_simps]

definition to_ascii_uppercase :: "string \<Rightarrow> string" where
  "to_ascii_uppercase s =
     map (\<lambda>c. if is_ascii_lower c then char_of (byte c - 32) else c) s"

text \<open>A 0 byte: \<open>'\0'\<close>.\<close>

abbreviation NUL :: char where "NUL \<equiv> CHR 0x00"


section \<open>Strings\<close>

subsection \<open>Prefixes, splitting and joining\<close>

fun strip_prefix :: "string \<Rightarrow> string \<Rightarrow> string option" where
  "strip_prefix [] s = Some s"
| "strip_prefix (p # ps) [] = None"
| "strip_prefix (p # ps) (c # cs) = (if p = c then strip_prefix ps cs else None)"

definition strip_suffix :: "string \<Rightarrow> string \<Rightarrow> string option" where
  "strip_suffix p s = map_option rev (strip_prefix (rev p) (rev s))"

definition starts_with :: "string \<Rightarrow> string \<Rightarrow> bool" where
  "starts_with p s \<longleftrightarrow> strip_prefix p s \<noteq> None"

definition ends_with :: "string \<Rightarrow> string \<Rightarrow> bool" where
  "ends_with p s \<longleftrightarrow> strip_suffix p s \<noteq> None"

fun contains_str :: "string \<Rightarrow> string \<Rightarrow> bool" where
  "contains_str p [] = (p = [])"
| "contains_str p (c # cs) = (starts_with p (c # cs) \<or> contains_str p cs)"

text \<open>\<open>s.split(c)\<close>: always at least one part.\<close>

fun split_on :: "char \<Rightarrow> string \<Rightarrow> string list" where
  "split_on d [] = [[]]"
| "split_on d (c # cs) =
     (if c = d then [] # split_on d cs
      else (case split_on d cs of [] \<Rightarrow> [[c]] | p # ps \<Rightarrow> (c # p) # ps))"

text \<open>\<open>parts.join(sep)\<close>.\<close>

fun join :: "string \<Rightarrow> string list \<Rightarrow> string" where
  "join sep [] = []"
| "join sep [x] = x"
| "join sep (x # y # zs) = x @ sep @ join sep (y # zs)"

text \<open>\<open>s.split_once(c)\<close> for a character and for a string.\<close>

fun split_once :: "char \<Rightarrow> string \<Rightarrow> (string \<times> string) option" where
  "split_once d [] = None"
| "split_once d (c # cs) =
     (if c = d then Some ([], cs)
      else (case split_once d cs of None \<Rightarrow> None | Some (a, b) \<Rightarrow> Some (c # a, b)))"

fun split_once_str :: "string \<Rightarrow> string \<Rightarrow> (string \<times> string) option" where
  "split_once_str p [] = (case strip_prefix p [] of Some r \<Rightarrow> Some ([], r) | None \<Rightarrow> None)"
| "split_once_str p (c # cs) =
     (case strip_prefix p (c # cs) of
        Some r \<Rightarrow> Some ([], r)
      | None \<Rightarrow> (case split_once_str p cs of None \<Rightarrow> None | Some (a, b) \<Rightarrow> Some (c # a, b)))"

definition trim_end_matches :: "(char \<Rightarrow> bool) \<Rightarrow> string \<Rightarrow> string" where
  "trim_end_matches P s = rev (dropWhile P (rev s))"

lemma strip_prefix_eq_Some [simp]: "strip_prefix p s = Some r \<longleftrightarrow> s = p @ r"
  by (induction p s rule: strip_prefix.induct) auto

lemma strip_prefix_eq_None: "strip_prefix p s = None \<longleftrightarrow> (\<forall>r. s \<noteq> p @ r)"
  by (metis not_None_eq strip_prefix_eq_Some)

lemma strip_prefix_append [simp]: "strip_prefix p (p @ r) = Some r"
  by simp

lemma starts_with_iff: "starts_with p s \<longleftrightarrow> (\<exists>r. s = p @ r)"
  by (simp add: starts_with_def)

lemma strip_suffix_eq_Some [simp]: "strip_suffix p s = Some r \<longleftrightarrow> s = r @ p"
  by (auto simp: strip_suffix_def) (metis rev_append rev_rev_ident)+

lemma ends_with_iff: "ends_with p s \<longleftrightarrow> (\<exists>r. s = r @ p)"
  unfolding ends_with_def by (metis not_None_eq strip_suffix_eq_Some)

lemma contains_str_iff: "contains_str p s \<longleftrightarrow> (\<exists>a b. s = a @ p @ b)"
proof (induction s)
  case Nil
  then show ?case by simp
next
  case (Cons c cs)
  show ?case
  proof
    assume "contains_str p (c # cs)"
    then consider "starts_with p (c # cs)" | "contains_str p cs" by auto
    then show "\<exists>a b. c # cs = a @ p @ b"
    proof cases
      case 1
      then show ?thesis by (metis append_Nil starts_with_iff)
    next
      case 2
      then show ?thesis using Cons.IH by (metis append_Cons)
    qed
  next
    assume "\<exists>a b. c # cs = a @ p @ b"
    then obtain a b where ab: "c # cs = a @ p @ b" by blast
    show "contains_str p (c # cs)"
    proof (cases a)
      case Nil
      with ab have "starts_with p (c # cs)" by (auto simp: starts_with_iff)
      then show ?thesis by simp
    next
      case (Cons x xs)
      with ab have "cs = xs @ p @ b" by simp
      with Cons.IH show ?thesis by auto
    qed
  qed
qed

lemma split_on_nonempty [simp]: "split_on d s \<noteq> []"
  by (induction s) (auto split: list.splits)

lemma join_Cons: "xs \<noteq> [] \<Longrightarrow> join sep (x # xs) = x @ sep @ join sep xs"
  by (cases xs) simp_all

lemma join_split_on [simp]: "join [d] (split_on d s) = s"
proof (induction s)
  case Nil
  then show ?case by simp
next
  case (Cons c cs)
  obtain q qs where q: "split_on d cs = q # qs"
    using split_on_nonempty by (meson neq_Nil_conv)
  with Cons show ?case by (cases qs) auto
qed

lemma split_on_no_sep: "d \<notin> set s \<Longrightarrow> split_on d s = [s]"
  by (induction s) auto

lemma split_on_parts: "p \<in> set (split_on d s) \<Longrightarrow> d \<notin> set p"
  by (induction s arbitrary: p) (auto split: list.splits if_splits)

lemma split_on_append_sep: "d \<notin> set p \<Longrightarrow> split_on d (p @ d # s) = p # split_on d s"
  by (induction p) auto

lemma split_on_join:
  "ps \<noteq> [] \<Longrightarrow> \<forall>p \<in> set ps. d \<notin> set p \<Longrightarrow> split_on d (join [d] ps) = ps"
proof (induction ps)
  case Nil
  then show ?case by simp
next
  case (Cons p ps)
  then show ?case
    by (cases ps) (auto simp: split_on_no_sep split_on_append_sep)
qed

lemma split_once_eq_Some [simp]:
  "split_once d s = Some (a, b) \<longleftrightarrow> s = a @ d # b \<and> d \<notin> set a"
proof (induction s arbitrary: a)
  case Nil
  then show ?case by simp
next
  case (Cons c cs)
  show ?case
  proof (cases a)
    case Nil
    then show ?thesis by (auto split: option.splits)
  next
    case (Cons x xs)
    have "split_once d (c # cs) = Some (x # xs, b) \<longleftrightarrow>
        c \<noteq> d \<and> x = c \<and> split_once d cs = Some (xs, b)"
      by (auto split: option.splits)
    with Cons Cons.IH show ?thesis by auto
  qed
qed

subsection \<open>Unicode characters of a UTF-8 string\<close>

definition is_continuation :: "char \<Rightarrow> bool" where
  "is_continuation c \<longleftrightarrow> 128 \<le> byte c \<and> byte c < 192"

text \<open>\<open>s.chars()\<close>: each lead byte with the continuation bytes that follow it.\<close>

function utf8_chars :: "string \<Rightarrow> string list" where
  "utf8_chars [] = []"
| "utf8_chars (c # cs) =
     (c # takeWhile is_continuation cs) # utf8_chars (dropWhile is_continuation cs)"
  by pat_completeness auto
termination
  by (relation "measure length") (auto simp: le_imp_less_Suc length_dropWhile_le)

lemma concat_utf8_chars [simp]: "concat (utf8_chars s) = s"
  by (induction s rule: utf8_chars.induct) auto

text \<open>\<open>char::is_control\<close>: the general category Cc, U+0000 to U+001F and U+007F to U+009F.\<close>

definition c0_control :: "char \<Rightarrow> bool" where
  "c0_control a \<longleftrightarrow> byte a < 32 \<or> byte a = 127"

definition is_control :: "string \<Rightarrow> bool" where
  "is_control u =
     (case u of
        [a] \<Rightarrow> c0_control a
      | [a, b] \<Rightarrow> byte a = 194 \<and> 128 \<le> byte b \<and> byte b \<le> 159
      | _ \<Rightarrow> False)"

text \<open>The byte classes on the bits of a character, for evaluation.\<close>

lemma byte_bits:
  "byte (Char b0 b1 b2 b3 b4 b5 b6 b7) =
     of_bool b0 + 2 * (of_bool b1 + 2 * (of_bool b2 + 2 * (of_bool b3 + 2 * (of_bool b4 +
       2 * (of_bool b5 + 2 * (of_bool b6 + 2 * of_bool b7))))))"
  by (simp add: byte_def)

lemma byte_class_bits [code]:
  "is_ascii (Char b0 b1 b2 b3 b4 b5 b6 b7) \<longleftrightarrow> \<not> b7"
  "is_ascii_digit (Char b0 b1 b2 b3 b4 b5 b6 b7) \<longleftrightarrow>
     \<not> b7 \<and> \<not> b6 \<and> b5 \<and> b4 \<and> (\<not> b3 \<or> \<not> b2 \<and> \<not> b1)"
  "is_ascii_lower (Char b0 b1 b2 b3 b4 b5 b6 b7) \<longleftrightarrow>
     \<not> b7 \<and> b6 \<and> b5 \<and> (if b4 then \<not> b3 \<or> \<not> b2 \<and> (\<not> b1 \<or> \<not> b0) else b3 \<or> b2 \<or> b1 \<or> b0)"
  "is_ascii_upper (Char b0 b1 b2 b3 b4 b5 b6 b7) \<longleftrightarrow>
     \<not> b7 \<and> b6 \<and> \<not> b5 \<and> (if b4 then \<not> b3 \<or> \<not> b2 \<and> (\<not> b1 \<or> \<not> b0) else b3 \<or> b2 \<or> b1 \<or> b0)"
  "is_lower_hex (Char b0 b1 b2 b3 b4 b5 b6 b7) \<longleftrightarrow>
     \<not> b7 \<and> b5 \<and> (if b6 then \<not> b4 \<and> \<not> b3 \<and> (b2 \<or> b1 \<or> b0) \<and> \<not> (b2 \<and> b1 \<and> b0)
       else b4 \<and> (\<not> b3 \<or> \<not> b2 \<and> \<not> b1))"
  "is_continuation (Char b0 b1 b2 b3 b4 b5 b6 b7) \<longleftrightarrow> b7 \<and> \<not> b6"
  "c0_control (Char b0 b1 b2 b3 b4 b5 b6 b7) \<longleftrightarrow>
     \<not> b7 \<and> (if b6 then b5 \<and> b4 \<and> b3 \<and> b2 \<and> b1 \<and> b0 else \<not> b5)"
  by ((cases b0; cases b1; cases b2; cases b3; cases b4; cases b5; cases b6; cases b7),
    simp_all add: byte_class_defs is_continuation_def c0_control_def byte_bits)+

text \<open>\<open>char::is_whitespace\<close>: the Unicode property White\_Space.\<close>

definition is_whitespace :: "string \<Rightarrow> bool" where
  "is_whitespace u =
     (case map byte u of
        [a] \<Rightarrow> (9 \<le> a \<and> a \<le> 13) \<or> a = 32
      | [a, b] \<Rightarrow> a = 194 \<and> (b = 133 \<or> b = 160)
      | [a, b, c] \<Rightarrow>
          (a = 225 \<and> b = 154 \<and> c = 128) \<or>
          (a = 226 \<and> b = 128 \<and> ((128 \<le> c \<and> c \<le> 138) \<or> c = 168 \<or> c = 169 \<or> c = 175)) \<or>
          (a = 226 \<and> b = 129 \<and> c = 159) \<or>
          (a = 227 \<and> b = 128 \<and> c = 128)
      | _ \<Rightarrow> False)"

definition has_control :: "string \<Rightarrow> bool" where
  "has_control s \<longleftrightarrow> list_ex is_control (utf8_chars s)"

definition char_count :: "string \<Rightarrow> nat" where
  "char_count s = length (utf8_chars s)"

definition trim_start :: "string \<Rightarrow> string" where
  "trim_start s = concat (dropWhile is_whitespace (utf8_chars s))"

definition trim_end :: "string \<Rightarrow> string" where
  "trim_end s = concat (rev (dropWhile is_whitespace (rev (utf8_chars s))))"

definition trim :: "string \<Rightarrow> string" where
  "trim s = trim_end (trim_start s)"

text \<open>\<open>s.split_whitespace()\<close>: the maximal runs of non-space characters.\<close>

fun words_of :: "string list \<Rightarrow> string list \<Rightarrow> string list" where
  "words_of [] acc = (if acc = [] then [] else [concat (rev acc)])"
| "words_of (u # us) acc =
     (if is_whitespace u
      then (if acc = [] then words_of us [] else concat (rev acc) # words_of us [])
      else words_of us (u # acc))"

definition split_whitespace :: "string \<Rightarrow> string list" where
  "split_whitespace s = words_of (utf8_chars s) []"

text \<open>\<open>s.lines()\<close>: split at line feeds, drop one carriage return at the end of a line that was
  ended by a line feed, no empty line after a final line feed.\<close>

definition strip_cr :: "string \<Rightarrow> string" where
  "strip_cr s = (case rev s of c # r \<Rightarrow> (if c = CHR 0x0D then rev r else s) | [] \<Rightarrow> s)"

definition lines :: "string \<Rightarrow> string list" where
  "lines s =
     (let ps = split_on (CHR 0x0A) s
      in map strip_cr (butlast ps) @ (if last ps = [] then [] else [last ps]))"

lemma char_count_le_length: "char_count s \<le> length s"
  unfolding char_count_def
proof (induction s rule: utf8_chars.induct)
  case 1
  then show ?case by simp
next
  case (2 c cs)
  moreover have "length (dropWhile is_continuation cs) \<le> length cs"
    by (rule length_dropWhile_le)
  ultimately show ?case by simp
qed

lemma utf8_chars_ascii: "list_all is_ascii s \<Longrightarrow> utf8_chars s = map (\<lambda>c. [c]) s"
proof (induction s)
  case Nil
  then show ?case by simp
next
  case (Cons c cs)
  then have nc: "list_all (\<lambda>c. \<not> is_continuation c) cs"
    by (auto simp: list_all_iff is_ascii_def is_continuation_def)
  then have "takeWhile is_continuation cs = []" "dropWhile is_continuation cs = cs"
    by (cases cs; simp)+
  with Cons show ?case by simp
qed

subsection \<open>Trimming\<close>

text \<open>A list of groups as \<open>utf8_chars\<close> makes them: regrouping their concatenation gives them back.\<close>

definition grouped :: "string list \<Rightarrow> bool" where
  "grouped gs \<longleftrightarrow>
     list_all (\<lambda>g. g \<noteq> [] \<and> list_all is_continuation (tl g)) gs \<and>
     list_all (\<lambda>g. \<not> is_continuation (hd g)) (tl gs)"

lemma grouped_utf8_chars: "grouped (utf8_chars s)"
proof (induction s rule: utf8_chars.induct)
  case 1
  then show ?case by (simp add: grouped_def)
next
  case (2 c cs)
  let ?r = "dropWhile is_continuation cs"
  have "list_all (\<lambda>g. \<not> is_continuation (hd g)) (utf8_chars ?r)"
  proof (cases ?r)
    case (Cons d ds)
    then have "\<not> is_continuation d" by (metis dropWhile_eq_Cons_conv)
    with Cons 2 show ?thesis by (simp add: grouped_def)
  next
    case Nil
    then show ?thesis by (simp only: utf8_chars.simps list.pred_inject)
  qed
  moreover have "list_all is_continuation (takeWhile is_continuation cs)"
    by (auto simp: list_all_iff dest: set_takeWhileD)
  ultimately show ?case using 2 by (simp add: grouped_def)
qed

lemma grouped_Cons_tail: "grouped (g # gs) \<Longrightarrow> grouped gs"
  by (cases gs) (auto simp: grouped_def)

lemma grouped_dropWhile: "grouped gs \<Longrightarrow> grouped (dropWhile P gs)"
  by (induction gs) (auto dest: grouped_Cons_tail)

lemma grouped_append_front: "grouped (gs @ hs) \<Longrightarrow> grouped gs"
  by (cases gs) (auto simp: grouped_def)

lemma while_none: "w = [] \<or> \<not> P (hd w) \<Longrightarrow> takeWhile P w = [] \<and> dropWhile P w = w"
  by (cases w) auto

lemma utf8_chars_concat: "grouped gs \<Longrightarrow> utf8_chars (concat gs) = gs"
proof (induction gs)
  case Nil
  then show ?case by simp
next
  case (Cons g gs)
  then obtain c cs where g: "g = c # cs" "list_all is_continuation cs"
    by (cases g) (auto simp: grouped_def)
  have rest: "concat gs = [] \<or> \<not> is_continuation (hd (concat gs))"
    using Cons.prems by (cases gs) (auto simp: grouped_def)
  have none: "takeWhile is_continuation (concat gs) = []" "dropWhile is_continuation (concat gs) = concat gs"
    using rest while_none [of "concat gs" is_continuation] by blast+
  have all: "\<And>x. x \<in> set cs \<Longrightarrow> is_continuation x" using g(2) by (simp add: list_all_iff)
  have "takeWhile is_continuation (cs @ concat gs) = cs"
    "dropWhile is_continuation (cs @ concat gs) = concat gs"
    using takeWhile_append2 [of cs is_continuation "concat gs"]
      dropWhile_append2 [of cs is_continuation "concat gs"] all none by auto
  with g Cons show ?case by (simp add: grouped_Cons_tail)
qed

definition trimmed :: "string list \<Rightarrow> string list" where
  "trimmed gs = rev (dropWhile is_whitespace (rev (dropWhile is_whitespace gs)))"

lemma trimmed_front: "\<exists>hs. dropWhile is_whitespace gs = trimmed gs @ hs"
proof -
  let ?a = "rev (dropWhile is_whitespace gs)"
  have "rev ?a = rev (dropWhile is_whitespace ?a) @ rev (takeWhile is_whitespace ?a)"
    by (simp flip: rev_append)
  then show ?thesis by (auto simp: trimmed_def)
qed

lemma grouped_trimmed: "grouped gs \<Longrightarrow> grouped (trimmed gs)"
  using trimmed_front grouped_dropWhile grouped_append_front by metis

lemma trim_groups: "trim s = concat (trimmed (utf8_chars s))"
  by (simp add: trim_def trim_start_def trim_end_def trimmed_def utf8_chars_concat
      grouped_dropWhile grouped_utf8_chars)

lemma trimmed_idem: "trimmed (trimmed gs) = trimmed gs"
proof -
  obtain hs where hs: "dropWhile is_whitespace gs = trimmed gs @ hs" using trimmed_front by blast
  have front: "dropWhile is_whitespace (trimmed gs) = trimmed gs"
  proof (cases "trimmed gs")
    case (Cons g t)
    with hs have "\<not> is_whitespace g" by (metis append_Cons dropWhile_eq_Cons_conv)
    with Cons show ?thesis by simp
  qed simp
  have "dropWhile is_whitespace (rev (trimmed gs)) = rev (trimmed gs)"
    unfolding trimmed_def rev_rev_ident by (rule dropWhile_idem)
  with front show ?thesis by (simp add: trimmed_def [of "trimmed gs"])
qed

lemma trim_idem [simp]: "trim (trim s) = trim s"
  by (simp add: trim_groups utf8_chars_concat grouped_trimmed grouped_utf8_chars trimmed_idem)

lemma trim_Nil [simp]: "trim [] = []"
  by (simp add: trim_groups trimmed_def)

lemma trim_nonempty:
  assumes "u \<in> set (utf8_chars s)" "\<not> is_whitespace u"
  shows "trim s \<noteq> []"
proof -
  have "dropWhile is_whitespace (utf8_chars s) \<noteq> []" using assms by (auto simp: dropWhile_eq_Nil_conv)
  then obtain g t where d: "dropWhile is_whitespace (utf8_chars s) = g # t" by (meson neq_Nil_conv)
  then have "\<not> is_whitespace g" by (metis dropWhile_eq_Cons_conv)
  then have "trimmed (utf8_chars s) \<noteq> []" using d by (auto simp: trimmed_def dropWhile_eq_Nil_conv)
  moreover have "grouped (trimmed (utf8_chars s))" by (simp add: grouped_trimmed grouped_utf8_chars)
  ultimately show ?thesis by (cases "trimmed (utf8_chars s)") (auto simp: trim_groups grouped_def)
qed

lemma trim_subset: "set (trim s) \<subseteq> set s"
proof -
  have "set (trimmed gs) \<subseteq> set gs" for gs
    unfolding trimmed_def by (auto dest!: set_dropWhileD)
  then have "set (concat (trimmed gs)) \<subseteq> set (concat gs)" for gs by fastforce
  then show ?thesis unfolding trim_groups by (metis concat_utf8_chars)
qed

lemma words_of_plain:
  "list_all (\<lambda>u. \<not> is_whitespace u) us \<Longrightarrow>
   words_of us acc = (if us = [] \<and> acc = [] then [] else [concat (rev acc) @ concat us])"
  by (induction us arbitrary: acc) auto

lemma ascii_not_whitespace: "byte c > 32 \<Longrightarrow> is_whitespace [c] = False"
  by (auto simp: is_whitespace_def)

lemma split_whitespace_plain:
  assumes "s \<noteq> []" "list_all (\<lambda>c. is_ascii c \<and> byte c > 32) s"
  shows "split_whitespace s = [s]"
proof -
  have a: "list_all is_ascii s" using assms(2) by (simp add: list_all_iff)
  have "list_all (\<lambda>u. \<not> is_whitespace u) (map (\<lambda>c. [c]) s)"
    using assms(2) by (auto simp: list_all_iff ascii_not_whitespace)
  then show ?thesis
    using assms(1) by (simp add: split_whitespace_def utf8_chars_ascii [OF a] words_of_plain)
qed

lemma lines_single: "s \<noteq> [] \<Longrightarrow> CHR 0x0A \<notin> set s \<Longrightarrow> lines s = [s]"
  by (simp add: lines_def Let_def split_on_no_sep)

lemma strip_cr_subset: "set (strip_cr s) \<subseteq> set s"
proof (cases "rev s")
  case (Cons c r)
  then have "s = rev r @ [c]" by (metis rev.simps(2) rev_rev_ident)
  then show ?thesis using Cons by (auto simp: strip_cr_def)
qed (simp add: strip_cr_def)

lemma lines_no_newline: "l \<in> set (lines s) \<Longrightarrow> CHR 0x0A \<notin> set l"
proof -
  assume l: "l \<in> set (lines s)"
  let ?ps = "split_on CHR 0x0A s"
  have "\<exists>p \<in> set ?ps. set l \<subseteq> set p"
  proof (cases "l \<in> set (map strip_cr (butlast ?ps))")
    case True
    then obtain p where "p \<in> set (butlast ?ps)" "l = strip_cr p" by auto
    then show ?thesis using strip_cr_subset [of p] in_set_butlastD [of p ?ps] by auto
  next
    case False
    with l have "l = last ?ps" by (simp add: lines_def Let_def split: if_splits)
    then show ?thesis using last_in_set [of ?ps] by auto
  qed
  then show ?thesis using split_on_parts by fastforce
qed

section \<open>Numbers as text\<close>

text \<open>Decimal rendering (\<open>format!("{n}")\<close>) and the integer parsers of the standard library.\<close>

definition digit_char :: "nat \<Rightarrow> char" where
  "digit_char d = char_of (48 + d)"

fun show_nat :: "nat \<Rightarrow> string" where
  "show_nat n = (if n < 10 then [digit_char n] else show_nat (n div 10) @ [digit_char (n mod 10)])"

declare show_nat.simps [simp del]

definition show_int :: "int \<Rightarrow> string" where
  "show_int i = (if i < 0 then CHR ''-'' # show_nat (nat (- i)) else show_nat (nat i))"

definition all_digits :: "string \<Rightarrow> bool" where
  "all_digits s \<longleftrightarrow> list_all is_ascii_digit s"

definition digits_value :: "string \<Rightarrow> nat" where
  "digits_value s = foldl (\<lambda>n c. 10 * n + (byte c - 48)) 0 s"

text \<open>\<open>str::parse\<close> of an unsigned type bounded by \<open>limit\<close>: an optional \<open>+\<close>, then digits.\<close>

definition parse_unsigned :: "nat \<Rightarrow> string \<Rightarrow> nat option" where
  "parse_unsigned limit s =
     (let ds = (case s of c # cs \<Rightarrow> if c = CHR ''+'' then cs else s | [] \<Rightarrow> s)
      in if ds \<noteq> [] \<and> all_digits ds \<and> digits_value ds < limit then Some (digits_value ds) else None)"

definition parse_i64 :: "string \<Rightarrow> int option" where
  "parse_i64 s =
     (case s of
        c # cs \<Rightarrow>
          if c = CHR ''-''
          then (if cs \<noteq> [] \<and> all_digits cs \<and> digits_value cs \<le> i64_limit
                then Some (- int (digits_value cs)) else None)
          else map_option int (parse_unsigned i64_limit s)
      | [] \<Rightarrow> None)"

lemma byte_digit_char [simp]: "d < 10 \<Longrightarrow> byte (digit_char d) = 48 + d"
  by (simp add: byte_def digit_char_def)

lemma is_ascii_digit_digit_char [simp]: "d < 10 \<Longrightarrow> is_ascii_digit (digit_char d)"
  by (simp add: is_ascii_digit_def)

lemma show_nat_nonempty [simp]: "show_nat n \<noteq> []"
  by (subst show_nat.simps) simp

lemma show_nat_Suc_length: "n < 10 ^ k \<Longrightarrow> 0 < k \<Longrightarrow> length (show_nat n) \<le> k"
proof (induction k arbitrary: n)
  case (Suc k)
  show ?case
  proof (cases "n < 10")
    case False
    then have "0 < k" using Suc.prems(1) by (cases k) auto
    moreover have "n div 10 < 10 ^ k" using Suc.prems(1) by (simp add: less_mult_imp_div_less)
    ultimately show ?thesis using Suc.IH [of "n div 10"] False by (subst show_nat.simps) simp
  qed (simp add: show_nat.simps)
qed simp

lemma all_digits_show_nat [simp]: "all_digits (show_nat n)"
proof (induction n rule: show_nat.induct)
  case (1 n)
  then show ?case by (subst show_nat.simps) (auto simp: all_digits_def)
qed

lemma digits_value_show_nat [simp]: "digits_value (show_nat n) = n"
proof (induction n rule: show_nat.induct)
  case (1 n)
  show ?case
  proof (cases "n < 10")
    case True
    then show ?thesis by (subst show_nat.simps) (simp add: digits_value_def)
  next
    case False
    with 1 have "digits_value (show_nat (n div 10)) = n div 10" by simp
    with False show ?thesis
      by (subst show_nat.simps) (simp add: digits_value_def)
  qed
qed

lemma hd_show_nat: "is_ascii_digit (hd (show_nat n))"
  using all_digits_show_nat [of n] show_nat_nonempty [of n]
  by (cases "show_nat n") (auto simp: all_digits_def)

lemma parse_unsigned_show_nat [simp]:
  "parse_unsigned limit (show_nat n) = (if n < limit then Some n else None)"
proof (cases "show_nat n")
  case Nil
  then show ?thesis by simp
next
  case (Cons c cs)
  have "is_ascii_digit c" using hd_show_nat [of n] Cons by simp
  then have "c \<noteq> CHR ''+''" by (auto simp: is_ascii_digit_def byte_def)
  with Cons show ?thesis
    using all_digits_show_nat [of n] digits_value_show_nat [of n]
    by (simp add: parse_unsigned_def Let_def)
qed

lemma show_nat_inject [simp]: "show_nat m = show_nat n \<longleftrightarrow> m = n"
  by (metis digits_value_show_nat)

end
