(* ===== verification/Json.thy ===== *)
theory Json
  imports Prelude
begin

text \<open>
  JSON documents as the control plane holds them: \<open>serde_json::Value\<close> in the configuration the
  workspace selects (\<open>rust/Cargo.toml\<close>), where an object keeps its members in insertion order
  (\<open>preserve_order\<close>) and a number keeps its exact text (\<open>arbitrary_precision\<close>). The accessors
  and updates below are the ones the core uses. Equality of two values ignores the order of
  members, as the equality of the underlying index map does.
\<close>

named_theorems json_simps "accessors of JSON values"

datatype json =
    JNull
  | JBool bool
  | JNum string
  | JStr string
  | JArr "json list"
  | JObj "(string \<times> json) list"

type_synonym jobject = "(string \<times> json) list"

section \<open>Objects\<close>

text \<open>\<open>Map::insert\<close>: an existing key keeps its place, a new one goes to the end.\<close>

fun obj_insert :: "string \<Rightarrow> json \<Rightarrow> jobject \<Rightarrow> jobject" where
  "obj_insert k v [] = [(k, v)]"
| "obj_insert k v ((a, w) # m) = (if a = k then (a, v) # m else (a, w) # obj_insert k v m)"

text \<open>\<open>Map::extend\<close> inserts the members of the second map in their order.\<close>

definition obj_extend :: "jobject \<Rightarrow> jobject \<Rightarrow> jobject" where
  "obj_extend m n = fold (\<lambda>(k, v). obj_insert k v) n m"

text \<open>\<open>Map::shift_remove\<close> keeps the order of the other members.\<close>

definition obj_remove :: "string \<Rightarrow> jobject \<Rightarrow> jobject" where
  "obj_remove k m = filter (\<lambda>(a, _). a \<noteq> k) m"

abbreviation obj_get :: "jobject \<Rightarrow> string \<Rightarrow> json option" where
  "obj_get m k \<equiv> map_of m k"

abbreviation obj_keys :: "jobject \<Rightarrow> string list" where
  "obj_keys m \<equiv> map fst m"

definition obj_has :: "jobject \<Rightarrow> string \<Rightarrow> bool" where
  "obj_has m k \<longleftrightarrow> obj_get m k \<noteq> None"

lemma obj_get_insert [simp]:
  "obj_get (obj_insert k v m) k' = (if k' = k then Some v else obj_get m k')"
  by (induction k v m rule: obj_insert.induct) auto

lemma obj_keys_insert: "fst ` set (obj_insert k v m) = insert k (fst ` set m)"
  by (induction k v m rule: obj_insert.induct) auto

lemma distinct_obj_insert: "distinct (obj_keys m) \<Longrightarrow> distinct (obj_keys (obj_insert k v m))"
proof (induction k v m rule: obj_insert.induct)
  case (2 k v a w m)
  have "a \<notin> fst ` set m" using 2 by simp
  then have "a \<notin> fst ` set (obj_insert k v m)" if "a \<noteq> k"
    using that by (simp only: obj_keys_insert) simp
  with 2 show ?case by auto
qed simp

lemma obj_get_remove [simp]:
  "obj_get (obj_remove k m) k' = (if k' = k then None else obj_get m k')"
  by (induction m) (auto simp: obj_remove_def)

lemma distinct_obj_remove: "distinct (obj_keys m) \<Longrightarrow> distinct (obj_keys (obj_remove k m))"
  by (induction m) (auto simp: obj_remove_def)

lemma obj_extend_Nil [simp]: "obj_extend m [] = m"
  by (simp add: obj_extend_def)

lemma obj_extend_Cons [simp]: "obj_extend m ((k, v) # n) = obj_extend (obj_insert k v m) n"
  by (simp add: obj_extend_def)

lemma obj_get_extend_notin: "k \<notin> set (obj_keys n) \<Longrightarrow> obj_get (obj_extend m n) k = obj_get m k"
  by (induction n arbitrary: m) auto

lemma obj_get_extend:
  "distinct (obj_keys n) \<Longrightarrow>
   obj_get (obj_extend m n) k = (case obj_get n k of Some v \<Rightarrow> Some v | None \<Rightarrow> obj_get m k)"
proof (induction n arbitrary: m)
  case Nil
  then show ?case by simp
next
  case (Cons p n)
  obtain a w where p: "p = (a, w)" by (cases p)
  have "obj_get (obj_extend m (p # n)) k
      = (case obj_get n k of Some v \<Rightarrow> Some v | None \<Rightarrow> obj_get (obj_insert a w m) k)"
    using Cons p by simp
  moreover have "obj_get n a = None" using Cons.prems p by (simp add: map_of_eq_None_iff)
  ultimately show ?case using p by (auto split: option.splits)
qed

lemma distinct_obj_extend: "distinct (obj_keys m) \<Longrightarrow> distinct (obj_keys (obj_extend m n))"
  by (induction n arbitrary: m) (auto simp: distinct_obj_insert)

section \<open>Accessors\<close>

fun as_object :: "json \<Rightarrow> jobject option" where
  "as_object (JObj m) = Some m"
| "as_object _ = None"

fun as_array :: "json \<Rightarrow> json list option" where
  "as_array (JArr xs) = Some xs"
| "as_array _ = None"

fun as_str :: "json \<Rightarrow> string option" where
  "as_str (JStr s) = Some s"
| "as_str _ = None"

fun as_bool :: "json \<Rightarrow> bool option" where
  "as_bool (JBool b) = Some b"
| "as_bool _ = None"

text \<open>A number is read by parsing its text at the requested type.\<close>

fun as_u64 :: "json \<Rightarrow> nat option" where
  "as_u64 (JNum t) = parse_unsigned u64_limit t"
| "as_u64 _ = None"

fun as_i64 :: "json \<Rightarrow> int option" where
  "as_i64 (JNum t) = parse_i64 t"
| "as_i64 _ = None"

definition is_object :: "json \<Rightarrow> bool" where "is_object v \<longleftrightarrow> as_object v \<noteq> None"
definition is_array :: "json \<Rightarrow> bool" where "is_array v \<longleftrightarrow> as_array v \<noteq> None"
definition is_null :: "json \<Rightarrow> bool" where "is_null v \<longleftrightarrow> v = JNull"

text \<open>\<open>v.get("k")\<close>, and \<open>v["k"]\<close>, which is \<open>Null\<close> where the key is missing.\<close>

definition jget :: "json \<Rightarrow> string \<Rightarrow> json option" where
  "jget v k = (case v of JObj m \<Rightarrow> obj_get m k | _ \<Rightarrow> None)"

definition jidx :: "json \<Rightarrow> string \<Rightarrow> json" where
  "jidx v k = (case jget v k of Some w \<Rightarrow> w | None \<Rightarrow> JNull)"

definition jget_str :: "json \<Rightarrow> string \<Rightarrow> string option" where
  "jget_str v k = Option.bind (jget v k) as_str"

definition jstr_or_null :: "string option \<Rightarrow> json" where
  "jstr_or_null x = (case x of Some s \<Rightarrow> JStr s | None \<Rightarrow> JNull)"

text \<open>\<open>json!(n)\<close> for the integer types.\<close>

definition jnat :: "nat \<Rightarrow> json" where "jnat n = JNum (show_nat n)"
definition jint :: "int \<Rightarrow> json" where "jint i = JNum (show_int i)"

lemma as_object_eq_Some [simp]: "as_object v = Some m \<longleftrightarrow> v = JObj m" by (cases v) auto
lemma as_array_eq_Some [simp]: "as_array v = Some xs \<longleftrightarrow> v = JArr xs" by (cases v) auto
lemma as_str_eq_Some [simp]: "as_str v = Some s \<longleftrightarrow> v = JStr s" by (cases v) auto
lemma as_bool_eq_Some [simp]: "as_bool v = Some b \<longleftrightarrow> v = JBool b" by (cases v) auto

lemma jget_JObj [simp]: "jget (JObj m) k = obj_get m k" by (simp add: jget_def)
lemma jidx_JObj: "jidx (JObj m) k = (case obj_get m k of Some w \<Rightarrow> w | None \<Rightarrow> JNull)"
  by (simp add: jidx_def)

lemma jget_eq_Some: "jget v k = Some w \<longleftrightarrow> (\<exists>m. v = JObj m \<and> obj_get m k = Some w)"
  by (cases v) (auto simp: jget_def)

lemma jget_str_eq_Some [json_simps]: "jget_str v k = Some s \<longleftrightarrow> jget v k = Some (JStr s)"
  by (cases "jget v k") (auto simp: jget_str_def)

lemma jget_str_of_Some: "jget v k = Some (JStr s) \<Longrightarrow> jget_str v k = Some s"
  by (simp add: json_simps)

lemma as_u64_jnat [simp]: "as_u64 (jnat n) = (if n < u64_limit then Some n else None)"
  by (simp add: jnat_def)

lemma parse_i64_show_nat: "parse_i64 (show_nat n) = (if n < i64_limit then Some (int n) else None)"
proof (cases "show_nat n")
  case Nil
  then show ?thesis by simp
next
  case (Cons c cs)
  have "is_ascii_digit c" using hd_show_nat [of n] Cons by simp
  then have "c \<noteq> CHR ''-''" by (auto simp: is_ascii_digit_def byte_def)
  then have "parse_i64 (show_nat n) = map_option int (parse_unsigned i64_limit (show_nat n))"
    using Cons by (simp add: parse_i64_def)
  then show ?thesis by simp
qed

lemma as_i64_jint [simp]:
  "- int i64_limit \<le> i \<Longrightarrow> i < int i64_limit \<Longrightarrow> as_i64 (jint i) = Some i"
proof (cases "i < 0")
  case True
  assume "- int i64_limit \<le> i" "i < int i64_limit"
  with True show ?thesis by (simp add: jint_def show_int_def parse_i64_def nat_le_iff)
next
  case False
  assume "- int i64_limit \<le> i" "i < int i64_limit"
  with False show ?thesis by (simp add: jint_def show_int_def parse_i64_show_nat nat_less_iff)
qed

section \<open>Equality and well-formedness\<close>

text \<open>\<open>==\<close> on values: members in any order, everything else as written.\<close>

fun jeq :: "json \<Rightarrow> json \<Rightarrow> bool"
and jeq_list :: "json list \<Rightarrow> json list \<Rightarrow> bool"
and jeq_members :: "jobject \<Rightarrow> jobject \<Rightarrow> bool"
where
  "jeq (JArr xs) w = (case w of JArr ys \<Rightarrow> jeq_list xs ys | _ \<Rightarrow> False)"
| "jeq (JObj m) w = (case w of JObj n \<Rightarrow> length m = length n \<and> jeq_members m n | _ \<Rightarrow> False)"
| "jeq JNull w = (w = JNull)"
| "jeq (JBool b) w = (w = JBool b)"
| "jeq (JNum t) w = (w = JNum t)"
| "jeq (JStr s) w = (w = JStr s)"
| "jeq_list [] ys = (ys = [])"
| "jeq_list (x # xs) ys = (case ys of [] \<Rightarrow> False | y # ys' \<Rightarrow> jeq x y \<and> jeq_list xs ys')"
| "jeq_members [] n = True"
| "jeq_members ((k, v) # m) n =
     ((case obj_get n k of Some u \<Rightarrow> jeq v u | None \<Rightarrow> False) \<and> jeq_members m n)"

definition opt_jeq :: "json option \<Rightarrow> json option \<Rightarrow> bool" where
  "opt_jeq a b = (case (a, b) of (None, None) \<Rightarrow> True | (Some x, Some y) \<Rightarrow> jeq x y | _ \<Rightarrow> False)"

text \<open>Every object of a document has distinct keys: the invariant of the map type.\<close>

fun wf_json :: "json \<Rightarrow> bool" where
  "wf_json (JArr xs) = list_all wf_json xs"
| "wf_json (JObj m) = (distinct (obj_keys m) \<and> list_all (\<lambda>(_, v). wf_json v) m)"
| "wf_json _ = True"

lemma wf_json_get: "wf_json (JObj m) \<Longrightarrow> obj_get m k = Some v \<Longrightarrow> wf_json v"
  by (auto simp: list_all_iff dest!: map_of_SomeD)

lemma wf_json_obj_insert:
  "wf_json (JObj m) \<Longrightarrow> wf_json v \<Longrightarrow> wf_json (JObj (obj_insert k v m))"
proof -
  assume m: "wf_json (JObj m)" and v: "wf_json v"
  have "list_all (\<lambda>(_, v). wf_json v) (obj_insert k v m)"
    using m v by (induction k v m rule: obj_insert.induct) (auto split: if_splits)
  with m show ?thesis by (simp add: distinct_obj_insert)
qed

lemma jeq_members_mono:
  "jeq_members m n \<longleftrightarrow> (\<forall>(k, v) \<in> set m. \<exists>u. obj_get n k = Some u \<and> jeq v u)"
  by (induction m) (auto split: option.splits)

lemma jeq_refl_members:
  "(\<And>k v. (k, v) \<in> set m \<Longrightarrow> jeq v v) \<Longrightarrow> distinct (obj_keys n) \<Longrightarrow> set m \<subseteq> set n \<Longrightarrow>
   jeq_members m n"
  by (auto simp: jeq_members_mono)

lemma jeq_refl: "wf_json v \<Longrightarrow> jeq v v"
proof (induction v)
  case (JArr xs)
  have "list_all wf_json ys \<Longrightarrow> set ys \<subseteq> set xs \<Longrightarrow> jeq_list ys ys" for ys
    by (induction ys) (auto intro: JArr.IH)
  with JArr.prems show ?case by simp
next
  case (JObj m)
  have "jeq v v" if "(k, v) \<in> set m" for k v
  proof (rule JObj.IH [OF that])
    show "v \<in> Basic_BNFs.snds (k, v)" by simp
    show "wf_json v" using JObj.prems that by (auto simp: list_all_iff)
  qed
  with JObj.prems show ?case by (auto intro!: jeq_refl_members)
qed auto

end
