(* ===== verification/Identity.thy ===== *)
theory Identity
  imports Json
begin

text \<open>
  Resource identities and bearer tokens: \<open>rust/crates/core/src/identity.rs\<close> and
  \<open>rust/crates/core/src/auth.rs\<close>. Identities name directories and database keys, so what a
  validator accepts is what can reach a path.
\<close>

datatype identity_error = IdentityError string

section \<open>Validators\<close>

definition id_byte :: "char \<Rightarrow> bool" where
  "id_byte c \<longleftrightarrow> is_ascii_alphanumeric c \<or> c \<in> set ''._-''"

definition validate_id :: "string \<Rightarrow> identity_error + string" where
  "validate_id value =
     (if length value > 128
         \<or> \<not> (case value of [] \<Rightarrow> False | c # _ \<Rightarrow> is_ascii_alphanumeric c)
         \<or> \<not> list_all id_byte value
      then Inl (IdentityError ''resource'') else Inr value)"

definition validate_attempt :: "string \<Rightarrow> identity_error + string" where
  "validate_attempt value =
     and_then (ok_or (strip_prefix ''attempt-'' value) (IdentityError ''attempt''))
       (\<lambda>suffix. if length suffix < 3 \<or> \<not> list_all is_ascii_digit suffix
                 then Inl (IdentityError ''attempt'') else Inr value)"

definition validate_observation_id :: "string \<Rightarrow> identity_error + string" where
  "validate_observation_id value =
     (if is_ok (validate_id value)
         \<or> list_ex (\<lambda>suffix. case strip_suffix suffix value of
               Some parent \<Rightarrow> is_ok (validate_id parent) | None \<Rightarrow> False)
             [''--preparation'', ''--backfill'']
      then Inr value else Inl (IdentityError ''observation''))"

definition lower_hex_token :: "nat \<Rightarrow> string \<Rightarrow> bool" where
  "lower_hex_token n s \<longleftrightarrow> length s = n \<and> list_all is_lower_hex s"

definition submission_marker :: "string \<Rightarrow> identity_error + string" where
  "submission_marker token =
     (if length token \<noteq> 32 \<or> \<not> list_all is_lower_hex token
      then Inl (IdentityError ''submission token'') else Inr (''ml-exp-'' @ token))"

definition validate_bearer :: "string \<Rightarrow> nat \<Rightarrow> nat \<Rightarrow> string + unit" where
  "validate_bearer token minimum maximum =
     (if length token < minimum \<or> length token > maximum
         \<or> \<not> list_all (\<lambda>c. 33 \<le> byte c \<and> byte c \<le> 126) token
      then Inl ''invalid bearer token length or characters'' else Inr ())"

section \<open>What the validators accept\<close>

lemma validate_id_eq_Inr:
  "validate_id v = Inr w \<longleftrightarrow>
     w = v \<and> v \<noteq> [] \<and> length v \<le> 128 \<and> is_ascii_alphanumeric (hd v) \<and> list_all id_byte v"
  by (cases v) (auto simp: validate_id_def)

lemma is_ok_validate_id:
  "is_ok (validate_id v) \<longleftrightarrow>
     v \<noteq> [] \<and> length v \<le> 128 \<and> is_ascii_alphanumeric (hd v) \<and> list_all id_byte v"
  by (auto simp: is_ok_iff validate_id_eq_Inr)

lemma validate_attempt_eq_Inr:
  "validate_attempt v = Inr w \<longleftrightarrow>
     w = v \<and> (\<exists>ds. v = ''attempt-'' @ ds \<and> 3 \<le> length ds \<and> list_all is_ascii_digit ds)"
  by (auto simp: validate_attempt_def res_simps not_less split: if_splits)

lemma submission_marker_eq_Inr:
  "submission_marker t = Inr m \<longleftrightarrow> lower_hex_token 32 t \<and> m = ''ml-exp-'' @ t"
  by (auto simp: submission_marker_def lower_hex_token_def)

text \<open>A string that can stand as one component of a POSIX path.\<close>

definition path_component :: "string \<Rightarrow> bool" where
  "path_component s \<longleftrightarrow> s \<notin> {[], ''.'', ''..''} \<and> CHR ''/'' \<notin> set s \<and> NUL \<notin> set s"

lemma id_byte_not_special: "id_byte c \<Longrightarrow> c \<notin> {CHR ''/'', NUL, CHR 0x5C, CHR 0x0A, CHR '':''}"
  by (auto simp: id_byte_def str_simps)

lemma id_byte_ascii: "id_byte c \<Longrightarrow> is_ascii c"
  by (auto simp: id_byte_def str_simps)

lemma id_path_component:
  assumes "list_all id_byte v" and "v \<noteq> []" and "is_ascii_alphanumeric (hd v)"
  shows "path_component v"
proof -
  have "hd v \<noteq> CHR ''.''" using assms(3) by (auto simp: str_simps)
  then have "v \<notin> {[], ''.'', ''..''}" using assms(2) by auto
  moreover have "CHR ''/'' \<notin> set v" "NUL \<notin> set v"
    using assms(1) id_byte_not_special by (auto simp: list_all_iff)
  ultimately show ?thesis by (simp add: path_component_def)
qed

lemma attempt_suffix_id_bytes:
  "list_all is_ascii_digit ds \<Longrightarrow> list_all id_byte (''attempt-'' @ ds)"
  by (simp add: id_byte_def str_simps list_all_iff)

lemma observation_id_id_bytes:
  assumes "validate_observation_id v = Inr w"
  shows "list_all id_byte v \<and> v \<noteq> [] \<and> is_ascii_alphanumeric (hd v) \<and> length v \<le> 141"
proof (cases "is_ok (validate_id v)")
  case True
  then show ?thesis by (auto simp: is_ok_validate_id)
next
  case False
  then obtain p s where s: "s \<in> {''--preparation'', ''--backfill''}" "v = p @ s"
      and p: "is_ok (validate_id p)"
    using assms by (auto simp: validate_observation_id_def split: if_splits option.splits)
  have "list_all id_byte s" "length s \<le> 13"
    using s(1) by (auto simp: id_byte_def str_simps)
  with s p show ?thesis by (auto simp: is_ok_validate_id)
qed

text \<open>Every identity the daemon accepts as a resource, Attempt or observation name is a single
  path component: it is not empty, not a dot name, and holds no separator and no NUL, so joining it
  to a directory stays inside that directory.\<close>

theorem accepted_ids_are_path_components:
  "(validate_id v = Inr w \<longrightarrow> path_component w \<and> length w \<le> 128) \<and>
   (validate_attempt v = Inr w \<longrightarrow> path_component w) \<and>
   (validate_observation_id v = Inr w \<longrightarrow> path_component w \<and> length w \<le> 141)"
proof (intro conjI impI)
  assume "validate_id v = Inr w"
  then show "path_component w" "length w \<le> 128"
    by (auto simp: validate_id_eq_Inr intro: id_path_component)
next
  assume "validate_attempt v = Inr w"
  then obtain ds where "w = ''attempt-'' @ ds" "list_all is_ascii_digit ds"
    by (auto simp: validate_attempt_eq_Inr)
  moreover from this have "list_all id_byte w" using attempt_suffix_id_bytes by simp
  ultimately show "path_component w"
    by (intro id_path_component) (simp_all add: str_simps)
next
  assume obs: "validate_observation_id v = Inr w"
  then have "w = v" by (auto simp: validate_observation_id_def split: if_splits)
  with observation_id_id_bytes [OF obs] show "path_component w" "length w \<le> 141"
    by (auto intro: id_path_component)
qed

theorem accepted_ids_are_path_components_witness:
  "path_component ''train--preparation'' \<and> path_component ''attempt-001''"
proof -
  have "validate_observation_id ''train--preparation'' = Inr ''train--preparation''"
    "validate_attempt ''attempt-001'' = Inr ''attempt-001''" by code_simp+
  then show ?thesis
    using accepted_ids_are_path_components by blast
qed

end
