(* ===== verification/RunState.thy ===== *)
theory RunState
  imports Prelude
begin

text \<open>
  The state of an Attempt and the transitions an observation may cause
  (\<open>rust/crates/core/src/state.rs\<close>).
\<close>

datatype run_state =
    NotSubmitted | Created | Submitting | Queued | Starting | Running | Evaluating
  | Succeeded | Failed | Preempted | Cancelled | Unknown

datatype failure_class =
    FNone | FTransport | FScheduler | FPreemption | FResource | FConfiguration | FModel
  | FEvaluation | FUnknown

datatype invalid_transition = InvalidTransition (from_state: run_state) (to_state: run_state)

definition is_terminal :: "run_state \<Rightarrow> bool" where
  "is_terminal s \<longleftrightarrow> s \<in> {Succeeded, Failed, Preempted, Cancelled}"

definition allows :: "run_state \<Rightarrow> run_state \<Rightarrow> bool" where
  "allows s next =
     (if is_terminal s then s = next
      else (case s of
         NotSubmitted \<Rightarrow> next = Created
       | Created \<Rightarrow> next \<noteq> NotSubmitted
       | Unknown \<Rightarrow> next \<noteq> NotSubmitted
       | Submitting \<Rightarrow> next \<notin> {NotSubmitted, Created}
       | Queued \<Rightarrow> next \<notin> {NotSubmitted, Created, Submitting}
       | Starting \<Rightarrow> next \<notin> {NotSubmitted, Created, Submitting}
       | Running \<Rightarrow> next \<notin> {NotSubmitted, Created, Submitting, Starting}
       | Evaluating \<Rightarrow> is_terminal next \<or> next \<in> {Evaluating, Unknown}
       | _ \<Rightarrow> False))"

definition transition :: "run_state \<Rightarrow> run_state \<Rightarrow> invalid_transition + run_state" where
  "transition current observed =
     (if allows current observed then Inr observed else Inl (InvalidTransition current observed))"

section \<open>The machine of a whole Attempt\<close>

text \<open>Callers keep the state they had when the reducer refuses an observation.\<close>

definition observe :: "run_state \<Rightarrow> run_state \<Rightarrow> run_state" where
  "observe s obs = (case transition s obs of Inr t \<Rightarrow> t | Inl _ \<Rightarrow> s)"

definition observe_all :: "run_state \<Rightarrow> run_state list \<Rightarrow> run_state" where
  "observe_all = foldl observe"

inductive attempt_step :: "run_state \<Rightarrow> run_state \<Rightarrow> bool" where
  accept: "transition s obs = Inr t \<Longrightarrow> attempt_step s t"

inductive_cases attempt_stepE: "attempt_step s t"

inductive_simps attempt_step_iff: "attempt_step s t"

lemma attempt_step_allows: "attempt_step s t \<longleftrightarrow> allows s t"
  by (auto simp: attempt_step_iff transition_def)

lemma allows_terminal: "is_terminal s \<Longrightarrow> allows s t \<longleftrightarrow> t = s"
  by (auto simp: allows_def)

lemma allows_never_NotSubmitted: "\<not> allows s NotSubmitted"
  by (cases s) (simp_all add: allows_def is_terminal_def)

lemma allows_via_unknown:
  "\<not> is_terminal s \<Longrightarrow> s \<noteq> NotSubmitted \<Longrightarrow> allows s Unknown"
  by (cases s) (simp_all add: allows_def is_terminal_def)

lemma unknown_allows: "t \<noteq> NotSubmitted \<Longrightarrow> allows Unknown t"
  by (simp add: allows_def is_terminal_def)

lemma reach_shape: "attempt_step\<^sup>*\<^sup>* s t \<Longrightarrow> s = t \<or> (\<not> is_terminal s \<and> t \<noteq> NotSubmitted)"
proof (induction rule: rtranclp_induct)
  case base
  then show ?case by simp
next
  case (step t u)
  then have "allows t u" by (simp add: attempt_step_allows)
  then have "u \<noteq> NotSubmitted" using allows_never_NotSubmitted by blast
  with step \<open>allows t u\<close> show ?case by (auto simp: allows_terminal)
qed

text \<open>C31. The accepted transitions reach, from any state, exactly that state itself and, from a
  state that is not terminal, every state but NOT\_SUBMITTED. So no sequence of observations leaves
  a terminal state or returns an Attempt to NOT\_SUBMITTED, and no other state is a dead end.\<close>

theorem attempt_reachability:
  "attempt_step\<^sup>*\<^sup>* s t \<longleftrightarrow> s = t \<or> (\<not> is_terminal s \<and> t \<noteq> NotSubmitted)"
proof
  assume "s = t \<or> (\<not> is_terminal s \<and> t \<noteq> NotSubmitted)"
  then consider "s = t" | "\<not> is_terminal s" "t \<noteq> NotSubmitted" by blast
  then show "attempt_step\<^sup>*\<^sup>* s t"
  proof cases
    case 1
    then show ?thesis by simp
  next
    case 2
    have unk: "attempt_step\<^sup>*\<^sup>* Unknown t"
      using unknown_allows [OF 2(2)] by (auto simp: attempt_step_allows)
    have "attempt_step\<^sup>*\<^sup>* Created Unknown"
      by (rule r_into_rtranclp) (simp add: attempt_step_allows allows_def is_terminal_def)
    moreover have "attempt_step NotSubmitted Created"
      by (simp add: attempt_step_allows allows_def is_terminal_def)
    ultimately have "attempt_step\<^sup>*\<^sup>* s Unknown"
      using 2(1) allows_via_unknown [of s]
      by (cases "s = NotSubmitted")
        (auto simp: attempt_step_allows intro: converse_rtranclp_into_rtranclp)
    with unk show ?thesis by (rule rtranclp_trans [rotated])
  qed
qed (rule reach_shape)

lemma observe_all_reach: "attempt_step\<^sup>*\<^sup>* s (observe_all s obs)"
proof (induction obs arbitrary: s)
  case Nil
  then show ?case by (simp add: observe_all_def)
next
  case (Cons x xs)
  have "attempt_step\<^sup>*\<^sup>* s (observe s x)"
    by (auto simp: observe_def split: sum.splits intro: accept)
  with Cons [of "observe s x"] show ?case by (simp add: observe_all_def)
qed

theorem attempt_reachability_witness:
  "attempt_step\<^sup>*\<^sup>* NotSubmitted Succeeded \<and> \<not> attempt_step\<^sup>*\<^sup>* Succeeded Running"
  using attempt_reachability [of NotSubmitted Succeeded] attempt_reachability [of Succeeded Running]
  by (simp add: is_terminal_def)

end
