(* ===== verification/Upload.thy ===== *)
theory Upload
  imports Prelude
begin

text \<open>
  Part arithmetic of resumable uploads (\<open>rust/crates/core/src/multipart.rs\<close>) and the pacing of
  repeatable calls (\<open>rust/crates/core/src/retry.rs\<close>), on 64-bit words as the code has them.
\<close>

section \<open>Parts\<close>

datatype multipart_error = Limit | PartNumber

definition PART_BYTES :: u64 where "PART_BYTES = 16 * 1024 * 1024"
definition MAX_PARTS :: u64 where "MAX_PARTS = 65536"

text \<open>\<open>u64::div_ceil\<close> of the standard library.\<close>

definition div_ceil :: "u64 \<Rightarrow> u64 \<Rightarrow> u64" where
  "div_ceil a b = (if a mod b > 0 then a div b + 1 else a div b)"

definition part_count :: "u64 \<Rightarrow> multipart_error + u64" where
  "part_count sz =
     (if sz = 0 then Inl Limit
      else let count = div_ceil sz PART_BYTES
           in if count > MAX_PARTS then Inl Limit else Inr count)"

definition part_size :: "u64 \<Rightarrow> u64 \<Rightarrow> multipart_error + u64" where
  "part_size sz number =
     and_then (part_count sz)
       (\<lambda>count. if number \<ge> count then Inl PartNumber
                else Inr (min PART_BYTES (sz - number * PART_BYTES)))"

record part_record =
  part_sha256 :: string
  part_bytes :: u64

lemma unat_PART_BYTES: "unat PART_BYTES = 16777216"
  by (simp add: PART_BYTES_def)

lemma unat_MAX_PARTS: "unat MAX_PARTS = 65536"
  by (simp add: MAX_PARTS_def)

lemma unat_div_ceil:
  assumes "1 < unat b"
  shows "unat (div_ceil a b) = (unat a + unat b - 1) div unat b"
proof -
  let ?a = "unat a" and ?b = "unat b"
  have lt: "?a < 2 ^ 64" using unsigned_less [of a, where 'a = nat] by simp
  have "?a div ?b < ?a \<or> ?a = 0" using assms by (cases "?a = 0") (auto intro: div_less_dividend)
  then have no_wrap: "?a div ?b + 1 < 2 ^ 64" using lt by auto
  have ceil: "(?a + ?b - 1) div ?b = (if ?a mod ?b > 0 then ?a div ?b + 1 else ?a div ?b)"
  proof -
    have "?a + ?b - 1 = ?b * (?a div ?b) + (?a mod ?b + ?b - 1)"
      using assms by simp
    then have "(?a + ?b - 1) div ?b = ?a div ?b + (?a mod ?b + ?b - 1) div ?b"
      using assms by (metis div_mult_self4 less_numeral_extra(1) linorder_not_less add.commute
          le_zero_eq less_trans)
    moreover have "(?a mod ?b + ?b - 1) div ?b = (if ?a mod ?b > 0 then 1 else 0)"
    proof (cases "?a mod ?b = 0")
      case True
      with assms show ?thesis by simp
    next
      case False
      have "?a mod ?b < ?b" using assms by simp
      then have "(?a mod ?b - 1) div ?b = 0" by (intro div_less) linarith
      moreover have "(?b + (?a mod ?b - 1)) div ?b = 1 + (?a mod ?b - 1) div ?b"
        using assms by (subst div_add_self1) simp_all
      moreover have "?a mod ?b + ?b - 1 = ?b + (?a mod ?b - 1)" using False by linarith
      ultimately have "(?a mod ?b + ?b - 1) div ?b = 1" by (metis add.right_neutral)
      then show ?thesis using False by simp
    qed
    ultimately show ?thesis by simp
  qed
  have "a mod b > 0 \<longleftrightarrow> ?a mod ?b > 0"
    by (simp add: word_less_nat_alt unat_mod)
  then show ?thesis
    unfolding div_ceil_def ceil using no_wrap by (simp add: unat_div unat_word_ariths)
qed

lemma part_count_eq_Inr:
  "part_count sz = Inr c \<longleftrightarrow>
     sz \<noteq> 0 \<and> c = div_ceil sz PART_BYTES \<and> unat c \<le> 65536"
  by (auto simp: part_count_def Let_def word_le_nat_alt word_less_nat_alt unat_MAX_PARTS not_less)

lemma part_count_value:
  assumes "part_count sz = Inr c"
  shows "0 < unat sz" and "unat c = (unat sz + 16777215) div 16777216" and "unat c \<le> 65536"
  using assms by (auto simp: part_count_eq_Inr unat_div_ceil unat_PART_BYTES unat_gt_0)

lemma part_size_value:
  assumes c: "part_count sz = Inr c" and n: "unat number < unat c"
  shows "\<exists>b. part_size sz number = Inr b \<and>
    unat b = min 16777216 (unat sz - unat number * 16777216)"
proof -
  let ?off = "unat number * 16777216"
  have le: "?off < unat sz"
    using part_count_value [OF c] n by linarith
  have off: "unat (number * PART_BYTES) = ?off"
    using le unsigned_less [of sz, where 'a = nat] by (simp add: unat_word_ariths unat_PART_BYTES)
  have sub: "unat (sz - number * PART_BYTES) = unat sz - ?off"
    using le by (simp add: unat_sub word_le_nat_alt off)
  have "part_size sz number = Inr (min PART_BYTES (sz - number * PART_BYTES))"
    using c n by (simp add: part_size_def word_le_nat_alt)
  moreover have "unat (min PART_BYTES (sz - number * PART_BYTES)) = min 16777216 (unat sz - ?off)"
    by (simp add: min_def word_le_nat_alt sub unat_PART_BYTES)
  ultimately show ?thesis by blast
qed

text \<open>The bytes of one part as the uploader computes them.\<close>

definition part_len :: "u64 \<Rightarrow> nat \<Rightarrow> nat" where
  "part_len sz n = (case part_size sz (of_nat n) of Inr b \<Rightarrow> unat b | Inl _ \<Rightarrow> 0)"

lemma part_len_value:
  assumes "part_count sz = Inr c" and "n < unat c"
  shows "part_len sz n = min 16777216 (unat sz - n * 16777216)"
proof -
  have n: "unat (of_nat n :: u64) = n"
    using assms(2) part_count_value(3) [OF assms(1)] by (simp add: unsigned_of_nat take_bit_nat_eq_self)
  then show ?thesis
    using part_size_value [OF assms(1), of "of_nat n"] assms(2) by (auto simp: part_len_def)
qed

lemma sum_min_parts:
  fixes p s :: nat
  assumes "0 < p"
  shows "(\<Sum>n<m. min p (s - n * p)) = min (m * p) s"
  by (induction m) (auto simp: min_def)

text \<open>C32. The parts of an accepted upload cover the archive exactly: their sizes add up to the
  archive's size with no 64-bit overflow, every part is between one byte and 16 MiB, and every part
  but the last is exactly 16 MiB.\<close>

theorem parts_cover_archive:
  assumes "part_count sz = Inr c"
  shows "(\<Sum>n<unat c. part_len sz n) = unat sz \<and>
    (\<forall>n < unat c. 0 < part_len sz n \<and> part_len sz n \<le> 16777216 \<and>
       (Suc n < unat c \<longrightarrow> part_len sz n = 16777216))"
proof -
  note v = part_count_value [OF assms]
  have "(\<Sum>n<unat c. part_len sz n) = (\<Sum>n<unat c. min 16777216 (unat sz - n * 16777216))"
    by (rule sum.cong) (simp_all add: part_len_value [OF assms])
  also have "\<dots> = min (unat c * 16777216) (unat sz)" by (rule sum_min_parts) simp
  also have "\<dots> = unat sz" using v by simp
  finally have total: "(\<Sum>n<unat c. part_len sz n) = unat sz" .
  have each: "0 < part_len sz n \<and> part_len sz n \<le> 16777216 \<and>
       (Suc n < unat c \<longrightarrow> part_len sz n = 16777216)" if "n < unat c" for n
  proof -
    have lower: "(unat c - 1) * 16777216 < unat sz" using v by simp
    have "n * 16777216 \<le> (unat c - 1) * 16777216" using that by simp
    moreover have "Suc n * 16777216 \<le> (unat c - 1) * 16777216" if "Suc n < unat c"
      using that by (intro mult_le_mono1) simp
    ultimately show ?thesis using lower part_len_value [OF assms that] by (auto simp: min_def)
  qed
  from total each show ?thesis by blast
qed

theorem parts_cover_archive_witness:
  "part_count 16777217 = Inr 2 \<and> (\<Sum>n<unat (2::u64). part_len 16777217 n) = 16777217"
proof -
  have h: "part_count 16777217 = Inr 2"
    by (simp add: part_count_def div_ceil_def PART_BYTES_def MAX_PARTS_def)
  show ?thesis using h parts_cover_archive [OF h] by simp
qed

section \<open>Pacing\<close>

definition ATTEMPTS :: nat where "ATTEMPTS = 12"

definition delay :: "u32 \<Rightarrow> u64" where
  "delay attempt = min (push_bit (unat (min attempt 6)) 1) 60"

definition may_pass :: "nat \<Rightarrow> bool" where
  "may_pass status \<longleftrightarrow> status \<in> {408, 429, 500, 502, 503, 504}"

lemma unat_delay: "unat (delay a) = min (2 ^ min (unat a) 6) 60"
proof -
  have "unat (min a 6) = min (unat a) 6" by (simp add: min_def word_le_nat_alt)
  moreover have "unat (push_bit k (1::u64)) = 2 ^ k" if "k \<le> 6" for k
  proof -
    have "(2::nat) ^ k < 2 ^ 64" using that by (intro power_strict_increasing) simp_all
    moreover have "push_bit k (1::u64) = of_nat (2 ^ k)" by (simp add: push_bit_eq_mult)
    ultimately show ?thesis by (simp only: unat_of_nat) simp
  qed
  ultimately show ?thesis by (simp add: delay_def min_def word_le_nat_alt)
qed

text \<open>The wait before a repeated call never shrinks as attempts go on and never passes one
  minute, and the waits before the last of the allowed attempts add up to at least five minutes.\<close>

theorem delay_paces_retries:
  "(\<forall>a b. a \<le> b \<longrightarrow> delay a \<le> delay b) \<and> (\<forall>a. unat (delay a) \<le> 60) \<and>
   300 \<le> (\<Sum>n = 1..<ATTEMPTS. unat (delay (of_nat n)))"
proof (intro conjI allI impI)
  fix a b :: u32
  assume "a \<le> b"
  then have "min (unat a) 6 \<le> min (unat b) 6" by (auto simp: word_le_nat_alt)
  then have "(2::nat) ^ min (unat a) 6 \<le> 2 ^ min (unat b) 6" by (intro power_increasing) simp_all
  then show "delay a \<le> delay b"
    unfolding word_le_nat_alt unat_delay by (intro min.mono) simp_all
next
  fix a show "unat (delay a) \<le> 60" by (simp add: unat_delay)
next
  show "300 \<le> (\<Sum>n = 1..<ATTEMPTS. unat (delay (of_nat n)))"
    by code_simp
qed

theorem delay_paces_retries_witness: "delay 3 \<le> delay 7 \<and> unat (delay 7) \<le> 60"
proof -
  have "(3 :: u32) \<le> 7" by simp
  then show ?thesis using delay_paces_retries by blast
qed

end
