(* ===== verification/Actions.thy ===== *)
theory Actions
  imports Identity
begin

text \<open>
  Pure Action decisions: \<open>rust/crates/core/src/operations.rs\<close>. An Action is a frozen plan (a JSON
  object) and an execution record that moves PREPARED, EXECUTING, VERIFIED or RECONCILE\_REQUIRED by
  compare-and-swap transitions. SHA-256 (\<open>sha\<close>, its lowercase hex text) and the RFC 3339 parser
  (\<open>clock\<close>, an instant or nothing) are outside the repository and are parameters.
\<close>

type_synonym rfc3339 = "string \<Rightarrow> int option"

datatype action_error =
    Invalid string
  | State string
  | Expired
  | Identity_changed string
  | RevisionConflict
  | StatusConflict

datatype scope_type = ScopeRun

fun scope_type_name :: "scope_type \<Rightarrow> string" where
  "scope_type_name ScopeRun = ''run''"

record scope =
  scope_project :: string
  scope_kind :: scope_type
  scope_object_id :: string

definition action_id :: "(string \<Rightarrow> string) \<Rightarrow> scope \<Rightarrow> string \<Rightarrow> string" where
  "action_id sha sc intent_key =
     take 23 (''action-'' @ sha (scope_project sc @ '':'' @ scope_type_name (scope_kind sc) @ '':''
       @ scope_object_id sc @ '':'' @ intent_key))"

definition validate_action_id :: "string \<Rightarrow> action_error + unit" where
  "validate_action_id value =
     (if (case strip_prefix ''action-'' value of
            Some suffix \<Rightarrow> length suffix = 16 \<and> list_all is_lower_hex suffix
          | None \<Rightarrow> False)
      then Inr () else Inl (Invalid ''action_id''))"

section \<open>Reading a record\<close>

definition object_of :: "json \<Rightarrow> action_error + jobject" where
  "object_of v = ok_or (as_object v) (Invalid ''JSON object required'')"

definition field :: "json \<Rightarrow> string \<Rightarrow> action_error + string" where
  "field v name =
     (case jget_str v name of
        Some s \<Rightarrow> if s = [] then Inl (Invalid name) else Inr s
      | None \<Rightarrow> Inl (Invalid name))"

definition timestamp :: "rfc3339 \<Rightarrow> string \<Rightarrow> action_error + int" where
  "timestamp clock s = ok_or (clock s) (Invalid ''RFC3339 timestamp'')"

definition digest_field :: "json \<Rightarrow> string \<Rightarrow> action_error + string" where
  "digest_field v name =
     and_then (field v name) (\<lambda>s.
       if (case strip_prefix ''sha256:'' s of
             Some h \<Rightarrow> length h = 64 \<and> list_all is_lower_hex h
           | None \<Rightarrow> False)
       then Inr s else Inl (Invalid name))"

definition revision :: "json \<Rightarrow> action_error + int" where
  "revision execution =
     (case jget execution ''revision'' of
        None \<Rightarrow> Inr 0
      | Some v \<Rightarrow>
          (case as_i64 v of
             Some n \<Rightarrow> if 0 \<le> n then Inr n else Inl (Invalid ''revision'')
           | None \<Rightarrow> Inl (Invalid ''revision'')))"

definition jopt :: "json option \<Rightarrow> json" where
  "jopt x = (case x of Some v \<Rightarrow> v | None \<Rightarrow> JNull)"

definition status_of :: "json \<Rightarrow> string option" where
  "status_of execution = jget_str execution ''status''"

section \<open>Transitions\<close>

record transition_record =
  next_execution :: json
  audit_event :: json
  expected_status :: "string option"

definition action_transition ::
    "rfc3339 \<Rightarrow> json \<Rightarrow> json \<Rightarrow> string \<Rightarrow> string \<Rightarrow> string option \<Rightarrow> json
     \<Rightarrow> action_error + transition_record" where
  "action_transition clock execution updates now event expected details =
     and_then (timestamp clock now) (\<lambda>_.
     and_then (object_of execution) (\<lambda>m.
     and_then (object_of updates) (\<lambda>u.
     let next = obj_extend m u;
         payload = [(''status'', jopt (obj_get next ''status'')), (''error'', jopt (obj_get next ''error''))]
     in and_then (object_of details) (\<lambda>d.
          Inr \<lparr>next_execution = JObj next,
               audit_event = JObj [(''timestamp'', JStr now), (''event'', JStr event),
                                   (''payload'', JObj (obj_extend payload d))],
               expected_status = expected\<rparr>))))"

definition initial_execution :: "json \<Rightarrow> json" where
  "initial_execution plan =
     JObj [(''revision'', jnat 0),
           (''status'', JStr (if jget plan ''ready'' = Some (JBool True) then ''PREPARED'' else ''BLOCKED'')),
           (''started_at'', JNull), (''finished_at'', JNull), (''result'', JNull), (''error'', JNull)]"

text \<open>The SQLite compare-and-swap update and its audit event, prepared without touching the input.\<close>

definition commit_transition ::
    "json \<Rightarrow> json \<Rightarrow> json \<Rightarrow> string option \<Rightarrow> string \<Rightarrow> action_error + json \<times> json" where
  "commit_transition current proposed event expected transition_id =
     (if (case expected of Some e \<Rightarrow> status_of current \<noteq> Some e | None \<Rightarrow> False) then Inl StatusConflict
      else and_then (revision current) (\<lambda>current_revision.
        if Option.bind (jget proposed ''revision'') as_i64 \<noteq> Some current_revision
        then Inl RevisionConflict
        else if length transition_id \<noteq> 32 \<or> \<not> list_all is_lower_hex transition_id
        then Inl (Invalid ''transition_id'')
        else if current_revision + 1 \<ge> int i64_limit then Inl (Invalid ''revision overflow'')
        else let next = current_revision + 1 in
          and_then (object_of proposed) (\<lambda>p.
          and_then (object_of event) (\<lambda>e.
            Inr (JObj (obj_insert ''revision'' (jint next) p),
                 JObj (obj_insert ''revision'' (jint next)
                   (obj_insert ''transition_id'' (JStr transition_id) e)))))))"

section \<open>Claiming\<close>

definition require_submission :: "json \<Rightarrow> action_error + unit" where
  "require_submission plan =
     and_then (field plan ''operation'') (\<lambda>op.
       if op = ''SUBMIT_RUN'' then Inr () else Inl (State ''operation cannot be dispatched''))"

definition check_request :: "rfc3339 \<Rightarrow> json \<Rightarrow> string \<Rightarrow> string \<Rightarrow> string \<Rightarrow> action_error + unit" where
  "check_request clock plan confirmation reason now =
     and_then (field plan ''action_id'') (\<lambda>aid.
     if confirmation \<noteq> ''EXECUTE '' @ aid then Inl (Invalid ''execution confirmation'')
     else and_then (timestamp clock now) (\<lambda>t.
          and_then (field plan ''gate_expires_at'') (\<lambda>g.
          and_then (timestamp clock g) (\<lambda>expiry.
          if expiry \<le> t then Inl Expired
          else if char_count reason > 4000 \<or> has_control reason then Inl (Invalid ''execution reason'')
          else Inr ()))))"

record frozen_files =
  execution_campaign_sha256 :: "string option"
  execution_manifest_sha256 :: "string option"

datatype claim_outcome = AlreadyVerified | Execute transition_record

definition check_frozen :: "json \<Rightarrow> (string \<times> string option) list \<Rightarrow> action_error + unit" where
  "check_frozen plan fs =
     foldr (\<lambda>(key, observed) rest.
        and_then (digest_field plan key) (\<lambda>d.
          if observed \<noteq> Some d then Inl (Identity_changed key) else rest)) fs (Inr ())"

definition claim ::
    "rfc3339 \<Rightarrow> json \<Rightarrow> json \<Rightarrow> string \<Rightarrow> frozen_files \<Rightarrow> string \<Rightarrow> string \<Rightarrow> action_error + claim_outcome" where
  "claim clock plan execution confirmation files reason now =
     (if status_of execution = Some ''VERIFIED'' then Inr AlreadyVerified
      else if status_of execution \<in> {Some ''EXECUTING'', Some ''RECONCILE_REQUIRED''}
      then Inl (State ''execution intent already exists; reconcile instead of replaying'')
      else if jget plan ''ready'' \<noteq> Some (JBool True) \<or> status_of execution \<noteq> Some ''PREPARED''
      then Inl (State ''only a ready PREPARED action can be executed'')
      else and_then (check_request clock plan confirmation reason now) (\<lambda>_.
           and_then (digest_field plan ''intent_digest'') (\<lambda>_.
           and_then (digest_field plan ''gate_bundle_digest'') (\<lambda>_.
           and_then (require_submission plan) (\<lambda>_.
           and_then (check_frozen plan
               [(''execution_campaign_sha256'', execution_campaign_sha256 files),
                (''execution_manifest_sha256'', execution_manifest_sha256 files)]) (\<lambda>_.
           and_then (action_transition clock execution
               (JObj [(''status'', JStr ''EXECUTING''), (''started_at'', JStr now),
                      (''execution_reason'', JStr reason), (''error'', JNull),
                      (''resolution'', JStr ''STILL_IN_PROGRESS''), (''safe_to_retry'', JBool False),
                      (''next_action'', JStr ''WAIT'')])
               now ''execution_started'' (Some ''PREPARED'')
               (JObj [(''intent_digest'', jidx plan ''intent_digest''), (''reason'', JStr reason)]))
             (\<lambda>t. Inr (Execute t))))))))"

definition interrupted :: "rfc3339 \<Rightarrow> json \<Rightarrow> string \<Rightarrow> action_error + transition_record option" where
  "interrupted clock execution now =
     (if status_of execution \<noteq> Some ''EXECUTING'' then Inr None
      else let error = (case jget_str execution ''error'' of
               Some s \<Rightarrow> if s = []
                 then ''daemon restarted after execution was claimed; observe effects before retry'' else s
             | None \<Rightarrow> ''daemon restarted after execution was claimed; observe effects before retry'')
        in and_then (action_transition clock execution
             (JObj [(''status'', JStr ''RECONCILE_REQUIRED''), (''error'', JStr error),
                    (''resolution'', JStr ''UNKNOWN_DO_NOT_RETRY''), (''safe_to_retry'', JBool False),
                    (''next_action'', JStr ''RECONCILE'')])
             now ''execution_interrupted_by_restart'' (Some ''EXECUTING'') (JObj []))
           (\<lambda>t. Inr (Some t)))"

section \<open>The public view\<close>

definition submission_next :: "rfc3339 \<Rightarrow> json \<Rightarrow> string \<Rightarrow> int \<Rightarrow> string" where
  "submission_next clock action status now =
     (if status = ''PREPARED''
      then (case Option.bind (jget_str action ''gate_expires_at'') (\<lambda>g. ok (timestamp clock g)) of
              None \<Rightarrow> ''REPREPARE''
            | Some expiry \<Rightarrow> if expiry \<le> now then ''REPREPARE'' else ''EXECUTE'')
      else if status \<in> {''EXECUTING'', ''RECONCILE_REQUIRED''} then ''RECONCILE''
      else if status = ''BLOCKED'' then ''REPREPARE''
      else ''NONE'')"

definition object_or_empty :: "json option \<Rightarrow> json" where
  "object_or_empty v = (case v of Some (JObj m) \<Rightarrow> JObj m | _ \<Rightarrow> JObj [])"

definition git_commit_of :: "json \<Rightarrow> json \<Rightarrow> json option" where
  "git_commit_of action summary =
     (case jget summary ''git_commit'' of
        Some v \<Rightarrow> if v \<noteq> JNull \<and> v \<noteq> JStr [] then Some v
                  else Option.bind (Option.bind (jget action ''semantic_changes'') as_array)
                    (\<lambda>cs. Option.bind (find (\<lambda>c. jidx c ''path'' = JStr ''git_commit'') cs)
                            (\<lambda>c. jget c ''after''))
      | None \<Rightarrow> Option.bind (Option.bind (jget action ''semantic_changes'') as_array)
                    (\<lambda>cs. Option.bind (find (\<lambda>c. jidx c ''path'' = JStr ''git_commit'') cs)
                            (\<lambda>c. jget c ''after'')))"

definition submission_view :: "rfc3339 \<Rightarrow> json \<Rightarrow> string \<Rightarrow> action_error + json" where
  "submission_view clock action now_text =
     and_then (timestamp clock now_text) (\<lambda>now.
     and_then (field action ''action_id'') (\<lambda>aid.
     and_then (validate_action_id aid) (\<lambda>_.
     and_then (field (jidx action ''scope'') ''project'') (\<lambda>project.
     and_then (field action ''run_id'') (\<lambda>run.
     and_then (field action ''attempt_id'') (\<lambda>attempt.
     and_then (map_err (\<lambda>_. Identity_changed ''project'') (validate_id project)) (\<lambda>_.
     and_then (map_err (\<lambda>_. Identity_changed ''run_id'') (validate_observation_id run)) (\<lambda>_.
     and_then (map_err (\<lambda>_. Identity_changed ''attempt_id'') (validate_attempt attempt)) (\<lambda>_.
     and_then (field action ''operation'') (\<lambda>operation.
     if operation \<noteq> ''SUBMIT_RUN'' then Inl (Invalid ''Action is not a Submission'')
     else and_then (case jget action ''execution'' of
                      Some (JObj m) \<Rightarrow> Inr (JObj m) | _ \<Rightarrow> Inl (Invalid ''execution'')) (\<lambda>execution.
     and_then (revision execution) (\<lambda>_.
     and_then (field execution ''status'') (\<lambda>status.
     let summary = object_or_empty (jget action ''preflight_summary'') in
     Inr (JObj [
       (''submission_id'', JStr aid), (''project'', JStr project), (''run_id'', JStr run),
       (''attempt_id'', JStr attempt), (''operation'', JStr operation), (''status'', JStr status),
       (''ready'', JBool (jget action ''ready'' = Some (JBool True))),
       (''next_action'', JStr (submission_next clock action status now)),
       (''reused'', JBool False), (''confirmation'', JStr (''EXECUTE '' @ aid)),
       (''gate_expires_at'', jopt (jget action ''gate_expires_at'')),
       (''intent_digest'', jopt (jget action ''intent_digest'')),
       (''gates'', case jget action ''gates'' of Some (JArr gs) \<Rightarrow> JArr gs | _ \<Rightarrow> JArr []),
       (''preflight_summary'', summary), (''git_commit'', jopt (git_commit_of action summary)),
       (''execution'', execution)]))))))))))))))"

section \<open>Lemmas\<close>

lemma object_of_eq_Inr [res_simps]: "object_of v = Inr m \<longleftrightarrow> v = JObj m"
  by (simp add: object_of_def res_simps)

lemma field_eq_Inr [res_simps]: "field v k = Inr s \<longleftrightarrow> s \<noteq> [] \<and> jget v k = Some (JStr s)"
proof (cases "jget_str v k")
  case None
  then show ?thesis by (auto simp: field_def) (simp flip: jget_str_eq_Some)
next
  case (Some t)
  then have "jget v k = Some (JStr t)" by (simp add: json_simps)
  with Some show ?thesis by (auto simp: field_def)
qed

lemma timestamp_eq_Inr [res_simps]: "timestamp clock s = Inr t \<longleftrightarrow> clock s = Some t"
  by (simp add: timestamp_def res_simps)

lemma status_of_eq_Some: "status_of e = Some s \<longleftrightarrow> jget e ''status'' = Some (JStr s)"
  by (simp add: status_of_def json_simps)

text \<open>A transition keeps every field it does not name.\<close>

lemma action_transition_eq_Inr:
  "action_transition clock execution updates now event expected details = Inr t \<longleftrightarrow>
   (\<exists>at m u d. clock now = Some at \<and> execution = JObj m \<and> updates = JObj u \<and> details = JObj d \<and>
      t = \<lparr>next_execution = JObj (obj_extend m u),
           audit_event = JObj [(''timestamp'', JStr now), (''event'', JStr event),
             (''payload'', JObj (obj_extend
                [(''status'', jopt (obj_get (obj_extend m u) ''status'')),
                 (''error'', jopt (obj_get (obj_extend m u) ''error''))] d))],
           expected_status = expected\<rparr>)"
  by (auto simp: action_transition_def res_simps Let_def)

lemma action_transition_frame:
  assumes "action_transition clock execution (JObj u) now event expected details = Inr t"
    and "k \<notin> fst ` set u"
  shows "jget (next_execution t) k = jget execution k"
  using assms by (auto simp: action_transition_eq_Inr obj_get_extend_notin)

lemma check_request_eq_Inr:
  "check_request clock plan confirmation reason now = Inr u \<longleftrightarrow>
   (\<exists>aid t g expiry. jget plan ''action_id'' = Some (JStr aid) \<and> aid \<noteq> [] \<and>
      confirmation = ''EXECUTE '' @ aid \<and> clock now = Some t \<and>
      jget plan ''gate_expires_at'' = Some (JStr g) \<and> g \<noteq> [] \<and> clock g = Some expiry \<and> t < expiry \<and>
      char_count reason \<le> 4000 \<and> \<not> has_control reason)"
  by (auto simp: check_request_def res_simps not_less not_le split: if_splits)

lemma check_frozen_eq_Inr:
  "check_frozen plan fs = Inr u \<longleftrightarrow>
   (\<forall>(key, observed) \<in> set fs. \<exists>d. digest_field plan key = Inr d \<and> observed = Some d)"
  by (induction fs) (auto simp: check_frozen_def res_simps split: if_splits)

lemma require_submission_eq_Inr:
  "require_submission plan = Inr u \<longleftrightarrow> jget plan ''operation'' = Some (JStr ''SUBMIT_RUN'')"
  by (auto simp: require_submission_def res_simps split: if_splits)

lemma claim_cases:
  "claim clock plan execution confirmation files reason now = Inr AlreadyVerified \<Longrightarrow>
     status_of execution = Some ''VERIFIED''"
  "claim clock plan execution confirmation files reason now = Inr (Execute t) \<Longrightarrow>
     status_of execution = Some ''PREPARED''"
  by (auto simp: claim_def res_simps split: if_splits)

section \<open>Exact authority of a claim\<close>

text \<open>What a caller must present, over the members of the plan and nothing else of the code: the
  specification a claim is measured against.\<close>

definition approved_digest :: "json \<Rightarrow> string \<Rightarrow> string \<Rightarrow> bool" where
  "approved_digest plan name d \<longleftrightarrow> jget plan name = Some (JStr d) \<and>
     (\<exists>h. d = ''sha256:'' @ h \<and> length h = 64 \<and> set h \<subseteq> set ''0123456789abcdef'')"

definition claim_authority ::
    "rfc3339 \<Rightarrow> json \<Rightarrow> json \<Rightarrow> string \<Rightarrow> frozen_files \<Rightarrow> string \<Rightarrow> string \<Rightarrow> bool" where
  "claim_authority clock plan execution confirmation files reason now \<longleftrightarrow>
     jget execution ''status'' = Some (JStr ''PREPARED'') \<and>
     jget plan ''ready'' = Some (JBool True) \<and>
     jget plan ''operation'' = Some (JStr ''SUBMIT_RUN'') \<and>
     (\<exists>aid. jget plan ''action_id'' = Some (JStr aid) \<and> aid \<noteq> [] \<and> confirmation = ''EXECUTE '' @ aid) \<and>
     (\<exists>gate at expiry. jget plan ''gate_expires_at'' = Some (JStr gate) \<and> gate \<noteq> [] \<and>
        clock now = Some at \<and> clock gate = Some expiry \<and> at < expiry) \<and>
     length (utf8_chars reason) \<le> 4000 \<and> (\<forall>c \<in> set (utf8_chars reason). \<not> is_control c) \<and>
     (\<exists>d. approved_digest plan ''intent_digest'' d) \<and>
     (\<exists>d. approved_digest plan ''gate_bundle_digest'' d) \<and>
     (\<exists>d. approved_digest plan ''execution_campaign_sha256'' d \<and> execution_campaign_sha256 files = Some d) \<and>
     (\<exists>d. approved_digest plan ''execution_manifest_sha256'' d \<and> execution_manifest_sha256 files = Some d)"

lemma lower_hex_digits: "list_all is_lower_hex h \<longleftrightarrow> set h \<subseteq> set ''0123456789abcdef''"
proof -
  have "list_all (\<lambda>c. is_lower_hex c = (c \<in> set ''0123456789abcdef'')) Enum.enum" by code_simp
  then have "is_lower_hex c \<longleftrightarrow> c \<in> set ''0123456789abcdef''" for c
    unfolding list_all_iff by (rule bspec) (rule in_enum)
  then show ?thesis unfolding list_all_iff by blast
qed

lemma prefixed_iff: "(case strip_prefix p s of Some h \<Rightarrow> P h | None \<Rightarrow> False) \<longleftrightarrow> (\<exists>h. s = p @ h \<and> P h)"
  using strip_prefix_eq_Some [of p s] by (cases "strip_prefix p s") auto

lemma digest_field_approved: "digest_field plan name = Inr d \<longleftrightarrow> approved_digest plan name d"
proof -
  let ?ok = "\<exists>h. d = ''sha256:'' @ h \<and> length h = 64 \<and> list_all is_lower_hex h"
  have "digest_field plan name = Inr d \<longleftrightarrow> field plan name = Inr d \<and> ?ok"
    unfolding digest_field_def prefixed_iff by (cases "field plan name") auto
  also have "\<dots> \<longleftrightarrow> jget plan name = Some (JStr d) \<and> ?ok" by (auto simp: field_eq_Inr)
  finally show ?thesis by (simp only: approved_digest_def lower_hex_digits)
qed

lemma request_authority:
  "is_ok (check_request clock plan confirmation reason now) \<longleftrightarrow>
     (\<exists>aid. jget plan ''action_id'' = Some (JStr aid) \<and> aid \<noteq> [] \<and> confirmation = ''EXECUTE '' @ aid) \<and>
     (\<exists>gate at expiry. jget plan ''gate_expires_at'' = Some (JStr gate) \<and> gate \<noteq> [] \<and>
        clock now = Some at \<and> clock gate = Some expiry \<and> at < expiry) \<and>
     length (utf8_chars reason) \<le> 4000 \<and> (\<forall>c \<in> set (utf8_chars reason). \<not> is_control c)"
  unfolding is_ok_iff check_request_eq_Inr char_count_def has_control_def list_ex_iff by blast

lemma claim_authority_checks:
  "claim_authority clock plan execution confirmation files reason now \<longleftrightarrow>
     status_of execution = Some ''PREPARED'' \<and>
     jget plan ''ready'' = Some (JBool True) \<and>
     jget plan ''operation'' = Some (JStr ''SUBMIT_RUN'') \<and>
     is_ok (check_request clock plan confirmation reason now) \<and>
     is_ok (digest_field plan ''intent_digest'') \<and>
     is_ok (digest_field plan ''gate_bundle_digest'') \<and>
     is_ok (digest_field plan ''execution_campaign_sha256'') \<and>
     is_ok (digest_field plan ''execution_manifest_sha256'') \<and>
     execution_campaign_sha256 files = ok (digest_field plan ''execution_campaign_sha256'') \<and>
     execution_manifest_sha256 files = ok (digest_field plan ''execution_manifest_sha256'')"
proof -
  have digest: "is_ok (digest_field plan k) \<and> hash = ok (digest_field plan k) \<longleftrightarrow>
      (\<exists>d. digest_field plan k = Inr d \<and> hash = Some d)" for k hash
    by (auto simp: is_ok_iff)
  have digests: "(\<exists>d. digest_field plan k = Inr d) \<longleftrightarrow> is_ok (digest_field plan k)" for k
    by (simp only: is_ok_iff)
  show ?thesis
    unfolding claim_authority_def request_authority digest_field_approved [symmetric]
      status_of_eq_Some [symmetric] digest [symmetric] digests
    by blast
qed

abbreviation executing_updates :: "string \<Rightarrow> string \<Rightarrow> jobject" where
  "executing_updates now reason \<equiv>
     [(''status'', JStr ''EXECUTING''), (''started_at'', JStr now),
      (''execution_reason'', JStr reason), (''error'', JNull),
      (''resolution'', JStr ''STILL_IN_PROGRESS''), (''safe_to_retry'', JBool False),
      (''next_action'', JStr ''WAIT'')]"

lemma claim_eq_Execute:
  "claim clock plan execution confirmation files reason now = Inr (Execute t) \<longleftrightarrow>
     claim_authority clock plan execution confirmation files reason now \<and>
     action_transition clock execution (JObj (executing_updates now reason)) now
       ''execution_started'' (Some ''PREPARED'')
       (JObj [(''intent_digest'', jidx plan ''intent_digest''), (''reason'', JStr reason)]) = Inr t"
  by (auto simp: claim_def claim_authority_checks res_simps check_frozen_eq_Inr
      require_submission_eq_Inr is_ok_iff ok_eq_Some)

lemma status_of_prepared_object: "status_of e = Some s \<Longrightarrow> \<exists>m. e = JObj m"
  by (auto simp: status_of_eq_Some jget_eq_Some)

lemma authority_clock:
  "claim_authority clock plan execution confirmation files reason now \<Longrightarrow> \<exists>t. clock now = Some t"
  by (auto simp: claim_authority_def)

lemma executing_transition:
  assumes "action_transition clock execution (JObj (executing_updates now reason)) now ev ex d = Inr t"
  shows "status_of (next_execution t) = Some ''EXECUTING''"
    and "jget (next_execution t) ''safe_to_retry'' = Some (JBool False)"
    and "expected_status t = ex"
  using assms by (auto simp: action_transition_eq_Inr status_of_eq_Some)

lemma claim_granted_transition:
  assumes "claim clock plan execution confirmation files reason now = Inr (Execute t)"
  shows "expected_status t = Some ''PREPARED''" "status_of (next_execution t) = Some ''EXECUTING''"
    "jget (next_execution t) ''safe_to_retry'' = Some (JBool False)"
    "k \<notin> fst ` set (executing_updates now reason) \<Longrightarrow> jget (next_execution t) k = jget execution k"
proof -
  from assms have "action_transition clock execution (JObj (executing_updates now reason)) now
       ''execution_started'' (Some ''PREPARED'')
       (JObj [(''intent_digest'', jidx plan ''intent_digest''), (''reason'', JStr reason)]) = Inr t"
    by (simp add: claim_eq_Execute)
  note tr = executing_transition [OF this] action_transition_frame [OF this]
  show "expected_status t = Some ''PREPARED''" "status_of (next_execution t) = Some ''EXECUTING''"
    "jget (next_execution t) ''safe_to_retry'' = Some (JBool False)"
    "k \<notin> fst ` set (executing_updates now reason) \<Longrightarrow> jget (next_execution t) k = jget execution k"
    using tr by blast+
qed

text \<open>C11. A claim is granted exactly to a caller with complete authority: a ready PREPARED
  submission, the exact confirmation, an unexpired gate, a bounded reason without control
  characters, well-formed approval digests and both frozen file hashes as observed.\<close>

theorem claim_grants_exact_authority:
  "(\<exists>t. claim clock plan execution confirmation files reason now = Inr (Execute t)) \<longleftrightarrow>
     claim_authority clock plan execution confirmation files reason now"
  using authority_clock [of clock plan execution confirmation files reason now]
    status_of_prepared_object [of execution]
  by (auto simp: claim_eq_Execute action_transition_eq_Inr claim_authority_def status_of_eq_Some)

lemma interrupted_eq_Some:
  assumes "interrupted clock execution now = Inr (Some t)"
  shows "status_of execution = Some ''EXECUTING''" "expected_status t = Some ''EXECUTING''"
    "status_of (next_execution t) = Some ''RECONCILE_REQUIRED''"
    "jget (next_execution t) ''safe_to_retry'' = Some (JBool False)"
    "jget (next_execution t) ''revision'' = jget execution ''revision''"
  using assms
  by (auto simp: interrupted_def Let_def res_simps action_transition_eq_Inr status_of_eq_Some
      obj_get_extend_notin split: if_splits)

section \<open>Compare-and-swap\<close>

lemma commit_transition_eq_Inr:
  "commit_transition current proposed event expected tid = Inr (e, ev) \<longleftrightarrow>
   (\<exists>r p m. (\<forall>x. expected = Some x \<longrightarrow> status_of current = Some x) \<and>
      revision current = Inr r \<and> proposed = JObj p \<and> event = JObj m \<and>
      Option.bind (obj_get p ''revision'') as_i64 = Some r \<and> lower_hex_token 32 tid \<and>
      r + 1 < int i64_limit \<and>
      e = JObj (obj_insert ''revision'' (jint (r + 1)) p) \<and>
      ev = JObj (obj_insert ''revision'' (jint (r + 1)) (obj_insert ''transition_id'' (JStr tid) m)))"
  by (auto simp: commit_transition_def res_simps Let_def lower_hex_token_def not_le
      split: if_splits option.splits)

lemma revision_nonneg: "revision e = Inr r \<Longrightarrow> 0 \<le> r"
  by (auto simp: revision_def split: option.splits if_splits)

lemma revision_insert:
  "0 \<le> r \<Longrightarrow> r < int i64_limit \<Longrightarrow> revision (JObj (obj_insert ''revision'' (jint r) p)) = Inr r"
  by (simp add: revision_def)

lemma commit_transition_effect:
  assumes "commit_transition current proposed event expected tid = Inr (e, ev)"
  shows "\<exists>r. revision current = Inr r \<and> revision e = Inr (r + 1)"
    and "status_of e = status_of proposed"
    and "jget e ''transition_id'' = jget proposed ''transition_id''"
    and "is_object e" and "jget ev ''transition_id'' = Some (JStr tid)"
    and "\<forall>x. expected = Some x \<longrightarrow> status_of current = Some x"
proof -
  from assms obtain r p m where r: "revision current = Inr r" "r + 1 < int i64_limit"
    and e: "proposed = JObj p" "e = JObj (obj_insert ''revision'' (jint (r + 1)) p)"
    and ev: "ev = JObj (obj_insert ''revision'' (jint (r + 1)) (obj_insert ''transition_id'' (JStr tid) m))"
    and x: "\<forall>x. expected = Some x \<longrightarrow> status_of current = Some x"
    by (auto simp: commit_transition_eq_Inr)
  have "revision e = Inr (r + 1)"
    unfolding e(2) by (rule revision_insert) (use revision_nonneg [OF r(1)] r(2) in auto)
  with r show "\<exists>r. revision current = Inr r \<and> revision e = Inr (r + 1)" by blast
  show "status_of e = status_of proposed" "jget e ''transition_id'' = jget proposed ''transition_id''"
    "is_object e" "jget ev ''transition_id'' = Some (JStr tid)"
    using e ev by (simp_all add: status_of_def jget_str_def is_object_def)
  show "\<forall>x. expected = Some x \<longrightarrow> status_of current = Some x" by (rule x)
qed

lemma submission_view_eq_Inr:
  assumes "submission_view clock action now_text = Inr v"
  shows "\<exists>now execution status. clock now_text = Some now \<and> jget action ''execution'' = Some execution \<and>
    status_of execution = Some status \<and> jget action ''operation'' = Some (JStr ''SUBMIT_RUN'') \<and>
    jget v ''next_action'' = Some (JStr (submission_next clock action status now)) \<and>
    jget v ''submission_id'' = jget action ''action_id'' \<and> jget v ''execution'' = Some execution"
proof -
  have step: "(if b then Inl e else m) = Inr x \<longleftrightarrow> \<not> b \<and> m = Inr x"
    for b and e :: action_error and m and x :: json by simp
  have obj: "(case x of Some (JObj m) \<Rightarrow> Inr (JObj m) | _ \<Rightarrow> Inl e) = Inr ex \<longleftrightarrow>
      x = Some ex \<and> is_object ex" for x ex and e :: action_error
    by (auto simp: is_object_def split: option.splits json.splits)
  from assms obtain now aid status execution summary v' where
    now: "timestamp clock now_text = Inr now" and aid: "field action ''action_id'' = Inr aid" and
    op: "field action ''operation'' = Inr ''SUBMIT_RUN''" and
    ex: "jget action ''execution'' = Some execution" and
    st: "field execution ''status'' = Inr status" and
    v: "jget v ''next_action'' = Some (JStr (submission_next clock action status now))"
      "jget v ''submission_id'' = Some (JStr aid)" "jget v ''execution'' = Some execution"
    unfolding submission_view_def and_then_eq_Inr step obj Let_def
    by - (elim exE conjE, auto)
  show ?thesis
    using now aid op ex st v unfolding timestamp_eq_Inr field_eq_Inr status_of_eq_Some by auto
qed

text \<open>C29. The public view agrees with what a claim would do. Whenever an Action can be shown, an
  Action a claim is granted on is shown with next action EXECUTE, and an Action that already holds
  an execution intent is shown as RECONCILE and refused by every claim.\<close>

theorem view_agrees_with_claim:
  assumes "submission_view clock action now = Inr v"
    and "jget action ''execution'' = Some execution"
  shows "(is_ok (claim clock action execution confirmation files reason now) \<longrightarrow>
        status_of execution \<noteq> Some ''VERIFIED'' \<longrightarrow>
        jget v ''next_action'' = Some (JStr ''EXECUTE'')) \<and>
    (status_of execution \<in> {Some ''EXECUTING'', Some ''RECONCILE_REQUIRED''} \<longrightarrow>
        jget v ''next_action'' = Some (JStr ''RECONCILE'') \<and>
        \<not> is_ok (claim clock action execution confirmation files reason now))"
proof -
  from submission_view_eq_Inr [OF assms(1)] assms(2) obtain at status where
    now: "clock now = Some at" and st: "status_of execution = Some status" and
    v: "jget v ''next_action'' = Some (JStr (submission_next clock action status at))" by auto
  have "submission_next clock action status at = ''EXECUTE''"
    if "is_ok (claim clock action execution confirmation files reason now)"
      and "status_of execution \<noteq> Some ''VERIFIED''"
  proof -
    from that obtain out where out: "claim clock action execution confirmation files reason now = Inr out"
      by (auto simp: is_ok_iff)
    with that(2) obtain t where "out = Execute t" using claim_cases(1) by (cases out) auto
    with out have "claim_authority clock action execution confirmation files reason now"
      by (simp add: claim_eq_Execute)
    then obtain g expiry where "status = ''PREPARED''" "jget action ''gate_expires_at'' = Some (JStr g)"
      "clock g = Some expiry" "at < expiry"
      using st now by (auto simp: claim_authority_def status_of_eq_Some)
    then show ?thesis by (simp add: submission_next_def jget_str_def timestamp_def)
  qed
  moreover have "\<not> is_ok (claim clock action execution confirmation files reason now)"
    if "status_of execution \<in> {Some ''EXECUTING'', Some ''RECONCILE_REQUIRED''}"
    using that by (auto simp: claim_def)
  ultimately show ?thesis using v st by (auto simp: submission_next_def)
qed

text \<open>A complete Action, for the evaluations at concrete inputs.\<close>

definition sample_clock :: rfc3339 where
  "sample_clock s = (if s = ''t0'' then Some 0 else if s = ''t9'' then Some 9 else None)"

definition sample_digest :: "char \<Rightarrow> string" where
  "sample_digest c = ''sha256:'' @ replicate 64 c"

definition sample_execution :: json where
  "sample_execution = JObj [(''revision'', JNum ''0''), (''status'', JStr ''PREPARED'')]"

definition sample_action :: json where
  "sample_action = JObj [(''action_id'', JStr ''action-0123456789abcdef''), (''ready'', JBool True),
     (''operation'', JStr ''SUBMIT_RUN''), (''gate_expires_at'', JStr ''t9''),
     (''scope'', JObj [(''project'', JStr ''demo'')]),
     (''intent_digest'', JStr (sample_digest CHR ''a'')),
     (''gate_bundle_digest'', JStr (sample_digest CHR ''b'')),
     (''execution_campaign_sha256'', JStr (sample_digest CHR ''c'')),
     (''execution_manifest_sha256'', JStr (sample_digest CHR ''d'')),
     (''run_id'', JStr ''train''), (''attempt_id'', JStr ''attempt-001''),
     (''execution'', sample_execution)]"

definition sample_files :: frozen_files where
  "sample_files = \<lparr>execution_campaign_sha256 = Some (sample_digest CHR ''c''),
     execution_manifest_sha256 = Some (sample_digest CHR ''d'')\<rparr>"

lemma sample_view: "is_ok (submission_view sample_clock sample_action ''t0'')"
  by code_simp

lemma sample_claim:
  "is_ok (claim sample_clock sample_action sample_execution ''EXECUTE action-0123456789abcdef''
     sample_files ''approved'' ''t0'')"
  by code_simp

theorem view_agrees_with_claim_witness:
  "\<exists>v. submission_view sample_clock sample_action ''t0'' = Inr v \<and>
     jget v ''next_action'' = Some (JStr ''EXECUTE'')"
proof -
  obtain v where v: "submission_view sample_clock sample_action ''t0'' = Inr v"
    using sample_view by (auto simp: is_ok_iff)
  have e: "jget sample_action ''execution'' = Some sample_execution" by code_simp
  have "status_of sample_execution \<noteq> Some ''VERIFIED''" by code_simp
  with view_agrees_with_claim [OF v e] sample_claim
  have "jget v ''next_action'' = Some (JStr ''EXECUTE'')" by blast
  with v show ?thesis by blast
qed

end
