(* ===== verification/RevisionCell.thy ===== *)
theory RevisionCell
  imports Main
begin

text \<open>
  Revisioned cells. The Action database and the project registry publish their state by
  compare-and-swap on a revision. This is the contract a writer relies on: a publication names the
  revision it was computed from, and it only succeeds on that revision, which it advances.
\<close>
locale revision_cell =
  fixes rev_of :: "'s \<Rightarrow> int"
    and base :: "'p \<Rightarrow> int option"
    and publish :: "'p \<Rightarrow> 's \<Rightarrow> 's option"
  assumes publish_base: "publish p s = Some s' \<Longrightarrow> base p = Some (rev_of s)"
    and publish_advances: "publish p s = Some s' \<Longrightarrow> rev_of s' = rev_of s + 1"
begin

text \<open>A refused publication leaves the cell as it was; \<open>winners\<close> are the accepted ones.\<close>

fun attempts :: "'p list \<Rightarrow> 's \<Rightarrow> 's" where
  "attempts [] s = s"
| "attempts (p # ps) s = attempts ps (case publish p s of Some s' \<Rightarrow> s' | None \<Rightarrow> s)"

fun winners :: "'p list \<Rightarrow> 's \<Rightarrow> 'p list" where
  "winners [] s = []"
| "winners (p # ps) s =
     (case publish p s of Some s' \<Rightarrow> p # winners ps s' | None \<Rightarrow> winners ps s)"

lemma winners_base_ge: "p \<in> set (winners ps s) \<Longrightarrow> \<exists>r. base p = Some r \<and> rev_of s \<le> r"
proof (induction ps s rule: winners.induct)
  case (1 s)
  then show ?case by simp
next
  case (2 q ps s)
  show ?case
  proof (cases "publish q s")
    case None
    with 2 show ?thesis by simp
  next
    case (Some s')
    then consider "p = q" | "p \<in> set (winners ps s')" using 2 by auto
    then show ?thesis
      using 2 Some publish_base [OF Some] publish_advances [OF Some] by cases fastforce+
  qed
qed

lemma winners_distinct: "distinct (map base (winners ps s))"
proof (induction ps s rule: winners.induct)
  case (1 s)
  then show ?case by simp
next
  case (2 q ps s)
  show ?case
  proof (cases "publish q s")
    case None
    with 2 show ?thesis by simp
  next
    case (Some s')
    have "base q \<notin> set (map base (winners ps s'))"
      using winners_base_ge [of _ ps s'] publish_base [OF Some] publish_advances [OF Some] by force
    with 2 Some show ?thesis by simp
  qed
qed

lemma attempts_revision: "rev_of (attempts ps s) = rev_of s + int (length (winners ps s))"
proof (induction ps s rule: winners.induct)
  case (1 s)
  then show ?case by simp
next
  case (2 q ps s)
  show ?case
  proof (cases "publish q s")
    case None
    with 2 show ?thesis by simp
  next
    case (Some s')
    with 2 publish_advances [OF Some] show ?thesis by simp
  qed
qed

end

end
