(* ===== verification/ActionStore.thy ===== *)
theory ActionStore
  imports Actions RevisionCell
begin

text \<open>
  The durable Action store: \<open>rust/crates/server/src/operations/database.rs\<close> (the SQLite rows and
  their compare-and-swap commit) and \<open>rust/crates/server/src/operations/store.rs\<close> (immutable plan
  files beside the rows, claims, recovery after a restart). Every operation runs under the
  exclusive \<open>.actions.lock\<close>, so operations are atomic with respect to each other; a crash may
  still stop one between two durable writes, and \<open>crash_points\<close> lists the states it can leave.

  A row's payload and a plan file hold JSON text; the model keeps the parsed value. The files and
  the marker that only establish that the database itself exists are not modelled.
\<close>

section \<open>State\<close>

datatype store_error =
    Decision action_error
  | InvalidRevision
  | NotFound
  | IdempotencyConflict
  | InvalidRecord string
  | Constraint

record event_row =
  event_action :: string
  event_key :: string
  event_revision :: int
  event_payload :: json

record database =
  executions :: "(string \<times> int \<times> json) list"
  events :: "event_row list"

text \<open>An Action directory is created before its \<open>plan.json\<close> is published.\<close>

record store =
  db :: database
  directories :: "(string \<times> json option) list"

definition empty_store :: store where
  "empty_store = \<lparr>db = \<lparr>executions = [], events = []\<rparr>, directories = []\<rparr>"

text \<open>A durable operation returns a result and leaves a state, also where it fails.\<close>

type_synonym 'a io = "store \<Rightarrow> (store_error + 'a) \<times> store"

definition io_bind :: "'a io \<Rightarrow> ('a \<Rightarrow> 'b io) \<Rightarrow> 'b io" where
  "io_bind m f s = (case m s of (Inl e, s') \<Rightarrow> (Inl e, s') | (Inr x, s') \<Rightarrow> f x s')"

definition io_lift :: "(store \<Rightarrow> store_error + 'a) \<Rightarrow> 'a io" where
  "io_lift f s = (f s, s)"

definition io_pure :: "store_error + 'a \<Rightarrow> 'a io" where
  "io_pure r s = (r, s)"

section \<open>Database\<close>

definition validated :: "string \<Rightarrow> store_error + unit" where
  "validated aid = map_err Decision (validate_action_id aid)"

definition read_transaction :: "database \<Rightarrow> string \<Rightarrow> store_error + json" where
  "read_transaction d aid =
     (case map_of (executions d) aid of
        None \<Rightarrow> Inr (JObj [])
      | Some (n, v) \<Rightarrow>
          if \<not> is_object v then Inl InvalidRevision
          else and_then (map_err Decision (revision v)) (\<lambda>r.
            if r \<noteq> n then Inl InvalidRevision else Inr v))"

definition db_read :: "database \<Rightarrow> string \<Rightarrow> store_error + json" where
  "db_read d aid = and_then (validated aid) (\<lambda>_. read_transaction d aid)"

definition db_observe :: "database \<Rightarrow> string \<Rightarrow> store_error + json" where
  "db_observe d aid =
     and_then (validated aid) (\<lambda>_.
     and_then (read_transaction d aid) (\<lambda>v.
       if v = JObj [] \<or> \<not> is_object v
       then Inl (InvalidRecord ''execution has not been committed'') else Inr v))"

definition admission_action_ids :: "database \<Rightarrow> store_error + string list" where
  "admission_action_ids d =
     foldr (\<lambda>aid rest. and_then (validated aid) (\<lambda>_. and_then rest (\<lambda>ids. Inr (aid # ids))))
       (sort (map fst (executions d))) (Inr [])"

text \<open>The upsert of the execution row, and the insert of the audit event with its two UNIQUE
  constraints; a violated constraint rolls the transaction back.\<close>

fun upsert :: "string \<Rightarrow> 'a \<Rightarrow> (string \<times> 'a) list \<Rightarrow> (string \<times> 'a) list" where
  "upsert k v [] = [(k, v)]"
| "upsert k v ((a, w) # m) = (if a = k then (k, v) # m else (a, w) # upsert k v m)"

definition event_conflict :: "event_row \<Rightarrow> event_row list \<Rightarrow> bool" where
  "event_conflict e es \<longleftrightarrow>
     list_ex (\<lambda>o'. event_action o' = event_action e \<and>
       (event_key o' = event_key e \<or> event_revision o' = event_revision e)) es"

definition db_commit ::
    "string \<Rightarrow> json \<Rightarrow> json \<Rightarrow> string option \<Rightarrow> string \<Rightarrow> database \<Rightarrow> store_error + json \<times> database" where
  "db_commit aid proposed event expected tid d =
     and_then (validated aid) (\<lambda>_.
     and_then (read_transaction d aid) (\<lambda>current.
     and_then (map_err Decision (commit_transition current proposed event expected tid)) (\<lambda>(execution, ev).
     and_then (map_err Decision (revision execution)) (\<lambda>n.
     let row = \<lparr>event_action = aid, event_key = ''transition:'' @ tid, event_revision = n, event_payload = ev\<rparr>
     in if event_conflict row (events d) then Inl Constraint
        else Inr (execution,
          \<lparr>executions = upsert aid (n, execution) (executions d), events = events d @ [row]\<rparr>)))))"

text \<open>The last \<open>limit\<close> events of an Action, oldest first.\<close>

definition db_journal :: "database \<Rightarrow> string \<Rightarrow> nat \<Rightarrow> store_error + json list" where
  "db_journal d aid limit =
     and_then (validated aid) (\<lambda>_.
     if limit \<ge> i64_limit then Inl (InvalidRecord ''journal limit'')
     else and_then (read_transaction d aid) (\<lambda>_.
       Inr (rev (take limit (rev (map event_payload (filter (\<lambda>e. event_action e = aid) (events d))))))))"

section \<open>Store\<close>

definition plan_of :: "string \<Rightarrow> store \<Rightarrow> store_error + json" where
  "plan_of aid s =
     and_then (validated aid) (\<lambda>_.
     case map_of (directories s) aid of
       None \<Rightarrow> Inl NotFound
     | Some None \<Rightarrow> Inl NotFound
     | Some (Some plan) \<Rightarrow>
         if \<not> is_object plan then Inl (InvalidRecord ''JSON object required'')
         else if jget_str plan ''action_id'' \<noteq> Some aid
         then Inl (InvalidRecord ''plan Action identity differs'') else Inr plan)"

definition store_commit ::
    "string \<Rightarrow> json \<Rightarrow> json \<Rightarrow> string option \<Rightarrow> string \<Rightarrow> json io" where
  "store_commit aid proposed event expected tid s =
     (case db_commit aid proposed event expected tid (db s) of
        Inl e \<Rightarrow> (Inl e, s)
      | Inr (execution, d) \<Rightarrow> (Inr execution, s\<lparr>db := d\<rparr>))"

definition prepared_event :: "json \<Rightarrow> string \<Rightarrow> json" where
  "prepared_event plan now =
     JObj [(''timestamp'', JStr now), (''event'', JStr ''action_prepared''),
       (''payload'', JObj [(''ready'', jopt (jget plan ''ready'')), (''operation'', jopt (jget plan ''operation''))])]"

definition execution_of :: "string \<Rightarrow> json \<Rightarrow> string \<Rightarrow> string \<Rightarrow> json io" where
  "execution_of aid plan now tid =
     io_bind (io_lift (\<lambda>s. db_read (db s) aid)) (\<lambda>execution.
       if is_object execution \<and> execution \<noteq> JObj [] then io_pure (Inr execution)
       else store_commit aid (initial_execution plan) (prepared_event plan now) None tid)"

definition snapshot_unlocked :: "string \<Rightarrow> string \<Rightarrow> string \<Rightarrow> json io" where
  "snapshot_unlocked aid now tid =
     io_bind (io_lift (plan_of aid)) (\<lambda>plan.
     io_bind (execution_of aid plan now tid) (\<lambda>execution.
     io_bind (io_lift (\<lambda>s. db_journal (db s) aid 100)) (\<lambda>journal.
     io_bind (io_pure (ok_or (as_object plan) (InvalidRecord ''plan''))) (\<lambda>m.
       io_pure (Inr (JObj (obj_insert ''journal'' (JArr journal)
         (obj_insert ''execution'' execution m))))))))"

definition store_observe :: "string \<Rightarrow> json io" where
  "store_observe aid =
     io_bind (io_lift (plan_of aid)) (\<lambda>plan.
     if jget_str plan ''action_id'' \<noteq> Some aid
     then io_pure (Inl (InvalidRecord ''plan Action identity mismatch''))
     else io_bind (io_lift (\<lambda>s. db_observe (db s) aid)) (\<lambda>execution.
       io_bind (io_pure (ok_or (as_object plan) (InvalidRecord ''plan''))) (\<lambda>m.
         io_pure (Inr (JObj (obj_insert ''execution'' execution m))))))"

text \<open>The two durable writes of \<open>save_plan\<close>: the directory, then the plan file.\<close>

definition make_directory :: "string \<Rightarrow> store \<Rightarrow> store" where
  "make_directory aid s =
     (if map_of (directories s) aid = None
      then s\<lparr>directories := upsert aid None (directories s)\<rparr> else s)"

definition publish_plan :: "string \<Rightarrow> json \<Rightarrow> store \<Rightarrow> store" where
  "publish_plan aid plan s = s\<lparr>directories := upsert aid (Some plan) (directories s)\<rparr>"

definition save_plan :: "json \<Rightarrow> string \<Rightarrow> string \<Rightarrow> json io" where
  "save_plan plan now tid =
     io_bind (io_pure (ok_or (jget_str plan ''action_id'') (InvalidRecord ''action_id''))) (\<lambda>aid.
     io_bind (io_pure (validated aid)) (\<lambda>_ s.
     let s' = make_directory aid s in
     case map_of (directories s') aid of
       Some (Some existing) \<Rightarrow>
         if \<not> is_object existing then (Inl (InvalidRecord ''JSON object required''), s')
         else if \<not> opt_jeq (jget existing ''request_digest'') (jget plan ''request_digest'')
         then (Inl IdempotencyConflict, s')
         else snapshot_unlocked aid now tid s'
     | _ \<Rightarrow> snapshot_unlocked aid now tid (publish_plan aid plan s')))"

definition apply_transition :: "string \<Rightarrow> transition_record \<Rightarrow> string \<Rightarrow> unit io" where
  "apply_transition aid t tid =
     io_bind (store_commit aid (next_execution t) (audit_event t) (expected_status t) tid)
       (\<lambda>_. io_pure (Inr ()))"

definition commit_outcome :: "string \<Rightarrow> transition_record \<Rightarrow> string \<Rightarrow> string \<Rightarrow> json io" where
  "commit_outcome aid t tid now =
     io_bind (apply_transition aid t tid) (\<lambda>_. snapshot_unlocked aid now tid)"

record claimed =
  claimed_snapshot :: json
  execute :: bool

definition bootstrap_id :: "(string \<Rightarrow> string) \<Rightarrow> string \<Rightarrow> string \<Rightarrow> string" where
  "bootstrap_id sha aid tid = take 32 (sha (''bootstrap:'' @ aid @ '':'' @ tid))"

definition claim_action ::
    "(string \<Rightarrow> string) \<Rightarrow> rfc3339 \<Rightarrow> string \<Rightarrow> string \<Rightarrow> frozen_files \<Rightarrow> string \<Rightarrow> string \<Rightarrow> string
     \<Rightarrow> claimed io" where
  "claim_action sha clock aid confirmation files now tid reason =
     io_bind (snapshot_unlocked aid now (bootstrap_id sha aid tid)) (\<lambda>snapshot.
     io_bind (io_pure (map_err Decision
         (claim clock snapshot (jidx snapshot ''execution'') confirmation files reason now))) (\<lambda>outcome.
     case outcome of
       AlreadyVerified \<Rightarrow> io_pure (Inr \<lparr>claimed_snapshot = snapshot, execute = False\<rparr>)
     | Execute t \<Rightarrow>
         io_bind (apply_transition aid t tid) (\<lambda>_.
         io_bind (snapshot_unlocked aid now tid) (\<lambda>snapshot'.
           io_pure (Inr \<lparr>claimed_snapshot = snapshot', execute = True\<rparr>)))))"

section \<open>Listing and recovery\<close>

definition scope_json :: "scope \<Rightarrow> json" where
  "scope_json sc = JObj [(''project'', JStr (scope_project sc)),
     (''scope_type'', JStr (scope_type_name (scope_kind sc))), (''object_id'', JStr (scope_object_id sc))]"

definition directory_ids :: "store \<Rightarrow> string list" where
  "directory_ids s = sort (filter (\<lambda>n. is_ok (validate_action_id n)) (map fst (directories s)))"

fun list_ids :: "json option \<Rightarrow> string \<Rightarrow> string \<Rightarrow> string list \<Rightarrow> json list io" where
  "list_ids expected now tid [] = io_pure (Inr [])"
| "list_ids expected now tid (aid # ids) = (\<lambda>s.
     case plan_of aid s of
       Inl NotFound \<Rightarrow> list_ids expected now tid ids s
     | Inl e \<Rightarrow> (Inl e, s)
     | Inr plan \<Rightarrow>
         if expected \<noteq> None \<and> \<not> opt_jeq (jget plan ''scope'') expected
         then list_ids expected now tid ids s
         else io_bind (snapshot_unlocked aid now tid) (\<lambda>item.
              io_bind (list_ids expected now tid ids) (\<lambda>items. io_pure (Inr (item # items)))) s)"

definition list_unlocked :: "scope option \<Rightarrow> string \<Rightarrow> string \<Rightarrow> json list io" where
  "list_unlocked sc now tid s =
     list_ids (map_option scope_json sc) now tid (directory_ids s) s"

definition has_scope_history :: "scope \<Rightarrow> bool io" where
  "has_scope_history sc =
     io_bind (io_lift (\<lambda>s. admission_action_ids (db s))) (\<lambda>committed s.
       (let ids = remdups (sort (committed @ directory_ids s)) in
        foldr (\<lambda>aid rest. and_then (plan_of aid s) (\<lambda>plan. and_then rest (\<lambda>b.
            Inr (opt_jeq (jget plan ''scope'') (Some (scope_json sc)) \<or> b)))) ids (Inr False), s))"

fun recover_items :: "rfc3339 \<Rightarrow> string \<Rightarrow> string \<Rightarrow> json list \<Rightarrow> json list io" where
  "recover_items clock now tid [] = io_pure (Inr [])"
| "recover_items clock now tid (snapshot # rest) =
     io_bind (io_pure (map_err Decision (interrupted clock (jidx snapshot ''execution'') now))) (\<lambda>o'.
     case o' of
       None \<Rightarrow> recover_items clock now tid rest
     | Some t \<Rightarrow>
         io_bind (io_pure (ok_or (jget_str snapshot ''action_id'') (InvalidRecord ''action_id''))) (\<lambda>aid.
         io_bind (apply_transition aid t tid) (\<lambda>_.
         io_bind (snapshot_unlocked aid now tid) (\<lambda>item.
         io_bind (recover_items clock now tid rest) (\<lambda>items. io_pure (Inr (item # items)))))))"

definition recover_interrupted :: "rfc3339 \<Rightarrow> string \<Rightarrow> string \<Rightarrow> json list io" where
  "recover_interrupted clock now tid =
     io_bind (list_unlocked None now tid) (recover_items clock now tid)"

section \<open>The commit\<close>

lemma map_of_upsert [simp]: "map_of (upsert k v m) = (map_of m)(k \<mapsto> v)"
  by (induction k v m rule: upsert.induct) (auto simp: fun_eq_iff)

lemma read_transaction_eq_Inr:
  "read_transaction d aid = Inr v \<longleftrightarrow>
   (map_of (executions d) aid = None \<and> v = JObj []) \<or>
   (\<exists>n. map_of (executions d) aid = Some (n, v) \<and> is_object v \<and> revision v = Inr n)"
  by (auto simp: read_transaction_def res_simps split: option.splits prod.splits if_splits)

lemma db_commit_effect:
  assumes "db_commit aid proposed event expected tid d = Inr (ex, d')"
  obtains current n ev where "read_transaction d aid = Inr current" "revision current = Inr n"
    "revision ex = Inr (n + 1)" "status_of ex = status_of proposed" "is_object ex"
    "\<forall>x. expected = Some x \<longrightarrow> status_of current = Some x"
    "Option.bind (jget proposed ''revision'') as_i64 = Some n"
    "d' = \<lparr>executions = upsert aid (n + 1, ex) (executions d),
           events = events d @ [\<lparr>event_action = aid, event_key = ''transition:'' @ tid,
             event_revision = n + 1, event_payload = ev\<rparr>]\<rparr>"
proof -
  from assms obtain current ev m where c: "read_transaction d aid = Inr current"
    "commit_transition current proposed event expected tid = Inr (ex, ev)" "revision ex = Inr m"
    "d' = \<lparr>executions = upsert aid (m, ex) (executions d),
           events = events d @ [\<lparr>event_action = aid, event_key = ''transition:'' @ tid,
             event_revision = m, event_payload = ev\<rparr>]\<rparr>"
    by (auto simp: db_commit_def res_simps Let_def split: if_splits)
  from c(2) obtain n where n: "revision current = Inr n" "revision ex = Inr (n + 1)"
    using commit_transition_effect(1) by blast
  moreover have "Option.bind (jget proposed ''revision'') as_i64 = Some n"
    using c(2) n(1) by (auto simp: commit_transition_eq_Inr)
  ultimately show ?thesis
    using that [of current n ev] c commit_transition_effect [OF c(2)] by simp
qed

lemma store_commit_cases:
  assumes "store_commit aid proposed event expected tid s = (r, s')"
  obtains (refused) e where "r = Inl e" "s' = s"
    | (committed) ex d' where "r = Inr ex" "s' = s\<lparr>db := d'\<rparr>"
      "db_commit aid proposed event expected tid (db s) = Inr (ex, d')"
  using assms by (auto simp: store_commit_def split: sum.splits)

text \<open>The database is a revisioned cell for every Action: a proposal carries the revision it read.\<close>

record proposal =
  proposed_execution :: json
  proposed_event :: json
  proposed_expected :: "string option"
  proposed_tid :: string

definition db_revision :: "string \<Rightarrow> database \<Rightarrow> int" where
  "db_revision aid d =
     (case and_then (read_transaction d aid) (\<lambda>v. map_err Decision (revision v)) of
        Inr n \<Rightarrow> n | Inl _ \<Rightarrow> 0)"

definition db_publish :: "string \<Rightarrow> proposal \<Rightarrow> database \<Rightarrow> database option" where
  "db_publish aid p d =
     map_option snd (ok (db_commit aid (proposed_execution p) (proposed_event p)
       (proposed_expected p) (proposed_tid p) d))"

definition db_base :: "proposal \<Rightarrow> int option" where
  "db_base p = Option.bind (jget (proposed_execution p) ''revision'') as_i64"

lemma db_publish_revision:
  assumes "db_publish aid p d = Some d'"
  shows "db_base p = Some (db_revision aid d)" "db_revision aid d' = db_revision aid d + 1"
proof -
  from assms obtain ex where "db_commit aid (proposed_execution p) (proposed_event p)
       (proposed_expected p) (proposed_tid p) d = Inr (ex, d')"
    by (auto simp: db_publish_def ok_eq_Some)
  then show "db_base p = Some (db_revision aid d)" "db_revision aid d' = db_revision aid d + 1"
    by (auto simp: db_base_def db_revision_def read_transaction_def elim!: db_commit_effect)
qed

interpretation action_cell: revision_cell "db_revision aid" db_base "db_publish aid" for aid
  by unfold_locales (fact db_publish_revision)+

fun db_commits :: "string \<Rightarrow> proposal list \<Rightarrow> database \<Rightarrow> proposal list \<times> database" where
  "db_commits aid [] d = ([], d)"
| "db_commits aid (p # ps) d =
     (case db_publish aid p d of
        None \<Rightarrow> db_commits aid ps d
      | Some d' \<Rightarrow> (case db_commits aid ps d' of (accepted, d'') \<Rightarrow> (p # accepted, d'')))"

lemma db_commits_cell:
  "db_commits aid ps d = (action_cell.winners aid ps d, action_cell.attempts aid ps d)"
  by (induction ps arbitrary: d) (auto split: option.splits prod.splits)

text \<open>C24. No update is lost and no revision is decided twice: of any sequence of commits to one
  Action, however stale, at most one is accepted per proposed revision, and the revision of the row
  advances by exactly the number of accepted commits.\<close>

theorem commits_are_compare_and_swap:
  "distinct (map db_base (fst (db_commits aid ps d))) \<and>
   db_revision aid (snd (db_commits aid ps d)) =
     db_revision aid d + int (length (fst (db_commits aid ps d)))"
  by (simp add: db_commits_cell action_cell.winners_distinct action_cell.attempts_revision)

section \<open>At most one grant\<close>

text \<open>A property of the state that an operation keeps, whatever it answers.\<close>

definition stable :: "(store \<Rightarrow> bool) \<Rightarrow> 'a io \<Rightarrow> bool" where
  "stable P m \<longleftrightarrow> (\<forall>s. P s \<longrightarrow> P (snd (m s)))"

named_theorems stable_intros "operations that keep a property of the store"

lemma stableD: "stable P m \<Longrightarrow> P s \<Longrightarrow> P (snd (m s))"
  by (simp add: stable_def)

lemma stable_bind [stable_intros]:
  "stable P m \<Longrightarrow> (\<And>x. stable P (f x)) \<Longrightarrow> stable P (io_bind m f)"
  by (auto simp: stable_def io_bind_def split: prod.splits sum.splits)

lemma stable_pure_bind:
  "(\<And>x. r = Inr x \<Longrightarrow> stable P (f x)) \<Longrightarrow> stable P (io_bind (io_pure r) f)"
  by (auto simp: stable_def io_bind_def io_pure_def split: sum.splits)

lemma stable_lift [stable_intros]: "stable P (io_lift f)"
  by (simp add: stable_def io_lift_def)

lemma stable_pure [stable_intros]: "stable P (io_pure r)"
  by (simp add: stable_def io_pure_def)

lemma stable_if [stable_intros]: "stable P m \<Longrightarrow> stable P n \<Longrightarrow> stable P (if b then m else n)"
  by simp

text \<open>Operations that only bootstrap rows and add plan files keep what those two writes keep.\<close>

definition keeps_bootstrap :: "(store \<Rightarrow> bool) \<Rightarrow> bool" where
  "keeps_bootstrap P \<longleftrightarrow>
     (\<forall>aid plan now tid. stable P (execution_of aid plan now tid)) \<and>
     (\<forall>aid s. P s \<longrightarrow> P (make_directory aid s)) \<and>
     (\<forall>aid plan s. P s \<longrightarrow> P (publish_plan aid plan s))"

lemma stable_snapshot [stable_intros]:
  "keeps_bootstrap P \<Longrightarrow> stable P (snapshot_unlocked aid now tid)"
  unfolding snapshot_unlocked_def by (intro stable_intros) (simp add: keeps_bootstrap_def)

lemma stable_save_plan [stable_intros]:
  assumes "keeps_bootstrap P"
  shows "stable P (save_plan plan now tid)"
  unfolding save_plan_def
proof (intro stable_intros)
  fix aid and x :: unit
  have "P (snd (snapshot_unlocked aid now tid s))" if "P s" for s
    using stable_snapshot [OF assms] that by (rule stableD)
  moreover have "P (make_directory aid s)" "P (publish_plan aid plan (make_directory aid s))"
    if "P s" for s
    using assms that by (simp_all add: keeps_bootstrap_def)
  ultimately show "stable P (\<lambda>s. let s' = make_directory aid s in
     case map_of (directories s') aid of
       Some (Some existing) \<Rightarrow>
         if \<not> is_object existing then (Inl (InvalidRecord ''JSON object required''), s')
         else if \<not> opt_jeq (jget existing ''request_digest'') (jget plan ''request_digest'')
         then (Inl IdempotencyConflict, s')
         else snapshot_unlocked aid now tid s'
     | _ \<Rightarrow> snapshot_unlocked aid now tid (publish_plan aid plan s'))"
    by (auto simp: stable_def Let_def split: option.splits)
qed

lemma stable_list_ids [stable_intros]:
  assumes "keeps_bootstrap P"
  shows "stable P (list_ids expected now tid ids)"
proof (induction ids)
  case Nil
  then show ?case by (simp add: stable_pure)
next
  case (Cons aid ids)
  have item: "stable P (io_bind (snapshot_unlocked aid now tid) (\<lambda>item.
      io_bind (list_ids expected now tid ids) (\<lambda>items. io_pure (Inr (item # items)))))"
    using assms Cons by (intro stable_intros)
  show ?case
    using stableD [OF item] stableD [OF Cons]
    by (auto simp: stable_def split: sum.splits store_error.splits)
qed

lemma stable_list [stable_intros]: "keeps_bootstrap P \<Longrightarrow> stable P (list_unlocked sc now tid)"
  unfolding list_unlocked_def stable_def by (blast intro: stableD stable_list_ids)

text \<open>The statuses that hold an execution intent or its verified effect.\<close>

definition spent_status :: "string option \<Rightarrow> bool" where
  "spent_status st \<longleftrightarrow> st \<in> {Some ''EXECUTING'', Some ''RECONCILE_REQUIRED'', Some ''VERIFIED''}"

definition spent :: "string \<Rightarrow> store \<Rightarrow> bool" where
  "spent aid s \<longleftrightarrow>
     (case map_of (executions (db s)) aid of
        None \<Rightarrow> False | Some (_, v) \<Rightarrow> spent_status (status_of v))"

lemma spent_read:
  "spent aid s \<Longrightarrow> read_transaction (db s) aid = Inr v \<Longrightarrow> spent_status (status_of v) \<and> v \<noteq> JObj [] \<and> is_object v"
  by (auto simp: spent_def read_transaction_eq_Inr spent_status_def status_of_eq_Some is_object_def)

lemma spent_store_commit:
  assumes "spent aid s" "store_commit aid' p e x tid s = (r, s')"
    and "aid = aid' \<Longrightarrow> spent_status (status_of p) \<or> (\<exists>y. x = Some y \<and> \<not> spent_status (Some y))"
  shows "spent aid s'"
  using assms(2)
proof (cases rule: store_commit_cases)
  case refused
  with assms(1) show ?thesis by simp
next
  case (committed ex d')
  from committed(3) obtain current n ev where c: "read_transaction (db s) aid' = Inr current"
    "status_of ex = status_of p" "\<forall>y. x = Some y \<longrightarrow> status_of current = Some y"
    "executions d' = upsert aid' (n + 1, ex) (executions (db s))"
    by (rule db_commit_effect) auto
  show ?thesis
  proof (cases "aid = aid'")
    case True
    with c assms(1,3) spent_read [of aid s current] have "spent_status (status_of p)" by auto
    with True c committed show ?thesis by (simp add: spent_def)
  next
    case False
    with c committed assms(1) show ?thesis by (simp add: spent_def)
  qed
qed

lemma spent_bootstrap: "keeps_bootstrap (spent aid)"
proof -
  have "stable (spent aid) (execution_of aid' plan now tid)" for aid' plan now tid
  proof -
    have "spent aid (snd (execution_of aid' plan now tid s))" if s: "spent aid s" for s
    proof (cases "db_read (db s) aid'")
      case (Inl e)
      with s show ?thesis by (simp add: execution_of_def io_bind_def io_lift_def)
    next
      case (Inr v)
      then have v: "read_transaction (db s) aid' = Inr v" by (auto simp: db_read_def res_simps)
      show ?thesis
      proof (cases "is_object v \<and> v \<noteq> JObj []")
        case True
        with Inr s show ?thesis by (simp add: execution_of_def io_bind_def io_lift_def io_pure_def)
      next
        case False
        with spent_read [OF s] v have "aid \<noteq> aid'" by auto
        then have "spent aid (snd (store_commit aid' (initial_execution plan)
            (prepared_event plan now) None tid s))"
          by (intro spent_store_commit [OF s prod.collapse [symmetric]]) simp
        with Inr False show ?thesis by (auto simp: execution_of_def io_bind_def io_lift_def)
      qed
    qed
    then show ?thesis by (simp add: stable_def)
  qed
  then show ?thesis
    by (simp add: keeps_bootstrap_def make_directory_def publish_plan_def spent_def)
qed

text \<open>What an executor may commit: the outcome of an intent that exists.\<close>

definition is_outcome :: "transition_record \<Rightarrow> bool" where
  "is_outcome t \<longleftrightarrow>
     expected_status t \<in> {Some ''EXECUTING'', Some ''RECONCILE_REQUIRED''} \<and>
     status_of (next_execution t) \<in> {Some ''VERIFIED'', Some ''RECONCILE_REQUIRED''}"

lemma spent_apply:
  assumes "spent_status (status_of (next_execution t)) \<or> expected_status t = Some ''PREPARED''"
  shows "stable (spent aid) (apply_transition aid' t tid)"
proof -
  have "spent aid (snd (store_commit aid' (next_execution t) (audit_event t) (expected_status t) tid s))"
    if "spent aid s" for s
    by (rule spent_store_commit [OF that prod.collapse [symmetric]])
      (use assms in \<open>auto simp: spent_status_def\<close>)
  then have "stable (spent aid) (store_commit aid' (next_execution t) (audit_event t) (expected_status t) tid)"
    by (simp add: stable_def)
  then show ?thesis unfolding apply_transition_def by (intro stable_intros)
qed

lemma interrupted_is_outcome:
  "interrupted clock execution now = Inr (Some t) \<Longrightarrow> is_outcome t"
  by (auto simp: is_outcome_def interrupted_eq_Some)

lemma is_outcome_spent: "is_outcome t \<Longrightarrow> spent_status (status_of (next_execution t))"
  by (auto simp: is_outcome_def spent_status_def)

lemma spent_claim: "stable (spent aid) (claim_action sha clock aid' conf files now tid reason)"
  unfolding claim_action_def
proof (rule stable_bind [OF stable_snapshot [OF spent_bootstrap]], rule stable_pure_bind)
  fix snapshot outcome
  assume c: "map_err Decision (claim clock snapshot (jidx snapshot ''execution'') conf files reason now)
      = Inr outcome"
  show "stable (spent aid) (case outcome of
       AlreadyVerified \<Rightarrow> io_pure (Inr \<lparr>claimed_snapshot = snapshot, execute = False\<rparr>)
     | Execute t \<Rightarrow>
         io_bind (apply_transition aid' t tid) (\<lambda>_.
         io_bind (snapshot_unlocked aid' now tid) (\<lambda>snapshot'.
           io_pure (Inr \<lparr>claimed_snapshot = snapshot', execute = True\<rparr>))))"
  proof (cases outcome)
    case AlreadyVerified
    then show ?thesis by (simp add: stable_pure)
  next
    case (Execute t)
    with c have "spent_status (status_of (next_execution t))"
      by (auto simp: res_simps spent_status_def dest: claim_granted_transition(2))
    then have "stable (spent aid) (apply_transition aid' t tid)" by (intro spent_apply disjI1)
    with Execute show ?thesis by (auto intro!: stable_intros spent_bootstrap)
  qed
qed

lemma spent_recover_items: "stable (spent aid) (recover_items clock now tid items)"
proof (induction items)
  case Nil
  then show ?case by (simp add: stable_pure)
next
  case (Cons snapshot items)
  show ?case
    unfolding recover_items.simps
  proof (rule stable_pure_bind)
    fix o'
    assume "map_err Decision (interrupted clock (jidx snapshot ''execution'') now) = Inr o'"
    then have "stable (spent aid) (apply_transition aid' t tid)" if "o' = Some t" for aid' t
      using that by (auto simp: res_simps intro!: spent_apply is_outcome_spent interrupted_is_outcome)
    then show "stable (spent aid) (case o' of
       None \<Rightarrow> recover_items clock now tid items
     | Some t \<Rightarrow>
         io_bind (io_pure (ok_or (jget_str snapshot ''action_id'') (InvalidRecord ''action_id''))) (\<lambda>aid.
         io_bind (apply_transition aid t tid) (\<lambda>_.
         io_bind (snapshot_unlocked aid now tid) (\<lambda>item.
         io_bind (recover_items clock now tid items) (\<lambda>items. io_pure (Inr (item # items)))))))"
      using Cons by (auto intro!: stable_intros spent_bootstrap split: option.split)
  qed
qed

lemma io_bind_Inr:
  "io_bind m f s = (Inr y, s') \<longleftrightarrow> (\<exists>x s1. m s = (Inr x, s1) \<and> f x s1 = (Inr y, s'))"
  by (auto simp: io_bind_def split: prod.splits sum.splits)

lemma store_commit_spent:
  assumes "store_commit aid p e (Some x) tid s = (Inr ex, s')" "\<not> spent_status (Some x)"
  shows "\<not> spent aid s" and "spent aid s' \<longleftrightarrow> spent_status (status_of p)"
proof -
  from assms(1) obtain current n d' where c: "read_transaction (db s) aid = Inr current"
    "status_of ex = status_of p" "status_of current = Some x" "s' = s\<lparr>db := d'\<rparr>"
    "executions d' = upsert aid (n + 1, ex) (executions (db s))"
    by (auto elim!: store_commit_cases db_commit_effect)
  show "\<not> spent aid s" using c assms(2) spent_read [of aid s current] by auto
  show "spent aid s' \<longleftrightarrow> spent_status (status_of p)" using c by (simp add: spent_def)
qed

lemma spent_snapshot:
  "snapshot_unlocked aid' now tid s = (r, s') \<Longrightarrow> spent aid s \<Longrightarrow> spent aid s'"
  using stableD [OF stable_snapshot [OF spent_bootstrap], of aid s aid' now tid] by simp

text \<open>A granted claim finds the Action unspent and leaves it spent.\<close>

lemma grant_spends:
  assumes "claim_action sha clock aid conf files now tid reason s = (Inr c, s')" "execute c"
  shows "\<not> spent aid s" "spent aid s'"
proof -
  from assms(1) obtain snapshot s1 outcome where
    snap: "snapshot_unlocked aid now (bootstrap_id sha aid tid) s = (Inr snapshot, s1)" and
    out: "claim clock snapshot (jidx snapshot ''execution'') conf files reason now = Inr outcome" and
    rest: "(case outcome of
       AlreadyVerified \<Rightarrow> io_pure (Inr \<lparr>claimed_snapshot = snapshot, execute = False\<rparr>)
     | Execute t \<Rightarrow>
         io_bind (apply_transition aid t tid) (\<lambda>_.
         io_bind (snapshot_unlocked aid now tid) (\<lambda>snapshot'.
           io_pure (Inr \<lparr>claimed_snapshot = snapshot', execute = True\<rparr>)))) s1 = (Inr c, s')"
    by (auto simp: claim_action_def io_bind_Inr io_pure_def res_simps)
  from rest assms(2) obtain t where t: "outcome = Execute t"
    by (cases outcome) (auto simp: io_pure_def)
  note c = out [unfolded t]
  from rest [unfolded t] obtain u s2 v where
    ap: "store_commit aid (next_execution t) (audit_event t) (expected_status t) tid s1 = (Inr u, s2)" and
    last: "snapshot_unlocked aid now tid s2 = (Inr v, s')"
    by (auto simp: apply_transition_def io_bind_Inr io_pure_def)
  have g: "expected_status t = Some ''PREPARED''" "spent_status (status_of (next_execution t))"
    using claim_granted_transition [OF c] by (simp_all add: spent_status_def)
  have np: "\<not> spent_status (Some ''PREPARED'')" by (simp add: spent_status_def)
  note cs = store_commit_spent [OF ap [unfolded g(1)] np]
  show "\<not> spent aid s"
    using cs(1) spent_snapshot [OF snap] by blast
  show "spent aid s'"
    using cs(2) g(2) spent_snapshot [OF last] by blast
qed

section \<open>Histories\<close>

text \<open>One step of the service: an operation that ran to its end or was stopped by a crash at one
  of its durable writes. The label is the Action whose execution the step granted to its caller.
  A claim that committed but whose answer was lost is an unanswered claim.\<close>

inductive store_step :: "(string \<Rightarrow> string) \<Rightarrow> rfc3339 \<Rightarrow> store \<Rightarrow> string option \<Rightarrow> store \<Rightarrow> bool"
  for sha :: "string \<Rightarrow> string" and clock :: rfc3339 where
  granted: "claim_action sha clock aid conf files now tid reason s = (Inr c, s') \<Longrightarrow> execute c \<Longrightarrow>
      store_step sha clock s (Some aid) s'"
| claim_unanswered: "store_step sha clock s None (snd (claim_action sha clock aid conf files now tid reason s))"
| snapshot: "store_step sha clock s None (snd (snapshot_unlocked aid now tid s))"
| save: "store_step sha clock s None (snd (save_plan plan now tid s))"
| save_crash_directory: "store_step sha clock s None (make_directory aid s)"
| save_crash_plan: "map_of (directories s) aid \<in> {None, Some None} \<Longrightarrow>
      store_step sha clock s None (publish_plan aid plan (make_directory aid s))"
| outcome: "is_outcome t \<Longrightarrow> store_step sha clock s None (snd (commit_outcome aid t tid now s))"
| listing: "store_step sha clock s None (snd (list_unlocked sc now tid s))"
| recover: "store_step sha clock s None (snd (recover_interrupted clock now tid s))"
| recover_crash: "store_step sha clock s None
      (snd (io_bind (list_unlocked sc now tid)
        (\<lambda>items. recover_items clock now tid (take k items)) s))"

inductive history :: "(string \<Rightarrow> string) \<Rightarrow> rfc3339 \<Rightarrow> store \<Rightarrow> string option list \<Rightarrow> store \<Rightarrow> bool"
  for sha :: "string \<Rightarrow> string" and clock :: rfc3339 where
  start: "history sha clock s [] s"
| step: "store_step sha clock s l s' \<Longrightarrow> history sha clock s' ls s'' \<Longrightarrow>
      history sha clock s (l # ls) s''"

inductive_cases history_ConsE: "history sha clock s (l # ls) s'"

lemma spent_step:
  assumes "store_step sha clock s l s'"
  shows "spent aid s \<longrightarrow> spent aid s'" and "l = Some aid \<longrightarrow> \<not> spent aid s \<and> spent aid s'"
proof -
  note boot = spent_bootstrap [of aid]
  show "spent aid s \<longrightarrow> spent aid s'"
    using assms
  proof cases
    case (granted aid' conf files now tid reason c)
    then show ?thesis using stableD [OF spent_claim, of aid s sha clock aid' conf files now tid reason] by auto
  next
    case (save_crash_directory aid')
    then show ?thesis using boot by (simp add: keeps_bootstrap_def)
  next
    case (save_crash_plan aid')
    then show ?thesis using boot by (simp add: keeps_bootstrap_def)
  next
    case (outcome t aid' tid now)
    have "stable (spent aid) (commit_outcome aid' t tid now)"
      unfolding commit_outcome_def
      by (intro stable_bind stable_snapshot boot spent_apply disjI1 is_outcome_spent outcome)
    with outcome show ?thesis by (auto dest: stableD)
  next
    case (recover now tid)
    have "stable (spent aid) (recover_interrupted clock now tid)"
      unfolding recover_interrupted_def by (intro stable_bind stable_list boot spent_recover_items)
    with recover show ?thesis by (auto dest: stableD)
  next
    case (recover_crash sc now tid k)
    have "stable (spent aid) (io_bind (list_unlocked sc now tid)
        (\<lambda>items. recover_items clock now tid (take k items)))"
      by (intro stable_bind stable_list boot spent_recover_items)
    with recover_crash show ?thesis by (auto dest: stableD)
  qed (auto intro: stableD spent_claim stable_snapshot stable_save_plan stable_list boot)
  show "l = Some aid \<longrightarrow> \<not> spent aid s \<and> spent aid s'"
    using assms by cases (auto dest: grant_spends)
qed

text \<open>C1. One execution per Action. Whatever sequence of saves, snapshots, claims, outcome commits,
  listings, restarts and crashes the store goes through, at most one claim of an Action is ever
  answered with permission to execute, and none once the Action holds an execution intent; after a
  grant the Action holds one for good.\<close>

theorem at_most_one_grant:
  assumes "history sha clock s ls s'"
  shows "count_list ls (Some aid) \<le> (if spent aid s then 0 else 1) \<and>
    (spent aid s \<or> Some aid \<in> set ls \<longrightarrow> spent aid s')"
  using assms
proof induction
  case (start s)
  then show ?case by simp
next
  case (step s l s1 ls s2)
  show ?case
    using spent_step [OF step(1), of aid] step.IH by (auto split: if_splits)
qed

section \<open>The audit trail\<close>

text \<open>What every database commit and every directory write keeps, every step keeps.\<close>

lemma step_keeps:
  assumes "store_step sha clock s l s'" "P s"
    and commit: "\<And>aid p e x tid. stable P (store_commit aid p e x tid)"
    and directory: "\<And>aid s. P s \<Longrightarrow> P (make_directory aid s)"
      "\<And>aid plan s. P s \<Longrightarrow> P (publish_plan aid plan s)"
  shows "P s'"
proof -
  have boot: "keeps_bootstrap P"
    unfolding keeps_bootstrap_def execution_of_def using directory by (auto intro!: stable_intros commit)
  have ap: "stable P (apply_transition aid t tid)" for aid t tid
    unfolding apply_transition_def by (intro stable_intros commit)
  have cl: "stable P (claim_action sha clock aid conf files now tid reason)"
    for aid conf files now tid reason
    unfolding claim_action_def
    by (intro stable_intros boot) (auto split: claim_outcome.splits intro!: stable_intros boot ap)
  have items: "stable P (recover_items clock now tid xs)" for now tid xs
    by (induction xs) (auto split: option.splits intro!: stable_intros boot ap)
  have rc: "stable P (io_bind (list_unlocked sc now tid) (\<lambda>items. recover_items clock now tid (f items)))"
    for sc now tid f
    by (intro stable_intros boot items)
  show ?thesis
    using assms(1)
  proof cases
    case (granted aid conf files now tid reason c)
    then show ?thesis using stableD [OF cl, of s aid conf files now tid reason] assms(2) by simp
  next
    case (save plan now tid)
    then show ?thesis using stableD [OF stable_save_plan [OF boot]] assms(2) by simp
  next
    case (outcome t aid tid now)
    have "stable P (commit_outcome aid t tid now)"
      unfolding commit_outcome_def by (intro stable_intros boot ap)
    with outcome assms(2) show ?thesis by (auto dest: stableD)
  next
    case (recover now tid)
    then show ?thesis
      using stableD [OF rc [of None now tid "\<lambda>x. x"] assms(2)] by (simp add: recover_interrupted_def)
  next
    case (recover_crash sc now tid k)
    then show ?thesis using stableD [OF rc [of sc now tid "take k"] assms(2)] by simp
  qed (use assms(2) directory boot cl in \<open>auto dest: stableD intro: stableD stable_snapshot stable_list\<close>)
qed

definition action_events :: "string \<Rightarrow> database \<Rightarrow> int list" where
  "action_events aid d = map event_revision (filter (\<lambda>e. event_action e = aid) (events d))"

definition audited :: "string \<Rightarrow> database \<Rightarrow> bool" where
  "audited aid d \<longleftrightarrow>
     (case map_of (executions d) aid of
        None \<Rightarrow> action_events aid d = []
      | Some (n, v) \<Rightarrow> 1 \<le> n \<and> is_object v \<and> revision v = Inr n \<and> action_events aid d = [1..n])"

lemma upto_snoc: "0 \<le> n \<Longrightarrow> [1..n + 1] = [1..n] @ [n + 1 :: int]"
  using upto_rec2 [of 1 "n + 1"] by simp

lemma audited_commit: "stable (\<lambda>s. audited aid (db s)) (store_commit aid' p e x tid)"
proof -
  have "audited aid (db s')" if a: "audited aid (db s)" and c: "store_commit aid' p e x tid s = (r, s')"
    for s r s'
    using c
  proof (cases rule: store_commit_cases)
    case refused
    with a show ?thesis by simp
  next
    case (committed ex d')
    from committed(3) obtain current n ev where d: "read_transaction (db s) aid' = Inr current"
      "revision current = Inr n" "revision ex = Inr (n + 1)" "is_object ex"
      "d' = \<lparr>executions = upsert aid' (n + 1, ex) (executions (db s)),
           events = events (db s) @ [\<lparr>event_action = aid', event_key = ''transition:'' @ tid,
             event_revision = n + 1, event_payload = ev\<rparr>]\<rparr>"
      by (rule db_commit_effect) blast
    have n: "0 \<le> n" using d(2) revision_nonneg by blast
    show ?thesis
    proof (cases "aid = aid'")
      case False
      then have "aid' \<noteq> aid" by simp
      with False have "map_of (executions (db s')) aid = map_of (executions (db s)) aid"
        "action_events aid (db s') = action_events aid (db s)"
        using d(5) committed(2) by (simp_all add: action_events_def)
      with a show ?thesis unfolding audited_def by metis
    next
      case True
      have "action_events aid (db s) = [1..n]"
      proof (cases "map_of (executions (db s)) aid")
        case None
        with d(1,2) True have "n = 0" by (auto simp: read_transaction_eq_Inr revision_def)
        with None a show ?thesis by (simp add: audited_def)
      next
        case (Some q)
        with d(1,2) True a show ?thesis by (auto simp: read_transaction_eq_Inr audited_def)
      qed
      with True d n committed upto_snoc [OF n] show ?thesis
        by (auto simp: audited_def action_events_def)
    qed
  qed
  then show ?thesis by (auto simp: stable_def) (metis prod.collapse)
qed

text \<open>C9. The audit trail is complete. In every state a fresh store can reach, also through crashes
  and restarts, the revision column of an execution row is the revision inside its payload, and the
  audit events of the Action carry exactly the revisions 1, 2, up to that one, in order: no state
  change without its event, no event without its state change.\<close>

theorem audit_trail_complete:
  assumes "history sha clock empty_store ls s"
  shows "case map_of (executions (db s)) aid of
      None \<Rightarrow> action_events aid (db s) = []
    | Some (n, v) \<Rightarrow> revision v = Inr n \<and> action_events aid (db s) = [1..n]"
proof -
  have step: "audited aid (db s')" if "store_step sha clock s l s'" "audited aid (db s)" for s l s'
    using that(1)
    by (rule step_keeps [where P = "\<lambda>s. audited aid (db s)"])
      (use that(2) in \<open>simp_all add: audited_commit make_directory_def publish_plan_def\<close>)
  have "audited aid (db s') " if "history sha clock s0 ls s'" "audited aid (db s0)" for s0 s' ls
    using that by induction (auto intro: step)
  moreover have "audited aid (db empty_store)" by (simp add: empty_store_def audited_def action_events_def)
  ultimately have "audited aid (db s)" using assms by blast
  then show ?thesis by (auto simp: audited_def split: option.splits)
qed

section \<open>A run\<close>

definition sample_sha :: "string \<Rightarrow> string" where
  "sample_sha s = replicate 64 CHR ''a''"

definition sample_plan :: json where
  "sample_plan = JObj (filter (\<lambda>(k, _). k \<noteq> ''execution'') (the (as_object sample_action)))"

abbreviation sample_id :: string where "sample_id \<equiv> ''action-0123456789abcdef''"

definition sample_store :: store where
  "sample_store = snd (save_plan sample_plan ''t0'' (replicate 32 CHR ''0'') empty_store)"

definition sample_claim_io :: "claimed io" where
  "sample_claim_io = claim_action sample_sha sample_clock sample_id (''EXECUTE '' @ sample_id)
     sample_files ''t0'' (replicate 32 CHR ''1'') ''approved''"

lemma sample_granted: "map_option execute (ok (fst (sample_claim_io sample_store))) = Some True"
  by code_simp

lemma sample_history:
  "history sample_sha sample_clock empty_store [None, Some sample_id]
     (snd (sample_claim_io sample_store))"
proof -
  obtain c s' where c: "sample_claim_io sample_store = (Inr c, s')" "execute c"
    using sample_granted by (cases "sample_claim_io sample_store"; cases "fst (sample_claim_io sample_store)") auto
  have "store_step sample_sha sample_clock empty_store None sample_store"
    unfolding sample_store_def by (rule store_step.save)
  moreover have "store_step sample_sha sample_clock sample_store (Some sample_id) s'"
    using c unfolding sample_claim_io_def by (rule store_step.granted)
  ultimately show ?thesis using c by (auto intro: history.intros)
qed

theorem at_most_one_grant_witness:
  "count_list [None, Some sample_id] (Some sample_id) = 1 \<and>
   spent sample_id (snd (sample_claim_io sample_store))"
  using at_most_one_grant [OF sample_history, of sample_id] by simp

theorem audit_trail_complete_witness:
  "case map_of (executions (db (snd (sample_claim_io sample_store)))) sample_id of
      None \<Rightarrow> action_events sample_id (db (snd (sample_claim_io sample_store))) = []
    | Some (n, v) \<Rightarrow> revision v = Inr n \<and>
        action_events sample_id (db (snd (sample_claim_io sample_store))) = [1..n]"
  by (rule audit_trail_complete [OF sample_history])

end
