(* ===== verification/Canonical.thy ===== *)
theory Canonical
  imports Json "HOL-Library.Multiset"
begin

text \<open>
  The deterministic encoding behind every digest, identity and delivered payload
  (\<open>rust/crates/core/src/canonical.rs\<close>) and the two projections of
  \<open>rust/crates/core/src/observation.rs\<close>.

  The encoder calls three pieces of code outside this repository: reading a number as a double
  (\<open>Number::as_f64\<close>), the shortest round-trip text of a double (\<open>ryu\<close>) and the escaping of a
  string (\<open>serde_json::to_writer\<close>). They are the parameters \<open>F\<close> and \<open>W\<close> of the definitions; SHA-256
  is the parameter \<open>sha\<close>. What the encoder relies on is stated once, in the locale
  \<open>json_writer\<close>.
\<close>

datatype canonical_error = CanonicalError string

definition NONFINITE :: canonical_error where
  "NONFINITE = CanonicalError ''nonfinite number has no canonical form''"

record 'f float_ops =
  as_f64 :: "string \<Rightarrow> 'f option"
  is_finite :: "'f \<Rightarrow> bool"
  is_zero :: "'f \<Rightarrow> bool"
  positive_zero :: 'f
  format_finite :: "'f \<Rightarrow> string"

section \<open>The encoder\<close>

definition float_text :: "'f float_ops \<Rightarrow> 'f \<Rightarrow> canonical_error + string" where
  "float_text F x =
     (if \<not> is_finite F x then Inl NONFINITE
      else let x = (if is_zero F x then positive_zero F else x) in Inr (format_finite F x))"

definition has_float_mark :: "string \<Rightarrow> bool" where
  "has_float_mark raw \<longleftrightarrow> list_ex (\<lambda>c. c \<in> {CHR ''.'', CHR ''e'', CHR ''E''}) raw"

definition number_text :: "'f float_ops \<Rightarrow> string \<Rightarrow> canonical_error + string" where
  "number_text F raw =
     (if has_float_mark raw then and_then (ok_or (as_f64 F raw) NONFINITE) (float_text F)
      else if raw = ''-0'' then Inr ''0'' else Inr raw)"

lemma size_sort_key [simp]: "size_list f (sort_key k xs) = size_list f xs"
proof -
  have "sum_list (map f (sort_key k xs)) = sum_mset (image_mset f (mset (sort_key k xs)))"
    by (simp only: mset_map [symmetric] sum_mset_sum_list)
  also have "\<dots> = sum_list (map f xs)"
    by (simp add: sum_mset_sum_list flip: mset_map)
  finally show ?thesis by (simp add: size_list_conv_sum_list)
qed

function (sequential) write_value ::
    "'f float_ops \<Rightarrow> (string \<Rightarrow> string) \<Rightarrow> json \<Rightarrow> canonical_error + string"
and write_items ::
    "'f float_ops \<Rightarrow> (string \<Rightarrow> string) \<Rightarrow> bool \<Rightarrow> json list \<Rightarrow> canonical_error + string"
and write_members ::
    "'f float_ops \<Rightarrow> (string \<Rightarrow> string) \<Rightarrow> bool \<Rightarrow> jobject \<Rightarrow> canonical_error + string"
where
  "write_value F W JNull = Inr ''null''"
| "write_value F W (JBool b) = Inr (if b then ''true'' else ''false'')"
| "write_value F W (JNum t) = number_text F t"
| "write_value F W (JStr s) = Inr (W s)"
| "write_value F W (JArr xs) = and_then (write_items F W True xs) (\<lambda>t. Inr (''['' @ t @ '']''))"
| "write_value F W (JObj m) =
     and_then (write_members F W True (sort_key fst m)) (\<lambda>t. Inr (''{'' @ t @ ''}''))"
| "write_items F W first [] = Inr []"
| "write_items F W first (x # xs) =
     and_then (write_value F W x) (\<lambda>t.
     and_then (write_items F W False xs) (\<lambda>u. Inr ((if first then [] else '','') @ t @ u)))"
| "write_members F W first [] = Inr []"
| "write_members F W first ((k, v) # m) =
     and_then (write_value F W v) (\<lambda>t.
     and_then (write_members F W False m) (\<lambda>u.
       Inr ((if first then [] else '','') @ W k @ '':'' @ t @ u)))"
  by pat_completeness auto
termination
  by (relation "measure (\<lambda>x. case x of
        Inl (F, W, v) \<Rightarrow> size v
      | Inr (Inl (F, W, b, xs)) \<Rightarrow> size_list size xs
      | Inr (Inr (F, W, b, m)) \<Rightarrow> size_list (size_prod (\<lambda>_. 0) size) m)") auto

definition canonical_bytes ::
    "'f float_ops \<Rightarrow> (string \<Rightarrow> string) \<Rightarrow> json \<Rightarrow> canonical_error + string" where
  "canonical_bytes F W v = write_value F W v"

definition canonical_digest ::
    "'f float_ops \<Rightarrow> (string \<Rightarrow> string) \<Rightarrow> (string \<Rightarrow> string) \<Rightarrow> json \<Rightarrow> canonical_error + string" where
  "canonical_digest F W sha v = and_then (canonical_bytes F W v) (\<lambda>t. Inr (sha t))"

definition protocol_identity ::
    "'f float_ops \<Rightarrow> (string \<Rightarrow> string) \<Rightarrow> (string \<Rightarrow> string) \<Rightarrow> json \<Rightarrow> canonical_error + string" where
  "protocol_identity F W sha v =
     and_then (canonical_digest F W sha v) (\<lambda>d. Inr (''sha256:'' @ d))"

definition canonical_equal ::
    "'f float_ops \<Rightarrow> (string \<Rightarrow> string) \<Rightarrow> json \<Rightarrow> json \<Rightarrow> bool" where
  "canonical_equal F W a b =
     (case (canonical_bytes F W a, canonical_bytes F W b) of
        (Inr s, Inr t) \<Rightarrow> s = t
      | _ \<Rightarrow> False)"

text \<open>The compact text \<open>serde_json::to_vec\<close> writes, members in their order.\<close>

fun json_text :: "(string \<Rightarrow> string) \<Rightarrow> json \<Rightarrow> string"
and member_text :: "(string \<Rightarrow> string) \<Rightarrow> jobject \<Rightarrow> string"
and item_text :: "(string \<Rightarrow> string) \<Rightarrow> json list \<Rightarrow> string"
where
  "json_text W JNull = ''null''"
| "json_text W (JBool b) = (if b then ''true'' else ''false'')"
| "json_text W (JNum t) = t"
| "json_text W (JStr s) = W s"
| "json_text W (JArr xs) = ''['' @ item_text W xs @ '']''"
| "json_text W (JObj m) = ''{'' @ member_text W m @ ''}''"
| "member_text W [] = []"
| "member_text W ((k, v) # m) =
     W k @ '':'' @ json_text W v @ (if m = [] then [] else '','' @ member_text W m)"
| "item_text W [] = []"
| "item_text W (x # xs) = json_text W x @ (if xs = [] then [] else '','' @ item_text W xs)"

lemma json_text_obj_length:
  "length (member_text W m) + 1 =
     (\<Sum>(k, v) \<leftarrow> m. length (W k) + length (json_text W v) + 2) + (if m = [] then 1 else 0)"
  by (induction m rule: list.induct) auto

lemma item_text_length:
  "length (item_text W xs) + 1 = (\<Sum>v \<leftarrow> xs. length (json_text W v) + 1) + (if xs = [] then 1 else 0)"
  by (induction xs) auto

section \<open>Projections of observations\<close>

text \<open>Producer failure classifications are removed at every depth.\<close>

fun sanitized_outward :: "json \<Rightarrow> json"
and sanitized_members :: "jobject \<Rightarrow> jobject"
and sanitized_items :: "json list \<Rightarrow> json list"
where
  "sanitized_outward (JObj m) = JObj (sanitized_members m)"
| "sanitized_outward (JArr xs) = JArr (sanitized_items xs)"
| "sanitized_outward v = v"
| "sanitized_members [] = []"
| "sanitized_members ((k, v) # m) =
     (if k = ''failure_class'' then sanitized_members m
      else (k, sanitized_outward v) # sanitized_members m)"
| "sanitized_items [] = []"
| "sanitized_items (x # xs) = sanitized_outward x # sanitized_items xs"

fun mentions_key :: "string \<Rightarrow> json \<Rightarrow> bool"
and mentions_members :: "string \<Rightarrow> jobject \<Rightarrow> bool"
and mentions_items :: "string \<Rightarrow> json list \<Rightarrow> bool"
where
  "mentions_key k (JObj m) = mentions_members k m"
| "mentions_key k (JArr xs) = mentions_items k xs"
| "mentions_key k v = False"
| "mentions_members k [] = False"
| "mentions_members k ((a, v) # m) = (a = k \<or> mentions_key k v \<or> mentions_members k m)"
| "mentions_items k [] = False"
| "mentions_items k (x # xs) = (mentions_key k x \<or> mentions_items k xs)"

lemma sanitized_no_class:
  "\<not> mentions_key ''failure_class'' (sanitized_outward v)"
  "\<not> mentions_members ''failure_class'' (sanitized_members m)"
  "\<not> mentions_items ''failure_class'' (sanitized_items xs)"
  by (induction v and m and xs rule: sanitized_outward_sanitized_members_sanitized_items.induct)
    simp_all

lemma sanitized_fixpoint_gen:
  "\<not> mentions_key k v \<Longrightarrow> k = ''failure_class'' \<Longrightarrow> sanitized_outward v = v"
  "\<not> mentions_members k m \<Longrightarrow> k = ''failure_class'' \<Longrightarrow> sanitized_members m = m"
  "\<not> mentions_items k xs \<Longrightarrow> k = ''failure_class'' \<Longrightarrow> sanitized_items xs = xs"
  by (induction k v and k m and k xs rule: mentions_key_mentions_members_mentions_items.induct)
    (simp_all only: mentions_key.simps mentions_members.simps mentions_items.simps
      sanitized_outward.simps sanitized_members.simps sanitized_items.simps de_Morgan_disj
      not_False_eq_True simp_thms if_False)

lemmas sanitized_fixpoint = sanitized_fixpoint_gen [OF _ refl]

text \<open>What leaves the service never carries a producer's failure classification, at any depth,
  and a document without one is passed on unchanged, so projecting twice is projecting once.\<close>

theorem outward_projection:
  "\<not> mentions_key ''failure_class'' (sanitized_outward v) \<and>
   (\<not> mentions_key ''failure_class'' v \<longrightarrow> sanitized_outward v = v) \<and>
   sanitized_outward (sanitized_outward v) = sanitized_outward v"
  using sanitized_no_class(1) [of v] sanitized_fixpoint(1) [of v]
    sanitized_fixpoint(1) [of "sanitized_outward v"] by blast

theorem outward_projection_witness:
  "sanitized_outward (JObj [(''a'', JArr [JNull])]) = JObj [(''a'', JArr [JNull])] \<and>
   \<not> mentions_key ''failure_class'' (sanitized_outward
     (JObj [(''failure_class'', JNull), (''a'', JObj [(''failure_class'', JStr ''x'')])]))"
proof -
  have "\<not> mentions_key ''failure_class'' (JObj [(''a'', JArr [JNull])])" by code_simp
  then show ?thesis using outward_projection by blast
qed

end
