(* ===== verification/CanonicalUnique.thy ===== *)
theory CanonicalUnique
  imports Canonical
begin

text \<open>
  Canonical bytes determine the content of a document. \<open>norm\<close> forgets exactly what the encoder
  means to forget, the order of members and the spelling of a number; two documents have the same
  canonical bytes if and only if their normal forms are equal. The writer of strings and of doubles
  is outside the repository; the locale \<open>json_writer\<close> holds the laws the argument uses, and
  \<open>rfc_escape\<close> with \<open>integral_floats\<close> is an instance of them.
\<close>

section \<open>Normal forms\<close>

definition norm_number :: "'f float_ops \<Rightarrow> string \<Rightarrow> string" where
  "norm_number F t = (case number_text F t of Inr u \<Rightarrow> u | Inl _ \<Rightarrow> t)"

fun norm :: "'f float_ops \<Rightarrow> json \<Rightarrow> json"
and norm_items :: "'f float_ops \<Rightarrow> json list \<Rightarrow> json list"
and norm_members :: "'f float_ops \<Rightarrow> jobject \<Rightarrow> jobject"
where
  "norm F (JNum t) = JNum (norm_number F t)"
| "norm F (JArr xs) = JArr (norm_items F xs)"
| "norm F (JObj m) = JObj (sort_key fst (norm_members F m))"
| "norm F v = v"
| "norm_items F [] = []"
| "norm_items F (x # xs) = norm F x # norm_items F xs"
| "norm_members F [] = []"
| "norm_members F ((k, v) # m) = (k, norm F v) # norm_members F m"

lemma norm_members_map: "norm_members F m = map (\<lambda>(k, v). (k, norm F v)) m"
  by (induction m) auto

lemma insort_key_map_snd:
  "insort_key fst (k, f v) (map (\<lambda>(k, v). (k, f v)) m) =
   map (\<lambda>(k, v). (k, f v)) (insort_key fst (k, v) m)"
  by (induction m) auto

lemma sort_norm_members:
  "sort_key fst (norm_members F m) = norm_members F (sort_key fst m)"
  by (induction m) (auto simp: norm_members_map insort_key_map_snd)

text \<open>The writer of normal forms: it cannot fail.\<close>

fun raw :: "(string \<Rightarrow> string) \<Rightarrow> json \<Rightarrow> string"
and raw_items :: "(string \<Rightarrow> string) \<Rightarrow> bool \<Rightarrow> json list \<Rightarrow> string"
and raw_members :: "(string \<Rightarrow> string) \<Rightarrow> bool \<Rightarrow> jobject \<Rightarrow> string"
where
  "raw W JNull = ''null''"
| "raw W (JBool b) = (if b then ''true'' else ''false'')"
| "raw W (JNum t) = t"
| "raw W (JStr s) = W s"
| "raw W (JArr xs) = CHR ''['' # raw_items W True xs @ '']''"
| "raw W (JObj m) = CHR ''{'' # raw_members W True m @ ''}''"
| "raw_items W first [] = []"
| "raw_items W first (x # xs) = (if first then [] else '','') @ raw W x @ raw_items W False xs"
| "raw_members W first [] = []"
| "raw_members W first ((k, v) # m) =
     (if first then [] else '','') @ W k @ '':'' @ raw W v @ raw_members W False m"

lemma write_raw:
  "write_value F W v = Inr t \<Longrightarrow> t = raw W (norm F v)"
  "write_items F W b xs = Inr t \<Longrightarrow> t = raw_items W b (norm_items F xs)"
  "write_members F W b m = Inr t \<Longrightarrow> t = raw_members W b (norm_members F m)"
proof (induction F W v and F W b xs and F W b m arbitrary: t and t and t
    rule: write_value_write_items_write_members.induct)
  case (6 F W m)
  then show ?case by (auto simp: res_simps sort_norm_members)
next
  case (10 F W first k v m)
  then show ?case by (auto simp: res_simps)
qed (auto simp: res_simps norm_number_def)

text \<open>A document can be written when each of its numbers can.\<close>

fun writable :: "'f float_ops \<Rightarrow> json \<Rightarrow> bool"
and writable_items :: "'f float_ops \<Rightarrow> json list \<Rightarrow> bool"
and writable_members :: "'f float_ops \<Rightarrow> jobject \<Rightarrow> bool"
where
  "writable F (JNum t) = is_ok (number_text F t)"
| "writable F (JArr xs) = writable_items F xs"
| "writable F (JObj m) = writable_members F m"
| "writable F v = True"
| "writable_items F [] = True"
| "writable_items F (x # xs) = (writable F x \<and> writable_items F xs)"
| "writable_members F [] = True"
| "writable_members F ((k, v) # m) = (writable F v \<and> writable_members F m)"

lemma writable_members_set: "writable_members F m \<longleftrightarrow> (\<forall>(k, v) \<in> set m. writable F v)"
  by (induction m) auto

lemma write_ok_iff:
  "is_ok (write_value F W v) \<longleftrightarrow> writable F v"
  "is_ok (write_items F W b xs) \<longleftrightarrow> writable_items F xs"
  "is_ok (write_members F W b m) \<longleftrightarrow> writable_members F m"
proof (induction F W v and F W b xs and F W b m
    rule: write_value_write_items_write_members.induct)
  case (6 F W m)
  then show ?case by (auto simp: is_ok_iff res_simps writable_members_set)
qed (auto simp: is_ok_iff res_simps)

lemma write_eq: "writable F v \<Longrightarrow> write_value F W v = Inr (raw W (norm F v))"
  using write_ok_iff(1) [of F W v] write_raw(1) [of F W v] by (auto simp: is_ok_iff)

section \<open>Reading canonical text back\<close>

definition num_char :: "char \<Rightarrow> bool" where
  "num_char c \<longleftrightarrow> is_ascii_digit c \<or> c \<in> set ''+-.eE''"

definition num_text :: "string \<Rightarrow> bool" where
  "num_text t \<longleftrightarrow> t \<noteq> [] \<and> (is_ascii_digit (hd t) \<or> hd t = CHR ''-'') \<and> list_all num_char t"

fun numbers_ok :: "json \<Rightarrow> bool"
and numbers_ok_items :: "json list \<Rightarrow> bool"
and numbers_ok_members :: "jobject \<Rightarrow> bool"
where
  "numbers_ok (JNum t) = num_text t"
| "numbers_ok (JArr xs) = numbers_ok_items xs"
| "numbers_ok (JObj m) = numbers_ok_members m"
| "numbers_ok v = True"
| "numbers_ok_items [] = True"
| "numbers_ok_items (x # xs) = (numbers_ok x \<and> numbers_ok_items xs)"
| "numbers_ok_members [] = True"
| "numbers_ok_members ((k, v) # m) = (numbers_ok v \<and> numbers_ok_members m)"

lemma numbers_ok_members_set: "numbers_ok_members m \<longleftrightarrow> (\<forall>(k, v) \<in> set m. numbers_ok v)"
  by (induction m) auto

text \<open>What may follow a complete value inside a document.\<close>

definition delim :: "string \<Rightarrow> bool" where
  "delim r \<longleftrightarrow> r = [] \<or> hd r \<in> {CHR '','', CHR '']'', CHR ''}''}"

lemma num_char_not_delim: "num_char c \<Longrightarrow> c \<notin> {CHR '','', CHR '']'', CHR ''}''}"
  by (auto simp: num_char_def str_simps)

lemma num_text_first: "num_text t \<Longrightarrow>
  hd (t @ r) \<notin> {CHR ''n'', CHR ''t'', CHR ''f'', CHR 0x22, CHR ''['', CHR ''{'', CHR '']'', CHR ''}'', CHR '',''}"
  by (cases t) (auto simp: num_text_def str_simps)

lemma num_text_prefix:
  assumes "num_text t" "num_text u" "t @ r = u @ s" "delim r" "delim s"
  shows "t = u \<and> r = s"
proof -
  have take: "takeWhile num_char (t @ r) = t" if "num_text t" "delim r" for t r
  proof -
    have "takeWhile num_char r = []"
      using that(2) num_char_not_delim by (cases r) (auto simp: delim_def)
    then show ?thesis using that(1) by (auto simp: num_text_def list_all_iff takeWhile_append2)
  qed
  have "t = u" using take [OF assms(1,4)] take [OF assms(2,5)] assms(3) by simp
  with assms(3) show ?thesis by simp
qed

text \<open>The kind of a value shows in its first byte.\<close>

fun kind :: "json \<Rightarrow> nat" where
  "kind JNull = 0"
| "kind (JBool _) = 1"
| "kind (JNum _) = 2"
| "kind (JStr _) = 3"
| "kind (JArr _) = 4"
| "kind (JObj _) = 5"

definition kind_of :: "char \<Rightarrow> nat" where
  "kind_of c =
     (if c = CHR ''n'' then 0 else if c = CHR ''t'' \<or> c = CHR ''f'' then 1
      else if c = CHR 0x22 then 3 else if c = CHR ''['' then 4 else if c = CHR ''{'' then 5 else 2)"

locale json_writer =
  fixes F :: "'f float_ops" and W :: "string \<Rightarrow> string"
  assumes quoted: "\<exists>b. W s = CHR 0x22 # b"
    and prefix_code: "W s @ r = W s' @ r' \<Longrightarrow> s = s' \<and> r = r'"
    and float_shape: "num_text (format_finite F x)"
begin

lemma hd_W [simp]: "hd (W s @ r) = CHR 0x22"
  using quoted [of s] by auto

lemma W_nonempty [simp]: "W s \<noteq> []"
  using quoted [of s] by auto

lemma number_text_shape: "number_text F t = Inr u \<Longrightarrow> num_text t \<Longrightarrow> num_text u"
proof -
  assume u: "number_text F t = Inr u" and t: "num_text t"
  have zero: "num_text ''0''" by (simp add: num_text_def num_char_def str_simps)
  show ?thesis
  proof (cases "has_float_mark t")
    case True
    with u obtain x where "float_text F x = Inr u" by (auto simp: number_text_def res_simps)
    then show ?thesis by (auto simp: float_text_def Let_def float_shape split: if_splits)
  next
    case False
    with u t zero show ?thesis by (auto simp: number_text_def split: if_splits)
  qed
qed

lemma norm_number_shape: "num_text t \<Longrightarrow> num_text (norm_number F t)"
  using number_text_shape by (simp add: norm_number_def split: sum.splits)

lemma numbers_ok_norm:
  "numbers_ok v \<Longrightarrow> numbers_ok (norm F v)"
  "numbers_ok_items xs \<Longrightarrow> numbers_ok_items (norm_items F xs)"
  "numbers_ok_members m \<Longrightarrow> numbers_ok_members (norm_members F m)"
  by (induction v and xs and m rule: numbers_ok_numbers_ok_items_numbers_ok_members.induct)
    (auto simp: norm_number_shape numbers_ok_members_set)

lemma kind_of_raw: "numbers_ok v \<Longrightarrow> kind_of (hd (raw W v @ r)) = kind v"
  using num_text_first [of _ r] by (cases v) (auto simp: kind_of_def)

lemma raw_nonempty: "numbers_ok v \<Longrightarrow> raw W v \<noteq> []"
  by (cases v) (auto simp: num_text_def)

lemma raw_first: "numbers_ok v \<Longrightarrow> hd (raw W v @ r) \<notin> {CHR '']'', CHR '','', CHR ''}''}"
  using num_text_first [of _ r] by (cases v) auto

lemma raw_kind:
  "raw W a @ r = raw W b @ s \<Longrightarrow> numbers_ok a \<Longrightarrow> numbers_ok b \<Longrightarrow> kind b = kind a"
  using kind_of_raw [of a r] kind_of_raw [of b s] by simp

lemma delim_items: "delim (raw_items W False xs @ CHR '']'' # r)"
  by (cases xs) (auto simp: delim_def)

lemma delim_members: "delim (raw_members W False m @ CHR ''}'' # r)"
  by (cases m) (auto simp: delim_def)

lemma items_end:
  assumes "numbers_ok_items ys" "CHR '']'' # r = raw_items W f ys @ CHR '']'' # s"
  shows "ys = []"
proof (cases ys)
  case (Cons y ys')
  then have "numbers_ok y" using assms(1) by simp
  then have "hd (raw W y @ raw_items W False ys' @ CHR '']'' # s) \<noteq> CHR '']''"
    using raw_first by blast
  with assms(2) Cons show ?thesis by (cases f) (auto dest: arg_cong [where f = hd])
qed

lemma members_end:
  assumes "CHR ''}'' # r = raw_members W f n @ CHR ''}'' # s"
  shows "n = []"
proof (cases n)
  case (Cons p n')
  with assms show ?thesis by (cases p; cases f) (auto dest: arg_cong [where f = hd])
qed

lemma raw_prefix:
  "numbers_ok a \<Longrightarrow> numbers_ok b \<Longrightarrow> raw W a @ r = raw W b @ s \<Longrightarrow> delim r \<Longrightarrow> delim s \<Longrightarrow>
     a = b \<and> r = s"
  "numbers_ok_items xs \<Longrightarrow> numbers_ok_items ys \<Longrightarrow>
     raw_items W f xs @ CHR '']'' # r' = raw_items W f ys @ CHR '']'' # s' \<Longrightarrow> xs = ys \<and> r' = s'"
  "numbers_ok_members m \<Longrightarrow> numbers_ok_members n \<Longrightarrow>
     raw_members W f m @ CHR ''}'' # r' = raw_members W f n @ CHR ''}'' # s' \<Longrightarrow> m = n \<and> r' = s'"
proof (induction a and xs and m arbitrary: b r s and ys f r' s' and n f r' s'
    rule: numbers_ok_numbers_ok_items_numbers_ok_members.induct)
  case (1 t)
  have "kind b = kind (JNum t)" by (rule raw_kind [OF "1.prems"(3,1,2)])
  then obtain u where u: "b = JNum u" by (cases b) simp_all
  with 1 show ?case using num_text_prefix [of t u r s] by simp
next
  case (2 xs)
  have "kind b = kind (JArr xs)" by (rule raw_kind [OF "2.prems"(3,1,2)])
  then obtain ys where b: "b = JArr ys" by (cases b) simp_all
  with "2.prems" show ?case using "2.IH" [of ys True r s] by simp
next
  case (3 m)
  have "kind b = kind (JObj m)" by (rule raw_kind [OF "3.prems"(3,1,2)])
  then obtain n where b: "b = JObj n" by (cases b) simp_all
  with "3.prems" show ?case using "3.IH" [of n True r s] by simp
next
  case "4_1"
  have "kind b = kind JNull" by (rule raw_kind [OF "4_1.prems"(3,1,2)])
  then have "b = JNull" by (cases b) simp_all
  with "4_1.prems" show ?case by simp
next
  case "4_2"
  note raw_kind [OF "4_2.prems"(3,1,2)]
  then obtain w where "b = JBool w" by (cases b) simp_all
  with "4_2.prems" show ?case by (simp split: if_splits)
next
  case "4_3"
  note raw_kind [OF "4_3.prems"(3,1,2)]
  then obtain w where "b = JStr w" by (cases b) simp_all
  with "4_3.prems" show ?case by (auto dest: prefix_code)
next
  case 5
  then show ?case using items_end [of ys r' f s'] by auto
next
  case (6 x xs)
  show ?case
  proof (cases ys)
    case Nil
    with "6.prems" show ?thesis using items_end [of "x # xs" s' f r'] by simp
  next
    case (Cons y ys')
    with "6.prems"(3) have "raw W x @ raw_items W False xs @ CHR '']'' # r' =
        raw W y @ raw_items W False ys' @ CHR '']'' # s'" by (simp split: if_splits)
    with "6.prems" Cons have "x = y \<and> raw_items W False xs @ CHR '']'' # r' =
        raw_items W False ys' @ CHR '']'' # s'"
      by (intro "6.IH"(1)) (simp_all add: delim_items)
    with "6.prems" Cons "6.IH"(2) [of ys' False r' s'] show ?thesis by simp
  qed
next
  case 7
  then show ?case using members_end [of r' f n s'] by auto
next
  case (8 k v m)
  show ?case
  proof (cases n)
    case Nil
    with "8.prems" show ?thesis using members_end [of s' f "(k, v) # m" r'] by simp
  next
    case (Cons p n')
    obtain k' v' where p: "p = (k', v')" by (cases p)
    with "8.prems"(3) Cons have "W k @ '':'' @ raw W v @ raw_members W False m @ CHR ''}'' # r' =
        W k' @ '':'' @ raw W v' @ raw_members W False n' @ CHR ''}'' # s'"
      by (simp split: if_splits)
    from prefix_code [OF this] have kk: "k = k'"
      and rest: "raw W v @ raw_members W False m @ CHR ''}'' # r' =
        raw W v' @ raw_members W False n' @ CHR ''}'' # s'" by simp_all
    with "8.prems" Cons p have "v = v' \<and> raw_members W False m @ CHR ''}'' # r' =
        raw_members W False n' @ CHR ''}'' # s'"
      by (intro "8.IH"(1)) (simp_all add: delim_members)
    with "8.prems" Cons p kk "8.IH"(2) [of n' False r' s'] show ?thesis by simp
  qed
qed

lemma raw_inject: "numbers_ok a \<Longrightarrow> numbers_ok b \<Longrightarrow> raw W a = raw W b \<longleftrightarrow> a = b"
  using raw_prefix(1) [of a b "[]" "[]"] by (auto simp: delim_def)

lemma bytes_eq_iff:
  assumes "numbers_ok a" "numbers_ok b" "writable F a" "writable F b"
  shows "canonical_bytes F W a = canonical_bytes F W b \<longleftrightarrow> norm F a = norm F b"
  using assms by (auto simp: canonical_bytes_def write_eq raw_inject numbers_ok_norm)

lemma equal_iff:
  assumes "numbers_ok a" "numbers_ok b"
  shows "canonical_equal F W a b \<longleftrightarrow> writable F a \<and> writable F b \<and> norm F a = norm F b"
proof (cases "writable F a \<and> writable F b")
  case True
  with assms show ?thesis
    by (simp add: canonical_equal_def canonical_bytes_def write_eq raw_inject numbers_ok_norm)
next
  case False
  then have "\<not> is_ok (write_value F W a) \<or> \<not> is_ok (write_value F W b)"
    by (simp add: write_ok_iff)
  with False show ?thesis
    by (auto simp: canonical_equal_def canonical_bytes_def split: sum.splits)
qed

end

section \<open>Equal documents\<close>

lemma sort_key_unique:
  assumes "distinct (map fst xs)" "distinct (map fst ys)" "set xs = set ys"
  shows "sort_key fst xs = sort_key fst (ys :: ('k::linorder \<times> 'v) list)"
proof (rule map_sorted_distinct_set_unique [where f = fst])
  show "inj_on fst (set (sort_key fst xs) \<union> set (sort_key fst ys))"
    using assms by (simp add: distinct_map)
  show "distinct (map fst (sort_key fst xs))" "distinct (map fst (sort_key fst ys))"
    using assms by (simp_all add: distinct_map)
qed (simp_all add: assms)

lemma keys_norm_members [simp]: "map fst (norm_members F m) = map fst m"
  by (induction m) auto

lemma set_norm_members: "set (norm_members F m) = (\<lambda>(k, v). (k, norm F v)) ` set m"
  by (simp add: norm_members_map)

lemma jeq_norm:
  "jeq a b \<Longrightarrow> wf_json a \<Longrightarrow> wf_json b \<Longrightarrow> norm F a = norm F b"
  "jeq_list xs ys \<Longrightarrow> list_all wf_json xs \<Longrightarrow> list_all wf_json ys \<Longrightarrow> norm_items F xs = norm_items F ys"
  "jeq_members m n \<Longrightarrow> list_all (\<lambda>(_, v). wf_json v) m \<Longrightarrow> wf_json (JObj n) \<Longrightarrow>
     set (norm_members F m) \<subseteq> set (norm_members F n)"
proof (induction a b and xs ys and m n rule: jeq_jeq_list_jeq_members.induct)
  case (1 xs w)
  then show ?case by (cases w) simp_all
next
  case (2 m w)
  then obtain n where w: "w = JObj n" and len: "length m = length n" and mem: "jeq_members m n"
    by (cases w) simp_all
  have d: "distinct (map fst (norm_members F m))" "distinct (map fst (norm_members F n))"
    using "2.prems" w by simp_all
  have "set (norm_members F m) \<subseteq> set (norm_members F n)"
    using "2.IH" [OF w] mem "2.prems" w by simp
  moreover have "card (set (norm_members F n)) \<le> card (set (norm_members F m))"
    using d [THEN distinct_map [THEN iffD1]] len
    by (auto simp: distinct_card) (simp add: norm_members_map)
  ultimately have "set (norm_members F m) = set (norm_members F n)"
    by (intro card_seteq) simp_all
  with d w show ?case by (simp add: sort_key_unique)
next
  case (8 x xs ys)
  then show ?case by (cases ys) simp_all
next
  case (10 k v m n)
  then obtain u where u: "obj_get n k = Some u" "jeq v u"
    by (auto split: option.splits)
  moreover have "wf_json u" using "10.prems"(3) u(1) by (rule wf_json_get)
  ultimately have "norm F v = norm F u"
    using "10.IH"(1) [OF u(1)] "10.prems"(2) by simp
  moreover have "(k, u) \<in> set n" using u(1) by (rule map_of_SomeD)
  ultimately show ?case using 10 by (force simp: set_norm_members)
qed simp_all

section \<open>An instance of the writer\<close>

definition hex_digit :: "nat \<Rightarrow> char" where
  "hex_digit d = (if d < 10 then char_of (48 + d) else char_of (87 + d))"

definition escape_char :: "char \<Rightarrow> string" where
  "escape_char c =
     (if c = CHR 0x22 then [CHR 0x5C, CHR 0x22]
      else if c = CHR 0x5C then [CHR 0x5C, CHR 0x5C]
      else if byte c < 32
      then [CHR 0x5C, CHR ''u'', CHR ''0'', CHR ''0'', hex_digit (byte c div 16), hex_digit (byte c mod 16)]
      else [c])"

definition rfc_escape :: "string \<Rightarrow> string" where
  "rfc_escape s = CHR 0x22 # concat (map escape_char s) @ [CHR 0x22]"

text \<open>Doubles without a fraction, written as \<open>ryu\<close> writes them below its exponent range.\<close>

definition integral_floats :: "int float_ops" where
  "integral_floats =
     \<lparr>as_f64 = (\<lambda>t. Option.bind (strip_suffix ''.0'' t) parse_i64), is_finite = (\<lambda>_. True),
      is_zero = (\<lambda>x. x = 0), positive_zero = 0, format_finite = (\<lambda>x. show_int x @ ''.0'')\<rparr>"

lemma byte_hex_digit: "d < 16 \<Longrightarrow> byte (hex_digit d) = (if d < 10 then 48 + d else 87 + d)"
  by (simp add: hex_digit_def byte_def)

lemma hex_digit_inject: "d < 16 \<Longrightarrow> e < 16 \<Longrightarrow> hex_digit d = hex_digit e \<Longrightarrow> d = e"
proof -
  assume "d < 16" "e < 16" "hex_digit d = hex_digit e"
  then have "(if d < 10 then 48 + d else 87 + d) = (if e < 10 then 48 + e else 87 + e)"
    by (metis byte_hex_digit)
  then show "d = e" using \<open>d < 16\<close> \<open>e < 16\<close> by presburger
qed

lemma byte_inject [simp]: "byte c = byte d \<longleftrightarrow> c = d"
  by (simp add: byte_def)

lemma escape_char_prefix:
  assumes "escape_char c @ x = escape_char d @ y"
  shows "c = d \<and> x = y"
proof (cases "byte c < 32 \<and> byte d < 32")
  case True
  then have plain: "c \<noteq> CHR 0x22" "c \<noteq> CHR 0x5C" "d \<noteq> CHR 0x22" "d \<noteq> CHR 0x5C"
    by (auto simp: byte_def)
  with True have hex: "hex_digit (byte c div 16) = hex_digit (byte d div 16)"
    "hex_digit (byte c mod 16) = hex_digit (byte d mod 16)" "x = y"
    using assms by (simp_all add: escape_char_def)
  then have "byte c div 16 = byte d div 16" "byte c mod 16 = byte d mod 16"
    using True by (auto intro: hex_digit_inject)
  then have "byte c = byte d" by (metis div_mult_mod_eq)
  with hex show ?thesis by simp
next
  case False
  have "byte (CHR 0x22) = 34" "byte (CHR 0x5C) = 92" by (simp_all add: byte_def)
  with False show ?thesis using assms by (auto simp: escape_char_def split: if_splits)
qed

lemma escape_char_first: "escape_char c \<noteq> [] \<and> hd (escape_char c) \<noteq> CHR 0x22"
  by (simp add: escape_char_def)

lemma escaped_prefix:
  "concat (map escape_char s) @ CHR 0x22 # x = concat (map escape_char t) @ CHR 0x22 # y \<Longrightarrow>
   s = t \<and> x = y"
proof (induction s arbitrary: t)
  case Nil
  show ?case
  proof (cases t)
    case (Cons d t')
    then have "hd (concat (map escape_char t) @ CHR 0x22 # y) \<noteq> CHR 0x22"
      using escape_char_first [of d] by simp
    with Nil show ?thesis by (metis append_Nil concat.simps(1) list.sel(1) list.simps(8))
  qed (use Nil in simp)
next
  case (Cons c s)
  show ?case
  proof (cases t)
    case Nil
    have "hd (concat (map escape_char (c # s)) @ CHR 0x22 # x) \<noteq> CHR 0x22"
      using escape_char_first [of c] by simp
    with Nil Cons.prems show ?thesis by (metis append_Nil concat.simps(1) list.sel(1) list.simps(8))
  next
    case (Cons d t')
    with Cons.prems escape_char_prefix [of c _ d] Cons.IH [of t'] show ?thesis by simp
  qed
qed

interpretation rfc: json_writer integral_floats rfc_escape
proof unfold_locales
  fix s s' r r' :: string and x
  show "\<exists>b. rfc_escape s = CHR 0x22 # b" by (simp add: rfc_escape_def)
  show "s = s' \<and> r = r'" if "rfc_escape s @ r = rfc_escape s' @ r'"
    using that escaped_prefix [of s r s' r'] by (simp add: rfc_escape_def)
  have "list_all num_char (show_nat n)" for n
    using all_digits_show_nat [of n] by (simp add: all_digits_def list_all_iff num_char_def)
  then show "num_text (format_finite integral_floats x)"
    using hd_show_nat
    by (auto simp: integral_floats_def num_text_def show_int_def num_char_def is_ascii_digit_def byte_def)
qed

section \<open>Properties\<close>



end
