(* ===== verification/Durable.thy ===== *)
theory Durable
  imports CanonicalUnique RevisionCell Identity
begin

text \<open>
  The recoverable JSON head and its contiguous transition journal:
  \<open>rust/crates/core/src/durable.rs\<close>. The head file is replaced first and carries its last
  transition; the journal line is appended afterwards. A crash between the two writes is the one
  omission that can be repaired.
\<close>

datatype durable_error = DurableError

record snapshot =
  snap_value :: json
  snap_revision :: nat
  last_transition :: "json option"

definition transition_id :: "json \<Rightarrow> durable_error + string" where
  "transition_id v =
     (case jget_str v ''transition_id'' of
        Some s \<Rightarrow> if s \<noteq> [] \<and> length s \<le> 1024 then Inr s else Inl DurableError
      | None \<Rightarrow> Inl DurableError)"

definition from_value :: "json \<Rightarrow> durable_error + snapshot" where
  "from_value doc =
     and_then (ok_or (as_object doc) DurableError) (\<lambda>m.
     let value = JObj (obj_remove ''_durability'' m) in
     case obj_get m ''_durability'' of
       None \<Rightarrow> Inr \<lparr>snap_value = value, snap_revision = 0, last_transition = None\<rparr>
     | Some metadata \<Rightarrow>
         if is_null metadata
         then Inr \<lparr>snap_value = value, snap_revision = 0, last_transition = None\<rparr>
         else and_then (case Option.bind (jget metadata ''revision'') as_u64 of
                Some n \<Rightarrow> if n > 0 then Inr n else Inl DurableError | None \<Rightarrow> Inl DurableError) (\<lambda>revision.
              and_then (case jget metadata ''last_transition'' of
                Some (JObj t) \<Rightarrow> Inr (JObj t) | _ \<Rightarrow> Inl DurableError) (\<lambda>transition.
              if Option.bind (jget transition ''revision'') as_u64 \<noteq> Some revision then Inl DurableError
              else and_then (transition_id transition) (\<lambda>_.
                Inr \<lparr>snap_value = value, snap_revision = revision,
                     last_transition = Some transition\<rparr>))))"

text \<open>The loop of \<open>validate_journal\<close>, with the revision reached and the identities seen.\<close>

fun validate_from :: "nat \<Rightarrow> string list \<Rightarrow> json list \<Rightarrow> durable_error + nat" where
  "validate_from revision seen [] = Inr revision"
| "validate_from revision seen (event # es) =
     (if \<not> is_object event then Inl DurableError
      else if jget event ''transition_id'' = None then validate_from revision seen es
      else and_then (transition_id event) (\<lambda>tid.
        if revision + 1 \<ge> u64_limit then Inl DurableError
        else if tid \<in> set seen \<or> Option.bind (jget event ''revision'') as_u64 \<noteq> Some (revision + 1)
        then Inl DurableError
        else validate_from (revision + 1) (tid # seen) es))"

definition validate_journal :: "json list \<Rightarrow> durable_error + nat" where
  "validate_journal events = validate_from 0 [] events"

definition has_transition :: "json \<Rightarrow> bool" where
  "has_transition event \<longleftrightarrow> jget event ''transition_id'' \<noteq> None"

definition last_state_event :: "json list \<Rightarrow> json option" where
  "last_state_event events = find has_transition (rev events)"

definition mentions_transition :: "string \<Rightarrow> json list \<Rightarrow> bool" where
  "mentions_transition tid events \<longleftrightarrow> list_ex (\<lambda>e. jget_str e ''transition_id'' = Some tid) events"

definition missing_transition ::
    "'f float_ops \<Rightarrow> (string \<Rightarrow> string) \<Rightarrow> snapshot \<Rightarrow> json list \<Rightarrow> durable_error + json option" where
  "missing_transition F W snap events =
     and_then (validate_journal events) (\<lambda>revision.
     let omitted = (\<lambda>head.
           if revision + 1 \<ge> u64_limit then Inl DurableError
           else if snap_revision snap = revision + 1
           then and_then (transition_id head) (\<lambda>tid.
                  if mentions_transition tid events then Inl DurableError else Inr (Some head))
           else Inl DurableError)
     in case (last_transition snap, last_state_event events) of
       (None, None) \<Rightarrow> if snap_revision snap = 0 then Inr None else Inl DurableError
     | (None, Some _) \<Rightarrow> Inl DurableError
     | (Some head, Some final) \<Rightarrow>
         and_then (transition_id head) (\<lambda>a.
         and_then (transition_id final) (\<lambda>b.
           if a = b
           then (if revision = snap_revision snap \<and> canonical_equal F W head final
                 then Inr None else Inl DurableError)
           else omitted head))
     | (Some head, None) \<Rightarrow> omitted head)"

record commit =
  commit_head :: json
  commit_event :: json
  commit_revision :: nat

definition durable_commit ::
    "'f float_ops \<Rightarrow> (string \<Rightarrow> string) \<Rightarrow> snapshot \<Rightarrow> json list \<Rightarrow> json \<Rightarrow> json \<Rightarrow> nat option \<Rightarrow> string
     \<Rightarrow> durable_error + commit" where
  "durable_commit F W snap events value event expected identity =
     and_then (missing_transition F W snap events) (\<lambda>missing.
     if missing \<noteq> None \<or> (case expected of Some r \<Rightarrow> r \<noteq> snap_revision snap | None \<Rightarrow> False) \<or>
        length identity \<noteq> 32 \<or> \<not> list_all is_lower_hex identity \<or> mentions_transition identity events
     then Inl DurableError
     else and_then (ok_or (as_object value) DurableError) (\<lambda>payload.
       if obj_has payload ''_durability'' then Inl DurableError
       else and_then (ok_or (as_object event) DurableError) (\<lambda>transition.
         if obj_has transition ''revision'' \<or> obj_has transition ''transition_id'' then Inl DurableError
         else if snap_revision snap + 1 \<ge> u64_limit then Inl DurableError
         else let revision = snap_revision snap + 1;
                  transition = JObj (obj_insert ''transition_id'' (JStr identity)
                    (obj_insert ''revision'' (jnat revision) transition))
              in Inr \<lparr>commit_head = JObj (obj_insert ''_durability''
                        (JObj [(''revision'', jnat revision), (''last_transition'', transition)]) payload),
                      commit_event = transition, commit_revision = revision\<rparr>)))"

section \<open>Journals\<close>

lemma transition_id_eq_Inr [res_simps]:
  "transition_id v = Inr s \<longleftrightarrow> jget v ''transition_id'' = Some (JStr s) \<and> s \<noteq> [] \<and> length s \<le> 1024"
proof (cases "jget_str v ''transition_id''")
  case None
  then show ?thesis by (auto simp: transition_id_def dest: jget_str_of_Some)
next
  case (Some t)
  then have "jget v ''transition_id'' = Some (JStr t)" by (simp add: json_simps)
  with Some show ?thesis by (auto simp: transition_id_def)
qed

text \<open>A journal that validates can be extended by exactly the next revision under a fresh identity.\<close>

lemma validate_from_snoc:
  assumes "validate_from n seen es = Inr r" "is_object e" "transition_id e = Inr tid"
    and "r + 1 < u64_limit" "tid \<notin> set seen" "\<not> mentions_transition tid es"
    and "Option.bind (jget e ''revision'') as_u64 = Some (r + 1)"
  shows "validate_from n seen (es @ [e]) = Inr (r + 1)"
  using assms
proof (induction n seen es rule: validate_from.induct)
  case (1 n seen)
  then show ?case by (auto simp: res_simps)
next
  case (2 n seen event es)
  show ?case
  proof (cases "jget event ''transition_id'' = None")
    case True
    with 2 show ?thesis by (simp add: mentions_transition_def split: if_splits)
  next
    case False
    with "2.prems"(1) obtain t where t: "is_object event" "transition_id event = Inr t"
      "n + 1 < u64_limit" "t \<notin> set seen" "Option.bind (jget event ''revision'') as_u64 = Some (n + 1)"
      "validate_from (n + 1) (t # seen) es = Inr r"
      by (auto simp: res_simps not_le split: if_splits)
    have "tid \<noteq> t"
      using "2.prems"(6) t(2) by (auto simp: mentions_transition_def jget_str_def res_simps)
    then have "validate_from (n + 1) (t # seen) (es @ [e]) = Inr (r + 1)"
      using "2.IH"(2) [of t] t False "2.prems" by (simp add: mentions_transition_def)
    with t False show ?thesis by auto
  qed
qed

lemma last_state_event_snoc [simp]:
  "has_transition e \<Longrightarrow> last_state_event (es @ [e]) = Some e"
  by (simp add: last_state_event_def)

text \<open>The revisions of the state events of a valid journal are 1, 2, 3 and so on.\<close>

definition state_revisions :: "json list \<Rightarrow> nat option list" where
  "state_revisions es =
     map (\<lambda>e. Option.bind (jget e ''revision'') as_u64) (filter has_transition es)"

lemma validate_from_revisions:
  "validate_from n seen es = Inr r \<Longrightarrow>
   state_revisions es = map Some [Suc n..<Suc r] \<and> n \<le> r"
proof (induction n seen es rule: validate_from.induct)
  case (1 n seen)
  then show ?case by (simp add: state_revisions_def)
next
  case (2 n seen event es)
  show ?case
  proof (cases "jget event ''transition_id'' = None")
    case True
    with 2 show ?thesis by (simp add: state_revisions_def has_transition_def split: if_splits)
  next
    case False
    with "2.prems" obtain t where t: "is_object event" "transition_id event = Inr t"
      "n + 1 < u64_limit" "t \<notin> set seen" "Option.bind (jget event ''revision'') as_u64 = Some (n + 1)"
      "validate_from (n + 1) (t # seen) es = Inr r"
      by (auto simp: res_simps not_le split: if_splits)
    then have "state_revisions es = map Some [Suc (Suc n)..<Suc r] \<and> Suc n \<le> r"
      using "2.IH"(2) [of t] False by simp
    moreover from this have "[Suc n..<Suc r] = Suc n # [Suc (Suc n)..<Suc r]"
      by (intro upt_conv_Cons) simp
    ultimately show ?thesis
      using t False by (simp add: state_revisions_def has_transition_def del: upt_Suc)
  qed
qed

lemma validate_from_ids:
  "validate_from n seen es = Inr r \<Longrightarrow> e \<in> set es \<Longrightarrow> has_transition e \<Longrightarrow>
   \<exists>t. transition_id e = Inr t"
proof (induction n seen es rule: validate_from.induct)
  case (2 n seen event es)
  show ?case
  proof (cases "jget event ''transition_id'' = None")
    case True
    with 2 show ?thesis by (auto simp: has_transition_def split: if_splits)
  next
    case False
    with "2.prems" obtain t where t: "transition_id event = Inr t"
      "validate_from (n + 1) (t # seen) es = Inr r"
      by (auto simp: res_simps not_le split: if_splits)
    with 2 False show ?thesis by (auto split: if_splits)
  qed
qed simp

lemma last_state_event_in: "last_state_event es = Some e \<Longrightarrow> e \<in> set es \<and> has_transition e"
  unfolding last_state_event_def find_Some_iff by (metis length_rev nth_mem set_rev)

section \<open>Commits and the repairable omission\<close>

lemma obj_remove_insert_new: "\<not> obj_has m k \<Longrightarrow> obj_remove k (obj_insert k v m) = m"
  by (induction k v m rule: obj_insert.induct)
    (auto simp: obj_remove_def obj_has_def split: if_splits)

lemma durable_commit_eq_Inr:
  assumes "durable_commit F W snap events value event expected identity = Inr c"
  obtains payload m where "missing_transition F W snap events = Inr None"
    "\<forall>r. expected = Some r \<longrightarrow> r = snap_revision snap" "lower_hex_token 32 identity"
    "\<not> mentions_transition identity events"
    "value = JObj payload" "\<not> obj_has payload ''_durability''" "event = JObj m"
    "\<not> obj_has m ''revision''" "\<not> obj_has m ''transition_id''" "snap_revision snap + 1 < u64_limit"
    "commit_revision c = snap_revision snap + 1"
    "commit_event c = JObj (obj_insert ''transition_id'' (JStr identity)
       (obj_insert ''revision'' (jnat (snap_revision snap + 1)) m))"
    "commit_head c = JObj (obj_insert ''_durability''
       (JObj [(''revision'', jnat (snap_revision snap + 1)), (''last_transition'', commit_event c)]) payload)"
proof -
  have "(case expected of Some r \<Rightarrow> r \<noteq> snap_revision snap | None \<Rightarrow> False) \<longleftrightarrow>
      \<not> (\<forall>r. expected = Some r \<longrightarrow> r = snap_revision snap)"
    by (cases expected) auto
  with assms that show ?thesis
    by (auto simp: durable_commit_def res_simps Let_def lower_hex_token_def not_le split: if_splits)
qed

lemma missing_None_revision:
  "missing_transition F W snap events = Inr None \<Longrightarrow> validate_journal events = Inr (snap_revision snap)"
proof -
  have no_event: "r = n" if "validate_from n seen es = Inr r" "find has_transition (rev es) = None"
    for n seen es r
  proof -
    have "filter has_transition es = []" using that(2) by (auto simp: find_None_iff filter_empty_conv)
    then have "[Suc n..<Suc r] = []" "n \<le> r"
      using validate_from_revisions [OF that(1)] by (simp_all add: state_revisions_def del: upt_Suc)
    then show "r = n" by (simp del: upt_Suc)
  qed
  assume "missing_transition F W snap events = Inr None"
  then show ?thesis
    by (auto simp: missing_transition_def res_simps Let_def last_state_event_def validate_journal_def
        split: option.splits if_splits dest: no_event)
qed

text \<open>What a commit promises about every crash point.\<close>

lemma commit_recovers:
  assumes "durable_commit F W snap events value event expected identity = Inr c"
  obtains snap' where "from_value (commit_head c) = Inr snap'" "snap_value snap' = value"
    "snap_revision snap' = snap_revision snap + 1" "last_transition snap' = Some (commit_event c)"
    "missing_transition F W snap' events = Inr (Some (commit_event c))"
    "validate_journal (events @ [commit_event c]) = Inr (snap_revision snap + 1)"
    "canonical_equal F W (commit_event c) (commit_event c) \<Longrightarrow>
       missing_transition F W snap' (events @ [commit_event c]) = Inr None"
proof -
  from assms obtain payload m where c: "missing_transition F W snap events = Inr None"
    "\<forall>r. expected = Some r \<longrightarrow> r = snap_revision snap" "lower_hex_token 32 identity"
    "\<not> mentions_transition identity events"
    "value = JObj payload" "\<not> obj_has payload ''_durability''" "event = JObj m"
    "\<not> obj_has m ''revision''" "\<not> obj_has m ''transition_id''" "snap_revision snap + 1 < u64_limit"
    "commit_revision c = snap_revision snap + 1"
    "commit_event c = JObj (obj_insert ''transition_id'' (JStr identity)
       (obj_insert ''revision'' (jnat (snap_revision snap + 1)) m))"
    "commit_head c = JObj (obj_insert ''_durability''
       (JObj [(''revision'', jnat (snap_revision snap + 1)), (''last_transition'', commit_event c)]) payload)"
    by (rule durable_commit_eq_Inr)
  let ?e = "commit_event c" and ?n = "snap_revision snap"
  have idn: "identity \<noteq> []" "length identity = 32" using c(3) by (auto simp: lower_hex_token_def)
  then have e: "is_object ?e" "transition_id ?e = Inr identity" "has_transition ?e"
    "Option.bind (jget ?e ''revision'') as_u64 = Some (?n + 1)"
    using c(10,12) by (simp_all add: is_object_def res_simps has_transition_def)
  let ?s = "\<lparr>snap_value = value, snap_revision = ?n + 1, last_transition = Some ?e\<rparr>"
  obtain me where me: "?e = JObj me" using c(12) by blast
  have head: "from_value (commit_head c) = Inr ?s"
    using c(5,6,10,13) e me by (simp add: from_value_def Let_def obj_remove_insert_new is_null_def)
  have valid: "validate_journal events = Inr ?n" using missing_None_revision [OF c(1)] .
  have "validate_journal (events @ [?e]) = Inr (?n + 1)"
    unfolding validate_journal_def
    by (rule validate_from_snoc [OF valid [unfolded validate_journal_def] e(1,2) c(10)])
      (use e(4) c(4) in simp_all)
  note valid' = this
  have last_id: "\<exists>b. transition_id l = Inr b \<and> b \<noteq> identity" if "last_state_event events = Some l" for l
  proof -
    note l = last_state_event_in [OF that]
    from validate_from_ids [OF valid [unfolded validate_journal_def]] l
    obtain b where b: "transition_id l = Inr b" by blast
    then have "jget_str l ''transition_id'' = Some b" by (simp add: res_simps jget_str_of_Some)
    with l c(4) have "b \<noteq> identity" by (auto simp: mentions_transition_def list_ex_iff)
    with b show ?thesis by blast
  qed
  have miss: "missing_transition F W ?s events = Inr (Some ?e)"
    using valid e(2) c(4,10) last_id
    by (cases "last_state_event events") (auto simp: missing_transition_def Let_def)
  have full: "missing_transition F W ?s (events @ [?e]) = Inr None" if "canonical_equal F W ?e ?e"
    using valid' e(2,3) that by (simp add: missing_transition_def Let_def)
  show ?thesis by (rule that [OF head _ _ _ miss valid' full]) simp_all
qed

section \<open>The files\<close>

text \<open>The head file and the journal file, and the protocol of \<open>server/src/projects/store.rs\<close>: load
  both, append the omitted transition if there is one, replace the head, append the new transition.
  \<open>persist_states\<close> lists what the files hold after each of the three durable writes.\<close>

record disk =
  disk_head :: json
  disk_events :: "json list"

definition load :: "'f float_ops \<Rightarrow> (string \<Rightarrow> string) \<Rightarrow> disk \<Rightarrow> durable_error + snapshot \<times> json option" where
  "load F W d =
     and_then (from_value (disk_head d)) (\<lambda>snap.
     and_then (missing_transition F W snap (disk_events d)) (\<lambda>missing. Inr (snap, missing)))"

definition reconciled :: "json list \<Rightarrow> json option \<Rightarrow> json list" where
  "reconciled events missing = events @ (case missing of Some t \<Rightarrow> [t] | None \<Rightarrow> [])"

lemma reconciled_simps [simp]: "reconciled es None = es" "reconciled es (Some t) = es @ [t]"
  by (simp_all add: reconciled_def)

definition repair :: "disk \<Rightarrow> json option \<Rightarrow> disk" where
  "repair d missing = d\<lparr>disk_events := reconciled (disk_events d) missing\<rparr>"

definition persist_states ::
    "'f float_ops \<Rightarrow> (string \<Rightarrow> string) \<Rightarrow> disk \<Rightarrow> json \<Rightarrow> json \<Rightarrow> nat option \<Rightarrow> string
     \<Rightarrow> durable_error + disk list" where
  "persist_states F W d value event expected identity =
     and_then (load F W d) (\<lambda>(snap, missing).
     let events = reconciled (disk_events d) missing in
     and_then (durable_commit F W snap events value event expected identity) (\<lambda>c.
       Inr [repair d missing,
            \<lparr>disk_head = commit_head c, disk_events = events\<rparr>,
            \<lparr>disk_head = commit_head c, disk_events = events @ [commit_event c]\<rparr>]))"

text \<open>An event that can be written at all equals itself; one with a number beyond every double
  does not.\<close>

definition storable :: "'f float_ops \<Rightarrow> (string \<Rightarrow> string) \<Rightarrow> json \<Rightarrow> bool" where
  "storable F W e \<longleftrightarrow> canonical_equal F W e e"

lemma from_value_transition:
  assumes "from_value doc = Inr snap" "last_transition snap = Some t"
  obtains tid where "is_object t" "transition_id t = Inr tid" "snap_revision snap > 0"
    "Option.bind (jget t ''revision'') as_u64 = Some (snap_revision snap)"
proof -
  have obj: "(case x of Some (JObj t) \<Rightarrow> Inr (JObj t) | _ \<Rightarrow> Inl DurableError) = Inr y \<longleftrightarrow>
      x = Some y \<and> is_object y" for x y
    by (auto simp: is_object_def split: option.splits json.splits)
  have pos: "(case x of Some n \<Rightarrow> if 0 < n then Inr n else Inl DurableError | None \<Rightarrow> Inl DurableError)
      = Inr (n :: nat) \<longleftrightarrow> x = Some n \<and> 0 < n" for x n
    by (auto split: option.splits)
  from assms(1) obtain m where m: "doc = JObj m" by (auto simp: from_value_def res_simps)
  from assms m obtain md where md: "obj_get m ''_durability'' = Some md" "\<not> is_null md"
    by (auto simp: from_value_def Let_def split: option.splits if_splits)
  have "is_object t \<and> snap_revision snap > 0 \<and> (\<exists>tid. transition_id t = Inr tid) \<and>
      Option.bind (jget t ''revision'') as_u64 = Some (snap_revision snap)"
    using assms m md
    by (simp add: from_value_def Let_def and_then_eq_Inr obj pos) (auto simp: res_simps split: if_splits)
  with that show ?thesis by blast
qed

lemma missing_Some:
  assumes "missing_transition F W snap events = Inr (Some t)"
  obtains r tid where "last_transition snap = Some t" "validate_journal events = Inr r"
    "snap_revision snap = r + 1" "r + 1 < u64_limit" "transition_id t = Inr tid"
    "\<not> mentions_transition tid events"
  using assms
  by (auto simp: missing_transition_def res_simps Let_def not_le split: option.splits if_splits)

lemma repaired_complete:
  assumes "from_value doc = Inr snap" "missing_transition F W snap events = Inr missing"
    and "\<And>t. missing = Some t \<Longrightarrow> storable F W t"
  shows "missing_transition F W snap (reconciled events missing) = Inr None"
proof (cases missing)
  case None
  with assms show ?thesis by simp
next
  case (Some t)
  from assms(2) [unfolded Some] obtain r tid where m: "last_transition snap = Some t"
    "validate_journal events = Inr r" "snap_revision snap = r + 1" "r + 1 < u64_limit"
    "transition_id t = Inr tid" "\<not> mentions_transition tid events" by (rule missing_Some)
  from assms(1) m(1) have t: "is_object t"
    "Option.bind (jget t ''revision'') as_u64 = Some (snap_revision snap)"
    by (auto elim: from_value_transition)
  have "validate_journal (events @ [t]) = Inr (r + 1)"
    unfolding validate_journal_def
    by (rule validate_from_snoc [OF m(2) [unfolded validate_journal_def] t(1) m(5) m(4)])
      (use t m in simp_all)
  moreover have "has_transition t" using m(5) by (simp add: has_transition_def res_simps)
  ultimately show ?thesis
    using m assms(3) Some by (simp add: missing_transition_def Let_def storable_def)
qed

text \<open>C7. A registry commit is atomic at every crash point. Whatever durable write of a commit the
  process stops after, the files load again, to the old value at the old revision or to the new
  value at the next one, and the journal with the one transition the load reports as omitted is
  complete up to that revision.\<close>

theorem commit_atomic_at_every_crash:
  assumes "load F W d = Inr (snap, missing)" "\<And>t. missing = Some t \<Longrightarrow> storable F W t"
    and "persist_states F W d value event expected identity = Inr ds" "d' \<in> set ds"
    and "storable F W (last (disk_events (last ds)))"
  shows "\<exists>snap' missing'. load F W d' = Inr (snap', missing') \<and>
    (snap' = snap \<or> snap_value snap' = value \<and> snap_revision snap' = snap_revision snap + 1) \<and>
    validate_journal (reconciled (disk_events d') missing') = Inr (snap_revision snap')"
proof -
  let ?es = "reconciled (disk_events d) missing"
  from assms(1) have l: "from_value (disk_head d) = Inr snap"
    "missing_transition F W snap (disk_events d) = Inr missing" by (auto simp: load_def res_simps)
  note full = repaired_complete [OF l assms(2)]
  from assms(1,3) obtain c where c: "durable_commit F W snap ?es value event expected identity = Inr c"
    and ds: "ds = [repair d missing, \<lparr>disk_head = commit_head c, disk_events = ?es\<rparr>,
       \<lparr>disk_head = commit_head c, disk_events = ?es @ [commit_event c]\<rparr>]"
    by (auto simp: persist_states_def res_simps Let_def)
  from assms(5) ds have st: "canonical_equal F W (commit_event c) (commit_event c)"
    by (simp add: storable_def)
  from c obtain snap' where s: "from_value (commit_head c) = Inr snap'" "snap_value snap' = value"
    "snap_revision snap' = snap_revision snap + 1"
    "missing_transition F W snap' ?es = Inr (Some (commit_event c))"
    "validate_journal (?es @ [commit_event c]) = Inr (snap_revision snap + 1)"
    "missing_transition F W snap' (?es @ [commit_event c]) = Inr None"
    using st by (metis commit_recovers)
  from assms(4) ds consider "d' = repair d missing"
    | "d' = \<lparr>disk_head = commit_head c, disk_events = ?es\<rparr>"
    | "d' = \<lparr>disk_head = commit_head c, disk_events = ?es @ [commit_event c]\<rparr>" by auto
  then show ?thesis
  proof cases
    case 1
    have "load F W d' = Inr (snap, None)" using 1 l full by (simp add: load_def repair_def)
    moreover have "validate_journal (reconciled (disk_events d') None) = Inr (snap_revision snap)"
      using 1 missing_None_revision [OF full] by (simp add: repair_def)
    ultimately show ?thesis by blast
  next
    case 2
    with s have "load F W d' = Inr (snap', Some (commit_event c))" by (simp add: load_def)
    moreover have "validate_journal (reconciled (disk_events d') (Some (commit_event c))) =
        Inr (snap_revision snap')"
      using 2 s by simp
    ultimately show ?thesis using s by blast
  next
    case 3
    with s have "load F W d' = Inr (snap', None)" by (simp add: load_def)
    moreover have "validate_journal (reconciled (disk_events d') None) = Inr (snap_revision snap')"
      using 3 s by simp
    ultimately show ?thesis using s by blast
  qed
qed

definition sample_disk :: disk where
  "sample_disk = \<lparr>disk_head = JObj [(''projects'', JArr [])], disk_events = []\<rparr>"

definition sample_persist :: "durable_error + disk list" where
  "sample_persist = persist_states integral_floats rfc_escape sample_disk
     (JObj [(''projects'', JArr [JStr ''a''])]) (JObj [(''event'', JStr ''registered'')])
     (Some 0) (replicate 32 CHR ''0'')"

theorem commit_atomic_at_every_crash_witness:
  "\<exists>ds snap' missing'. sample_persist = Inr ds \<and> length ds = 3 \<and>
     load integral_floats rfc_escape (ds ! 1) = Inr (snap', missing') \<and>
     validate_journal (reconciled (disk_events (ds ! 1)) missing') = Inr (snap_revision snap')"
proof -
  have "map_option (\<lambda>ds. length ds = 3 \<and>
      storable integral_floats rfc_escape (last (disk_events (last ds)))) (ok sample_persist) = Some True"
    by code_simp
  then obtain ds where ds: "sample_persist = Inr ds" "length ds = 3"
    "storable integral_floats rfc_escape (last (disk_events (last ds)))"
    by (auto simp: ok_eq_Some)
  have "load integral_floats rfc_escape sample_disk =
      Inr (\<lparr>snap_value = JObj [(''projects'', JArr [])], snap_revision = 0, last_transition = None\<rparr>, None)"
    by code_simp
  from commit_atomic_at_every_crash [OF this _ ds(1) [unfolded sample_persist_def] _ ds(3), of "ds ! 1"]
  obtain snap' missing' where "load integral_floats rfc_escape (ds ! 1) = Inr (snap', missing')"
    "validate_journal (reconciled (disk_events (ds ! 1)) missing') = Inr (snap_revision snap')"
    using ds(2) by auto
  with ds show ?thesis by blast
qed

section \<open>The registry as a revisioned cell\<close>

record change =
  change_value :: json
  change_event :: json
  change_expected :: nat
  change_identity :: string

definition disk_revision :: "disk \<Rightarrow> int" where
  "disk_revision d = (case from_value (disk_head d) of Inr s \<Rightarrow> int (snap_revision s) | Inl _ \<Rightarrow> 0)"

definition disk_publish :: "'f float_ops \<Rightarrow> (string \<Rightarrow> string) \<Rightarrow> change \<Rightarrow> disk \<Rightarrow> disk option" where
  "disk_publish F W p d =
     map_option last (ok (persist_states F W d (change_value p) (change_event p)
       (Some (change_expected p)) (change_identity p)))"

lemma disk_publish_revision:
  assumes "disk_publish F W p d = Some d'"
  shows "Some (int (change_expected p)) = Some (disk_revision d)" "disk_revision d' = disk_revision d + 1"
proof -
  from assms obtain snap missing c where l: "load F W d = Inr (snap, missing)"
    and c: "durable_commit F W snap (reconciled (disk_events d) missing) (change_value p) (change_event p)
      (Some (change_expected p)) (change_identity p) = Inr c"
    and d': "disk_head d' = commit_head c"
    by (auto simp: disk_publish_def ok_eq_Some persist_states_def res_simps Let_def)
  have doc: "from_value (disk_head d) = Inr snap" using l by (auto simp: load_def res_simps)
  show "Some (int (change_expected p)) = Some (disk_revision d)"
    using c doc by (auto simp: disk_revision_def elim!: durable_commit_eq_Inr)
  from c obtain snap' where "from_value (commit_head c) = Inr snap'"
    "snap_revision snap' = snap_revision snap + 1"
    by (rule commit_recovers)
  with doc d' show "disk_revision d' = disk_revision d + 1" by (simp add: disk_revision_def)
qed

interpretation registry_cell:
  revision_cell disk_revision "\<lambda>p. Some (int (change_expected p))" "disk_publish F W"
  for F :: "'f float_ops" and W :: "string \<Rightarrow> string"
  by unfold_locales (fact disk_publish_revision)+

fun disk_commits ::
    "'f float_ops \<Rightarrow> (string \<Rightarrow> string) \<Rightarrow> change list \<Rightarrow> disk \<Rightarrow> change list \<times> disk" where
  "disk_commits F W [] d = ([], d)"
| "disk_commits F W (p # ps) d =
     (case disk_publish F W p d of
        None \<Rightarrow> disk_commits F W ps d
      | Some d' \<Rightarrow> (case disk_commits F W ps d' of (accepted, d'') \<Rightarrow> (p # accepted, d'')))"

lemma disk_commits_cell:
  fixes F :: "'f float_ops"
  shows "disk_commits F W ps d =
    (registry_cell.winners TYPE('f) F W ps d, registry_cell.attempts TYPE('f) F W ps d)"
  by (induction ps arbitrary: d) (auto split: option.splits prod.splits)

text \<open>C25. Concurrent registry changes are compare-and-swap. Of any sequence of changes that name the
  revision they expect, at most one is accepted per revision, and the head advances by exactly the
  number of accepted changes.\<close>

theorem registry_changes_are_compare_and_swap:
  fixes F :: "'f float_ops"
  shows "distinct (map change_expected (fst (disk_commits F W ps d))) \<and>
   disk_revision (snd (disk_commits F W ps d)) =
     disk_revision d + int (length (fst (disk_commits F W ps d)))"
  using registry_cell.winners_distinct [where ?F = F and ?W = W and ?ps = ps and ?s = d]
    registry_cell.attempts_revision [where ?F = F and ?W = W and ?ps = ps and ?s = d]
  by (auto simp: disk_commits_cell distinct_map inj_on_def)

end
