(* ===== verification/Cancel.thy ===== *)
theory Cancel
  imports Identity Json
begin

text \<open>
  Submission tokens and the cancellation outbox: \<open>rust/crates/core/src/submission.rs\<close>. The worker
  persists the returned intent before it calls the scheduler, so what has been persisted is the
  state of the protocol: no intent, a REQUESTED intent, or a VERIFIED one with its result.
\<close>

datatype submission_error =
    Identity string
  | Intent string
  | Conflict string
  | Observation string

record target_identity =
  ti_project :: string
  ti_run :: string
  ti_attempt :: string

definition validate_target :: "target_identity \<Rightarrow> submission_error + unit" where
  "validate_target t =
     and_then (map_err (\<lambda>_. Identity ''project'') (validate_id (ti_project t))) (\<lambda>_.
     and_then (map_err (\<lambda>_. Identity ''run_id'') (validate_id (ti_run t))) (\<lambda>_.
     and_then (map_err (\<lambda>_. Identity ''attempt_id'') (validate_attempt (ti_attempt t))) (\<lambda>_.
       Inr ())))"

abbreviation TOKEN_BYTES :: nat where "TOKEN_BYTES \<equiv> 16"

definition token_valid :: "string \<Rightarrow> bool" where
  "token_valid v \<longleftrightarrow> length v = TOKEN_BYTES * 2 \<and> list_all is_lower_hex v"

definition validate_submission_token :: "string \<Rightarrow> submission_error + string" where
  "validate_submission_token v = (if token_valid v then Inr v else Inl (Identity ''submission_token''))"

definition intent_field :: "json \<Rightarrow> string \<Rightarrow> submission_error + json" where
  "intent_field v name = ok_or (Option.bind (as_object v) (\<lambda>m. obj_get m name)) (Intent name)"

definition string_field :: "json \<Rightarrow> string \<Rightarrow> submission_error + string" where
  "string_field v name =
     and_then (intent_field v name) (\<lambda>w.
       case as_str w of
         Some s \<Rightarrow> if s = [] then Inl (Intent name) else Inr s
       | None \<Rightarrow> Inl (Intent name))"

record cancel_identity =
  ci_target :: target_identity
  ci_backend :: "string option"
  ci_job :: string

definition plain_text :: "nat \<Rightarrow> string \<Rightarrow> bool" where
  "plain_text limit s \<longleftrightarrow> s \<noteq> [] \<and> length s \<le> limit \<and> \<not> has_control s"

definition validate_cancel_identity :: "cancel_identity \<Rightarrow> submission_error + unit" where
  "validate_cancel_identity i =
     and_then (validate_target (ci_target i)) (\<lambda>_.
     and_then (case ci_backend i of
         None \<Rightarrow> Inr ()
       | Some b \<Rightarrow> and_then (map_err (\<lambda>_. Identity ''backend'') (validate_id b)) (\<lambda>_. Inr ())) (\<lambda>_.
       if \<not> plain_text 256 (ci_job i) then Inl (Identity ''backend_job_id'') else Inr ()))"

datatype cancel_status =
    ExactStatus target_identity string string json
  | UnavailableOrAmbiguous string

fun validate_cancel_status :: "cancel_status \<Rightarrow> submission_error + unit" where
  "validate_cancel_status (ExactStatus target job state result) =
     and_then (validate_target target) (\<lambda>_.
       if \<not> plain_text 256 job \<or> \<not> plain_text 64 state \<or> \<not> is_object result
       then Inl (Observation ''cancel status'') else Inr ())"
| "validate_cancel_status (UnavailableOrAmbiguous reason) =
     (if \<not> plain_text 2048 reason then Inl (Observation ''reason'') else Inr ())"

datatype cancel_decision =
    CreateRequested json string
  | VerifyTerminal json json
  | AlreadyVerified json
  | Wait string

definition terminal_state :: "string \<Rightarrow> bool" where
  "terminal_state state \<longleftrightarrow> to_ascii_uppercase state \<in>
     {''SUCCEEDED'', ''FAILED'', ''CANCELLED'', ''CANCELED'', ''PREEMPTED'', ''COMPLETED''}"

definition cancel_identity_matches :: "json \<Rightarrow> cancel_identity \<Rightarrow> bool" where
  "cancel_identity_matches intent i \<longleftrightarrow>
     is_object intent \<and>
     jget_str intent ''project'' = Some (ti_project (ci_target i)) \<and>
     jget_str intent ''run_id'' = Some (ti_run (ci_target i)) \<and>
     jget_str intent ''attempt_id'' = Some (ti_attempt (ci_target i)) \<and>
     jget_str intent ''backend_job_id'' = Some (ci_job i) \<and>
     (case (ci_backend i, jget intent ''backend'') of
        (None, None) \<Rightarrow> True
      | (None, Some JNull) \<Rightarrow> True
      | (Some expected, Some (JStr actual)) \<Rightarrow> expected = actual
      | _ \<Rightarrow> False)"

definition requested_intent :: "cancel_identity \<Rightarrow> string \<Rightarrow> json" where
  "requested_intent i now =
     JObj [(''schema_version'', jnat 1), (''state'', JStr ''REQUESTED''), (''requested_at'', JStr now),
       (''project'', JStr (ti_project (ci_target i))), (''run_id'', JStr (ti_run (ci_target i))),
       (''attempt_id'', JStr (ti_attempt (ci_target i))), (''backend'', jstr_or_null (ci_backend i)),
       (''backend_job_id'', JStr (ci_job i))]"

definition plan_cancel ::
    "cancel_identity \<Rightarrow> json option \<Rightarrow> cancel_status option \<Rightarrow> string \<Rightarrow> submission_error + cancel_decision" where
  "plan_cancel i existing status now =
     and_then (validate_cancel_identity i) (\<lambda>_.
     if \<not> plain_text 128 now then Inl (Intent ''requested_at'')
     else and_then (case status of None \<Rightarrow> Inr () | Some s \<Rightarrow> validate_cancel_status s) (\<lambda>_.
     case existing of
       None \<Rightarrow> Inr (CreateRequested (requested_intent i now) (ci_job i))
     | Some intent \<Rightarrow>
         if \<not> cancel_identity_matches intent i then Inl (Conflict ''cancel scheduler identity'')
         else and_then (string_field intent ''state'') (\<lambda>state.
           if state = ''VERIFIED''
           then (case jget intent ''result'' of
                   Some (JObj r) \<Rightarrow> Inr (AlreadyVerified (JObj r))
                 | _ \<Rightarrow> Inl (Intent ''result''))
           else if state \<noteq> ''REQUESTED'' then Inl (Intent ''cancel state'')
           else (case status of
                   None \<Rightarrow> Inr (Wait ''a persisted cancel request requires an exact status observation'')
                 | Some (UnavailableOrAmbiguous reason) \<Rightarrow> Inr (Wait reason)
                 | Some (ExactStatus target job st result) \<Rightarrow>
                     if target \<noteq> ci_target i \<or> job \<noteq> ci_job i
                     then Inr (Wait ''status is not bound to the exact scheduler job'')
                     else if terminal_state st
                     then and_then (ok_or (as_object intent) (Intent ''object'')) (\<lambda>m.
                            Inr (VerifyTerminal
                              (JObj (obj_insert ''result'' result
                                (obj_insert ''verified_at'' (JStr now)
                                  (obj_insert ''state'' (JStr ''VERIFIED'') m)))) result))
                     else Inr (Wait
                       ''exact scheduler job remains nonterminal; no second cancel is allowed'')))))"

section \<open>The outbox\<close>

text \<open>The shell persists the intent a decision carries and then calls the scheduler if the decision
  says so: the jobs it is told to cancel, in order, and the intent left behind. A call the core
  refuses changes nothing.\<close>

fun cancel_run ::
    "cancel_identity \<Rightarrow> json option \<Rightarrow> (cancel_status option \<times> string) list \<Rightarrow> string list \<times> json option" where
  "cancel_run i existing [] = ([], existing)"
| "cancel_run i existing ((status, now) # calls) =
     (case plan_cancel i existing status now of
        Inr (CreateRequested intent job) \<Rightarrow>
          (case cancel_run i (Some intent) calls of (jobs, final) \<Rightarrow> (job # jobs, final))
      | Inr (VerifyTerminal intent result) \<Rightarrow> cancel_run i (Some intent) calls
      | _ \<Rightarrow> cancel_run i existing calls)"

lemma requested_matches: "cancel_identity_matches (requested_intent i now) i"
  by (cases "ci_backend i")
    (simp_all add: cancel_identity_matches_def requested_intent_def is_object_def jget_str_def jstr_or_null_def)

lemma requested_state: "string_field (requested_intent i now) ''state'' = Inr ''REQUESTED''"
  by (simp add: string_field_def intent_field_def requested_intent_def)

lemma plan_cancel_None:
  "plan_cancel i None status now = Inr d \<Longrightarrow> d = CreateRequested (requested_intent i now) (ci_job i)"
  by (auto simp: plan_cancel_def res_simps split: if_splits)

lemma plan_cancel_Some:
  assumes "plan_cancel i (Some old) status now = Inr d"
  obtains (verified) r where "d = AlreadyVerified r" "string_field old ''state'' = Inr ''VERIFIED''"
    | (wait) reason where "d = Wait reason"
    | (terminal) st result m where "status = Some (ExactStatus (ci_target i) (ci_job i) st result)"
      "terminal_state st" "old = JObj m" "cancel_identity_matches old i"
      "string_field old ''state'' = Inr ''REQUESTED''"
      "d = VerifyTerminal (JObj (obj_insert ''result'' result (obj_insert ''verified_at'' (JStr now)
             (obj_insert ''state'' (JStr ''VERIFIED'') m)))) result"
proof -
  from assms obtain state where m: "cancel_identity_matches old i" and
    st: "string_field old ''state'' = Inr state"
    by (auto simp: plan_cancel_def res_simps split: if_splits)
  show ?thesis
  proof (cases "state = ''VERIFIED''")
    case True
    with m st assms that(1) show ?thesis
      by (auto simp: plan_cancel_def res_simps split: if_splits option.splits json.splits)
  next
    case False
    with m st assms have "(case status of
           None \<Rightarrow> Inr (Wait ''a persisted cancel request requires an exact status observation'')
         | Some (UnavailableOrAmbiguous reason) \<Rightarrow> Inr (Wait reason)
         | Some (ExactStatus target job st result) \<Rightarrow>
             if target \<noteq> ci_target i \<or> job \<noteq> ci_job i
             then Inr (Wait ''status is not bound to the exact scheduler job'')
             else if terminal_state st
             then and_then (ok_or (as_object old) (Intent ''object'')) (\<lambda>m.
                    Inr (VerifyTerminal
                      (JObj (obj_insert ''result'' result
                        (obj_insert ''verified_at'' (JStr now)
                          (obj_insert ''state'' (JStr ''VERIFIED'') m)))) result))
             else Inr (Wait
               ''exact scheduler job remains nonterminal; no second cancel is allowed'')) = Inr d \<and>
        state = ''REQUESTED''"
      by (auto simp: plan_cancel_def and_then_eq_Inr split: if_splits)
    with m st that(2,3) show ?thesis
      by (cases status) (auto simp: res_simps split: cancel_status.splits if_splits)
  qed
qed

lemma plan_cancel_create:
  "plan_cancel i existing status now = Inr (CreateRequested intent job) \<Longrightarrow>
   existing = None \<and> intent = requested_intent i now \<and> job = ci_job i"
  by (cases existing) (auto dest: plan_cancel_None elim: plan_cancel_Some)

lemma cancel_run_existing: "cancel_run i (Some intent) calls = (jobs, final) \<Longrightarrow> jobs = [] \<and> final \<noteq> None"
proof (induction calls arbitrary: intent)
  case Nil
  then show ?case by auto
next
  case (Cons c calls)
  obtain status now where c: "c = (status, now)" by (cases c)
  show ?case
    using Cons plan_cancel_create [of i "Some intent" status now]
    by (auto simp: c split: sum.splits cancel_decision.splits prod.splits)
qed

text \<open>C8. At most one cancel call. However often cancellation is retried, with whatever
  observations and at whatever times, the scheduler is asked to cancel at most once, only ever the
  job of the identity, and never once an intent has been persisted.\<close>

theorem at_most_one_cancel:
  "fst (cancel_run i existing calls) \<in> {[], [ci_job i]} \<and>
   (existing \<noteq> None \<longrightarrow> fst (cancel_run i existing calls) = [] \<and> snd (cancel_run i existing calls) \<noteq> None)"
proof (induction calls)
  case Nil
  then show ?case by simp
next
  case (Cons c calls)
  obtain status now where c: "c = (status, now)" by (cases c)
  show ?case
  proof (cases existing)
    case (Some intent)
    then show ?thesis
      using cancel_run_existing [of i intent "c # calls"] by (metis insertI1 prod.collapse)
  next
    case None
    show ?thesis
    proof (cases "plan_cancel i None status now")
      case (Inl e)
      with Cons None c show ?thesis by simp
    next
      case (Inr d)
      then have d: "d = CreateRequested (requested_intent i now) (ci_job i)" by (rule plan_cancel_None)
      obtain jobs final where f: "cancel_run i (Some (requested_intent i now)) calls = (jobs, final)"
        by (cases "cancel_run i (Some (requested_intent i now)) calls")
      with cancel_run_existing [OF f] Inr d None c show ?thesis by simp
    qed
  qed
qed

definition sample_cancel :: cancel_identity where
  "sample_cancel = \<lparr>ci_target = \<lparr>ti_project = ''demo'', ti_run = ''train'', ti_attempt = ''attempt-001''\<rparr>,
     ci_backend = Some ''cluster'', ci_job = ''4711''\<rparr>"

theorem at_most_one_cancel_witness:
  "fst (cancel_run sample_cancel None [(None, ''t''), (None, ''t''),
     (Some (ExactStatus (ci_target sample_cancel) ''4711'' ''cancelled'' (JObj [])), ''t'')]) = [''4711''] \<and>
   fst (cancel_run sample_cancel (Some (requested_intent sample_cancel ''t'')) [(None, ''t'')]) = []"
proof
  show "fst (cancel_run sample_cancel (Some (requested_intent sample_cancel ''t'')) [(None, ''t'')]) = []"
    using at_most_one_cancel [of sample_cancel "Some (requested_intent sample_cancel ''t'')" "[(None, ''t'')]"]
    by simp
  show "fst (cancel_run sample_cancel None [(None, ''t''), (None, ''t''),
     (Some (ExactStatus (ci_target sample_cancel) ''4711'' ''cancelled'' (JObj [])), ''t'')]) = [''4711'']"
    by code_simp
qed

text \<open>A cancellation is verified only by an exact terminal observation of that very job, and the
  request a fresh cancellation persists is accepted by every later call with the same identity: it
  never conflicts with itself, and with no exact observation it waits.\<close>

theorem cancel_is_verified_by_exact_observation:
  assumes "plan_cancel i None first_status first_time = Inr (CreateRequested intent job)"
    and "is_ok (validate_cancel_identity i)" and "plain_text 128 now"
    and "\<And>s. status = Some s \<Longrightarrow> is_ok (validate_cancel_status s)"
  shows "\<exists>d. plan_cancel i (Some intent) status now = Inr d \<and>
    ((\<exists>intent' result. d = VerifyTerminal intent' result) \<longleftrightarrow>
      (\<exists>st result. status = Some (ExactStatus (ci_target i) (ci_job i) st result) \<and> terminal_state st)) \<and>
    (\<nexists>intent' j. d = CreateRequested intent' j)"
proof -
  have intent: "intent = requested_intent i first_time"
    using plan_cancel_create [OF assms(1)] by simp
  have m: "cancel_identity_matches intent i" "string_field intent ''state'' = Inr ''REQUESTED''"
    "\<exists>m. intent = JObj m"
    by (simp_all add: intent requested_matches requested_state) (simp add: requested_intent_def)
  show ?thesis
    using assms(2-4) m
    by (cases status) (auto simp: plan_cancel_def is_ok_iff split: cancel_status.splits)
qed

theorem cancel_is_verified_by_exact_observation_witness:
  "\<exists>d. plan_cancel sample_cancel (Some (requested_intent sample_cancel ''t''))
      (Some (ExactStatus (ci_target sample_cancel) ''4711'' ''completed'' (JObj []))) ''t'' = Inr d \<and>
    (\<exists>intent' result. d = VerifyTerminal intent' result)"
proof -
  let ?s = "ExactStatus (ci_target sample_cancel) ''4711'' ''completed'' (JObj [])"
  have a: "plan_cancel sample_cancel None None ''t'' =
      Inr (CreateRequested (requested_intent sample_cancel ''t'') ''4711'')" by code_simp
  have b: "is_ok (validate_cancel_identity sample_cancel)" "plain_text 128 ''t''"
    "is_ok (validate_cancel_status ?s)" "terminal_state ''completed''" by code_simp+
  have "ci_job sample_cancel = ''4711''" by (simp add: sample_cancel_def)
  with cancel_is_verified_by_exact_observation [OF a b(1,2), of "Some ?s"] b(3,4) show ?thesis by auto
qed

end
