(* ===== verification/Polling.thy ===== *)
theory Polling
  imports Prelude
begin

text \<open>
  Fair bounded background observation: \<open>rust/crates/core/src/polling.rs\<close>. The schedule keeps, per
  candidate, when it is due, how often it failed in a row and which phase comes next. The
  \<open>BTreeSet\<close> of candidates is the ascending list of its elements; the \<open>BTreeMap\<close> of entries is a map.
\<close>

record policy =
  enabled :: bool
  interval_seconds :: u64
  rpc_timeout_seconds :: u64

definition default_policy :: policy where
  "default_policy = \<lparr>enabled = False, interval_seconds = 10, rpc_timeout_seconds = 5\<rparr>"

definition validate_policy :: "policy \<Rightarrow> bool" where
  "validate_policy p \<longleftrightarrow>
     (2 \<le> interval_seconds p \<and> interval_seconds p \<le> 300) \<and>
     (1 \<le> rpc_timeout_seconds p \<and> rpc_timeout_seconds p \<le> 30)"

datatype phase = Scheduler | Worker | History

fun next_phase :: "phase \<Rightarrow> phase" where
  "next_phase Scheduler = Worker"
| "next_phase Worker = History"
| "next_phase History = Scheduler"

record entry =
  due :: u64
  failures :: u32
  entry_phase :: phase

definition default_entry :: entry where
  "default_entry = \<lparr>due = 0, failures = 0, entry_phase = Scheduler\<rparr>"

record schedule =
  entries :: "string \<rightharpoonup> entry"
  after :: string

definition default_schedule :: schedule where
  "default_schedule = \<lparr>entries = Map.empty, after = []\<rparr>"

text \<open>The entries of the candidates only, a default one where there was none.\<close>

definition retained :: "string list \<Rightarrow> (string \<rightharpoonup> entry) \<Rightarrow> (string \<rightharpoonup> entry)" where
  "retained candidates es =
     (\<lambda>k. if k \<in> set candidates
          then Some (case es k of Some e \<Rightarrow> e | None \<Rightarrow> default_entry) else None)"

definition is_due :: "(string \<rightharpoonup> entry) \<Rightarrow> u64 \<Rightarrow> string \<Rightarrow> bool" where
  "is_due es now key = (case es key of Some e \<Rightarrow> due e \<le> now | None \<Rightarrow> False)"

definition select ::
    "schedule \<Rightarrow> string list \<Rightarrow> u64 \<Rightarrow> policy \<Rightarrow> schedule \<times> (string \<times> phase) option" where
  "select s candidates now p =
     (if \<not> enabled p \<or> \<not> validate_policy p then (s, None)
      else let es = retained candidates (entries s);
               s' = s\<lparr>entries := es\<rparr>;
               ready = filter (is_due es now) candidates
           in case (case find (\<lambda>k. after s < k) ready of Some k \<Rightarrow> Some k | None \<Rightarrow> find (\<lambda>_. True) ready) of
                None \<Rightarrow> (s', None)
              | Some key \<Rightarrow>
                  (s'\<lparr>after := key\<rparr>,
                   Some (key, case es key of Some e \<Rightarrow> entry_phase e | None \<Rightarrow> Scheduler)))"

definition backoff :: "policy \<Rightarrow> u32 \<Rightarrow> u64" where
  "backoff p n = min (saturating_mul (interval_seconds p) (push_bit (unat n) 1)) 300"

definition outcome :: "schedule \<Rightarrow> string \<Rightarrow> u64 \<Rightarrow> policy \<Rightarrow> bool \<Rightarrow> bool \<Rightarrow> schedule" where
  "outcome s key now p success busy =
     (case entries s key of
        None \<Rightarrow> s
      | Some e \<Rightarrow>
          if busy then s\<lparr>entries := (entries s)(key \<mapsto> e\<lparr>due := saturating_add now 1\<rparr>)\<rparr>
          else let n = (if success then 0 else min (saturating_add (failures e) 1) 5);
                   ph = next_phase (entry_phase e);
                   delay = backoff p n
               in s\<lparr>entries := (entries s)(key \<mapsto>
                      \<lparr>due = saturating_add now (if success \<and> ph \<noteq> Scheduler then 1 else delay),
                       failures = n, entry_phase = ph\<rparr>)\<rparr>)"

definition due_at :: "schedule \<Rightarrow> string \<Rightarrow> u64 \<Rightarrow> schedule" where
  "due_at s key t =
     (case entries s key of
        None \<Rightarrow> s
      | Some e \<Rightarrow> s\<lparr>entries := (entries s)(key \<mapsto> e\<lparr>failures := 0, due := t\<rparr>)\<rparr>)"

definition skipped :: "schedule \<Rightarrow> string \<Rightarrow> u64 \<Rightarrow> policy \<Rightarrow> schedule" where
  "skipped s key now p =
     (case entries s key of
        None \<Rightarrow> s
      | Some e \<Rightarrow>
          let ph = next_phase (entry_phase e);
              wait = (ph = Scheduler \<and> failures e = 0)
          in s\<lparr>entries := (entries s)(key \<mapsto>
               e\<lparr>entry_phase := ph,
                 due := saturating_add now (if wait then interval_seconds p else 1)\<rparr>)\<rparr>)"

section \<open>Fairness\<close>

lemma find_head: "find (\<lambda>_. True) xs = (case xs of [] \<Rightarrow> None | x # _ \<Rightarrow> Some x)"
  by (cases xs) auto

text \<open>In an ascending list, \<open>find\<close> of an upward closed test returns the least element passing it.\<close>

lemma find_least:
  assumes "sorted xs" "find P xs = Some x"
  shows "x \<in> set xs \<and> P x \<and> (\<forall>y \<in> set xs. P y \<longrightarrow> x \<le> y)"
  using assms by (induction xs) (auto split: if_splits)

definition due_now :: "schedule \<Rightarrow> string list \<Rightarrow> u64 \<Rightarrow> string \<Rightarrow> bool" where
  "due_now s candidates now k = is_due (retained candidates (entries s)) now k"

text \<open>The key selected is the next due one after the last, cyclically.\<close>

lemma select_next:
  assumes "enabled p" "validate_policy p" "sorted candidates" "due_now s candidates now k" "k \<in> set candidates"
  obtains key ph where "snd (select s candidates now p) = Some (key, ph)"
    "after (fst (select s candidates now p)) = key" "key \<in> set candidates"
    "after s < k \<longrightarrow> after s < key \<and> key \<le> k"
    "\<not> after s < k \<longrightarrow> after s < key \<or> key \<le> k"
proof -
  let ?es = "retained candidates (entries s)"
  let ?ready = "filter (is_due ?es now) candidates"
  have k: "k \<in> set ?ready" using assms(4,5) by (simp add: due_now_def)
  have sorted: "sorted ?ready" using assms(3) by (rule sorted_wrt_filter)
  show ?thesis
  proof (cases "find (\<lambda>k. after s < k) ?ready")
    case (Some key)
    note least = find_least [OF sorted Some]
    obtain ph where "select s candidates now p = (s\<lparr>entries := ?es, after := key\<rparr>, Some (key, ph))"
      using assms(1,2) Some by (simp add: select_def Let_def)
    with least k show ?thesis by (intro that [of key ph]) auto
  next
    case None
    obtain key rest where r: "?ready = key # rest" using k by (cases ?ready) auto
    obtain ph where "select s candidates now p = (s\<lparr>entries := ?es, after := key\<rparr>, Some (key, ph))"
      using assms(1,2) None by (simp add: select_def Let_def find_head r)
    moreover have "\<not> after s < k" using None k by (auto simp: find_None_iff)
    moreover have "key \<le> k" using sorted k r by auto
    moreover have "key \<in> set candidates" using r by (auto simp: filter_eq_Cons_iff)
    ultimately show ?thesis by (intro that [of key ph]) auto
  qed
qed

text \<open>What happens between two selections: outcomes, paced entries and skipped phases.\<close>

datatype poll_event =
    Outcome string u64 bool bool
  | Paced string u64
  | Skipped string u64

fun apply_event :: "policy \<Rightarrow> schedule \<Rightarrow> poll_event \<Rightarrow> schedule" where
  "apply_event p s (Outcome key now success busy) = outcome s key now p success busy"
| "apply_event p s (Paced key t) = due_at s key t"
| "apply_event p s (Skipped key now) = skipped s key now p"

text \<open>A run of the poller: at each selection, whether \<open>k\<close> was due, and the key selected.\<close>

fun poll_run ::
    "policy \<Rightarrow> string list \<Rightarrow> string \<Rightarrow> schedule \<Rightarrow> (u64 \<times> poll_event list) list
     \<Rightarrow> (bool \<times> string option) list" where
  "poll_run p candidates k s [] = []"
| "poll_run p candidates k s ((now, es) # rest) =
     (due_now s candidates now k, map_option fst (snd (select s candidates now p)))
       # poll_run p candidates k (foldl (apply_event p) (fst (select s candidates now p)) es) rest"

lemma after_apply_event [simp]: "after (apply_event p s e) = after s"
  by (cases e) (auto simp: outcome_def due_at_def skipped_def Let_def split: option.splits)

lemma after_events [simp]: "after (foldl (apply_event p) s es) = after s"
  by (induction es arbitrary: s) simp_all

text \<open>How many candidates come before \<open>k\<close>, itself included, going round from the last selection.\<close>

definition distance :: "string list \<Rightarrow> string \<Rightarrow> string \<Rightarrow> nat" where
  "distance candidates k a =
     (if a < k then length (filter (\<lambda>c. a < c \<and> c \<le> k) candidates)
      else length (filter (\<lambda>c. a < c \<or> c \<le> k) candidates))"

lemma filter_length_less:
  assumes "\<And>x. x \<in> set xs \<Longrightarrow> P x \<Longrightarrow> Q x" "z \<in> set xs" "Q z" "\<not> P z"
  shows "length (filter P xs) < length (filter Q xs)"
proof -
  have "filter P xs = filter P (filter Q xs)"
    using assms(1) by (auto simp: filter_filter intro: filter_cong)
  moreover have "length (filter P (filter Q xs)) < length (filter Q xs)"
    using assms(2-4) by (intro length_filter_less [of z]) auto
  ultimately show ?thesis by simp
qed

lemma distance_pos: "k \<in> set candidates \<Longrightarrow> 0 < distance candidates k a"
  by (auto simp: distance_def filter_empty_conv)

lemma distance_decreases:
  assumes "key \<in> set candidates" "key \<noteq> k" "k \<in> set candidates"
    and "a < k \<longrightarrow> a < key \<and> key \<le> k" "\<not> a < k \<longrightarrow> a < key \<or> key \<le> k"
  shows "distance candidates k key < distance candidates k a"
proof (cases "a < k")
  case True
  with assms have "a < key" "key < k" by auto
  then show ?thesis
    using True assms(1) by (simp add: distance_def) (intro filter_length_less [of _ _ _ key]; auto)
next
  case False
  then consider "key < k" | "a < key" "k < key" using assms(2,5) by fastforce
  then show ?thesis
  proof cases
    case 1
    with False assms(1) show ?thesis
      by (simp add: distance_def) (intro filter_length_less [of _ _ _ key]; auto)
  next
    case 2
    then have "\<not> key < k" by simp
    with 2 False assms(1) show ?thesis
      by (simp add: distance_def) (intro filter_length_less [of _ _ _ key]; auto)
  qed
qed

lemma poll_run_fair:
  assumes "enabled p" "validate_policy p" "sorted candidates" "k \<in> set candidates"
    and "distance candidates k (after s) \<le> length inputs"
    and "list_all fst (poll_run p candidates k s inputs)"
  shows "Some k \<in> snd ` set (poll_run p candidates k s inputs)"
  using assms(5,6)
proof (induction inputs arbitrary: s)
  case Nil
  with distance_pos [OF assms(4)] show ?case by (metis list.size(3) not_le)
next
  case (Cons input inputs)
  obtain now es where i: "input = (now, es)" by (cases input)
  let ?s = "fst (select s candidates now p)"
  have due: "due_now s candidates now k" using Cons.prems(2) by (simp add: i)
  obtain key ph where sel: "snd (select s candidates now p) = Some (key, ph)" "after ?s = key"
    "key \<in> set candidates" "after s < k \<longrightarrow> after s < key \<and> key \<le> k"
    "\<not> after s < k \<longrightarrow> after s < key \<or> key \<le> k"
    by (rule select_next [OF assms(1-3) due assms(4)])
  show ?case
  proof (cases "key = k")
    case True
    with sel(1) show ?thesis by (simp add: i)
  next
    case False
    let ?s' = "foldl (apply_event p) ?s es"
    have "distance candidates k (after ?s') < distance candidates k (after s)"
      using distance_decreases [OF sel(3) False assms(4) sel(4,5)] sel(2) by simp
    then have "Some k \<in> snd ` set (poll_run p candidates k ?s' inputs)"
      using Cons.prems by (intro Cons.IH) (simp_all add: i)
    then show ?thesis by (simp add: i)
  qed
qed

text \<open>C26. Polling is fair. While a candidate stays due, it is selected within as many selections as
  there are candidates, whatever the outcomes, paced entries, skipped phases and clock readings in
  between, and whichever candidate was selected last.\<close>

theorem polling_is_fair:
  assumes "enabled p" "validate_policy p" "sorted candidates" "k \<in> set candidates"
    and "length candidates \<le> length inputs"
    and "list_all fst (poll_run p candidates k s inputs)"
  shows "Some k \<in> snd ` set (poll_run p candidates k s inputs)"
proof (rule poll_run_fair [OF assms(1-4) _ assms(6)])
  have "distance candidates k (after s) \<le> length candidates" by (simp add: distance_def)
  with assms(5) show "distance candidates k (after s) \<le> length inputs" by linarith
qed

theorem polling_is_fair_witness:
  "Some ''a'' \<in> snd ` set (poll_run \<lparr>enabled = True, interval_seconds = 10, rpc_timeout_seconds = 5\<rparr>
     [''a'', ''b''] ''a'' (default_schedule\<lparr>after := ''a''\<rparr>) [(5, [Outcome ''b'' 5 False False]), (6, [])])"
proof -
  let ?p = "\<lparr>enabled = True, interval_seconds = 10, rpc_timeout_seconds = 5\<rparr> :: policy"
  let ?r = "poll_run ?p [''a'', ''b''] ''a'' (default_schedule\<lparr>after := ''a''\<rparr>)
    [(5, [Outcome ''b'' 5 False False]), (6, [])]"
  have "list_all fst ?r" "validate_policy ?p" by code_simp+
  moreover have "sorted [''a'', ''b'']" by simp
  ultimately show ?thesis by (intro polling_is_fair) simp_all
qed

section \<open>Backoff\<close>

lemma backoff_unat: "n \<le> 5 \<Longrightarrow> unat (backoff p n) = min (unat (interval_seconds p) * 2 ^ unat n) 300"
proof -
  assume n: "n \<le> 5"
  then have le: "unat n \<le> 5" by (simp add: word_le_nat_alt)
  then have "(2::nat) ^ unat n \<le> 2 ^ 5" by (intro power_increasing) simp_all
  then have lt: "(2::nat) ^ unat n < 2 ^ 64" by simp
  have "unat (push_bit (unat n) (1 :: u64)) = unat (of_nat (2 ^ unat n) :: u64)"
    by (simp add: push_bit_eq_mult)
  also have "\<dots> = 2 ^ unat n" using lt by (simp only: unat_of_nat) simp
  finally have "unat (push_bit (unat n) (1 :: u64)) = 2 ^ unat n" .
  then show ?thesis
    by (simp add: backoff_def unat_min unat_saturating_mul)
qed

lemma unat_failures: "unat (min (saturating_add n 1) 5 :: u32) = min (unat n + 1) 5"
  by (simp add: unat_min unat_saturating_add)

text \<open>Failures back off within bounds. A failed observation of a known candidate counts at most
  five failures, moves to the next phase, and makes the candidate due again after the interval
  doubled once per counted failure, cut at 300 seconds: never earlier than the interval itself,
  never later than five minutes, and never earlier than after the failure before.\<close>

theorem failure_backs_off:
  assumes "validate_policy p" "entries s key = Some e" "unat now + 300 < 2 ^ 64"
  shows "\<exists>e'. entries (outcome s key now p False False) key = Some e' \<and>
    entry_phase e' = next_phase (entry_phase e) \<and>
    unat (failures e') = min (unat (failures e) + 1) 5 \<and>
    unat (due e') = unat now + min (unat (interval_seconds p) * 2 ^ unat (failures e')) 300 \<and>
    unat now + unat (interval_seconds p) \<le> unat (due e') \<and> unat (due e') \<le> unat now + 300 \<and>
    min (unat (interval_seconds p) * 2 ^ unat (min (failures e) 5)) 300 \<le> unat (due e') - unat now"
proof -
  let ?n = "min (saturating_add (failures e) 1) 5 :: u32" and ?i = "unat (interval_seconds p)"
  have i: "?i \<le> 300" using assms(1) by (simp add: validate_policy_def word_le_nat_alt)
  have b: "unat (backoff p ?n) = min (?i * 2 ^ unat ?n) 300" by (rule backoff_unat) simp
  have d: "unat (saturating_add now (backoff p ?n)) = unat now + min (?i * 2 ^ unat ?n) 300"
    using assms(3) b by (simp add: unat_saturating_add)
  have one: "?i * 1 \<le> ?i * 2 ^ unat ?n" by (intro mult_le_mono2) simp
  have "unat (min (failures e) 5) \<le> unat ?n"
    unfolding unat_failures by (simp add: unat_min)
  then have less: "?i * 2 ^ unat (min (failures e) 5) \<le> ?i * 2 ^ unat ?n"
    by (intro mult_le_mono2 power_increasing) simp_all
  define N where "N = ?i * 2 ^ unat ?n"
  define M where "M = ?i * 2 ^ unat (min (failures e) 5)"
  have bounds: "?i \<le> N" "M \<le> N" using one less by (simp_all add: N_def M_def)
  let ?e = "\<lparr>due = saturating_add now (backoff p ?n), failures = ?n, entry_phase = next_phase (entry_phase e)\<rparr>"
  have "entries (outcome s key now p False False) key = Some ?e"
    using assms(2) by (simp add: outcome_def Let_def)
  moreover have "unat (due ?e) = unat now + min N 300" using d by (simp add: N_def)
  moreover have "unat (failures ?e) = min (unat (failures e) + 1) 5" by (simp add: unat_failures)
  moreover have "unat now + ?i \<le> unat now + min N 300" "min M 300 \<le> min N 300" "min N 300 \<le> 300"
    using bounds i by auto
  ultimately show ?thesis unfolding M_def N_def by (intro exI [of _ ?e]) simp
qed

theorem failure_backs_off_witness:
  "\<exists>e'. entries (outcome (default_schedule\<lparr>entries := [''a'' \<mapsto> default_entry]\<rparr>) ''a'' 7
        \<lparr>enabled = True, interval_seconds = 10, rpc_timeout_seconds = 5\<rparr> False False) ''a'' = Some e' \<and>
    unat (due e') = 27"
proof -
  let ?p = "\<lparr>enabled = True, interval_seconds = 10, rpc_timeout_seconds = 5\<rparr> :: policy"
  have "validate_policy ?p" by code_simp
  from failure_backs_off [OF this, of "default_schedule\<lparr>entries := [''a'' \<mapsto> default_entry]\<rparr>" "''a''"
      default_entry 7]
  show ?thesis by (auto simp: default_entry_def)
qed

end
