(* ===== verification/Capacity.thy ===== *)
theory Capacity
  imports Actions
begin

text \<open>
  Cached scheduler capacity: \<open>rust/crates/core/src/capacity.rs\<close>. The clock counts nanoseconds, the
  resolution of the timestamps.
\<close>

record observation =
  executor_id :: string
  observation_status :: string
  observed_data :: "json option"
  observed_at :: "string option"
  checked_at :: "string option"
  diagnostic :: "string option"
  admission_guaranteed :: bool

definition unknown :: "string \<Rightarrow> string + observation" where
  "unknown executor =
     and_then (map_err (\<lambda>_. ''capacity executor'') (validate_id executor)) (\<lambda>_.
       Inr \<lparr>executor_id = executor, observation_status = ''UNKNOWN'', observed_data = None,
            observed_at = None, checked_at = None, diagnostic = None, admission_guaranteed = False\<rparr>)"

definition refresh :: "rfc3339 \<Rightarrow> observation \<Rightarrow> string + json \<Rightarrow> string \<Rightarrow> string + observation" where
  "refresh clock previous data now =
     and_then (map_err (\<lambda>_. ''capacity executor'') (validate_id (executor_id previous))) (\<lambda>_.
     and_then (ok_or (clock now) ''capacity timestamp'') (\<lambda>_.
     let next = previous\<lparr>checked_at := Some now, admission_guaranteed := False\<rparr>
     in case data of
          Inr v \<Rightarrow>
            if \<not> is_object v then Inl ''capacity data''
            else Inr (next\<lparr>observation_status := ''OBSERVED'', observed_data := Some v,
                           observed_at := Some now, diagnostic := None\<rparr>)
        | Inl _ \<Rightarrow>
            Inr (next\<lparr>observation_status := (if observed_data next \<noteq> None then ''STALE'' else ''UNKNOWN''),
                      diagnostic := Some ''SCHEDULER_QUERY_UNAVAILABLE''\<rparr>)))"

abbreviation SECOND :: int where "SECOND \<equiv> 1000000000"

definition view :: "rfc3339 \<Rightarrow> observation \<Rightarrow> string \<Rightarrow> string + observation" where
  "view clock saved now_text =
     and_then (ok_or (clock now_text) ''capacity timestamp'') (\<lambda>now.
     case observed_at saved of
       None \<Rightarrow> Inr saved
     | Some t \<Rightarrow>
         and_then (ok_or (clock t) ''capacity timestamp'') (\<lambda>observed.
           if observed > now \<or> now - observed > 25 * SECOND
           then Inr (saved\<lparr>observation_status := ''STALE''\<rparr>) else Inr saved))"

text \<open>A cache filled by any sequence of refreshes; one that is refused leaves it as it was.\<close>

fun refreshes :: "rfc3339 \<Rightarrow> observation \<Rightarrow> ((string + json) \<times> string) list \<Rightarrow> observation" where
  "refreshes clock o' [] = o'"
| "refreshes clock o' ((data, now) # rest) =
     refreshes clock (case refresh clock o' data now of Inr n \<Rightarrow> n | Inl _ \<Rightarrow> o') rest"

definition last_success :: "rfc3339 \<Rightarrow> ((string + json) \<times> string) list \<Rightarrow> (json \<times> string) option" where
  "last_success clock calls =
     fold (\<lambda>(data, now) acc. case data of
         Inr v \<Rightarrow> if is_object v \<and> clock now \<noteq> None then Some (v, now) else acc
       | Inl _ \<Rightarrow> acc) calls None"

definition cached :: "observation \<Rightarrow> (json \<times> string) option \<Rightarrow> bool" where
  "cached o' ls \<longleftrightarrow>
     is_ok (validate_id (executor_id o')) \<and> \<not> admission_guaranteed o' \<and>
     observed_data o' = map_option fst ls \<and> observed_at o' = map_option snd ls \<and>
     observation_status o' \<in> {''UNKNOWN'', ''OBSERVED'', ''STALE''} \<and>
     (observation_status o' = ''OBSERVED'' \<longrightarrow> ls \<noteq> None) \<and>
     (observation_status o' = ''UNKNOWN'' \<longleftrightarrow> ls = None)"

lemma refreshes_cached:
  assumes "cached o' ls"
  shows "cached (refreshes clock o' calls)
    (fold (\<lambda>(data, now) acc. case data of
         Inr v \<Rightarrow> if is_object v \<and> clock now \<noteq> None then Some (v, now) else acc
       | Inl _ \<Rightarrow> acc) calls ls)"
  using assms
proof (induction calls arbitrary: o' ls)
  case Nil
  then show ?case by simp
next
  case (Cons c calls)
  obtain data now where c: "c = (data, now)" by (cases c)
  obtain v where v: "validate_id (executor_id o') = Inr v"
    using Cons.prems by (auto simp: cached_def is_ok_iff)
  show ?case
  proof (cases data)
    case (Inl e)
    have "cached (case refresh clock o' data now of Inr n \<Rightarrow> n | Inl _ \<Rightarrow> o') ls"
      using Cons.prems Inl v by (cases "clock now") (auto simp: cached_def refresh_def Let_def)
    then show ?thesis using Cons.IH c Inl by simp
  next
    case (Inr w)
    have "cached (case refresh clock o' data now of Inr n \<Rightarrow> n | Inl _ \<Rightarrow> o')
        (if is_object w \<and> clock now \<noteq> None then Some (w, now) else ls)"
      using Cons.prems Inr v by (cases "clock now") (auto simp: cached_def refresh_def Let_def)
    then show ?thesis using Cons.IH c Inr by simp
  qed
qed

text \<open>Old capacity data never looks fresh. After any sequence of refreshes, failed ones included,
  what a reader is shown holds the data and time of the last successful refresh, never guarantees
  admission, and is called OBSERVED only while that refresh is at most 25 seconds old and not in the
  future.\<close>

theorem stale_capacity_is_never_observed:
  assumes "unknown executor = Inr start"
    and "view clock (refreshes clock start calls) now = Inr v"
  shows "\<not> admission_guaranteed v \<and>
    observed_data v = map_option fst (last_success clock calls) \<and>
    observed_at v = map_option snd (last_success clock calls) \<and>
    (observation_status v = ''OBSERVED'' \<longrightarrow>
       (\<exists>d t at at'. last_success clock calls = Some (d, t) \<and> clock t = Some at \<and>
          clock now = Some at' \<and> at \<le> at' \<and> at' - at \<le> 25 * SECOND))"
proof -
  have "cached start None" using assms(1) by (auto simp: unknown_def cached_def res_simps is_ok_iff)
  note c = refreshes_cached [OF this, of clock calls, folded last_success_def]
  with assms(2) show ?thesis
    by (cases "last_success clock calls")
      (auto simp: view_def cached_def res_simps not_less split: if_splits)
qed

definition sample_refreshes :: "((string + json) \<times> string) list" where
  "sample_refreshes = [(Inr (JObj []), ''t0''), (Inl ''down'', ''t9'')]"

theorem stale_capacity_is_never_observed_witness:
  "\<exists>start v. unknown ''cluster'' = Inr start \<and>
     view sample_clock (refreshes sample_clock start sample_refreshes) ''t9'' = Inr v \<and>
     observed_data v = Some (JObj [])"
proof -
  have "map_option (\<lambda>start. is_ok (view sample_clock (refreshes sample_clock start sample_refreshes) ''t9''))
      (ok (unknown ''cluster'')) = Some True"
    by code_simp
  then obtain start v where s: "unknown ''cluster'' = Inr start"
    "view sample_clock (refreshes sample_clock start sample_refreshes) ''t9'' = Inr v"
    by (auto simp: ok_eq_Some is_ok_iff simp del: refreshes.simps)
  have "last_success sample_clock sample_refreshes = Some (JObj [], ''t0'')"
    by code_simp
  with stale_capacity_is_never_observed [OF s] s show ?thesis by auto
qed

end
