(* ===== verification/Renewal.thy ===== *)
theory Renewal
  imports Actions Canonical Cancel
begin

text \<open>
  Replacement of an expired, never started submission gate: \<open>rust/crates/core/src/renewal.rs\<close>.
\<close>

record renewal_request =
  renewal_request_id :: string
  renewal_confirmation :: string

definition validate_renewal :: "renewal_request \<Rightarrow> string \<Rightarrow> string + unit" where
  "validate_renewal r action =
     and_then (map_err (\<lambda>_. ''renewal action'') (validate_action_id action)) (\<lambda>_.
     and_then (map_err (\<lambda>_. ''renewal request'') (validate_submission_token (renewal_request_id r))) (\<lambda>_.
     if renewal_confirmation r \<noteq> ''RENEW '' @ action then Inl ''renewal confirmation'' else Inr ()))"

definition renewal_json :: "renewal_request \<Rightarrow> json" where
  "renewal_json r = JObj [(''request_id'', JStr (renewal_request_id r)),
     (''confirmation'', JStr (renewal_confirmation r))]"

definition renewal_record ::
    "'f float_ops \<Rightarrow> (string \<Rightarrow> string) \<Rightarrow> (string \<Rightarrow> string) \<Rightarrow> renewal_request \<Rightarrow> string \<Rightarrow> string + string" where
  "renewal_record F W sha r action =
     and_then (validate_renewal r action) (\<lambda>_.
     and_then (map_err (\<lambda>_. ''renewal identity'')
       (canonical_digest F W sha (JArr [JStr ''native-gate-renewal.v1'', JStr action, renewal_json r]))) (\<lambda>d.
     Inr (''renewal-'' @ d @ ''.json'')))"

definition renewal_archive :: "string \<Rightarrow> string + string" where
  "renewal_archive action =
     and_then (map_err (\<lambda>_. ''renewal action'') (validate_action_id action)) (\<lambda>_.
     Inr (''prepared-'' @ action @ ''.json''))"

definition eligible :: "rfc3339 \<Rightarrow> json \<Rightarrow> string \<Rightarrow> string + unit" where
  "eligible clock snapshot now =
     and_then (ok_or (clock now) ''renewal clock'') (\<lambda>at.
     and_then (ok_or (Option.bind (as_str (jidx snapshot ''gate_expires_at'')) clock) ''renewal expiry'') (\<lambda>expires.
     if jidx snapshot ''operation'' \<noteq> JStr ''SUBMIT_RUN'' \<or> at < expires \<or>
        as_str (jidx (jidx snapshot ''execution'') ''status'') \<noteq> Some ''PREPARED'' \<or>
        \<not> is_null (jidx (jidx snapshot ''execution'') ''started_at'') \<or>
        \<not> is_null (jidx (jidx snapshot ''execution'') ''result'') \<or>
        \<not> is_null (jidx snapshot ''cancellation'')
     then Inl ''submission may have started or gate has not expired'' else Inr ()))"

lemma as_str_jidx: "as_str (jidx v k) = jget_str v k"
  by (simp add: jidx_def jget_str_def split: option.split)

lemma eligible_eq_Inr:
  "eligible clock snapshot now = Inr u \<longleftrightarrow>
   (\<exists>at g expires. clock now = Some at \<and> jget snapshot ''gate_expires_at'' = Some (JStr g) \<and>
      clock g = Some expires \<and> expires \<le> at \<and>
      jidx snapshot ''operation'' = JStr ''SUBMIT_RUN'' \<and>
      status_of (jidx snapshot ''execution'') = Some ''PREPARED'' \<and>
      is_null (jidx (jidx snapshot ''execution'') ''started_at'') \<and>
      is_null (jidx (jidx snapshot ''execution'') ''result'') \<and>
      is_null (jidx snapshot ''cancellation''))"
proof -
  have "Option.bind (jget_str snapshot ''gate_expires_at'') clock = Some e \<longleftrightarrow>
      (\<exists>g. jget snapshot ''gate_expires_at'' = Some (JStr g) \<and> clock g = Some e)" for e
    by (cases "jget_str snapshot ''gate_expires_at''") (auto simp: json_simps jget_str_of_Some)
  then show ?thesis
    by (auto simp: eligible_def res_simps as_str_jidx status_of_def not_less split: if_splits)
qed

text \<open>C30. Renewal and execution exclude each other. A snapshot whose gate may be renewed is shown as
  needing a new preparation, and no claim on it can be granted at that time, whatever the caller
  presents; so a renewal never races a submission it could duplicate.\<close>

theorem renewable_is_not_claimable:
  assumes "is_ok (eligible clock snapshot now)"
    and "execution = jidx snapshot ''execution''"
  shows "\<not> is_ok (claim clock snapshot execution confirmation files reason now) \<and>
    (\<forall>v \<in> set_option (ok (submission_view clock snapshot now)).
       jget v ''next_action'' = Some (JStr ''REPREPARE''))"
proof -
  from assms obtain at g expires where e: "clock now = Some at"
    "jget snapshot ''gate_expires_at'' = Some (JStr g)" "clock g = Some expires" "expires \<le> at"
    "status_of execution = Some ''PREPARED''"
    by (auto simp: is_ok_iff eligible_eq_Inr)
  have "out = claim_outcome.AlreadyVerified \<or> (\<exists>t. out = Execute t)" for out by (cases out) auto
  moreover have "claim clock snapshot execution confirmation files reason now \<noteq> Inr claim_outcome.AlreadyVerified"
    using claim_cases(1) e(5) by fastforce
  moreover have "claim clock snapshot execution confirmation files reason now \<noteq> Inr (Execute t)" for t
    using e by (auto simp: claim_eq_Execute claim_authority_def is_ok_iff check_request_eq_Inr)
  ultimately have "\<not> is_ok (claim clock snapshot execution confirmation files reason now)"
    unfolding is_ok_iff by metis
  moreover have "jget v ''next_action'' = Some (JStr ''REPREPARE'')"
    if "submission_view clock snapshot now = Inr v" for v
  proof -
    from submission_view_eq_Inr [OF that] obtain status where
      "jget snapshot ''execution'' = Some execution" "status_of execution = Some status"
      "jget v ''next_action'' = Some (JStr (submission_next clock snapshot status at))"
      using e(1) assms(2) by (auto simp: jidx_def)
    with e show ?thesis by (simp add: submission_next_def jget_str_of_Some timestamp_def)
  qed
  ultimately show ?thesis by (auto simp: elem_set ok_eq_Some)
qed

theorem renewable_is_not_claimable_witness:
  "is_ok (eligible sample_clock sample_action ''t9'') \<and>
   \<not> is_ok (claim sample_clock sample_action sample_execution ''EXECUTE action-0123456789abcdef''
     sample_files ''approved'' ''t9'')"
proof -
  have e: "is_ok (eligible sample_clock sample_action ''t9'')" by code_simp
  have "sample_execution = jidx sample_action ''execution''" by code_simp
  with renewable_is_not_claimable [OF e] e show ?thesis by blast
qed

end
