(* ===== verification/Distribution.thy ===== *)
theory Distribution
  imports Json
begin

text \<open>
  Selecting a client release: \<open>rust/crates/core/src/distribution.rs\<close>. A release is chosen by exact
  version and platform; the default never moves to an older version.
\<close>

definition client_target :: "string \<Rightarrow> string \<Rightarrow> string + string" where
  "client_target os arch =
     (if os = ''linux'' \<and> arch = ''x86_64'' then Inr ''x86_64-unknown-linux-gnu''
      else if os = ''linux'' \<and> arch = ''aarch64'' then Inr ''aarch64-unknown-linux-musl''
      else if os = ''macos'' \<and> arch = ''x86_64'' then Inr ''x86_64-apple-darwin''
      else if os = ''macos'' \<and> arch = ''aarch64'' then Inr ''aarch64-apple-darwin''
      else if os = ''windows'' \<and> arch = ''x86_64'' then Inr ''x86_64-pc-windows-msvc''
      else Inl ''no native client release for this platform'')"

definition version_part :: "string \<Rightarrow> bool" where
  "version_part p \<longleftrightarrow> p \<noteq> [] \<and> length p \<le> 6 \<and> list_all is_ascii_digit p \<and>
     (length p = 1 \<or> \<not> starts_with ''0'' p)"

definition version :: "string \<Rightarrow> bool" where
  "version s \<longleftrightarrow> (let parts = split_on CHR ''.'' s in length parts = 3 \<and> list_all version_part parts)"

text \<open>The key is an array of three \<open>u32\<close>; arrays compare lexicographically, as lists do.\<close>

definition u32_limit :: nat where "u32_limit = 4294967296"

fun parse_parts :: "string list \<Rightarrow> string + nat list" where
  "parse_parts [] = Inr []"
| "parse_parts (p # ps) =
     and_then (ok_or (parse_unsigned u32_limit p) ''invalid native version'') (\<lambda>n.
     and_then (parse_parts ps) (\<lambda>ns. Inr (n # ns)))"

definition version_key :: "string \<Rightarrow> string + nat list" where
  "version_key v =
     (if \<not> version v then Inl ''invalid native version'' else parse_parts (split_on CHR ''.'' v))"

text \<open>One release of the listing: a problem, or the stable native version it offers.\<close>

definition release_candidate :: "json \<Rightarrow> string + string option" where
  "release_candidate release =
     and_then (ok_or (as_bool (jidx release ''draft'')) ''invalid release listing'') (\<lambda>draft.
     and_then (ok_or (as_bool (jidx release ''prerelease'')) ''invalid release listing'') (\<lambda>prerelease.
     and_then (ok_or (as_str (jidx release ''tag_name'')) ''invalid release listing'') (\<lambda>tag.
       if draft \<or> prerelease then Inr None
       else (case strip_prefix ''native-v'' tag of
               None \<Rightarrow> Inr None
             | Some candidate \<Rightarrow> Inr (if version candidate then Some candidate else None)))))"

fun latest_from :: "(nat list \<times> string) option \<Rightarrow> json list \<Rightarrow> string + (nat list \<times> string) option" where
  "latest_from latest [] = Inr latest"
| "latest_from latest (release # rest) =
     and_then (release_candidate release) (\<lambda>c.
       case c of
         None \<Rightarrow> latest_from latest rest
       | Some candidate \<Rightarrow>
           and_then (version_key candidate) (\<lambda>key.
             if (case latest of None \<Rightarrow> True | Some (old, _) \<Rightarrow> key > old)
             then latest_from (Some (key, candidate)) rest else latest_from latest rest))"

definition latest_native :: "json list \<Rightarrow> string + string" where
  "latest_native releases =
     (if length releases > 1000 then Inl ''native release listing exceeds limit''
      else and_then (latest_from None releases) (\<lambda>latest.
        ok_or (map_option snd latest) ''no stable native release found''))"

definition prevent_default_downgrade :: "string \<Rightarrow> string \<Rightarrow> string + unit" where
  "prevent_default_downgrade installed selected =
     and_then (version_key selected) (\<lambda>s.
     and_then (version_key installed) (\<lambda>i.
       if s < i then Inl ''latest stable native release is older than this client; refusing automatic downgrade; select --version explicitly if intended''
       else Inr ()))"

record asset =
  asset_name :: string
  asset_target :: string
  asset_executable :: string
  asset_bytes :: nat
  asset_sha256 :: string

record manifest =
  schema_version :: nat
  manifest_version :: string
  assets :: "asset list"

text \<open>\<open>sources::validate_archive_digest\<close>.\<close>

definition archive_digest :: "string \<Rightarrow> bool" where
  "archive_digest s \<longleftrightarrow> length s = 64 \<and> list_all is_lower_hex s"

definition valid_asset :: "asset \<Rightarrow> bool" where
  "valid_asset a \<longleftrightarrow>
     asset_bytes a \<noteq> 0 \<and> asset_bytes a \<le> 128 * 1024 * 1024 \<and> archive_digest (asset_sha256 a) \<and>
     asset_name a \<noteq> [] \<and> length (asset_name a) \<le> 200 \<and>
     list_all (\<lambda>c. is_ascii_alphanumeric c \<or> c \<in> {CHR ''-'', CHR ''_'', CHR ''.''}) (asset_name a)"

fun check_assets :: "string list \<Rightarrow> (string \<times> string) list \<Rightarrow> asset list \<Rightarrow> bool" where
  "check_assets names keys [] = True"
| "check_assets names keys (a # as) =
     (if \<not> valid_asset a \<or> asset_name a \<in> set names \<or>
         (asset_target a, asset_executable a) \<in> set keys
      then False
      else check_assets (asset_name a # names) ((asset_target a, asset_executable a) # keys) as)"

definition select_asset :: "manifest \<Rightarrow> string \<Rightarrow> string \<Rightarrow> string \<Rightarrow> string + asset" where
  "select_asset m requested target executable =
     (if schema_version m \<noteq> 1 \<or> manifest_version m \<noteq> requested \<or> \<not> version (manifest_version m) \<or>
         assets m = [] \<or> length (assets m) > 32
      then Inl ''release manifest identity differs''
      else if \<not> check_assets [] [] (assets m) then Inl ''invalid release asset''
      else ok_or (find (\<lambda>a. asset_target a = target \<and> asset_executable a = executable) (assets m))
        ''release has no binary for this platform'')"

section \<open>Lemmas\<close>

lemma digits_value_bound: "all_digits s \<Longrightarrow> digits_value s < 10 ^ length s"
proof (induction s rule: rev_induct)
  case Nil
  then show ?case by (simp add: digits_value_def)
next
  case (snoc c s)
  then have "digits_value s < 10 ^ length s" "byte c - 48 \<le> 9"
    by (auto simp: all_digits_def is_ascii_digit_def)
  then show ?case by (simp add: digits_value_def)
qed

lemma parse_version_part:
  assumes "version_part p"
  shows "parse_unsigned u32_limit p = Some (digits_value p)"
proof -
  from assms have d: "all_digits p" "p \<noteq> []" "length p \<le> 6"
    by (auto simp: version_part_def all_digits_def)
  then have "hd p \<noteq> CHR ''+''" by (cases p) (auto simp: all_digits_def is_ascii_digit_def byte_def)
  moreover have "digits_value p < 10 ^ 6"
    using digits_value_bound [OF d(1)] power_increasing [OF d(3), of "10 :: nat"] by simp
  ultimately show ?thesis
    using d by (cases p) (auto simp: parse_unsigned_def u32_limit_def)
qed

lemma parse_parts_ok: "list_all version_part ps \<Longrightarrow> parse_parts ps = Inr (map digits_value ps)"
  by (induction ps) (simp_all add: parse_version_part)

lemma version_key_eq:
  "version v \<Longrightarrow> version_key v = Inr (map digits_value (split_on CHR ''.'' v))"
  by (simp add: version_key_def version_def Let_def parse_parts_ok)

text \<open>The versions a listing offers, and its refusals.\<close>

definition offered :: "json list \<Rightarrow> string list" where
  "offered releases = concat (map (\<lambda>r. case release_candidate r of Inr (Some c) \<Rightarrow> [c] | _ \<Rightarrow> []) releases)"

definition key_of :: "string \<Rightarrow> nat list" where
  "key_of v = map digits_value (split_on CHR ''.'' v)"

lemma release_candidate_version:
  "release_candidate r = Inr (Some c) \<Longrightarrow> version c"
  by (auto simp: release_candidate_def res_simps split: if_splits option.splits)

lemma latest_from_spec:
  assumes "latest_from latest releases = Inr out"
    and "\<And>k c. latest = Some (k, c) \<Longrightarrow> k = key_of c \<and> version c"
  shows "(case out of
      None \<Rightarrow> latest = None \<and> offered releases = []
    | Some (k, c) \<Rightarrow> k = key_of c \<and> version c \<and>
        (c \<in> set (offered releases) \<or> latest = Some (k, c)) \<and>
        (\<forall>c' \<in> set (offered releases). key_of c' \<le> k) \<and>
        (\<forall>k' c'. latest = Some (k', c') \<longrightarrow> k' \<le> k))"
  using assms
proof (induction releases arbitrary: latest)
  case Nil
  then show ?case by (auto simp: offered_def split: option.splits)
next
  case (Cons release rest)
  from Cons.prems(1) obtain c where c: "release_candidate release = Inr c" by (auto simp: res_simps)
  show ?case
  proof (cases c)
    case None
    with c have off: "offered (release # rest) = offered rest" by (simp add: offered_def)
    from Cons.prems(1) c None have "latest_from latest rest = Inr out" by simp
    from Cons.IH [OF this Cons.prems(2)] show ?thesis unfolding off .
  next
    case (Some candidate)
    have v: "version candidate" using c Some release_candidate_version by simp
    note k = version_key_eq [OF v, folded key_of_def]
    have off: "offered (release # rest) = candidate # offered rest"
      using c Some by (simp add: offered_def)
    show ?thesis
    proof (cases "case latest of None \<Rightarrow> True | Some (old, _) \<Rightarrow> key_of candidate > old")
      case True
      with Cons.prems(1) c Some k have "latest_from (Some (key_of candidate, candidate)) rest = Inr out"
        by simp
      from Cons.IH [OF this] v True off show ?thesis
        by (cases out; cases latest) auto
    next
      case False
      with Cons.prems(1) c Some k have "latest_from latest rest = Inr out" by simp
      from Cons.IH [OF this Cons.prems(2)] False off show ?thesis
        by (cases out; cases latest) auto
    qed
  qed
qed

text \<open>The default release is the newest one and never a downgrade. If a listing yields a default
  version, it is one of the stable native versions offered, no offered version is numerically newer,
  and it is accepted over an installed version exactly when that is not newer.\<close>

theorem latest_native_is_newest:
  assumes "latest_native releases = Inr v" and "version installed"
  shows "v \<in> set (offered releases) \<and> (\<forall>c \<in> set (offered releases). key_of c \<le> key_of v) \<and>
    (is_ok (prevent_default_downgrade installed v) \<longleftrightarrow> key_of installed \<le> key_of v)"
proof -
  from assms(1) obtain k where l: "latest_from None releases = Inr (Some (k, v))"
    by (auto simp: latest_native_def res_simps split: if_splits)
  from latest_from_spec [OF l] have s: "k = key_of v" "version v" "v \<in> set (offered releases)"
    "\<forall>c' \<in> set (offered releases). key_of c' \<le> k" by auto
  with version_key_eq assms(2) show ?thesis
    by (auto simp: prevent_default_downgrade_def is_ok_iff not_less key_of_def)
qed

definition sample_release :: "string \<Rightarrow> json" where
  "sample_release tag = JObj [(''draft'', JBool False), (''prerelease'', JBool False), (''tag_name'', JStr tag)]"

theorem latest_native_is_newest_witness:
  "\<exists>v. latest_native [sample_release ''native-v1.9.0'', sample_release ''native-v1.10.0'', sample_release ''v7''] = Inr v \<and>
     (\<forall>c \<in> set (offered [sample_release ''native-v1.9.0'', sample_release ''native-v1.10.0'', sample_release ''v7'']).
        key_of c \<le> key_of v)"
proof -
  have "latest_native [sample_release ''native-v1.9.0'', sample_release ''native-v1.10.0'', sample_release ''v7''] =
      Inr ''1.10.0''" by code_simp
  moreover have "version ''1.9.0''" by code_simp
  ultimately show ?thesis using latest_native_is_newest by blast
qed

end
