(* ===== verification/Slurm.thy ===== *)
theory Slurm
  imports Identity Json
begin

text \<open>
  Shared vocabulary of the Slurm protocol (\<open>rust/crates/core/src/slurm.rs\<close>), the validation of its
  configuration (\<open>rust/crates/core/src/slurm/config.rs\<close>) and of user environments
  (\<open>rust/crates/core/src/environment.rs\<close>). The 32-bit configuration fields are kept as \<open>nat\<close>:
  nothing is added to them.
\<close>

datatype slurm_error =
    Configuration string
  | BadIdentity string
  | Evidence string
  | Ownership
  | Ambiguous
  | Unavailable

definition printable :: "string \<Rightarrow> nat \<Rightarrow> bool" where
  "printable v limit \<longleftrightarrow> v \<noteq> [] \<and> length v \<le> limit \<and> \<not> has_control v"

definition component :: "string \<Rightarrow> bool" where
  "component v \<longleftrightarrow>
     length v \<le> 128 \<and> (case v of c # _ \<Rightarrow> is_ascii_alphanumeric c | [] \<Rightarrow> False) \<and>
     list_all (\<lambda>c. is_ascii_alphanumeric c \<or> c \<in> {CHR ''_'', CHR ''.'', CHR ''-''}) v"

section \<open>Configuration\<close>

record slurm_config =
  kind :: string
  ssh_alias :: string
  partition :: string
  account :: string
  qos :: string
  gres :: string
  time_limit :: string
  source_dir :: string
  sif_path :: string
  mount_root :: string
  oci_image :: "string option"
  apptainer_cache_dir :: "string option"
  apptainer_tmp_dir :: "string option"
  apptainer_unsquash :: bool
  image_stage_timeout_seconds :: nat

record resources =
  gpus :: nat
  cpus :: nat
  nodes :: nat
  memory_gb :: "nat option"

definition validate_compute :: "resources \<Rightarrow> slurm_error + unit" where
  "validate_compute r =
     (if cpus r = 0 then Inl (Configuration ''resources.cpus'')
      else if nodes r \<noteq> 1 then Inl (Configuration ''resources.nodes'')
      else if memory_gb r = Some 0 then Inl (Configuration ''resources.memory_gb'')
      else Inr ())"

definition validate_resources :: "resources \<Rightarrow> slurm_error + unit" where
  "validate_resources r =
     (if gpus r = 0 then Inl (Configuration ''resources.gpus'') else validate_compute r)"

record storage =
  run_dir :: string
  project_data_root :: string

record gres_record =
  gpu_type :: string
  gpu_count :: nat

abbreviation u32_bound :: nat where "u32_bound \<equiv> 4294967296"
abbreviation u16_bound :: nat where "u16_bound \<equiv> 65536"

definition parse_gres :: "string \<Rightarrow> slurm_error + gres_record" where
  "parse_gres v =
     (let parts = split_on CHR '':'' v; bad = Inl (Configuration ''gres'') in
      if length parts \<noteq> 3 then bad
      else let a = parts ! 0; t = parts ! 1; n = parts ! 2 in
        if a \<noteq> ''gpu'' \<or> t = [] \<or>
           \<not> list_all (\<lambda>c. is_ascii_alphanumeric c \<or> c \<in> {CHR ''_'', CHR ''-''}) t \<or>
           starts_with ''0'' n \<or> \<not> list_all is_ascii_digit n
        then bad
        else and_then (ok_or (parse_unsigned u32_bound n) (Configuration ''gres'')) (\<lambda>count.
          if count = 0 then bad else Inr \<lparr>gpu_type = t, gpu_count = count\<rparr>))"

definition number :: "string \<Rightarrow> nat option" where
  "number v = (if v = [] \<or> \<not> list_all is_ascii_digit v then None else parse_unsigned u64_limit v)"

definition checked :: "nat \<Rightarrow> nat option" where
  "checked n = (if n < u64_limit then Some n else None)"

definition walltime_seconds :: "string \<Rightarrow> slurm_error + nat" where
  "walltime_seconds v =
     (let invalid = Configuration ''time'' in
      and_then (case split_once CHR ''-'' v of
          Some (day, rest) \<Rightarrow> and_then (ok_or (number day) invalid) (\<lambda>d. Inr (d, rest))
        | None \<Rightarrow> Inr (0, v)) (\<lambda>(days, rest).
      let fields = split_on CHR '':'' rest in
      if length fields \<noteq> 3 \<or> length (fields ! 1) \<noteq> 2 \<or> length (fields ! 2) \<noteq> 2 then Inl invalid
      else
        and_then (ok_or (number (fields ! 0)) invalid) (\<lambda>hours.
        and_then (ok_or (number (fields ! 1)) invalid) (\<lambda>minutes.
        and_then (ok_or (number (fields ! 2)) invalid) (\<lambda>seconds.
        if minutes > 59 \<or> seconds > 59 \<or> (CHR ''-'' \<in> set v \<and> hours > 23) then Inl invalid
        else
          and_then (ok_or (Option.bind (checked (days * 86400)) (\<lambda>n.
              Option.bind (Option.bind (checked (hours * 3600)) (\<lambda>h. checked (n + h))) (\<lambda>n.
              checked (n + (minutes * 60 + seconds))))) invalid) (\<lambda>result.
          if result = 0 then Inl invalid else Inr result))))))"

definition absolute_path :: "string \<Rightarrow> bool" where
  "absolute_path v \<longleftrightarrow>
     starts_with ''/'' v \<and> printable v 4096 \<and> CHR '':'' \<notin> set v \<and> CHR 0x5C \<notin> set v \<and>
     \<not> list_ex (\<lambda>p. p = ''.'' \<or> p = ''..'') (split_on CHR ''/'' v)"

definition path_within :: "string \<Rightarrow> string \<Rightarrow> bool" where
  "path_within path root \<longleftrightarrow>
     absolute_path path \<and> absolute_path root \<and>
     (let r = trim_end_matches (\<lambda>c. c = CHR ''/'') root
      in r = [] \<or> path = r \<or> starts_with (r @ ''/'') path)"

definition image_digest :: "string \<Rightarrow> bool" where
  "image_digest v \<longleftrightarrow>
     (case strip_prefix ''sha256:'' v of
        Some h \<Rightarrow> length h = 64 \<and> list_all is_ascii_hexdigit h | None \<Rightarrow> False)"

text \<open>The first entry of a list of named checks that fails names the error.\<close>

fun check_named :: "(string \<times> bool) list \<Rightarrow> slurm_error + unit" where
  "check_named [] = Inr ()"
| "check_named ((name, good) # rest) = (if \<not> good then Inl (Configuration name) else check_named rest)"

definition valid_oci_image :: "string \<Rightarrow> string \<Rightarrow> bool" where
  "valid_oci_image img image_id \<longleftrightarrow>
     (case split_once CHR ''@'' img of
        None \<Rightarrow> False
      | Some (repository, digest) \<Rightarrow>
          (case repository of c # _ \<Rightarrow> is_ascii_alphanumeric c | [] \<Rightarrow> False) \<and>
          list_all (\<lambda>c. is_ascii_alphanumeric c \<or>
            c \<in> {CHR ''.'', CHR ''_'', CHR '':'', CHR ''/'', CHR ''-''}) repository \<and>
          digest = image_id \<and> list_all is_lower_hex (drop 7 digest))"

definition validate_config :: "slurm_config \<Rightarrow> resources \<Rightarrow> storage \<Rightarrow> string \<Rightarrow> slurm_error + unit" where
  "validate_config c r st image_id =
     (if kind c \<noteq> ''slurm'' then Inl (Configuration ''kind'')
      else
        and_then (check_named
          [(''ssh_alias'', component (ssh_alias c)), (''partition'', component (partition c)),
           (''account'', component (account c)), (''qos'', component (qos c))]) (\<lambda>_.
        and_then (validate_resources r) (\<lambda>_.
        and_then (parse_gres (gres c)) (\<lambda>g.
        if gpu_count g \<noteq> gpus r then Inl (Configuration ''resources.gpus/gres'')
        else
        and_then (walltime_seconds (time_limit c)) (\<lambda>_.
        if image_stage_timeout_seconds c < 30 \<or> 1080 < image_stage_timeout_seconds c
        then Inl (Configuration ''image_stage_timeout_seconds'')
        else if \<not> image_digest image_id then Inl (Configuration ''image_id'')
        else if (case oci_image c of Some img \<Rightarrow> \<not> valid_oci_image img image_id | None \<Rightarrow> False)
        then Inl (Configuration ''oci_image'')
        else
        and_then (check_named
          [(''run_dir'', path_within (run_dir st) (mount_root c)),
           (''project_data_root'', path_within (project_data_root st) (mount_root c)),
           (''source_dir'', path_within (source_dir c) (mount_root c)),
           (''sif_path'', path_within (sif_path c) (mount_root c))]) (\<lambda>_.
        check_named
          [(''apptainer_cache_dir'', case apptainer_cache_dir c of Some p \<Rightarrow> absolute_path p | None \<Rightarrow> True),
           (''apptainer_tmp_dir'', case apptainer_tmp_dir c of Some p \<Rightarrow> absolute_path p | None \<Rightarrow> True)]))))))"

section \<open>User environments\<close>

definition reserved_name :: "string \<Rightarrow> bool" where
  "reserved_name key \<longleftrightarrow> starts_with ''ML_EXPD_'' key \<or>
     key \<in> {''PROJECT_NAME'', ''RUN_ID'', ''ATTEMPT_ID'', ''SOURCE_ID'', ''OUTPUT_DIR'', ''STATE_DIR'',
       ''DATA_DIR'', ''DATASETS_JSON'', ''METRICS_PATH'', ''RESUME_DIR'', ''RESUME_CHECKPOINT_ID'',
       ''RESUME_STEP''}"

definition environment_name :: "string \<Rightarrow> bool" where
  "environment_name key \<longleftrightarrow>
     (case key of
        c # cs \<Rightarrow> (is_ascii_alphabetic c \<or> c = CHR ''_'') \<and>
                  list_all (\<lambda>c. is_ascii_alphanumeric c \<or> c = CHR ''_'') cs
      | [] \<Rightarrow> False)"

definition validate_environment :: "(string \<times> string) list \<Rightarrow> bool" where
  "validate_environment env \<longleftrightarrow>
     list_all (\<lambda>(key, value). environment_name key \<and> NUL \<notin> set value \<and> \<not> reserved_name key) env"

section \<open>Paths stay inside their root\<close>

text \<open>The components a POSIX path resolves through, and resolution of dot names.\<close>

definition path_parts :: "string \<Rightarrow> string list" where
  "path_parts p = filter (\<lambda>c. c \<noteq> []) (split_on CHR ''/'' p)"

fun resolve :: "string list \<Rightarrow> string list \<Rightarrow> string list" where
  "resolve acc [] = rev acc"
| "resolve acc (c # cs) =
     (if c = ''.'' then resolve acc cs
      else if c = ''..'' then resolve (tl acc) cs
      else resolve (c # acc) cs)"

lemma resolve_plain:
  "list_all (\<lambda>p. p \<noteq> ''.'' \<and> p \<noteq> ''..'') cs \<Longrightarrow> resolve acc cs = rev acc @ cs"
  by (induction cs arbitrary: acc) auto

lemma absolute_plain: "absolute_path v \<Longrightarrow> list_all (\<lambda>p. p \<noteq> ''.'' \<and> p \<noteq> ''..'') (path_parts v)"
  by (auto simp: absolute_path_def path_parts_def list_all_iff list_ex_iff)

lemma path_parts_append: "path_parts (a @ CHR ''/'' # b) = path_parts a @ path_parts b"
proof -
  have "split_on CHR ''/'' (a @ CHR ''/'' # b) = split_on CHR ''/'' a @ split_on CHR ''/'' b"
  proof (induction a)
    case Nil
    then show ?case by simp
  next
    case (Cons c cs)
    obtain q qs where "split_on CHR ''/'' cs = q # qs"
      using split_on_nonempty by (meson neq_Nil_conv)
    with Cons show ?case by simp
  qed
  then show ?thesis by (simp add: path_parts_def)
qed

lemma path_parts_trim: "path_parts (trim_end_matches (\<lambda>c. c = CHR ''/'') v) = path_parts v"
proof -
  have "path_parts (rev (dropWhile (\<lambda>c. c = CHR ''/'') w)) = path_parts (rev w)" for w
  proof (induction w)
    case (Cons c w)
    have "path_parts (rev w @ [CHR ''/'']) = path_parts (rev w)"
      using path_parts_append [of "rev w" "[]"] by (simp add: path_parts_def)
    with Cons show ?case by simp
  qed simp
  from this [of "rev v"] show ?thesis by (simp add: trim_end_matches_def)
qed

text \<open>C33. An accepted path stays inside its root. A path the configuration accepts under a root
  resolves, dot names included, to the root's own components followed by further ones: a lexical
  prefix such as a sibling directory or a parent reference is never accepted.\<close>

theorem path_within_resolves_inside:
  assumes "path_within path root"
  shows "\<exists>rest. resolve [] (path_parts path) = resolve [] (path_parts root) @ rest"
proof -
  let ?r = "trim_end_matches (\<lambda>c. c = CHR ''/'') root"
  from assms have a: "absolute_path path" "absolute_path root"
    "?r = [] \<or> path = ?r \<or> starts_with (?r @ ''/'') path"
    by (simp_all add: path_within_def Let_def)
  have "\<exists>rest. path_parts path = path_parts ?r @ rest"
    using a(3)
  proof (elim disjE)
    assume "?r = []"
    then show ?thesis by (simp add: path_parts_def)
  next
    assume "path = ?r"
    then show ?thesis by (metis append_Nil2)
  next
    assume "starts_with (?r @ ''/'') path"
    then obtain t where "path = ?r @ CHR ''/'' # t" by (auto simp: starts_with_iff)
    then show ?thesis using path_parts_append by auto
  qed
  then show ?thesis
    using resolve_plain [OF absolute_plain [OF a(1)], of "[]"]
      resolve_plain [OF absolute_plain [OF a(2)], of "[]"] by (simp add: path_parts_trim)
qed

theorem path_within_resolves_inside_witness:
  "\<exists>rest. resolve [] (path_parts ''/data/run'') = [''data''] @ rest"
proof -
  have "path_within ''/data/run'' ''/data/''" by code_simp
  moreover have "resolve [] (path_parts ''/data/'') = [''data'']" by code_simp
  ultimately show ?thesis using path_within_resolves_inside by metis
qed

section \<open>Wall time\<close>

lemma number_eq_Some: "number v = Some n \<longleftrightarrow> v \<noteq> [] \<and> all_digits v \<and> digits_value v = n \<and> n < u64_limit"
proof (cases v)
  case (Cons c cs)
  then have "is_ascii_digit c \<Longrightarrow> c \<noteq> CHR ''+''" by (auto simp: is_ascii_digit_def byte_def)
  with Cons show ?thesis
    by (auto simp: number_def parse_unsigned_def Let_def all_digits_def)
qed (simp add: number_def)

lemma walltime_bounds:
  assumes "walltime_seconds v = Inr t"
  shows "0 < t \<and> t < u64_limit"
proof -
  have c: "checked n = Some t \<Longrightarrow> t < u64_limit" for n by (simp add: checked_def split: if_splits)
  from assms show ?thesis
    by (auto simp: walltime_seconds_def Let_def res_simps bind_eq_Some_conv split: if_splits dest!: c)
qed

definition two_digits :: "nat \<Rightarrow> string" where
  "two_digits n = (if n < 10 then CHR ''0'' # show_nat n else show_nat n)"

definition clock_text :: "nat \<Rightarrow> nat \<Rightarrow> nat \<Rightarrow> string" where
  "clock_text h m s = show_nat h @ '':'' @ two_digits m @ '':'' @ two_digits s"

lemma show_nat_chars: "CHR '':'' \<notin> set (show_nat n)" "CHR ''-'' \<notin> set (show_nat n)"
  using all_digits_show_nat [of n]
  by (auto simp: all_digits_def list_all_iff is_ascii_digit_def byte_def)

lemma two_digits_chars: "CHR '':'' \<notin> set (two_digits n)" "CHR ''-'' \<notin> set (two_digits n)"
  by (simp_all add: two_digits_def show_nat_chars)

lemma length_two_digits: "n \<le> 59 \<Longrightarrow> length (two_digits n) = 2"
proof (cases "n < 10")
  case True
  then show ?thesis by (simp add: two_digits_def show_nat.simps [of n])
next
  case False
  assume "n \<le> 59"
  then have "n div 10 < 10" by simp
  then have "length (show_nat (n div 10)) = 1" by (simp add: show_nat.simps [of "n div 10"])
  with False show ?thesis by (simp add: two_digits_def show_nat.simps [of n])
qed

lemma number_show_nat: "n < u64_limit \<Longrightarrow> number (show_nat n) = Some n"
  by (simp add: number_eq_Some)

lemma number_two_digits: "n \<le> 59 \<Longrightarrow> number (two_digits n) = Some n"
proof -
  assume n: "n \<le> 59"
  have "digits_value (CHR ''0'' # show_nat n) = digits_value (show_nat n)"
    by (simp add: digits_value_def byte_def)
  moreover have "all_digits (CHR ''0'' # show_nat n)"
    using all_digits_show_nat [of n] by (simp add: all_digits_def is_ascii_digit_def byte_def)
  ultimately show ?thesis using n by (simp add: two_digits_def number_eq_Some)
qed

lemma split_clock_text: "split_on CHR '':'' (clock_text h m s) = [show_nat h, two_digits m, two_digits s]"
proof -
  have "clock_text h m s = join [CHR '':''] [show_nat h, two_digits m, two_digits s]"
    by (simp add: clock_text_def)
  then show ?thesis
    using split_on_join [of "[show_nat h, two_digits m, two_digits s]" "CHR '':''"]
      show_nat_chars two_digits_chars by simp
qed

text \<open>Wall times mean what Slurm reads. The two written forms, \<open>HH:MM:SS\<close> and \<open>D-HH:MM:SS\<close>,
  are read back as exactly their number of seconds, and whatever text is accepted denotes a positive
  number of seconds that fits 64 bits.\<close>

theorem walltime_reads_back:
  assumes "m \<le> 59" "s \<le> 59" "0 < h * 3600 + m * 60 + s" "d * 86400 + h * 3600 + m * 60 + s < u64_limit"
  shows "walltime_seconds (clock_text h m s) = Inr (h * 3600 + m * 60 + s) \<and>
    (h \<le> 23 \<longrightarrow> walltime_seconds (show_nat d @ ''-'' @ clock_text h m s) =
       Inr (d * 86400 + h * 3600 + m * 60 + s)) \<and>
    (\<forall>v t. walltime_seconds v = Inr t \<longrightarrow> 0 < t \<and> t < u64_limit)"
proof -
  have lim: "h < u64_limit" "d < u64_limit" "d * 86400 < u64_limit" "h * 3600 < u64_limit"
    "d * 86400 + h * 3600 < u64_limit" "h * 3600 + m * 60 + s < u64_limit"
    using assms(4) by linarith+
  have dash: "CHR ''-'' \<notin> set (clock_text h m s)"
    by (simp add: clock_text_def show_nat_chars two_digits_chars)
  then have no: "split_once CHR ''-'' (clock_text h m s) = None"
    by (metis in_set_conv_decomp not_None_eq split_once_eq_Some surj_pair)
  have yes: "split_once CHR ''-'' (show_nat d @ CHR ''-'' # clock_text h m s) = Some (show_nat d, clock_text h m s)"
    by (simp add: show_nat_chars)
  note vals = split_clock_text length_two_digits number_show_nat number_two_digits
  have "walltime_seconds (clock_text h m s) = Inr (h * 3600 + m * 60 + s)"
    using assms lim dash by (simp add: walltime_seconds_def Let_def no vals checked_def add.assoc)
  moreover have "walltime_seconds (show_nat d @ ''-'' @ clock_text h m s) =
      Inr (d * 86400 + h * 3600 + m * 60 + s)" if "h \<le> 23"
    using assms lim that
    by (simp add: walltime_seconds_def Let_def yes vals checked_def add.assoc del: split_once_eq_Some)
  moreover have "0 < t \<and> t < u64_limit" if "walltime_seconds v = Inr t" for v t
    using walltime_bounds [OF that] .
  ultimately show ?thesis by blast
qed

theorem walltime_reads_back_witness:
  "walltime_seconds (show_nat 1 @ ''-'' @ clock_text 2 3 4) = Inr 93784"
  using walltime_reads_back [of 3 4 2 1] by simp

end
