(* ===== verification/SlurmPlans.thy ===== *)
theory SlurmPlans
  imports Slurm
begin

text \<open>
  Command plans of the Slurm protocol: \<open>rust/crates/core/src/slurm/plans.rs\<close> and the job identity of
  \<open>rust/crates/core/src/slurm/observation.rs\<close>. Every argument reaches a remote POSIX shell as text,
  so quoting is what keeps data from becoming commands. Rendering the batch script needs the dataset
  records and is not modelled.
\<close>

section \<open>Quoting\<close>

definition shell_safe :: "char \<Rightarrow> bool" where
  "shell_safe c \<longleftrightarrow> is_ascii_alphanumeric c \<or>
     c \<in> {CHR ''_'', CHR ''@'', CHR ''%'', CHR ''+'', CHR ''='', CHR '':'', CHR '','', CHR ''.'', CHR ''/'', CHR ''-''}"

abbreviation squote :: char where "squote \<equiv> CHR 0x27"
abbreviation dquote :: char where "dquote \<equiv> CHR 0x22"

definition escaped_quote :: string where
  "escaped_quote = [squote, dquote, squote, dquote, squote]"

definition replace_quotes :: "string \<Rightarrow> string" where
  "replace_quotes v = concat (map (\<lambda>c. if c = squote then escaped_quote else [c]) v)"

definition shell_quote :: "string \<Rightarrow> slurm_error + string" where
  "shell_quote v =
     (if NUL \<in> set v then Inl (Configuration ''command argument'')
      else if v \<noteq> [] \<and> list_all shell_safe v then Inr v
      else Inr (squote # replace_quotes v @ [squote]))"

fun quote_all :: "string list \<Rightarrow> slurm_error + string list" where
  "quote_all [] = Inr []"
| "quote_all (a # as) =
     and_then (shell_quote a) (\<lambda>q. and_then (quote_all as) (\<lambda>qs. Inr (q # qs)))"

definition shell_join :: "string list \<Rightarrow> slurm_error + string" where
  "shell_join args =
     (if args = [] then Inl (Configuration ''command'')
      else and_then (quote_all args) (\<lambda>qs. Inr (join '' '' qs)))"

subsection \<open>What a POSIX shell reads\<close>

text \<open>Token recognition and quote removal of the POSIX shell (sections 2.2 and 2.3 of its language),
  written from that standard and not from the quoting code. An unquoted character that could expand,
  redirect, glob, comment, or separate commands ends the reading with \<open>None\<close>, and so does one of the
  four that stay special between double quotes; so a result means that the shell does nothing to the
  text but split it. Braces, \<open>!\<close> and \<open>^\<close> are special to \<open>bash\<close>. What the words mean afterwards is
  outside: a first word with \<open>=\<close> in it would be an assignment.\<close>

definition posix_special :: "char \<Rightarrow> bool" where
  "posix_special c \<longleftrightarrow>
     c \<in> {CHR ''|'', CHR ''&'', CHR '';'', CHR ''<'', CHR ''>'', CHR ''('', CHR '')'', CHR ''$'', CHR 0x60,
       CHR 0x5C, CHR 0x0A, CHR ''*'', CHR ''?'', CHR ''['', CHR '']'', CHR ''#'', CHR ''~'',
       CHR ''{'', CHR ''}'', CHR ''!'', CHR ''^'', NUL}"

datatype quoting = Bare | Single | Double

definition extend_word :: "string option \<Rightarrow> string \<Rightarrow> string" where
  "extend_word cur s = (case cur of None \<Rightarrow> s | Some w \<Rightarrow> w @ s)"

fun shell_words :: "quoting \<Rightarrow> string option \<Rightarrow> string \<Rightarrow> string list option" where
  "shell_words Bare cur [] = Some (case cur of None \<Rightarrow> [] | Some w \<Rightarrow> [w])"
| "shell_words Single cur [] = None"
| "shell_words Double cur [] = None"
| "shell_words Bare cur (c # cs) =
     (if c = CHR '' '' \<or> c = CHR 0x09 then
        map_option (\<lambda>ws. case cur of None \<Rightarrow> ws | Some w \<Rightarrow> w # ws) (shell_words Bare None cs)
      else if c = squote then shell_words Single (Some (extend_word cur [])) cs
      else if c = dquote then shell_words Double (Some (extend_word cur [])) cs
      else if posix_special c then None
      else shell_words Bare (Some (extend_word cur [c])) cs)"
| "shell_words Single cur (c # cs) =
     (if c = squote then shell_words Bare cur cs
      else shell_words Single (Some (extend_word cur [c])) cs)"
| "shell_words Double cur (c # cs) =
     (if c = dquote then shell_words Bare cur cs
      else if c \<in> {CHR ''$'', CHR 0x60, CHR 0x5C, CHR ''!''} then None
      else shell_words Double (Some (extend_word cur [c])) cs)"

lemma extend_word_Some [simp]: "extend_word (Some w) s = w @ s"
  by (simp add: extend_word_def)

lemma shell_safe_plain:
  "shell_safe c \<Longrightarrow> c \<noteq> CHR '' '' \<and> c \<noteq> CHR 0x09 \<and> c \<noteq> squote \<and> c \<noteq> dquote \<and> \<not> posix_special c"
  by (auto simp: shell_safe_def posix_special_def str_simps)

lemma words_bare:
  "list_all shell_safe v \<Longrightarrow>
   shell_words Bare (Some w) (v @ rest) = shell_words Bare (Some (w @ v)) rest"
proof (induction v arbitrary: w)
  case (Cons c v)
  with shell_safe_plain [of c] show ?case by simp
qed simp

lemma words_bare_start:
  "v \<noteq> [] \<Longrightarrow> list_all shell_safe v \<Longrightarrow>
   shell_words Bare None (v @ rest) = shell_words Bare (Some v) rest"
proof (cases v)
  case (Cons c cs)
  assume "v \<noteq> []" "list_all shell_safe v"
  with Cons shell_safe_plain [of c] words_bare [of cs "[c]" rest] show ?thesis
    by (simp add: extend_word_def)
qed simp

lemma words_single:
  "shell_words Single (Some w) (replace_quotes v @ squote # rest) = shell_words Bare (Some (w @ v)) rest"
  by (induction v arbitrary: w) (auto simp: replace_quotes_def escaped_quote_def)

lemma words_quoted:
  assumes "shell_quote v = Inr q"
  shows "shell_words Bare None (q @ rest) = shell_words Bare (Some v) rest"
proof (cases "v \<noteq> [] \<and> list_all shell_safe v")
  case True
  with assms words_bare_start [of v rest] show ?thesis
    by (auto simp: shell_quote_def split: if_splits)
next
  case False
  with assms have "q = squote # replace_quotes v @ [squote]"
    by (auto simp: shell_quote_def split: if_splits)
  then show ?thesis using words_single [of "[]" v rest] by (simp add: extend_word_def)
qed

lemma words_join:
  "quote_all args = Inr qs \<Longrightarrow> shell_words Bare None (join '' '' qs) = Some args"
proof (induction args arbitrary: qs)
  case Nil
  then show ?case by simp
next
  case (Cons a as)
  from Cons.prems obtain q qs' where q: "shell_quote a = Inr q" "quote_all as = Inr qs'" "qs = q # qs'"
    by (auto simp: res_simps)
  note IH = Cons.IH [OF q(2)]
  show ?case
  proof (cases qs')
    case Nil
    with q have "as = []" by (cases as) (auto simp: res_simps)
    with Nil q words_quoted [OF q(1), of "[]"] show ?thesis by simp
  next
    case (Cons x xs)
    with q words_quoted [OF q(1), of "CHR '' '' # join '' '' qs'"] IH show ?thesis
      by (simp add: q(3))
  qed
qed

lemma quote_all_ok: "is_ok (quote_all args) \<longleftrightarrow> list_all (\<lambda>a. NUL \<notin> set a) args"
proof (induction args)
  case (Cons a as)
  have "is_ok (shell_quote a) \<longleftrightarrow> NUL \<notin> set a" by (simp add: shell_quote_def)
  with Cons show ?case by (auto simp: is_ok_iff res_simps)
qed simp

text \<open>C27. Quoting loses nothing and lets nothing through. A command is refused exactly when it is
  empty or holds a NUL byte; otherwise a POSIX shell splits the joined text into exactly the given
  arguments, and no unquoted byte of it is one that the shell gives a meaning of its own.\<close>

theorem shell_join_splits_back:
  "(is_ok (shell_join args) \<longleftrightarrow> args \<noteq> [] \<and> (\<forall>a \<in> set args. NUL \<notin> set a)) \<and>
   (\<forall>text. shell_join args = Inr text \<longrightarrow> shell_words Bare None text = Some args)"
proof -
  have "is_ok (shell_join args) \<longleftrightarrow> args \<noteq> [] \<and> is_ok (quote_all args)"
    by (auto simp: shell_join_def is_ok_iff res_simps)
  then show ?thesis
    using words_join by (auto simp: quote_all_ok list_all_iff shell_join_def res_simps split: if_splits)
qed

theorem shell_join_splits_back_witness:
  "\<exists>text. shell_join [''run'', ''a b'', ''it'' @ [squote] @ ''s $HOME'', []] = Inr text \<and>
     shell_words Bare None text = Some [''run'', ''a b'', ''it'' @ [squote] @ ''s $HOME'', []]"
proof -
  let ?args = "[''run'', ''a b'', ''it'' @ [squote] @ ''s $HOME'', []]"
  have "is_ok (shell_join ?args)"
    using shell_join_splits_back [of ?args] by simp
  then show ?thesis using shell_join_splits_back [of ?args] by (auto simp: is_ok_iff)
qed

section \<open>Names and identities\<close>

definition scheduler_job_name :: "(string \<Rightarrow> string) \<Rightarrow> string \<Rightarrow> string \<Rightarrow> slurm_error + string" where
  "scheduler_job_name sha run_id attempt_id =
     and_then (map_err (\<lambda>_. BadIdentity ''run_id'') (validate_id run_id)) (\<lambda>_.
     and_then (map_err (\<lambda>_. BadIdentity ''attempt_id'') (validate_attempt attempt_id)) (\<lambda>_.
     if length attempt_id > 128 then Inl (BadIdentity ''attempt_id'')
     else let raw = run_id @ ''--'' @ attempt_id in
       if length raw \<le> 128 then Inr raw
       else Inr (take 127 (take 113 raw @ ''--'' @ sha raw))))"

definition parse_job_id :: "string \<Rightarrow> slurm_error + string" where
  "parse_job_id v =
     (let parts = split_on CHR ''_'' v in
      if length v > 64 \<or> length parts > 2 \<or>
         list_ex (\<lambda>p. p = [] \<or> \<not> list_all is_ascii_digit p) parts
      then Inl (BadIdentity ''job_id'') else Inr v)"

definition parse_submit_response :: "string \<Rightarrow> slurm_error + string" where
  "parse_submit_response out =
     (let value = trim_end_matches (\<lambda>c. c \<in> {CHR 0x0D, CHR 0x0A}) out;
          parts = split_on CHR '';'' value in
      if length parts > 2 \<or> (length parts = 2 \<and> \<not> component (parts ! 1))
      then Inl (Evidence ''sbatch response'')
      else and_then (parse_job_id (hd parts)) (\<lambda>jid.
        if CHR ''_'' \<in> set jid then Inl (Evidence ''sbatch response'') else Inr jid))"

section \<open>Remote commands\<close>

record command_plan =
  argv :: "string list"
  plan_env :: "(string \<times> string) list"
  timeout_seconds :: nat
  max_stdout_bytes :: nat

record ssh_connection =
  ssh_binary :: string
  ssh_name :: string
  control_path :: "string option"

definition validate_ssh :: "ssh_connection \<Rightarrow> slurm_error + unit" where
  "validate_ssh s =
     (if \<not> component (ssh_name s) then Inl (Configuration ''ssh_alias'')
      else if \<not> printable (ssh_binary s) 4096 \<or> starts_with ''-'' (ssh_binary s)
      then Inl (Configuration ''transport binary'')
      else if (case control_path s of Some p \<Rightarrow> \<not> absolute_path p | None \<Rightarrow> False)
      then Inl (Configuration ''control_path'')
      else Inr ())"

definition remote_shell :: "ssh_connection \<Rightarrow> string \<Rightarrow> slurm_error + command_plan" where
  "remote_shell s script =
     and_then (validate_ssh s) (\<lambda>_.
     if NUL \<in> set script then Inl (Configuration ''remote command'')
     else Inr \<lparr>argv = [ssh_binary s, ''-o'', ''BatchMode=yes''] @
                 (case control_path s of
                    None \<Rightarrow> []
                  | Some path \<Rightarrow> [''-o'', ''ControlMaster=auto'', ''-o'', ''ControlPersist=900'', ''-o'',
                      ''ControlPath='' @ path]) @ [ssh_name s, script],
               plan_env = [], timeout_seconds = 30, max_stdout_bytes = 1024 * 1024\<rparr>)"

abbreviation newline_escape :: string where "newline_escape \<equiv> [CHR 0x5C, CHR ''n'']"

definition allocation_script :: "string \<Rightarrow> string" where
  "allocation_script quoted =
     ''scontrol show nodes --oneliner && printf '' @ [squote] @ newline_escape @ ''ML_EXPD_QUEUE'' @
     newline_escape @ [squote] @ '' && squeue -h -p '' @ quoted @ '' -t PENDING -o '' @ [squote] @ ''%i'' @ [squote]"

definition allocation_plan :: "ssh_connection \<Rightarrow> string \<Rightarrow> slurm_error + command_plan" where
  "allocation_plan s part =
     (if \<not> component part then Inl (Configuration ''partition'')
      else and_then (shell_quote part) (\<lambda>q.
           and_then (shell_quote (''('' @ allocation_script q @ '') 2>/dev/null | head -c 1048577'')) (\<lambda>inner.
           and_then (remote_shell s (''bash -o pipefail -c '' @ inner)) (\<lambda>plan.
             Inr (plan\<lparr>timeout_seconds := 12, max_stdout_bytes := 1024 * 1024\<rparr>)))))"

lemma component_char_safe:
  "is_ascii_alphanumeric c \<or> c \<in> {CHR ''_'', CHR ''.'', CHR ''-''} \<Longrightarrow> shell_safe c"
  by (elim disjE insertE emptyE) (simp_all add: shell_safe_def)

lemma component_safe: "component p \<Longrightarrow> p \<noteq> [] \<and> list_all shell_safe p"
proof (cases p)
  case (Cons c cs)
  assume "component p"
  then have "list_all (\<lambda>c. is_ascii_alphanumeric c \<or> c \<in> {CHR ''_'', CHR ''.'', CHR ''-''}) p"
    by (simp add: component_def)
  then have "list_all shell_safe p"
    by (rule list.pred_mono_strong) (rule component_char_safe)
  with Cons show ?thesis by simp
qed (simp add: component_def)

text \<open>The capacity query runs as one inert word. Whatever partition a configuration names, the
  command sent over SSH is split by the remote shell into \<open>bash -o pipefail -c\<close> and exactly the
  intended script, the SSH destination cannot be read as an option, and the partition appears in the
  script as itself.\<close>

theorem allocation_plan_is_inert:
  assumes "allocation_plan s part = Inr plan"
  shows "\<exists>command. argv plan = butlast (butlast (argv plan)) @ [ssh_name s, command] \<and>
    \<not> starts_with ''-'' (ssh_name s) \<and> \<not> starts_with ''-'' (hd (argv plan)) \<and>
    shell_words Bare None command = Some [''bash'', ''-o'', ''pipefail'', ''-c'',
      ''('' @ allocation_script part @ '') 2>/dev/null | head -c 1048577'']"
proof -
  from assms obtain q inner plan' where p: "component part" "shell_quote part = Inr q"
    "shell_quote (''('' @ allocation_script q @ '') 2>/dev/null | head -c 1048577'') = Inr inner"
    "remote_shell s (''bash -o pipefail -c '' @ inner) = Inr plan'" "argv plan = argv plan'"
    by (auto simp: allocation_plan_def res_simps split: if_splits)
  have q: "q = part"
    using p(1,2) component_safe [of part] by (auto simp: shell_quote_def split: if_splits)
  have v: "component (ssh_name s)" "\<not> starts_with ''-'' (ssh_binary s)"
    using p(4) by (auto simp: remote_shell_def validate_ssh_def res_simps split: if_splits)
  then have nodash: "\<not> starts_with ''-'' (ssh_name s)"
    by (auto simp: component_def starts_with_iff str_simps)
  have a: "argv plan' = [ssh_binary s, ''-o'', ''BatchMode=yes''] @
                 (case control_path s of
                    None \<Rightarrow> []
                  | Some path \<Rightarrow> [''-o'', ''ControlMaster=auto'', ''-o'', ''ControlPersist=900'', ''-o'',
                      ''ControlPath='' @ path]) @ [ssh_name s, ''bash -o pipefail -c '' @ inner]"
    using p(4) by (auto simp: remote_shell_def res_simps split: if_splits)
  have safe: "list_all shell_safe ''bash''" "list_all shell_safe ''-o''"
    "list_all shell_safe ''pipefail''" "list_all shell_safe ''-c''" by code_simp+
  have w: "shell_words Bare None (w @ CHR '' '' # rest) = map_option ((#) w) (shell_words Bare None rest)"
    if "list_all shell_safe w" "w \<noteq> []" for w rest
    using words_bare_start [OF that(2,1), of "CHR '' '' # rest"] by simp
  have "shell_words Bare None (''bash'' @ CHR '' '' # ''-o'' @ CHR '' '' # ''pipefail'' @ CHR '' '' #
      ''-c'' @ CHR '' '' # inner @ []) = Some [''bash'', ''-o'', ''pipefail'', ''-c'',
      ''('' @ allocation_script part @ '') 2>/dev/null | head -c 1048577'']"
    unfolding w [OF safe(1) list.distinct(2)] w [OF safe(2) list.distinct(2)]
      w [OF safe(3) list.distinct(2)] w [OF safe(4) list.distinct(2)] words_quoted [OF p(3)]
    by (simp add: q)
  then have "shell_words Bare None (''bash -o pipefail -c '' @ inner) =
      Some [''bash'', ''-o'', ''pipefail'', ''-c'',
      ''('' @ allocation_script part @ '') 2>/dev/null | head -c 1048577'']" by simp
  with a p(5) v(2) nodash show ?thesis
    by (intro exI [of _ "''bash -o pipefail -c '' @ inner"]) (simp split: option.split)
qed

definition sample_ssh :: ssh_connection where
  "sample_ssh = \<lparr>ssh_binary = ''ssh'', ssh_name = ''cluster'', control_path = Some ''/tmp/c''\<rparr>"

theorem allocation_plan_is_inert_witness:
  "\<exists>plan command. allocation_plan sample_ssh ''gpu'' = Inr plan \<and>
     argv plan = butlast (butlast (argv plan)) @ [''cluster'', command] \<and>
     shell_words Bare None command = Some [''bash'', ''-o'', ''pipefail'', ''-c'',
       ''('' @ allocation_script ''gpu'' @ '') 2>/dev/null | head -c 1048577'']"
proof -
  have "is_ok (allocation_plan sample_ssh ''gpu'')" by code_simp
  then obtain plan where p: "allocation_plan sample_ssh ''gpu'' = Inr plan" by (auto simp: is_ok_iff)
  from allocation_plan_is_inert [OF p] have "ssh_name sample_ssh = ''cluster''" "\<exists>command.
    argv plan = butlast (butlast (argv plan)) @ [ssh_name sample_ssh, command] \<and>
    shell_words Bare None command = Some [''bash'', ''-o'', ''pipefail'', ''-c'',
      ''('' @ allocation_script ''gpu'' @ '') 2>/dev/null | head -c 1048577'']"
    by (blast | simp add: sample_ssh_def)+
  with p show ?thesis by auto
qed

section \<open>Submission responses\<close>

definition plain_job_id :: "string \<Rightarrow> bool" where
  "plain_job_id j \<longleftrightarrow> j \<noteq> [] \<and> length j \<le> 64 \<and> list_all is_ascii_digit j"

lemma digit_no_underscore: "list_all is_ascii_digit j \<Longrightarrow> CHR ''_'' \<notin> set j"
  by (auto simp: list_all_iff is_ascii_digit_def byte_def)

lemma parse_plain_job_id:
  "parse_job_id v = Inr j \<and> CHR ''_'' \<notin> set j \<longleftrightarrow> v = j \<and> plain_job_id j"
proof (cases "CHR ''_'' \<in> set v")
  case True
  with digit_no_underscore [of j] show ?thesis
    by (auto simp: parse_job_id_def Let_def plain_job_id_def split: if_splits)
next
  case False
  then show ?thesis by (auto simp: parse_job_id_def Let_def plain_job_id_def split_on_no_sep)
qed

lemma component_no_semicolon: "component c \<Longrightarrow> CHR '';'' \<notin> set c"
  by (auto simp: component_def list_all_iff str_simps)

text \<open>A submission is proved only by one exact row. The text \<open>sbatch\<close> returns yields a job exactly
  when, line ends aside, it is that plain decimal job id of at most 64 digits, alone or followed by one
  well-formed federation cluster; a step, an array element, several rows or any other text yields
  none.\<close>

theorem submit_response_is_exact:
  "parse_submit_response out = Inr j \<longleftrightarrow>
   (let ln = trim_end_matches (\<lambda>c. c \<in> {CHR 0x0D, CHR 0x0A}) out in
      plain_job_id j \<and> (ln = j \<or> (\<exists>cluster. component cluster \<and> ln = j @ '';'' @ cluster)))"
proof -
  define ln where "ln = trim_end_matches (\<lambda>c. c \<in> {CHR 0x0D, CHR 0x0A}) out"
  define parts where "parts = split_on CHR '';'' ln"
  have join: "join [CHR '';''] parts = ln" by (simp add: parts_def)
  have "parts \<noteq> []" by (simp add: parts_def)
  have semi: "CHR '';'' \<notin> set j" if "plain_job_id j" for j
    using that by (auto simp: plain_job_id_def list_all_iff is_ascii_digit_def byte_def)
  have "parse_submit_response out = Inr j \<longleftrightarrow>
      length parts \<le> 2 \<and> (length parts = 2 \<longrightarrow> component (parts ! 1)) \<and> hd parts = j \<and> plain_job_id j"
    using parse_plain_job_id [of "hd parts" j]
    unfolding parse_submit_response_def Let_def ln_def [symmetric] parts_def [symmetric]
    by (auto simp: and_then_eq_Inr split: if_splits)
  also have "\<dots> \<longleftrightarrow> plain_job_id j \<and> (ln = j \<or> (\<exists>cluster. component cluster \<and> ln = j @ '';'' @ cluster))"
  proof (intro iffI)
    assume a: "length parts \<le> 2 \<and> (length parts = 2 \<longrightarrow> component (parts ! 1)) \<and> hd parts = j \<and> plain_job_id j"
    with \<open>parts \<noteq> []\<close> consider "parts = [j]" | c where "parts = [j, c]" "component c"
      by (cases parts; cases "tl parts") auto
    then show "plain_job_id j \<and> (ln = j \<or> (\<exists>cluster. component cluster \<and> ln = j @ '';'' @ cluster))"
      using a join by cases auto
  next
    assume a: "plain_job_id j \<and> (ln = j \<or> (\<exists>cluster. component cluster \<and> ln = j @ '';'' @ cluster))"
    then consider "ln = j" | c where "component c" "ln = j @ CHR '';'' # c" by auto
    then show "length parts \<le> 2 \<and> (length parts = 2 \<longrightarrow> component (parts ! 1)) \<and> hd parts = j \<and> plain_job_id j"
    proof cases
      case 1
      with a semi [of j] show ?thesis by (simp add: parts_def split_on_no_sep)
    next
      case 2
      with a semi [of j] component_no_semicolon [of c] show ?thesis
        by (simp add: parts_def split_on_append_sep split_on_no_sep)
    qed
  qed
  finally show ?thesis by (simp add: ln_def Let_def)
qed

theorem submit_response_is_exact_witness:
  "parse_submit_response (''4711;tower'' @ [CHR 0x0A]) = Inr ''4711'' \<and>
   \<not> is_ok (parse_submit_response ''4711_3'')"
proof
  show "\<not> is_ok (parse_submit_response ''4711_3'')" by code_simp
  have "trim_end_matches (\<lambda>c. c \<in> {CHR 0x0D, CHR 0x0A}) (''4711;tower'' @ [CHR 0x0A]) = ''4711'' @ '';'' @ ''tower''"
    "component ''tower''" "plain_job_id ''4711''" by code_simp+
  then show "parse_submit_response (''4711;tower'' @ [CHR 0x0A]) = Inr ''4711''"
    unfolding submit_response_is_exact Let_def by blast
qed

end
