(* ===== verification/SlurmStatus.thy ===== *)
theory SlurmStatus
  imports SlurmPlans RunState
begin

text \<open>
  Reducing scheduler evidence: \<open>rust/crates/core/src/slurm/observation.rs\<close>, and the check a poller
  makes before it replaces a status (\<open>scheduler_follows\<close> of \<open>rust/crates/core/src/polling.rs\<close>).
  A row is accepted only if it names exactly the job, with its submission marker in the same row;
  anything else keeps the previous evidence.
\<close>

abbreviation MAX_OUTPUT :: nat where "MAX_OUTPUT \<equiv> 1048576"

section \<open>States\<close>

definition first_word :: "string \<Rightarrow> string" where
  "first_word s = (case split_whitespace s of [] \<Rightarrow> [] | w # _ \<Rightarrow> w)"

definition bare_state :: "string \<Rightarrow> string" where
  "bare_state s = trim_end_matches (\<lambda>c. c = CHR ''+'') (first_word s)"

definition normalize_state :: "string \<Rightarrow> string option \<Rightarrow> run_state" where
  "normalize_state raw exit =
     (let r = to_ascii_uppercase (bare_state raw) in
      if r \<in> {''PENDING'', ''CONFIGURING'', ''REQUEUED'', ''REQUEUE_FED''} then Queued
      else if r \<in> {''RUNNING'', ''COMPLETING''} then Running
      else if r = ''COMPLETED''
      then (if exit \<in> {None, Some [], Some ''0:0''} then Succeeded else Failed)
      else if r = ''PREEMPTED'' then Preempted
      else if r \<in> {''FAILED'', ''NODE_FAIL'', ''OUT_OF_MEMORY'', ''TIMEOUT''} then Failed
      else if r = ''CANCELLED'' then Cancelled
      else Unknown)"

definition failure_class :: "string \<Rightarrow> failure_class option" where
  "failure_class raw =
     (if raw = ''PREEMPTED'' then Some FPreemption
      else if raw \<in> {''NODE_FAIL'', ''BOOT_FAIL''} then Some FScheduler
      else if raw \<in> {''OUT_OF_MEMORY'', ''TIMEOUT''} then Some FResource
      else None)"

section \<open>Records\<close>

record job_scope =
  scope_ssh_alias :: string
  scope_job_id :: string
  scope_name :: string
  scope_partition :: string

definition validate_scope :: "job_scope \<Rightarrow> slurm_error + unit" where
  "validate_scope s =
     (if \<not> component (scope_ssh_alias s) \<or> \<not> component (scope_partition s) \<or>
         \<not> printable (scope_name s) 128
      then Inl (BadIdentity ''job scope'') else Inr ())"

datatype status_source = Sacct | Squeue | Scontrol

datatype availability = Observed | NotObserved | QueueUnavailable

record queue_detail =
  queue_source :: string
  queue_availability :: availability
  queue_reason :: "string option"

record job_status =
  job_scope_of :: job_scope
  job_state :: run_state
  raw_state :: string
  elapsed :: "string option"
  exit_code :: "string option"
  reason :: "string option"
  status_failure :: "failure_class option"
  observation_source :: "status_source option"
  status_observed_at :: "string option"
  queue :: "queue_detail option"

definition unknown_status :: "job_scope \<Rightarrow> job_status" where
  "unknown_status s =
     \<lparr>job_scope_of = s, job_state = Unknown, raw_state = ''UNKNOWN'', elapsed = None, exit_code = None,
      reason = None, status_failure = None, observation_source = None, status_observed_at = None,
      queue = None\<rparr>"

section \<open>Rows\<close>

definition row_fields :: "string \<Rightarrow> nat \<Rightarrow> slurm_error + string list" where
  "row_fields line count =
     (let values = split_on CHR ''|'' line;
          values = (if length values = count + 1 \<and> last values = [] then butlast values else values)
      in if length values \<noteq> count then Inl (Evidence ''field count'') else Inr values)"

definition valid_exit_code :: "string \<Rightarrow> bool" where
  "valid_exit_code v =
     (case split_once CHR '':'' v of
        None \<Rightarrow> False
      | Some (code, signal) \<Rightarrow>
          list_all (\<lambda>p. p \<noteq> [] \<and> length p \<le> 5 \<and> list_all is_ascii_digit p \<and>
            parse_unsigned u16_bound p \<noteq> None) [code, signal])"

definition rows_of :: "string \<Rightarrow> string list" where
  "rows_of out = filter (\<lambda>line. trim line \<noteq> []) (lines out)"

definition some_text :: "string \<Rightarrow> string option" where
  "some_text s = (if s = [] then None else Some s)"

text \<open>The fields of one row: job, name, partition, state, elapsed, exit code and, but for \<open>sacct\<close>,
  the reason.\<close>

definition row_status ::
    "job_scope \<Rightarrow> status_source \<Rightarrow> string option \<Rightarrow> string list \<Rightarrow> slurm_error + job_status option" where
  "row_status scope source at row =
     (let raw = bare_state (row ! 3) in
      if row ! 0 \<noteq> scope_job_id scope \<or> row ! 1 \<noteq> scope_name scope \<or> row ! 2 \<noteq> scope_partition scope
      then Inl (Evidence ''foreign job scope'')
      else if \<not> printable raw 64 \<or> \<not> list_all (\<lambda>c. is_ascii_alphanumeric c \<or> c = CHR ''_'') raw
      then Inl (Evidence ''scheduler state'')
      else if row ! 4 \<noteq> [] \<and> \<not> printable (row ! 4) 64 then Inl (Evidence ''elapsed'')
      else if row ! 5 \<noteq> [] \<and> \<not> valid_exit_code (row ! 5) then Inl (Evidence ''exit code'')
      else
        and_then
          (if source \<noteq> Sacct \<and> raw \<in> {''PENDING'', ''CONFIGURING''} \<and> trim (row ! 6) \<noteq> []
           then (if \<not> printable (trim (row ! 6)) 1024 then Inl (Evidence ''pending reason'')
                 else Inr (Some (trim (row ! 6))))
           else Inr None) (\<lambda>why.
        let exit = (if source \<noteq> Squeue then some_text (row ! 5) else None)
        in Inr (Some
             \<lparr>job_scope_of = scope, job_state = normalize_state raw exit, raw_state = raw,
              elapsed = some_text (row ! 4), exit_code = exit, reason = why,
              status_failure = failure_class raw, observation_source = Some source,
              status_observed_at = at, queue = None\<rparr>)))"

definition valid_timestamp :: "string option \<Rightarrow> bool" where
  "valid_timestamp at \<longleftrightarrow> (case at of Some v \<Rightarrow> printable v 64 | None \<Rightarrow> True)"

definition parse_job_status ::
    "string \<Rightarrow> job_scope \<Rightarrow> status_source \<Rightarrow> string option \<Rightarrow> slurm_error + job_status option" where
  "parse_job_status out scope source at =
     and_then (validate_scope scope) (\<lambda>_.
     if length out > MAX_OUTPUT then Inl (Evidence ''status size'')
     else if \<not> valid_timestamp at then Inl (Evidence ''observation timestamp'')
     else case rows_of out of
            [] \<Rightarrow> Inr None
          | [line] \<Rightarrow>
              and_then (row_fields line (if source = Sacct then 6 else 7)) (row_status scope source at)
          | _ \<Rightarrow> Inl (Evidence ''duplicate status row''))"

definition without_marker :: "string list \<Rightarrow> string" where
  "without_marker row = join ''|'' (take 2 row @ drop 3 row)"

definition parse_owned_job_status ::
    "string \<Rightarrow> string \<Rightarrow> job_scope \<Rightarrow> status_source \<Rightarrow> string option \<Rightarrow> slurm_error + job_status option" where
  "parse_owned_job_status token out scope source at =
     and_then (map_err (\<lambda>_. Ownership) (submission_marker token)) (\<lambda>marker.
     if length out > MAX_OUTPUT then Inl (Evidence ''status size'')
     else case rows_of out of
            [] \<Rightarrow> parse_job_status [] scope source at
          | [line] \<Rightarrow>
              and_then (row_fields line (if source = Sacct then 7 else 8)) (\<lambda>row.
                if row ! 2 \<noteq> marker then Inl Ownership
                else parse_job_status (without_marker row) scope source at)
          | _ \<Rightarrow> Inl Ambiguous)"

definition accounting_omits_ownership :: "string \<Rightarrow> job_scope \<Rightarrow> bool" where
  "accounting_omits_ownership out scope \<longleftrightarrow>
     length out \<le> MAX_OUTPUT \<and>
     (case rows_of out of
        [line] \<Rightarrow>
          (case row_fields line 7 of
             Inl _ \<Rightarrow> False
           | Inr row \<Rightarrow>
               row ! 2 = [] \<and>
               (case parse_job_status (without_marker row) scope Sacct None of
                  Inr (Some _) \<Rightarrow> True | _ \<Rightarrow> False))
      | _ \<Rightarrow> False)"

section \<open>Controller rows\<close>

abbreviation control_keys :: "string list" where
  "control_keys \<equiv> [''JobId'', ''JobName'', ''Comment'', ''Partition'', ''JobState'', ''RunTime'',
     ''ExitCode'', ''Reason'']"

fun control_values :: "(string \<times> string) list \<Rightarrow> string list \<Rightarrow> slurm_error + (string \<times> string) list" where
  "control_values seen [] = Inr seen"
| "control_values seen (item # rest) =
     (case split_once CHR ''='' item of
        None \<Rightarrow> control_values seen rest
      | Some (key, value) \<Rightarrow>
          if key \<notin> set control_keys then control_values seen rest
          else if map_of seen key \<noteq> None then Inl Ambiguous
          else control_values ((key, value) # seen) rest)"

fun control_row :: "(string \<times> string) list \<Rightarrow> string list \<Rightarrow> slurm_error + string list" where
  "control_row values [] = Inr []"
| "control_row values (k # ks) =
     and_then (ok_or (map_of values k) (Evidence ''controller field'')) (\<lambda>v.
     and_then (control_row values ks) (\<lambda>vs. Inr (v # vs)))"

definition parse_owned_control_status ::
    "string \<Rightarrow> job_scope \<Rightarrow> string \<Rightarrow> string option \<Rightarrow> slurm_error + job_status option" where
  "parse_owned_control_status out scope token at =
     (if length out > MAX_OUTPUT then Inl (Evidence ''controller size'')
      else case rows_of out of
             [] \<Rightarrow> Inr None
           | [line] \<Rightarrow>
               and_then (control_values [] (split_whitespace line)) (\<lambda>values.
               and_then (control_row values control_keys) (\<lambda>row.
               if list_ex (\<lambda>v. CHR ''|'' \<in> set v) row then Inl (Evidence ''controller field'')
               else parse_owned_job_status token (join ''|'' row) scope Scontrol at))
           | _ \<Rightarrow> Inl Ambiguous)"

section \<open>The reducer\<close>

datatype query = NotRequested | QueryFailed | Success string

datatype diagnostic =
    NoEvidence | OwnershipNotRecorded | DQueryUnavailable | MalformedOrForeignEvidence
  | QueueNotObserved | DQueueUnavailable | RegressiveState

record status_observation =
  status :: job_status
  checked_at :: "string option"
  diagnostic :: "diagnostic option"
  retained_previous :: bool

type_synonym status_parser =
  "string \<Rightarrow> job_scope \<Rightarrow> status_source \<Rightarrow> string option \<Rightarrow> slurm_error + job_status option"

definition retain ::
    "job_scope \<Rightarrow> job_status option \<Rightarrow> string option \<Rightarrow> diagnostic \<Rightarrow> status_observation" where
  "retain scope previous at d =
     \<lparr>status = (case previous of Some p \<Rightarrow> p | None \<Rightarrow> unknown_status scope), checked_at = at,
      diagnostic = Some d, retained_previous = (previous \<noteq> None)\<rparr>"

definition regresses :: "job_status option \<Rightarrow> job_status \<Rightarrow> bool" where
  "regresses previous s =
     (case previous of Some p \<Rightarrow> \<not> allows (job_state p) (job_state s) | None \<Rightarrow> False)"

definition observe_queue ::
    "job_scope \<Rightarrow> job_status option \<Rightarrow> query \<Rightarrow> string option \<Rightarrow> status_parser \<Rightarrow> status_observation" where
  "observe_queue scope previous queue_query at parse =
     (case (case queue_query of
              Success out \<Rightarrow> parse out scope Squeue at
            | QueryFailed \<Rightarrow> Inl Unavailable
            | NotRequested \<Rightarrow> Inr None) of
        Inr (Some s) \<Rightarrow>
          if regresses previous s then retain scope previous at RegressiveState
          else \<lparr>status = s, checked_at = at, diagnostic = None, retained_previous = False\<rparr>
      | Inl Unavailable \<Rightarrow> retain scope previous at DQueryUnavailable
      | Inl _ \<Rightarrow> retain scope previous at MalformedOrForeignEvidence
      | Inr None \<Rightarrow> retain scope previous at NoEvidence)"

text \<open>The queue's answer for a job accounting reports as queued.\<close>

definition queue_answer ::
    "query \<Rightarrow> job_scope \<Rightarrow> string option \<Rightarrow> status_parser \<Rightarrow> job_status
     \<Rightarrow> job_status \<times> diagnostic option" where
  "queue_answer queue_query scope at parse s =
     (let detail = (\<lambda>a r. \<lparr>queue_source = ''slurm-squeue'', queue_availability = a, queue_reason = r\<rparr>)
      in case queue_query of
           QueryFailed \<Rightarrow> (s\<lparr>queue := Some (detail QueueUnavailable None)\<rparr>, Some DQueueUnavailable)
         | NotRequested \<Rightarrow> (s\<lparr>queue := Some (detail NotObserved None)\<rparr>, Some QueueNotObserved)
         | Success out \<Rightarrow>
             (case parse out scope Squeue at of
                Inr (Some other) \<Rightarrow>
                  if job_state other = Queued
                  then (s\<lparr>reason := reason other, queue := Some (detail Observed (reason other))\<rparr>, None)
                  else (s\<lparr>queue := Some (detail NotObserved None)\<rparr>, Some QueueNotObserved)
              | Inr None \<Rightarrow> (s\<lparr>queue := Some (detail NotObserved None)\<rparr>, Some QueueNotObserved)
              | Inl _ \<Rightarrow>
                  (s\<lparr>queue := Some (detail NotObserved None)\<rparr>, Some MalformedOrForeignEvidence)))"

definition observe_with ::
    "job_scope \<Rightarrow> job_status option \<Rightarrow> query \<Rightarrow> query \<Rightarrow> string option \<Rightarrow> status_parser
     \<Rightarrow> slurm_error + status_observation" where
  "observe_with scope previous accounting queue_query at parse =
     and_then (validate_scope scope) (\<lambda>_.
     if \<not> valid_timestamp at then Inl (Evidence ''observation timestamp'')
     else if (case previous of Some p \<Rightarrow> job_scope_of p \<noteq> scope | None \<Rightarrow> False)
     then Inl (BadIdentity ''previous status scope'')
     else Inr (case accounting of
            QueryFailed \<Rightarrow> retain scope previous at DQueryUnavailable
          | NotRequested \<Rightarrow> observe_queue scope previous queue_query at parse
          | Success out \<Rightarrow>
              (case parse out scope Sacct at of
                 Inl _ \<Rightarrow> retain scope previous at MalformedOrForeignEvidence
               | Inr None \<Rightarrow> observe_queue scope previous queue_query at parse
               | Inr (Some s) \<Rightarrow>
                   if regresses previous s then retain scope previous at RegressiveState
                   else (case (if job_state s = Queued then queue_answer queue_query scope at parse s
                               else (s, None)) of
                           (s', d) \<Rightarrow> \<lparr>status = s', checked_at = at, diagnostic = d,
                                      retained_previous = False\<rparr>))))"

definition observe_owned_status ::
    "job_scope \<Rightarrow> string \<Rightarrow> job_status option \<Rightarrow> query \<Rightarrow> query \<Rightarrow> string option
     \<Rightarrow> slurm_error + status_observation" where
  "observe_owned_status scope token previous accounting queue_query at =
     and_then (map_err (\<lambda>_. Ownership) (submission_marker token)) (\<lambda>_.
     if (case accounting of Success out \<Rightarrow> accounting_omits_ownership out scope | _ \<Rightarrow> False)
     then and_then (observe_with scope previous NotRequested queue_query at
                      (parse_owned_job_status token)) (\<lambda>v.
            Inr (if diagnostic v = Some NoEvidence
                 then v\<lparr>diagnostic := Some OwnershipNotRecorded\<rparr> else v))
     else observe_with scope previous accounting queue_query at (parse_owned_job_status token))"

section \<open>Validation of a received status\<close>

definition text_or_empty :: "string option \<Rightarrow> string" where
  "text_or_empty x = (case x of Some s \<Rightarrow> s | None \<Rightarrow> [])"

definition status_row :: "job_status \<Rightarrow> status_source \<Rightarrow> string list" where
  "status_row s source =
     [scope_job_id (job_scope_of s), scope_name (job_scope_of s), scope_partition (job_scope_of s),
      raw_state s, text_or_empty (elapsed s), text_or_empty (exit_code s)] @
     (if source \<noteq> Sacct then [text_or_empty (reason s)] else [])"

definition validate_status :: "job_status \<Rightarrow> slurm_error + unit" where
  "validate_status s =
     and_then (ok_or (observation_source s) (Evidence ''status source'')) (\<lambda>source.
     if source = Squeue \<and> exit_code s \<noteq> None then Inl (Evidence ''unobserved queue exit code'')
     else and_then (parse_job_status (join ''|'' (status_row s source)) (job_scope_of s) source
                      (status_observed_at s)) (\<lambda>parsed_option.
          and_then (ok_or parsed_option (Evidence ''missing status'')) (\<lambda>parsed.
          and_then (case queue s of
              None \<Rightarrow> Inr parsed
            | Some q \<Rightarrow>
                if job_state s \<noteq> Queued \<or> source \<noteq> Sacct \<or> queue_source q \<noteq> ''slurm-squeue'' \<or>
                   queue_reason q \<noteq> reason s \<or>
                   (case reason s of Some r \<Rightarrow> \<not> printable r 1024 | None \<Rightarrow> False) \<or>
                   queue_availability q \<noteq> Observed \<and> reason s \<noteq> None
                then Inl (Evidence ''queue detail'')
                else Inr (parsed\<lparr>reason := reason s, queue := queue s\<rparr>)) (\<lambda>projected.
          if projected \<noteq> s then Inl (Evidence ''status projection'') else Inr ()))))"

definition scheduler_follows :: "job_status \<Rightarrow> status_observation \<Rightarrow> bool" where
  "scheduler_follows previous next \<longleftrightarrow>
     (let s = status next in
      is_ok (validate_status previous) \<and> is_ok (validate_status s) \<and> \<not> retained_previous next \<and>
      job_scope_of s = job_scope_of previous \<and>
      job_state s \<noteq> Unknown \<and>
      (is_terminal (job_state previous) \<longrightarrow> job_state s = job_state previous) \<and>
      \<not> (job_state previous = Running \<and> job_state s = Queued))"

section \<open>Accepted rows\<close>

lemma row_fields_Inr:
  assumes "row_fields line n = Inr row"
  shows "length row = n" "\<forall>f \<in> set row. CHR ''|'' \<notin> set f \<and> set f \<subseteq> set line"
proof -
  from assms show "length row = n" by (auto simp: row_fields_def Let_def split: if_splits)
  have "set row \<subseteq> set (split_on CHR ''|'' line)"
    using assms by (auto simp: row_fields_def Let_def dest: in_set_butlastD split: if_splits)
  moreover have "set f \<subseteq> set line" if "f \<in> set (split_on CHR ''|'' line)" for f
    using that
  proof (induction line arbitrary: f)
    case (Cons c line)
    then show ?case by (auto split: if_splits list.splits) blast+
  qed simp
  ultimately show "\<forall>f \<in> set row. CHR ''|'' \<notin> set f \<and> set f \<subseteq> set line"
    using split_on_parts by blast
qed

lemma rows_of_line: "rows_of out = [line] \<Longrightarrow> line \<in> set (lines out)"
  by (metis filter_is_subset list.set_intros(1) rows_of_def subsetD)

lemma parse_job_status_Some:
  assumes "parse_job_status out scope source at = Inr (Some s)"
  obtains line row where "is_ok (validate_scope scope)" "valid_timestamp at" "rows_of out = [line]"
    "row_fields line (if source = Sacct then 6 else 7) = Inr row"
    "row_status scope source at row = Inr (Some s)"
  using assms by (auto simp: parse_job_status_def and_then_eq_Inr is_ok_iff split: if_splits list.splits)

lemma row_status_Some:
  assumes "row_status scope source at row = Inr (Some s)"
  shows "row ! 0 = scope_job_id scope" "row ! 1 = scope_name scope" "row ! 2 = scope_partition scope"
    "raw_state s = bare_state (row ! 3)" "job_scope_of s = scope" "status_observed_at s = at"
    "observation_source s = Some source" "queue s = None"
    "printable (raw_state s) 64" "list_all (\<lambda>c. is_ascii_alphanumeric c \<or> c = CHR ''_'') (raw_state s)"
    "elapsed s = some_text (row ! 4)" "row ! 4 \<noteq> [] \<longrightarrow> printable (row ! 4) 64"
    "exit_code s = (if source \<noteq> Squeue then some_text (row ! 5) else None)"
    "row ! 5 \<noteq> [] \<longrightarrow> valid_exit_code (row ! 5)"
    "reason s = (if source \<noteq> Sacct \<and> raw_state s \<in> {''PENDING'', ''CONFIGURING''} \<and> trim (row ! 6) \<noteq> []
       then Some (trim (row ! 6)) else None)"
    "\<forall>r. reason s = Some r \<longrightarrow> printable r 1024"
    "job_state s = normalize_state (raw_state s) (exit_code s)"
    "status_failure s = failure_class (raw_state s)"
proof -
  have step: "(if b then Inl e else x) = Inr y \<longleftrightarrow> \<not> b \<and> x = Inr y" for b e x and y :: "job_status option"
    by simp
  let ?raw = "bare_state (row ! 3)"
    and ?shown = "source \<noteq> Sacct \<and> bare_state (row ! 3) \<in> {''PENDING'', ''CONFIGURING''} \<and> trim (row ! 6) \<noteq> []"
  from assms obtain why where row: "row ! 0 = scope_job_id scope" "row ! 1 = scope_name scope"
    "row ! 2 = scope_partition scope" "printable ?raw 64"
    "list_all (\<lambda>c. is_ascii_alphanumeric c \<or> c = CHR ''_'') ?raw"
    "row ! 4 \<noteq> [] \<longrightarrow> printable (row ! 4) 64" "row ! 5 \<noteq> [] \<longrightarrow> valid_exit_code (row ! 5)"
    and why: "(if ?shown
           then (if \<not> printable (trim (row ! 6)) 1024 then Inl (Evidence ''pending reason'')
                 else Inr (Some (trim (row ! 6))))
           else Inr None) = Inr why"
    and s: "s = \<lparr>job_scope_of = scope,
       job_state = normalize_state ?raw (if source \<noteq> Squeue then some_text (row ! 5) else None), raw_state = ?raw,
       elapsed = some_text (row ! 4), exit_code = (if source \<noteq> Squeue then some_text (row ! 5) else None),
       reason = why, status_failure = failure_class ?raw, observation_source = Some source,
       status_observed_at = at, queue = None\<rparr>"
    unfolding row_status_def Let_def step and_then_eq_Inr de_Morgan_disj not_not by blast
  have "why = (if ?shown then Some (trim (row ! 6)) else None) \<and> (\<forall>r. why = Some r \<longrightarrow> printable r 1024)"
    using why by (cases ?shown) (auto split: if_splits)
  with row show "row ! 0 = scope_job_id scope" "row ! 1 = scope_name scope" "row ! 2 = scope_partition scope"
    "raw_state s = bare_state (row ! 3)" "job_scope_of s = scope" "status_observed_at s = at"
    "observation_source s = Some source" "queue s = None"
    "printable (raw_state s) 64" "list_all (\<lambda>c. is_ascii_alphanumeric c \<or> c = CHR ''_'') (raw_state s)"
    "elapsed s = some_text (row ! 4)" "row ! 4 \<noteq> [] \<longrightarrow> printable (row ! 4) 64"
    "exit_code s = (if source \<noteq> Squeue then some_text (row ! 5) else None)"
    "row ! 5 \<noteq> [] \<longrightarrow> valid_exit_code (row ! 5)"
    "reason s = (if source \<noteq> Sacct \<and> raw_state s \<in> {''PENDING'', ''CONFIGURING''} \<and> trim (row ! 6) \<noteq> []
       then Some (trim (row ! 6)) else None)"
    "\<forall>r. reason s = Some r \<longrightarrow> printable r 1024"
    "job_state s = normalize_state (raw_state s) (exit_code s)"
    "status_failure s = failure_class (raw_state s)"
    unfolding s by simp_all
qed

definition valid_job_id :: "string \<Rightarrow> bool" where
  "valid_job_id j \<longleftrightarrow> parse_job_id j = Inr j"

lemma valid_job_id_shape:
  assumes "valid_job_id j"
  shows "length j \<le> 64" "\<exists>d ds. j = d # ds \<and> is_ascii_digit d" "list_all (\<lambda>c. is_ascii c \<and> byte c > 32) j"
proof -
  have p: "length j \<le> 64" "\<forall>p \<in> set (split_on CHR ''_'' j). p \<noteq> [] \<and> list_all is_ascii_digit p"
    using assms by (auto simp: valid_job_id_def parse_job_id_def Let_def list_ex_iff split: if_splits)
  show "length j \<le> 64" by (rule p)
  show "\<exists>d ds. j = d # ds \<and> is_ascii_digit d"
    using p(2) by (cases j) (auto split: if_splits list.splits)
  have "list_all (\<lambda>c. is_ascii c \<and> byte c > 32) j"
    if "\<forall>p \<in> set (split_on CHR ''_'' j). list_all is_ascii_digit p" for j
    using that
  proof (induction j)
    case (Cons c j)
    have "c = CHR ''_'' \<or> is_ascii_digit c" using Cons.prems by (auto split: if_splits list.splits)
    moreover have *: "\<forall>p \<in> set (split_on CHR ''_'' j). list_all is_ascii_digit p"
      using Cons.prems by (auto split: if_splits list.splits)
    ultimately have "is_ascii c \<and> byte c > 32" by (auto simp: is_ascii_def is_ascii_digit_def byte_def)
    with * Cons.IH show ?case by simp
  qed simp
  with p(2) show "list_all (\<lambda>c. is_ascii c \<and> byte c > 32) j" by blast
qed

lemma valid_exit_code_length: "valid_exit_code v \<Longrightarrow> length v \<le> 11"
  by (auto simp: valid_exit_code_def split: option.splits)

lemma printable_length: "printable v n \<Longrightarrow> length v \<le> n"
  by (simp add: printable_def)

section \<open>A parsed status passes its own validation\<close>

lemma some_text_empty [simp]: "text_or_empty (some_text x) = x"
  by (simp add: text_or_empty_def some_text_def)

lemma some_text_inverse [simp]: "x \<noteq> Some [] \<Longrightarrow> some_text (text_or_empty x) = x"
  by (cases x) (simp_all add: text_or_empty_def some_text_def)

lemma bare_state_idem:
  assumes "list_all (\<lambda>c. is_ascii_alphanumeric c \<or> c = CHR ''_'') raw" "raw \<noteq> []"
  shows "bare_state raw = raw"
proof -
  have "list_all (\<lambda>c. is_ascii c \<and> byte c > 32) raw"
    using assms(1) by (rule list.pred_mono_strong) (auto simp: str_simps)
  then have "first_word raw = raw" using split_whitespace_plain [OF assms(2)] by (simp add: first_word_def)
  moreover have "CHR ''+'' \<notin> set raw" using assms(1) by (auto simp: list_all_iff str_simps)
  then have "dropWhile (\<lambda>c. c = CHR ''+'') (rev raw) = rev raw"
    using assms(2) by (cases "rev raw") (auto simp: dropWhile_eq_self_iff)
  ultimately show ?thesis by (simp add: bare_state_def trim_end_matches_def)
qed

lemma row_status_again:
  assumes "row_status scope source at row = Inr (Some s)"
  shows "row_status scope source at (status_row s source) = Inr (Some s)"
proof -
  note r = row_status_Some [OF assms]
  have raw: "bare_state (raw_state s) = raw_state s"
    using r(9,10) by (intro bare_state_idem) (simp_all add: printable_def)
  have ne: "elapsed s \<noteq> Some []" "exit_code s \<noteq> Some []"
    using r(11,13) by (auto simp: some_text_def)
  have vals: "status_row s source ! 0 = scope_job_id scope" "status_row s source ! 1 = scope_name scope"
    "status_row s source ! 2 = scope_partition scope" "status_row s source ! 3 = raw_state s"
    "status_row s source ! 4 = text_or_empty (elapsed s)"
    "status_row s source ! 5 = text_or_empty (exit_code s)"
    "source \<noteq> Sacct \<Longrightarrow> status_row s source ! 6 = text_or_empty (reason s)"
    by (simp_all add: status_row_def r(5))
  have el: "text_or_empty (elapsed s) \<noteq> [] \<longrightarrow> printable (text_or_empty (elapsed s)) 64"
    using r(11,12) by simp
  have ex: "text_or_empty (exit_code s) \<noteq> [] \<longrightarrow> valid_exit_code (text_or_empty (exit_code s))"
    using r(13,14) by (cases "source = Squeue") (simp_all add: text_or_empty_def [of None])
  have exit: "(if source \<noteq> Squeue then some_text (text_or_empty (exit_code s)) else None) = exit_code s"
    using r(13) ne(2) by auto
  have why: "(if source \<noteq> Sacct \<and> raw_state s \<in> {''PENDING'', ''CONFIGURING''} \<and>
        trim (status_row s source ! 6) \<noteq> []
      then if \<not> printable (trim (status_row s source ! 6)) 1024 then Inl (Evidence ''pending reason'')
           else Inr (Some (trim (status_row s source ! 6)))
      else Inr None) = Inr (reason s)"
  proof (cases "reason s")
    case None
    then show ?thesis by (auto simp: vals(7) text_or_empty_def)
  next
    case (Some t)
    then have "source \<noteq> Sacct" "raw_state s \<in> {''PENDING'', ''CONFIGURING''}" "trim t = t" "t \<noteq> []"
      using r(15) by (auto split: if_splits)
    with Some r(16) show ?thesis by (auto simp: vals(7) text_or_empty_def)
  qed
  have "row_status scope source at (status_row s source) = Inr (Some
       \<lparr>job_scope_of = scope, job_state = normalize_state (raw_state s) (exit_code s),
        raw_state = raw_state s, elapsed = elapsed s, exit_code = exit_code s, reason = reason s,
        status_failure = failure_class (raw_state s), observation_source = Some source,
        status_observed_at = at, queue = None\<rparr>)"
    unfolding row_status_def Let_def vals(1-6) raw why exit some_text_inverse [OF ne(1)]
    using r(9,10) el ex by auto
  also have "\<dots> = Inr (Some s)" using r by simp
  finally show ?thesis .
qed

lemma row_fields_join:
  "length fs = n \<Longrightarrow> fs \<noteq> [] \<Longrightarrow> \<forall>f \<in> set fs. CHR ''|'' \<notin> set f \<Longrightarrow> row_fields (join ''|'' fs) n = Inr fs"
  by (simp add: row_fields_def split_on_join)

lemma length_join: "length (join [c] fs) \<le> sum_list (map (\<lambda>f. length f + 1) fs)"
  by (induction "[c]" fs rule: join.induct) auto

lemma set_join: "set (join [c] fs) \<subseteq> insert c (\<Union>f \<in> set fs. set f)"
  by (induction "[c]" fs rule: join.induct) auto

lemma parse_again:
  assumes "parse_job_status out scope source at = Inr (Some s)" "valid_job_id (scope_job_id scope)"
  shows "parse_job_status (join ''|'' (status_row s source)) scope source at = Inr (Some s)"
proof -
  from assms(1) obtain line row where p: "is_ok (validate_scope scope)" "valid_timestamp at"
    "rows_of out = [line]" "row_fields line (if source = Sacct then 6 else 7) = Inr row"
    "row_status scope source at row = Inr (Some s)" by (rule parse_job_status_Some)
  note r = row_status_Some [OF p(5)] and f = row_fields_Inr [OF p(4)]
  let ?fs = "status_row s source" and ?t = "join ''|'' (status_row s source)"
  have len: "length ?fs = (if source = Sacct then 6 else 7)" by (simp add: status_row_def)
  have line: "CHR 0x0A \<notin> set line" using lines_no_newline [OF rows_of_line [OF p(3)]] .
  define clean where "clean x \<longleftrightarrow> CHR ''|'' \<notin> set x \<and> CHR 0x0A \<notin> set x" for x :: string
  have clean_row: "clean (row ! i)" if "i < length row" for i
    using f(2) line nth_mem [OF that] by (auto simp: clean_def)
  have six: "source \<noteq> Sacct \<Longrightarrow> 6 < length row" "5 < length row" using f(1) by (auto split: if_splits)
  have clean_some: "clean x \<Longrightarrow> clean (text_or_empty (some_text x))" for x by simp
  have clean_nil: "clean []" by (simp add: clean_def)
  have "clean (raw_state s)"
    using r(10) by (auto simp: clean_def list_all_iff str_simps)
  moreover have "clean (text_or_empty (elapsed s))" using r(11) clean_row [of 4] six(2) by simp
  moreover have "clean (text_or_empty (exit_code s))"
    using r(13) clean_row [of 5] six(2) clean_nil by (simp add: text_or_empty_def [of None])
  moreover have "clean (text_or_empty (reason s))" if "source \<noteq> Sacct"
  proof -
    have "clean (trim (row ! 6))"
      using clean_row [OF six(1) [OF that]] trim_subset [of "row ! 6"] by (auto simp: clean_def)
    then show ?thesis using r(15) clean_nil by (simp add: text_or_empty_def)
  qed
  moreover have "clean (scope_job_id scope)" "clean (scope_name scope)" "clean (scope_partition scope)"
    using clean_row [of 0] clean_row [of 1] clean_row [of 2] r(1-3) six(2) by force+
  ultimately have clean_fs: "\<forall>g \<in> set ?fs. clean g" by (simp add: status_row_def r(5))
  then have fields: "row_fields ?t (if source = Sacct then 6 else 7) = Inr ?fs"
    using len by (intro row_fields_join) (auto simp: clean_def status_row_def)
  have no_nl: "CHR 0x0A \<notin> set ?t"
    using clean_fs set_join [of "CHR ''|''" ?fs] by (auto simp: clean_def)
  obtain d ds where j: "scope_job_id scope = d # ds" "is_ascii_digit d"
    using valid_job_id_shape(2) [OF assms(2)] by blast
  obtain rest where t: "?t = d # ds @ CHR ''|'' # rest"
    by (simp add: status_row_def r(5) j(1))
  have "takeWhile is_continuation (ds @ CHR ''|'' # rest) = []"
  proof (cases ds)
    case Nil
    then show ?thesis by (simp add: is_continuation_def byte_def)
  next
    case (Cons e es)
    then have "is_ascii e" using valid_job_id_shape(3) [OF assms(2)] j(1) by simp
    with Cons show ?thesis by (simp add: is_continuation_def is_ascii_def)
  qed
  then have "[d] \<in> set (utf8_chars ?t)" by (simp add: t)
  moreover have "\<not> is_whitespace [d]" using j(2) by (auto simp: is_whitespace_def is_ascii_digit_def)
  ultimately have trim: "trim ?t \<noteq> []" by (rule trim_nonempty)
  have rows: "rows_of ?t = [?t]"
    using lines_single [of ?t] no_nl trim by (simp add: rows_of_def t)
  have "length (text_or_empty (exit_code s)) \<le> 11"
    using r(13,14) valid_exit_code_length [of "row ! 5"]
    by (cases "row ! 5 = []") (auto simp: text_or_empty_def some_text_def)
  moreover have "length (text_or_empty (elapsed s)) \<le> 64"
    using r(11,12) printable_length [of "row ! 4" 64] by (cases "row ! 4 = []") auto
  moreover have "length (text_or_empty (reason s)) \<le> 1024"
    using r(16) printable_length by (cases "reason s") (auto simp: text_or_empty_def)
  moreover have "length (scope_name scope) \<le> 128" "length (scope_partition scope) \<le> 128"
    using p(1) by (auto simp: validate_scope_def is_ok_iff printable_def component_def split: if_splits)
  moreover have "length (raw_state s) \<le> 64" using r(9) by (rule printable_length)
  ultimately have "sum_list (map (\<lambda>f. length f + 1) ?fs) \<le> 1500"
    using valid_job_id_shape(1) [OF assms(2)] by (simp add: status_row_def r(5))
  then have short: "\<not> length ?t > MAX_OUTPUT" using length_join [of "CHR ''|''" ?fs] by linarith
  have v: "validate_scope scope = Inr ()" using p(1) by (auto simp: is_ok_iff)
  show ?thesis
    unfolding parse_job_status_def v rows
    using short p(2) fields row_status_again [OF p(5)] by simp
qed

lemma parsed_status_validates:
  assumes "parse_job_status out scope source at = Inr (Some s)" "valid_job_id (scope_job_id scope)"
  shows "validate_status s = Inr ()"
proof -
  from assms(1) obtain line row where p: "row_status scope source at row = Inr (Some s)"
    by (rule parse_job_status_Some)
  note r = row_status_Some [OF p]
  show ?thesis
    using parse_again [OF assms] r by (simp add: validate_status_def)
qed

text \<open>A queued status with the queue's answer attached still validates.\<close>

lemma queue_answer_validates:
  assumes "parse_job_status out scope Sacct at = Inr (Some s)" "valid_job_id (scope_job_id scope)"
    and "job_state s = Queued"
    and "\<And>out other. parse out scope Squeue at = Inr (Some other) \<Longrightarrow>
      \<exists>out'. parse_job_status out' scope Squeue at = Inr (Some other)"
  shows "validate_status (fst (queue_answer q scope at parse s)) = Inr ()"
proof -
  from assms(1) obtain line row where p: "row_status scope Sacct at row = Inr (Some s)"
    by (rule parse_job_status_Some)
  note r = row_status_Some [OF p]
  have none: "reason s = None" using r(15) by simp
  have row: "status_row (s\<lparr>reason := x, queue := y\<rparr>) Sacct = status_row s Sacct"
    "status_row (s\<lparr>queue := y\<rparr>) Sacct = status_row s Sacct" for x y
    by (simp_all add: status_row_def)
  have again: "parse_job_status (join ''|'' (status_row s Sacct)) scope Sacct at = Inr (Some s)"
    by (rule parse_again [OF assms(1,2)])
  have plain: "validate_status (s\<lparr>queue := Some \<lparr>queue_source = ''slurm-squeue'', queue_availability = a,
      queue_reason = None\<rparr>\<rparr>) = Inr ()" for a
    using r none again assms(3) by (simp add: validate_status_def row)
  have full: "validate_status (s\<lparr>reason := x, queue := Some \<lparr>queue_source = ''slurm-squeue'',
      queue_availability = Observed, queue_reason = x\<rparr>\<rparr>) = Inr ()"
    if "\<forall>t. x = Some t \<longrightarrow> printable t 1024" for x
    using r again assms(3) that by (cases x) (simp_all add: validate_status_def row)
  have "\<forall>t. reason other = Some t \<longrightarrow> printable t 1024"
    if "parse out scope Squeue at = Inr (Some other)" for out other
    using assms(4) [OF that] by (auto elim!: parse_job_status_Some dest: row_status_Some(16))
  then show ?thesis
    using plain full by (cases q) (auto simp: queue_answer_def Let_def split: sum.splits option.splits)
qed

section \<open>The reducer\<close>

lemma parse_owned_Some:
  assumes "parse_owned_job_status token out scope source at = Inr (Some s)"
  obtains marker line row where "submission_marker token = Inr marker" "rows_of out = [line]"
    "row_fields line (if source = Sacct then 7 else 8) = Inr row" "row ! 2 = marker"
    "parse_job_status (without_marker row) scope source at = Inr (Some s)"
proof -
  have "rows_of [] = []" by (simp add: rows_of_def lines_def Let_def)
  then have none: "parse_job_status [] scope source at \<noteq> Inr (Some s)" for source
    by (auto simp: parse_job_status_def and_then_eq_Inr split: if_splits)
  from assms that show ?thesis
    by (auto simp: parse_owned_job_status_def and_then_eq_Inr map_err_eq_Inr none
        split: if_splits list.splits)
qed

lemma queue_answer_state: "job_state (fst (queue_answer q scope at parse s)) = job_state s"
  "job_scope_of (fst (queue_answer q scope at parse s)) = job_scope_of s"
  "observation_source (fst (queue_answer q scope at parse s)) = observation_source s"
  by (cases q; auto simp: queue_answer_def Let_def split: sum.splits option.splits)+

text \<open>Every answer of the reducer is the previous status kept, or a status parsed from one text that
  the previous state allows.\<close>

lemma observe_queue_cases:
  "(\<exists>d. observe_queue scope previous q at parse = retain scope previous at d) \<or>
   (\<exists>out s. q = Success out \<and> parse out scope Squeue at = Inr (Some s) \<and> \<not> regresses previous s \<and>
      observe_queue scope previous q at parse =
        \<lparr>status = s, checked_at = at, diagnostic = None, retained_previous = False\<rparr>)"
proof (cases q)
  case (Success out)
  show ?thesis
  proof (cases "parse out scope Squeue at")
    case (Inl e)
    with Success show ?thesis by (cases e) (auto simp: observe_queue_def)
  next
    case (Inr x)
    with Success show ?thesis by (cases x) (auto simp: observe_queue_def)
  qed
qed (auto simp: observe_queue_def)

definition from_accounting ::
    "job_scope \<Rightarrow> job_status option \<Rightarrow> query \<Rightarrow> query \<Rightarrow> string option \<Rightarrow> status_parser \<Rightarrow> job_status \<Rightarrow> bool" where
  "from_accounting scope previous acc q at parse t \<longleftrightarrow>
     (\<exists>out s. acc = Success out \<and> parse out scope Sacct at = Inr (Some s) \<and> \<not> regresses previous s \<and>
        t = (if job_state s = Queued then fst (queue_answer q scope at parse s) else s))"

definition from_queue ::
    "job_scope \<Rightarrow> job_status option \<Rightarrow> query \<Rightarrow> string option \<Rightarrow> status_parser \<Rightarrow> job_status \<Rightarrow> bool" where
  "from_queue scope previous q at parse t \<longleftrightarrow>
     (\<exists>out. q = Success out \<and> parse out scope Squeue at = Inr (Some t) \<and> \<not> regresses previous t)"

lemma observe_with_cases:
  assumes "observe_with scope previous acc q at parse = Inr o'"
  shows "(\<exists>d. o' = retain scope previous at d) \<or>
    \<not> retained_previous o' \<and> (from_accounting scope previous acc q at parse (status o') \<or>
      from_queue scope previous q at parse (status o'))"
proof (cases acc)
  case (Success out)
  show ?thesis
  proof (cases "parse out scope Sacct at")
    case (Inl e)
    with assms Success show ?thesis by (auto simp: observe_with_def res_simps split: if_splits)
  next
    case (Inr x)
    with assms Success observe_queue_cases [of scope previous q at parse] show ?thesis
      by (cases x)
        (auto simp: observe_with_def res_simps from_accounting_def from_queue_def
          split: if_splits prod.splits)
  qed
qed (use assms observe_queue_cases [of scope previous q at parse] in
    \<open>auto simp: observe_with_def res_simps from_queue_def split: if_splits\<close>)

lemma observe_owned_cases:
  assumes "observe_owned_status scope token previous acc q at = Inr o'"
  shows "(\<exists>d. o' = retain scope previous at d) \<or>
    \<not> retained_previous o' \<and>
      (from_accounting scope previous acc q at (parse_owned_job_status token) (status o') \<or>
       from_queue scope previous q at (parse_owned_job_status token) (status o'))"
proof (cases "case acc of Success out \<Rightarrow> accounting_omits_ownership out scope | _ \<Rightarrow> False")
  case True
  with assms obtain v where v: "observe_with scope previous NotRequested q at (parse_owned_job_status token) = Inr v"
    "o' = (if diagnostic v = Some NoEvidence then v\<lparr>diagnostic := Some OwnershipNotRecorded\<rparr> else v)"
    by (auto simp: observe_owned_status_def res_simps)
  have "retain scope previous at d\<lparr>diagnostic := Some OwnershipNotRecorded\<rparr> =
      retain scope previous at OwnershipNotRecorded" for d by (simp add: retain_def)
  with observe_with_cases [OF v(1)] v(2) show ?thesis
    by (auto simp: from_accounting_def split: if_splits)
next
  case False
  with assms have "observe_with scope previous acc q at (parse_owned_job_status token) = Inr o'"
    by (auto simp: observe_owned_status_def res_simps)
  then show ?thesis by (rule observe_with_cases)
qed

lemma owned_row:
  assumes "parse_owned_job_status token out scope source at = Inr (Some s)"
  shows "\<exists>line row marker. rows_of out = [line] \<and>
      row_fields line (if source = Sacct then 7 else 8) = Inr row \<and>
      submission_marker token = Inr marker \<and> row ! 2 = marker \<and>
      row_fields (without_marker row) (if source = Sacct then 6 else 7) = Inr (take 2 row @ drop 3 row) \<and>
      row ! 0 = scope_job_id scope \<and> row ! 1 = scope_name scope \<and> row ! 3 = scope_partition scope \<and>
      job_scope_of s = scope \<and> raw_state s = bare_state (row ! 4) \<and> observation_source s = Some source"
proof -
  from assms obtain marker line row where p: "submission_marker token = Inr marker" "rows_of out = [line]"
    "row_fields line (if source = Sacct then 7 else 8) = Inr row" "row ! 2 = marker"
    "parse_job_status (without_marker row) scope source at = Inr (Some s)" by (rule parse_owned_Some)
  from p(5) obtain line' row' where p': "rows_of (without_marker row) = [line']"
    "row_fields line' (if source = Sacct then 6 else 7) = Inr row'"
    "row_status scope source at row' = Inr (Some s)" by (rule parse_job_status_Some)
  note f = row_fields_Inr [OF p(3)]
  have len: "4 < length row" using f(1) by (auto split: if_splits)
  let ?fs = "take 2 row @ drop 3 row"
  have sub: "set ?fs \<subseteq> set row" using set_take_subset [of 2 row] set_drop_subset [of 3 row] by auto
  have ne: "?fs \<noteq> []" using len by (cases row) auto
  have "length ?fs = (if source = Sacct then 6 else 7)" using f(1) by auto
  then have fields: "row_fields (without_marker row) (if source = Sacct then 6 else 7) = Inr ?fs"
    unfolding without_marker_def using f(2) sub ne by (intro row_fields_join) auto
  have nl: "CHR 0x0A \<notin> set (without_marker row)"
    using set_join [of "CHR ''|''" ?fs] sub f(2) lines_no_newline [OF rows_of_line [OF p(2)]]
    by (fastforce simp: without_marker_def)
  have "without_marker row \<noteq> []"
    using p'(1) by (auto simp: rows_of_def lines_def Let_def)
  then have "line' = without_marker row"
    using lines_single [OF _ nl] rows_of_line [OF p'(1)] by simp
  with p'(2) fields have "row' = ?fs" by simp
  moreover have "?fs ! 0 = row ! 0" "?fs ! 1 = row ! 1" "?fs ! 2 = row ! 3" "?fs ! 3 = row ! 4"
    using len by (simp_all add: nth_append)
  ultimately show ?thesis
    using p p' fields row_status_Some(1-5,7) [OF p'(3)] by auto
qed

text \<open>C23. New evidence about a job is about that job and never takes it back. What the reducer answers for a
  job with earlier evidence has the identity of that evidence. It is either that evidence itself,
  marked as kept, or newly accepted: then a terminal job is still in exactly that state, a running job is
  running, requeued, evaluating, ended or unknown and never back before its start, and a job in evaluation
  is evaluating, ended or unknown. A failed accounting query changes nothing.\<close>

theorem scheduler_evidence_is_monotone:
  assumes "observe_owned_status scope token (Some p) acc q at = Inr o'"
  shows "job_scope_of (status o') = job_scope_of p \<and>
    (retained_previous o' \<longrightarrow> status o' = p) \<and>
    (\<not> retained_previous o' \<longrightarrow> allows (job_state p) (job_state (status o'))) \<and>
    (job_state p \<in> {Succeeded, Failed, Preempted, Cancelled} \<longrightarrow> job_state (status o') = job_state p) \<and>
    (job_state p = Running \<longrightarrow> job_state (status o') \<in>
       {Running, Queued, Evaluating, Succeeded, Failed, Preempted, Cancelled, Unknown}) \<and>
    (job_state p = Evaluating \<longrightarrow> job_state (status o') \<in>
       {Evaluating, Succeeded, Failed, Preempted, Cancelled, Unknown}) \<and>
    (acc = QueryFailed \<longrightarrow> status o' = p)"
proof -
  have moved: "retained_previous o' \<and> status o' = p \<or>
      \<not> retained_previous o' \<and> allows (job_state p) (job_state (status o'))"
    using observe_owned_cases [OF assms]
    by (auto simp: retain_def from_accounting_def from_queue_def regresses_def queue_answer_state
        split: if_splits)
  have same: "job_scope_of p = scope"
    using assms by (auto simp: observe_owned_status_def observe_with_def res_simps split: if_splits)
  have parsed: "job_scope_of s = scope" if "parse_owned_job_status token out scope source at = Inr (Some s)" for out source s
    using owned_row [OF that] by blast
  have "job_scope_of (fst (queue_answer q scope at (parse_owned_job_status token) s)) = job_scope_of s" for s
    by (cases q) (auto simp: queue_answer_def Let_def split: sum.splits option.splits)
  then have identity: "job_scope_of (status o') = scope"
    using observe_owned_cases [OF assms] parsed same
    by (auto simp: retain_def from_accounting_def from_queue_def split: if_splits)
  have "status o' = p" if "acc = QueryFailed"
    using assms that by (auto simp: observe_owned_status_def observe_with_def res_simps retain_def split: if_splits)
  moreover have "job_state (status o') \<in> {Running, Queued, Evaluating, Succeeded, Failed, Preempted, Cancelled, Unknown}"
    if "job_state p = Running"
    using moved that by (cases "job_state (status o')") (auto simp: allows_def is_terminal_def)
  moreover have "job_state (status o') \<in> {Evaluating, Succeeded, Failed, Preempted, Cancelled, Unknown}"
    if "job_state p = Evaluating"
    using moved that by (cases "job_state (status o')") (auto simp: allows_def is_terminal_def)
  moreover have "job_state (status o') = job_state p" if "job_state p \<in> {Succeeded, Failed, Preempted, Cancelled}"
    using moved that by (auto simp: allows_def is_terminal_def)
  ultimately show ?thesis using moved identity same by (intro conjI impI) (simp | blast)+
qed

text \<open>C22. Only an owned row is believed. Every status the reducer newly accepts was read from one text
  holding exactly one row, and that same row names the job, its scheduler name and partition and
  carries the submission marker of the token; no field is taken from anywhere else.\<close>

theorem accepted_status_is_owned:
  assumes "observe_owned_status scope token previous acc q at = Inr o'"
    and "\<not> retained_previous o'" "observation_source (status o') \<noteq> None"
  shows "\<exists>source out line row marker. observation_source (status o') = Some source \<and>
    (source = Sacct \<and> acc = Success out \<or> source = Squeue \<and> q = Success out) \<and>
    rows_of out = [line] \<and> row_fields line (if source = Sacct then 7 else 8) = Inr row \<and>
    submission_marker token = Inr marker \<and> row ! 2 = marker \<and>
    row_fields (without_marker row) (if source = Sacct then 6 else 7) = Inr (take 2 row @ drop 3 row) \<and>
    row ! 0 = scope_job_id scope \<and> row ! 1 = scope_name scope \<and> row ! 3 = scope_partition scope \<and>
    job_scope_of (status o') = scope \<and> raw_state (status o') = bare_state (row ! 4)"
proof -
  have "o' \<noteq> retain scope previous at d" for d
    using assms(2,3) by (cases previous) (auto simp: retain_def unknown_status_def)
  then consider "from_accounting scope previous acc q at (parse_owned_job_status token) (status o')"
    | "from_queue scope previous q at (parse_owned_job_status token) (status o')"
    using observe_owned_cases [OF assms(1)] by blast
  then show ?thesis
  proof cases
    case 1
    then obtain out s where s: "acc = Success out" "parse_owned_job_status token out scope Sacct at = Inr (Some s)"
      "status o' = (if job_state s = Queued
         then fst (queue_answer q scope at (parse_owned_job_status token) s) else s)"
      by (auto simp: from_accounting_def)
    have "raw_state (fst (queue_answer q scope at (parse_owned_job_status token) s)) = raw_state s"
      by (cases q) (auto simp: queue_answer_def Let_def split: sum.splits option.splits)
    with owned_row [OF s(2)] s(1,3) queue_answer_state [of q scope at "parse_owned_job_status token" s]
    show ?thesis by (auto split: if_splits)
  next
    case 2
    then obtain out where s: "q = Success out"
      "parse_owned_job_status token out scope Squeue at = Inr (Some (status o'))"
      by (auto simp: from_queue_def)
    with owned_row [OF s(2)] show ?thesis by auto
  qed
qed

text \<open>Every status the reducer hands on passes the check its receiver makes. If the previous status
  was valid, the new one is: rendering its fields as a scheduler row and parsing that row again gives
  back the same status, queue detail included. Only the placeholder for a job never observed has no
  source and is refused.\<close>

theorem observed_status_validates:
  assumes "observe_owned_status scope token previous acc q at = Inr o'" "valid_job_id (scope_job_id scope)"
    and "\<And>p. previous = Some p \<Longrightarrow> is_ok (validate_status p)"
    and "observation_source (status o') \<noteq> None"
  shows "is_ok (validate_status (status o'))"
proof -
  have parsed: "\<exists>out'. parse_job_status out' scope source at = Inr (Some s)"
    if "parse_owned_job_status token out scope source at = Inr (Some s)" for out source s
    using that by (rule parse_owned_Some) blast
  from observe_owned_cases [OF assms(1)] consider
    d where "o' = retain scope previous at d"
    | "from_accounting scope previous acc q at (parse_owned_job_status token) (status o')"
    | "from_queue scope previous q at (parse_owned_job_status token) (status o')" by blast
  then show ?thesis
  proof cases
    case 1
    with assms(3,4) show ?thesis by (cases previous) (auto simp: retain_def unknown_status_def)
  next
    case 2
    then obtain out s where s: "parse_owned_job_status token out scope Sacct at = Inr (Some s)"
      "status o' = (if job_state s = Queued
         then fst (queue_answer q scope at (parse_owned_job_status token) s) else s)"
      by (auto simp: from_accounting_def)
    from parsed [OF s(1)] obtain out' where "parse_job_status out' scope Sacct at = Inr (Some s)" by blast
    from queue_answer_validates [OF this assms(2), of "parse_owned_job_status token" q]
      parsed_status_validates [OF this assms(2)] parsed s(2)
    show ?thesis by (auto simp: is_ok_iff split: if_splits)
  next
    case 3
    then obtain out where "parse_owned_job_status token out scope Squeue at = Inr (Some (status o'))"
      by (auto simp: from_queue_def)
    from parsed [OF this] parsed_status_validates [OF _ assms(2)] show ?thesis by (auto simp: is_ok_iff)
  qed
qed

section \<open>An observation\<close>

definition sample_scope :: job_scope where
  "sample_scope = \<lparr>scope_ssh_alias = ''cluster'', scope_job_id = ''4711'',
     scope_name = ''train--attempt-001'', scope_partition = ''gpu''\<rparr>"

definition sample_token :: string where "sample_token = replicate 32 CHR ''a''"

definition sample_marker :: string where
  "sample_marker = (case submission_marker sample_token of Inr m \<Rightarrow> m | Inl _ \<Rightarrow> [])"

definition sample_row :: string where
  "sample_row = ''4711|train--attempt-001|'' @ sample_marker @ ''|gpu|COMPLETED by 0|01:00:00|0:0'' @ [CHR 0x0A]"

definition sample_running :: job_status where
  "sample_running = (unknown_status sample_scope)\<lparr>job_state := Running, raw_state := ''RUNNING'',
     observation_source := Some Squeue\<rparr>"

definition sample_observation :: "slurm_error + status_observation" where
  "sample_observation = observe_owned_status sample_scope sample_token (Some sample_running)
     (Success sample_row) NotRequested None"

lemma sample_observed:
  obtains o' where "sample_observation = Inr o'" "\<not> retained_previous o'"
    "observation_source (status o') = Some Sacct" "job_state (status o') = Succeeded"
proof -
  have "map_option (\<lambda>o'. (retained_previous o', observation_source (status o'), job_state (status o')))
      (ok sample_observation) = Some (False, Some Sacct, Succeeded)" by code_simp
  then show ?thesis using that by (auto simp: ok_eq_Some)
qed

theorem scheduler_evidence_is_monotone_witness:
  "\<exists>o'. sample_observation = Inr o' \<and> job_scope_of (status o') = sample_scope \<and>
     job_state (status o') \<in> {Running, Queued, Evaluating, Succeeded, Failed, Preempted, Cancelled, Unknown}"
proof -
  obtain o' where o': "sample_observation = Inr o'" by (rule sample_observed)
  have "job_scope_of sample_running = sample_scope" "job_state sample_running = Running"
    by (simp_all add: sample_running_def unknown_status_def)
  with o' scheduler_evidence_is_monotone [OF o' [unfolded sample_observation_def]] show ?thesis by auto
qed

theorem accepted_status_is_owned_witness:
  "\<exists>o' line row. sample_observation = Inr o' \<and> rows_of sample_row = [line] \<and>
     row_fields line 7 = Inr row \<and> row ! 2 = sample_marker \<and> job_scope_of (status o') = sample_scope"
proof -
  obtain o' where o': "sample_observation = Inr o'" "\<not> retained_previous o'"
    "observation_source (status o') = Some Sacct" by (rule sample_observed)
  from accepted_status_is_owned [OF o'(1) [unfolded sample_observation_def] o'(2)] o'(1,3)
  show ?thesis by (auto simp: sample_marker_def)
qed

theorem observed_status_validates_witness:
  "\<exists>o'. sample_observation = Inr o' \<and> is_ok (validate_status (status o'))"
proof -
  obtain o' where o': "sample_observation = Inr o'" "observation_source (status o') = Some Sacct"
    by (rule sample_observed)
  have v: "is_ok (validate_status sample_running)" "valid_job_id (scope_job_id sample_scope)" by code_simp+
  from observed_status_validates [OF o'(1) [unfolded sample_observation_def] v(2)] v(1) o' show ?thesis
    by auto
qed

end
