(* ===== verification/SlurmAllocation.thy ===== *)
theory SlurmAllocation
  imports Slurm
begin

text \<open>
  Cluster capacity from one bounded text: \<open>rust/crates/core/src/slurm/allocation.rs\<close>. Counts are
  64-bit; they are kept as \<open>nat\<close> with every overflow check of the code written out.
\<close>

definition QUEUE_MARKER :: string where
  "QUEUE_MARKER = CHR 0x0A # ''ML_EXPD_QUEUE'' @ [CHR 0x0A]"

record resource_count =
  total :: nat
  allocated :: nat
  unallocated :: nat

definition new_count :: "nat \<Rightarrow> nat \<Rightarrow> slurm_error + resource_count" where
  "new_count t a =
     (if a \<le> t then Inr \<lparr>total = t, allocated = a, unallocated = t - a\<rparr>
      else Inl (Evidence ''allocation exceeds total''))"

definition overflow_checked :: "nat \<Rightarrow> slurm_error + nat" where
  "overflow_checked n = ok_or (checked n) (Evidence ''allocation overflow'')"

definition add_count :: "resource_count \<Rightarrow> resource_count \<Rightarrow> slurm_error + resource_count" where
  "add_count a b =
     and_then (overflow_checked (total a + total b)) (\<lambda>t.
     and_then (overflow_checked (allocated a + allocated b)) (\<lambda>al.
     and_then (overflow_checked (unallocated a + unallocated b)) (\<lambda>u.
       Inr \<lparr>total = t, allocated = al, unallocated = u\<rparr>)))"

record allocation_resources =
  ar_gpus :: resource_count
  ar_cpus :: resource_count
  ar_memory :: resource_count

record allocation_node =
  node_name :: string
  node_state :: string
  node_resources :: allocation_resources

record allocation_snapshot =
  snapshot_resources :: allocation_resources
  snapshot_nodes :: "allocation_node list"
  pending_queue_entries :: nat

definition count :: "string \<Rightarrow> slurm_error + nat" where
  "count v =
     (if v = [] \<or> \<not> list_all is_ascii_digit v then Inl (Evidence ''scheduler count'')
      else ok_or (parse_unsigned u64_limit v) (Evidence ''scheduler count overflow''))"

definition required :: "(string \<times> string) list \<Rightarrow> string \<Rightarrow> slurm_error + string" where
  "required vs name = ok_or (map_of vs name) (Evidence ''allocation field missing'')"

fun tres_parts :: "(string \<times> string) list \<Rightarrow> string list \<Rightarrow> slurm_error + (string \<times> string) list" where
  "tres_parts seen [] = Inr seen"
| "tres_parts seen (part # rest) =
     (if part = [] then tres_parts seen rest
      else case split_once CHR ''='' part of
             None \<Rightarrow> Inl (Evidence ''TRES field'')
           | Some (key, value) \<Rightarrow>
               if key = [] \<or> value = [] \<or> map_of seen key \<noteq> None
               then Inl (Evidence ''duplicate or empty TRES'')
               else tres_parts ((key, value) # seen) rest)"

definition tres :: "string \<Rightarrow> slurm_error + (string \<times> string) list" where
  "tres v = tres_parts [] (split_on CHR '','' v)"

fun node_fields :: "(string \<times> string) list \<Rightarrow> string list \<Rightarrow> slurm_error + (string \<times> string) list" where
  "node_fields seen [] = Inr seen"
| "node_fields seen (item # rest) =
     (case split_once CHR ''='' item of
        None \<Rightarrow> node_fields seen rest
      | Some (key, value) \<Rightarrow>
          if map_of seen key \<noteq> None then Inl (Evidence ''duplicate allocation field'')
          else node_fields ((key, value) # seen) rest)"

definition memory_bytes :: "nat \<Rightarrow> slurm_error + nat" where
  "memory_bytes n = ok_or (checked (n * 1048576)) (Evidence ''memory overflow'')"

definition in_partition :: "string \<Rightarrow> (string \<times> string) list \<Rightarrow> bool" where
  "in_partition part values =
     (case map_of values ''Partitions'' of
        Some v \<Rightarrow> list_ex (\<lambda>p. p = part) (split_on CHR '','' v) | None \<Rightarrow> False)"

text \<open>One line of the node listing that belongs to the partition.\<close>

definition parse_node :: "string list \<Rightarrow> (string \<times> string) list \<Rightarrow> slurm_error + allocation_node" where
  "parse_node names values =
     and_then (required values ''NodeName'') (\<lambda>name.
     if \<not> component name \<or> name \<in> set names then Inl (Evidence ''duplicate or invalid node'')
     else
     and_then (and_then (required values ''CfgTRES'') tres) (\<lambda>configured.
     and_then (and_then (required values ''AllocTRES'') tres) (\<lambda>alloc.
     and_then (and_then (required values ''CPUTot'') count) (\<lambda>cpu_total.
     and_then (and_then (required values ''CPUAlloc'') count) (\<lambda>cpu_allocated.
     and_then (and_then (and_then (required values ''RealMemory'') count) memory_bytes) (\<lambda>memory_total.
     and_then (and_then (and_then (required values ''AllocMem'') count) memory_bytes) (\<lambda>memory_allocated.
     if alloc = [] \<and> (cpu_allocated \<noteq> 0 \<or> memory_allocated \<noteq> 0)
     then Inl (Evidence ''allocation evidence missing'')
     else
     and_then (and_then (required configured ''gres/gpu'') count) (\<lambda>gpu_total.
     and_then (count (case map_of alloc ''gres/gpu'' of Some v \<Rightarrow> v | None \<Rightarrow> ''0'')) (\<lambda>gpu_allocated.
     and_then (required values ''State'') (\<lambda>state.
     if \<not> printable state 128 then Inl (Evidence ''node state'')
     else
     and_then (new_count gpu_total gpu_allocated) (\<lambda>g.
     and_then (new_count cpu_total cpu_allocated) (\<lambda>c.
     and_then (new_count memory_total memory_allocated) (\<lambda>m.
       Inr \<lparr>node_name = name, node_state = state,
            node_resources = \<lparr>ar_gpus = g, ar_cpus = c, ar_memory = m\<rparr>\<rparr>)))))))))))))"

fun parse_nodes :: "string \<Rightarrow> string list \<Rightarrow> string list \<Rightarrow> slurm_error + allocation_node list" where
  "parse_nodes part names [] = Inr []"
| "parse_nodes part names (line # rest) =
     and_then (node_fields [] (split_whitespace line)) (\<lambda>values.
     if \<not> in_partition part values then parse_nodes part names rest
     else and_then (parse_node names values) (\<lambda>n.
          and_then (parse_nodes part (node_name n # names) rest) (\<lambda>ns. Inr (n # ns))))"

fun sum_nodes :: "allocation_resources \<Rightarrow> allocation_node list \<Rightarrow> slurm_error + allocation_resources" where
  "sum_nodes r [] = Inr r"
| "sum_nodes r (n # ns) =
     and_then (add_count (ar_gpus r) (ar_gpus (node_resources n))) (\<lambda>g.
     and_then (add_count (ar_cpus r) (ar_cpus (node_resources n))) (\<lambda>c.
     and_then (add_count (ar_memory r) (ar_memory (node_resources n))) (\<lambda>m.
       sum_nodes \<lparr>ar_gpus = g, ar_cpus = c, ar_memory = m\<rparr> ns)))"

definition queue_row :: "string \<Rightarrow> bool" where
  "queue_row row \<longleftrightarrow>
     (case row of c # _ \<Rightarrow> is_ascii_digit c | [] \<Rightarrow> False) \<and> length row \<le> 256 \<and>
     list_all (\<lambda>c. is_ascii_digit c \<or>
       c \<in> {CHR ''_'', CHR ''['', CHR '']'', CHR '','', CHR ''-'', CHR ''%'', CHR '':''}) row"

definition pending_rows :: "string \<Rightarrow> slurm_error + nat" where
  "pending_rows q =
     (let rows = filter (\<lambda>line. trim line \<noteq> []) (lines q) in
      if list_all queue_row rows then Inr (length rows) else Inl (Evidence ''pending queue row''))"

definition empty_count :: resource_count where
  "empty_count = \<lparr>total = 0, allocated = 0, unallocated = 0\<rparr>"

definition parse_allocation :: "string \<Rightarrow> string \<Rightarrow> slurm_error + allocation_snapshot" where
  "parse_allocation out part =
     (if \<not> component part then Inl (Configuration ''partition'')
      else if length out > 1024 * 1024 then Inl (Evidence ''allocation size'')
      else case split_once_str QUEUE_MARKER out of
             None \<Rightarrow> Inl (Evidence ''queue marker missing'')
           | Some (nodes_text, q) \<Rightarrow>
               if contains_str QUEUE_MARKER q then Inl (Evidence ''duplicate queue marker'')
               else
                 and_then (parse_nodes part [] (lines nodes_text)) (\<lambda>ns.
                 if ns = [] then Inl (Evidence ''partition not visible'')
                 else
                 and_then (sum_nodes \<lparr>ar_gpus = empty_count, ar_cpus = empty_count,
                     ar_memory = empty_count\<rparr> ns) (\<lambda>r.
                 and_then (pending_rows q) (\<lambda>n.
                   Inr \<lparr>snapshot_resources = r, snapshot_nodes = ns, pending_queue_entries = n\<rparr>))))"

section \<open>Conservation\<close>

definition balanced :: "resource_count \<Rightarrow> bool" where
  "balanced c \<longleftrightarrow> allocated c + unallocated c = total c"

definition sums :: "resource_count \<Rightarrow> resource_count list \<Rightarrow> bool" where
  "sums c cs \<longleftrightarrow>
     total c = sum_list (map total cs) \<and> allocated c = sum_list (map allocated cs) \<and>
     unallocated c = sum_list (map unallocated cs) \<and> total c < u64_limit"

lemma new_count_balanced: "new_count t a = Inr c \<Longrightarrow> balanced c"
  by (auto simp: new_count_def balanced_def split: if_splits)

lemma add_count_Inr:
  "add_count a b = Inr c \<longleftrightarrow>
   total a + total b < u64_limit \<and> allocated a + allocated b < u64_limit \<and>
   unallocated a + unallocated b < u64_limit \<and>
   c = \<lparr>total = total a + total b, allocated = allocated a + allocated b,
        unallocated = unallocated a + unallocated b\<rparr>"
  by (auto simp: add_count_def overflow_checked_def checked_def res_simps)

lemma parse_node_balanced:
  "parse_node names values = Inr n \<Longrightarrow>
   balanced (ar_gpus (node_resources n)) \<and> balanced (ar_cpus (node_resources n)) \<and>
   balanced (ar_memory (node_resources n)) \<and> node_name n \<notin> set names"
  by (auto simp: parse_node_def and_then_eq_Inr new_count_balanced split: if_splits)

lemma parse_nodes_balanced:
  "parse_nodes part names ls = Inr ns \<Longrightarrow>
   distinct (map node_name ns) \<and> set (map node_name ns) \<inter> set names = {} \<and>
   (\<forall>n \<in> set ns. balanced (ar_gpus (node_resources n)) \<and> balanced (ar_cpus (node_resources n)) \<and>
      balanced (ar_memory (node_resources n)))"
proof (induction part names ls arbitrary: ns rule: parse_nodes.induct)
  case (1 part names)
  then show ?case by simp
next
  case (2 part names line rest)
  from "2.prems" obtain vs where v: "node_fields [] (split_whitespace line) = Inr vs"
    by (auto simp: res_simps)
  show ?case
  proof (cases "in_partition part vs")
    case False
    with 2 v show ?thesis by simp
  next
    case True
    with "2.prems" v obtain n ns' where n: "parse_node names vs = Inr n"
      "parse_nodes part (node_name n # names) rest = Inr ns'" "ns = n # ns'"
      by (auto simp: res_simps)
    have "distinct (map node_name ns') \<and> set (map node_name ns') \<inter> set (node_name n # names) = {} \<and>
     (\<forall>n \<in> set ns'. balanced (ar_gpus (node_resources n)) \<and> balanced (ar_cpus (node_resources n)) \<and>
      balanced (ar_memory (node_resources n)))"
      using "2.IH"(2) True n(2) by blast
    with parse_node_balanced [OF n(1)] n(3) show ?thesis by auto
  qed
qed

definition plus_count :: "resource_count \<Rightarrow> resource_count list \<Rightarrow> resource_count" where
  "plus_count c cs =
     \<lparr>total = total c + sum_list (map total cs), allocated = allocated c + sum_list (map allocated cs),
      unallocated = unallocated c + sum_list (map unallocated cs)\<rparr>"

lemma sum_nodes_Inr:
  assumes "sum_nodes r ns = Inr r'" "ns \<noteq> []"
  shows "ar_gpus r' = plus_count (ar_gpus r) (map (ar_gpus \<circ> node_resources) ns) \<and>
    ar_cpus r' = plus_count (ar_cpus r) (map (ar_cpus \<circ> node_resources) ns) \<and>
    ar_memory r' = plus_count (ar_memory r) (map (ar_memory \<circ> node_resources) ns) \<and>
    total (ar_gpus r') < u64_limit \<and> total (ar_cpus r') < u64_limit \<and> total (ar_memory r') < u64_limit"
  using assms
proof (induction r ns rule: sum_nodes.induct)
  case (1 r)
  then show ?case by simp
next
  case (2 r n ns)
  from "2.prems"(1) obtain g c m where gcm: "add_count (ar_gpus r) (ar_gpus (node_resources n)) = Inr g"
    "add_count (ar_cpus r) (ar_cpus (node_resources n)) = Inr c"
    "add_count (ar_memory r) (ar_memory (node_resources n)) = Inr m"
    "sum_nodes \<lparr>ar_gpus = g, ar_cpus = c, ar_memory = m\<rparr> ns = Inr r'"
    by (auto simp: and_then_eq_Inr)
  show ?case
  proof (cases "ns = []")
    case True
    with gcm show ?thesis by (auto simp: add_count_Inr plus_count_def)
  next
    case False
    from "2.IH" [of g c m] gcm False show ?thesis
      by (auto simp: add_count_Inr plus_count_def add.assoc)
  qed
qed

lemma sum_list_balanced:
  "\<forall>c \<in> set cs. balanced c \<Longrightarrow>
   sum_list (map allocated cs) + sum_list (map unallocated cs) = sum_list (map total cs)"
  by (induction cs) (auto simp: balanced_def)

lemma plus_empty_count:
  assumes "whole = plus_count empty_count cs" "total whole < u64_limit" "\<forall>c \<in> set cs. balanced c"
  shows "sums whole cs \<and> balanced whole"
  using assms sum_list_balanced [of cs]
  by (auto simp: sums_def balanced_def plus_count_def empty_count_def)

section \<open>What the listing says\<close>

text \<open>
  The listing read without the parser: a line of \<open>scontrol show nodes --oneliner\<close> is a row of
  \<open>key=value\<close> words, the partitions and the trackable resources are comma-separated lists, and a
  count is a run of decimal digits. \<open>node_reads\<close> is what one such line says of one node.
\<close>

definition listed :: "string \<Rightarrow> string \<Rightarrow> string \<Rightarrow> bool" where
  "listed line key v \<longleftrightarrow> key @ CHR ''='' # v \<in> set (split_whitespace line)"

definition names_partition :: "string \<Rightarrow> string \<Rightarrow> bool" where
  "names_partition part line \<longleftrightarrow>
     list_ex (\<lambda>item. case strip_prefix ''Partitions='' item of
         Some v \<Rightarrow> part \<in> set (split_on CHR '','' v) | None \<Rightarrow> False) (split_whitespace line)"

definition tres_listed :: "string \<Rightarrow> string \<Rightarrow> string \<Rightarrow> bool" where
  "tres_listed v key n \<longleftrightarrow> key @ CHR ''='' # n \<in> set (split_on CHR '','' v)"

definition reads :: "string \<Rightarrow> nat \<Rightarrow> bool" where
  "reads t n \<longleftrightarrow> t \<noteq> [] \<and> all_digits t \<and> digits_value t = n"

definition node_reads :: "string \<Rightarrow> allocation_node \<Rightarrow> bool" where
  "node_reads line n \<longleftrightarrow>
     listed line ''NodeName'' (node_name n) \<and> listed line ''State'' (node_state n) \<and>
     (\<exists>t. listed line ''CPUTot'' t \<and> reads t (total (ar_cpus (node_resources n)))) \<and>
     (\<exists>t. listed line ''CPUAlloc'' t \<and> reads t (allocated (ar_cpus (node_resources n)))) \<and>
     (\<exists>t k. listed line ''RealMemory'' t \<and> reads t k \<and>
        total (ar_memory (node_resources n)) = 1048576 * k) \<and>
     (\<exists>t k. listed line ''AllocMem'' t \<and> reads t k \<and>
        allocated (ar_memory (node_resources n)) = 1048576 * k) \<and>
     (\<exists>c t. listed line ''CfgTRES'' c \<and> tres_listed c ''gres/gpu'' t \<and>
        reads t (total (ar_gpus (node_resources n)))) \<and>
     (\<exists>c. listed line ''AllocTRES'' c \<and>
        ((\<exists>t. tres_listed c ''gres/gpu'' t \<and> reads t (allocated (ar_gpus (node_resources n)))) \<or>
         (\<forall>t. \<not> tres_listed c ''gres/gpu'' t) \<and> allocated (ar_gpus (node_resources n)) = 0))"

lemma same_key_value:
  fixes d :: char
  assumes "d \<notin> set k" "d \<notin> set k'"
  shows "k @ d # v = k' @ d # v' \<longleftrightarrow> k = k' \<and> v = v'"
proof
  assume "k @ d # v = k' @ d # v'"
  then have "split_once d (k' @ d # v') = Some (k, v)" "split_once d (k' @ d # v') = Some (k', v')"
    using assms by auto
  then show "k = k' \<and> v = v'" by (simp del: split_once_eq_Some)
qed simp

lemma no_key_value:
  assumes "split_once d item = None" "d \<notin> set k"
  shows "item \<noteq> k @ d # v"
proof
  assume "item = k @ d # v"
  with assms(2) have "split_once d item = Some (k, v)" by simp
  with assms(1) show False by (simp del: split_once_eq_Some)
qed

lemma node_fields_listed:
  assumes "node_fields seen items = Inr vs" "CHR ''='' \<notin> set k"
  shows "map_of vs k = Some v \<longleftrightarrow> map_of seen k = Some v \<or> k @ CHR ''='' # v \<in> set items"
  using assms(1)
proof (induction seen items rule: node_fields.induct)
  case (1 seen)
  then show ?case by simp
next
  case (2 seen item rest)
  show ?case
  proof (cases "split_once CHR ''='' item")
    case None
    with 2 no_key_value [OF None assms(2), of v] show ?thesis by auto
  next
    case (Some kv)
    obtain a b where kv: "kv = (a, b)" by fastforce
    with Some have item: "item = a @ CHR ''='' # b" "CHR ''='' \<notin> set a" by simp_all
    from "2.prems" Some kv have fresh: "map_of seen a = None"
      and step: "node_fields ((a, b) # seen) rest = Inr vs"
      by (auto simp del: split_once_eq_Some split: if_splits)
    from "2.IH"(2) [OF Some kv [symmetric]] fresh step
    have "map_of vs k = Some v \<longleftrightarrow>
        map_of ((a, b) # seen) k = Some v \<or> k @ CHR ''='' # v \<in> set rest" by simp
    with fresh item same_key_value [OF assms(2) item(2), of v b] show ?thesis by auto
  qed
qed

lemma tres_parts_listed:
  assumes "tres_parts seen items = Inr vs" "CHR ''='' \<notin> set k"
  shows "map_of vs k = Some v \<longleftrightarrow> map_of seen k = Some v \<or> k @ CHR ''='' # v \<in> set items"
  using assms(1)
proof (induction seen items rule: tres_parts.induct)
  case (1 seen)
  then show ?case by simp
next
  case (2 seen item rest)
  show ?case
  proof (cases "item = []")
    case True
    with 2 show ?thesis by auto
  next
    case False
    with "2.prems" obtain a b where kv: "split_once CHR ''='' item = Some (a, b)"
      and fresh: "map_of seen a = None" and step: "tres_parts ((a, b) # seen) rest = Inr vs"
      by (auto simp del: split_once_eq_Some split: option.splits if_splits)
    then have item: "item = a @ CHR ''='' # b" "CHR ''='' \<notin> set a" by simp_all
    from "2.IH"(2) [OF False kv refl] "2.prems" False kv fresh step
    have "map_of vs k = Some v \<longleftrightarrow>
        map_of ((a, b) # seen) k = Some v \<or> k @ CHR ''='' # v \<in> set rest"
      by (auto simp del: split_once_eq_Some split: if_splits)
    with fresh item same_key_value [OF assms(2) item(2), of v b] show ?thesis by auto
  qed
qed

lemma fields_listed:
  assumes "node_fields [] (split_whitespace line) = Inr vs" "CHR ''='' \<notin> set k"
  shows "map_of vs k = Some v \<longleftrightarrow> listed line k v"
  using node_fields_listed [OF assms, of v] by (simp add: listed_def)

lemma tres_fields_listed:
  assumes "tres c = Inr vs" "CHR ''='' \<notin> set k"
  shows "map_of vs k = Some v \<longleftrightarrow> tres_listed c k v"
  using tres_parts_listed [of "[]" "split_on CHR '','' c" vs k v] assms
  by (simp add: tres_def tres_listed_def)

lemma count_reads: "count t = Inr n \<Longrightarrow> reads t n"
  by (cases t)
    (auto simp: count_def reads_def parse_unsigned_def all_digits_def ok_or_eq_Inr Let_def
      is_ascii_digit_def byte_def split: if_splits)

lemma in_partition_names:
  assumes "node_fields [] (split_whitespace line) = Inr vs"
  shows "in_partition part vs \<longleftrightarrow> names_partition part line"
proof -
  have "in_partition part vs \<longleftrightarrow> (\<exists>v. map_of vs ''Partitions'' = Some v \<and> part \<in> set (split_on CHR '','' v))"
    by (auto simp: in_partition_def list_ex_iff split: option.splits)
  also have "\<dots> \<longleftrightarrow> (\<exists>v. listed line ''Partitions'' v \<and> part \<in> set (split_on CHR '','' v))"
    using fields_listed [OF assms, of "''Partitions''"] by simp
  also have "\<dots> \<longleftrightarrow> names_partition part line"
    by (fastforce simp: names_partition_def listed_def list_ex_iff split: option.splits)
  finally show ?thesis .
qed

lemma parse_node_reads:
  assumes "parse_node names vs = Inr n" "node_fields [] (split_whitespace line) = Inr vs"
  shows "node_reads line n"
proof -
  have f: "map_of vs k = Some v \<longleftrightarrow> listed line k v" if "CHR ''='' \<notin> set k" for k v
    using fields_listed [OF assms(2) that] .
  have r: "required vs k = Inr v \<longleftrightarrow> listed line k v" if "CHR ''='' \<notin> set k" for k v
    using f [OF that] by (simp add: required_def ok_or_eq_Inr)
  from assms(1) obtain ct at cfg al ctt cat mt mat mk mak ga gt where n:
    "listed line ''NodeName'' (node_name n)" "listed line ''State'' (node_state n)"
    "listed line ''CfgTRES'' ct" "tres ct = Inr cfg" "listed line ''AllocTRES'' at" "tres at = Inr al"
    "listed line ''CPUTot'' ctt" "count ctt = Inr (total (ar_cpus (node_resources n)))"
    "listed line ''CPUAlloc'' cat" "count cat = Inr (allocated (ar_cpus (node_resources n)))"
    "listed line ''RealMemory'' mt" "count mt = Inr mk"
    "memory_bytes mk = Inr (total (ar_memory (node_resources n)))"
    "listed line ''AllocMem'' mat" "count mat = Inr mak"
    "memory_bytes mak = Inr (allocated (ar_memory (node_resources n)))"
    "map_of cfg ''gres/gpu'' = Some gt" "count gt = Inr (total (ar_gpus (node_resources n)))"
    "count (case map_of al ''gres/gpu'' of Some v \<Rightarrow> v | None \<Rightarrow> ''0'') =
       Inr (allocated (ar_gpus (node_resources n)))"
    by (auto simp: parse_node_def and_then_eq_Inr new_count_def r required_def [of _ "''gres/gpu''"]
        ok_or_eq_Inr split: if_splits)
  have g: "tres_listed ct ''gres/gpu'' gt"
    using tres_fields_listed [OF n(4), of "''gres/gpu''" gt] n(17) by simp
  have a: "(\<exists>t. tres_listed at ''gres/gpu'' t \<and> reads t (allocated (ar_gpus (node_resources n)))) \<or>
      (\<forall>t. \<not> tres_listed at ''gres/gpu'' t) \<and> allocated (ar_gpus (node_resources n)) = 0"
  proof (cases "map_of al ''gres/gpu''")
    case None
    moreover have "allocated (ar_gpus (node_resources n)) = 0"
      using n(19) None count_reads [of "''0''"] by (simp add: reads_def digits_value_def byte_def)
    ultimately show ?thesis using tres_fields_listed [OF n(6), of "''gres/gpu''"] by simp
  next
    case (Some t)
    with n(19) tres_fields_listed [OF n(6), of "''gres/gpu''" t] count_reads [of t] show ?thesis by auto
  qed
  have m: "memory_bytes k = Inr b \<Longrightarrow> b = 1048576 * k" for k b
    by (simp add: memory_bytes_def checked_def split: if_splits)
  show ?thesis
    unfolding node_reads_def using n g a by (blast intro: count_reads m)
qed

lemma parse_nodes_read:
  assumes "parse_nodes part names ls = Inr ns"
  shows "list_all2 node_reads (filter (names_partition part) ls) ns"
  using assms
proof (induction part names ls arbitrary: ns rule: parse_nodes.induct)
  case (1 part names)
  then show ?case by simp
next
  case (2 part names line rest)
  from "2.prems" obtain vs where v: "node_fields [] (split_whitespace line) = Inr vs"
    by (auto simp: res_simps)
  note p = in_partition_names [OF v, of part]
  show ?case
  proof (cases "in_partition part vs")
    case False
    with 2 v p show ?thesis by simp
  next
    case True
    with "2.prems" v obtain n ns' where n: "parse_node names vs = Inr n"
      "parse_nodes part (node_name n # names) rest = Inr ns'" "ns = n # ns'"
      by (auto simp: res_simps)
    from "2.IH"(2) [OF _ n(2)] True v
    have "list_all2 node_reads (filter (names_partition part) rest) ns'" by blast
    with True p n(3) parse_node_reads [OF n(1) v] show ?thesis by simp
  qed
qed

lemma split_once_str_parts: "split_once_str p s = Some (a, b) \<Longrightarrow> s = a @ p @ b"
  by (induction p s arbitrary: a b rule: split_once_str.induct) (auto split: option.splits)

lemma parse_allocation_cases:
  assumes "parse_allocation out part = Inr s"
  obtains nodes_text q where "out = nodes_text @ QUEUE_MARKER @ q"
    "parse_nodes part [] (lines nodes_text) = Inr (snapshot_nodes s)" "snapshot_nodes s \<noteq> []"
    "sum_nodes \<lparr>ar_gpus = empty_count, ar_cpus = empty_count, ar_memory = empty_count\<rparr>
       (snapshot_nodes s) = Inr (snapshot_resources s)"
    "pending_queue_entries s = length (filter (\<lambda>line. trim line \<noteq> []) (lines q))"
proof -
  from assms obtain nodes_text q where q: "split_once_str QUEUE_MARKER out = Some (nodes_text, q)"
    "parse_nodes part [] (lines nodes_text) = Inr (snapshot_nodes s)" "snapshot_nodes s \<noteq> []"
    "sum_nodes \<lparr>ar_gpus = empty_count, ar_cpus = empty_count, ar_memory = empty_count\<rparr>
       (snapshot_nodes s) = Inr (snapshot_resources s)"
    "pending_rows q = Inr (pending_queue_entries s)"
    unfolding parse_allocation_def
    by (auto simp: and_then_eq_Inr split: if_splits option.splits)
  show thesis
    using that [OF split_once_str_parts [OF q(1)] q(2,3,4)] q(5)
    by (simp add: pending_rows_def Let_def split: if_splits)
qed

text \<open>C34. Capacity is exactly what the listing says. An accepted listing is a node part and a queue part;
  the nodes of the snapshot are, in order, what the lines that name the partition read, one node per
  such line and none for any other line, each with its name, state and counts in digits; every node
  is named once, every count is its allocated plus its unallocated part, each of the three cluster
  totals is exactly the sum over those nodes, without 64-bit overflow, and the queue length is the
  number of its rows that are not blank.\<close>

theorem allocation_adds_up:
  assumes "parse_allocation out part = Inr s"
  shows "(\<exists>nodes_text q. out = nodes_text @ QUEUE_MARKER @ q \<and>
      list_all2 node_reads (filter (names_partition part) (lines nodes_text)) (snapshot_nodes s) \<and>
      pending_queue_entries s = length (filter (\<lambda>line. trim line \<noteq> []) (lines q))) \<and>
    distinct (map node_name (snapshot_nodes s)) \<and> snapshot_nodes s \<noteq> [] \<and>
    (\<forall>(whole, pick) \<in> {(ar_gpus (snapshot_resources s), ar_gpus),
        (ar_cpus (snapshot_resources s), ar_cpus), (ar_memory (snapshot_resources s), ar_memory)}.
      sums whole (map (pick \<circ> node_resources) (snapshot_nodes s)) \<and> balanced whole \<and>
      (\<forall>n \<in> set (snapshot_nodes s). balanced (pick (node_resources n))))"
proof -
  from assms obtain nodes_text q where p: "out = nodes_text @ QUEUE_MARKER @ q"
    "parse_nodes part [] (lines nodes_text) = Inr (snapshot_nodes s)" "snapshot_nodes s \<noteq> []"
    "sum_nodes \<lparr>ar_gpus = empty_count, ar_cpus = empty_count, ar_memory = empty_count\<rparr>
       (snapshot_nodes s) = Inr (snapshot_resources s)"
    "pending_queue_entries s = length (filter (\<lambda>line. trim line \<noteq> []) (lines q))"
    by (rule parse_allocation_cases)
  note nodes = parse_nodes_balanced [OF p(2)] and s = sum_nodes_Inr [OF p(4,3)]
  have g: "sums (ar_gpus (snapshot_resources s)) (map (ar_gpus \<circ> node_resources) (snapshot_nodes s)) \<and>
      balanced (ar_gpus (snapshot_resources s))"
    using nodes s by (intro plus_empty_count) auto
  have c: "sums (ar_cpus (snapshot_resources s)) (map (ar_cpus \<circ> node_resources) (snapshot_nodes s)) \<and>
      balanced (ar_cpus (snapshot_resources s))"
    using nodes s by (intro plus_empty_count) auto
  have m: "sums (ar_memory (snapshot_resources s)) (map (ar_memory \<circ> node_resources) (snapshot_nodes s)) \<and>
      balanced (ar_memory (snapshot_resources s))"
    using nodes s by (intro plus_empty_count) auto
  from g c m nodes p(1,3,5) parse_nodes_read [OF p(2)] show ?thesis by auto
qed

definition sample_listing :: string where
  "sample_listing =
     ''NodeName=n1 Partitions=gpu State=IDLE CPUTot=8 CPUAlloc=2 RealMemory=100 AllocMem=50 CfgTRES=cpu=8,gres/gpu=4 AllocTRES=cpu=2,gres/gpu=1'' @ [CHR 0x0A] @
     ''NodeName=n2 Partitions=gpu,cpu State=IDLE CPUTot=4 CPUAlloc=0 RealMemory=10 AllocMem=0 CfgTRES=cpu=4,gres/gpu=2 AllocTRES='' @ [CHR 0x0A] @
     ''NodeName=n3 Partitions=cpu State=IDLE CPUTot=4 CPUAlloc=0 RealMemory=10 AllocMem=0 CfgTRES=cpu=4,gres/gpu=9 AllocTRES='' @
     QUEUE_MARKER @ ''17_[1-3]'' @ [CHR 0x0A] @ ''18'' @ [CHR 0x0A]"

theorem allocation_adds_up_witness:
  "map_option (\<lambda>s. (total (ar_gpus (snapshot_resources s)), unallocated (ar_gpus (snapshot_resources s)),
      length (snapshot_nodes s), pending_queue_entries s))
     (ok (parse_allocation sample_listing ''gpu'')) = Some (6, 5, 2, 2) \<and>
   (\<exists>s. parse_allocation sample_listing ''gpu'' = Inr s \<and> balanced (ar_gpus (snapshot_resources s)))"
proof -
  have v: "map_option (\<lambda>s. (total (ar_gpus (snapshot_resources s)), unallocated (ar_gpus (snapshot_resources s)),
      length (snapshot_nodes s), pending_queue_entries s))
     (ok (parse_allocation sample_listing ''gpu'')) = Some (6, 5, 2, 2)"
    by code_simp
  then obtain s where s: "parse_allocation sample_listing ''gpu'' = Inr s"
    by (auto simp: ok_eq_Some)
  with v allocation_adds_up [OF s] show ?thesis by auto
qed

end
