(* ===== verification/SlurmHelper.thy ===== *)
theory SlurmHelper
  imports SlurmStatus Canonical
begin

text \<open>
  The vocabulary of the Slurm gateway helper (\<open>rust/crates/core/src/slurm/helper.rs\<close>): digests, the
  frozen intent of one submission, the ledger record with the two decisions taken on it, and the
  length-prefixed frames. The intent carries the worker runtime of \<open>slurm/managed.rs\<close> with the
  environment policy of \<open>managed.rs\<close> and the staging requirement of \<open>slurm/staging.rs\<close>.

  SHA-256, the double printer and the string writer are fields of a parameter \<open>H\<close>. The payloads of
  replies about workers, metric pages, checkpoints and artifacts are carried as JSON values; the
  operations that ask for them and their validation are not modelled.
\<close>

datatype helper_error =
    HIdentity | HVersion | HFrame | HMetadata | HTooLarge | HContent

abbreviation PROTOCOL_VERSION :: nat where "PROTOCOL_VERSION \<equiv> 1"
abbreviation MAX_METADATA_BYTES :: nat where "MAX_METADATA_BYTES \<equiv> 8 * 1024 * 1024"

record 'f hashing =
  floats :: "'f float_ops"
  writer :: "string \<Rightarrow> string"
  sha_hex :: "string \<Rightarrow> string"

definition sha256_bytes :: "'f hashing \<Rightarrow> string \<Rightarrow> string" where
  "sha256_bytes H b = ''sha256:'' @ sha_hex H b"

definition valid_digest :: "string \<Rightarrow> bool" where
  "valid_digest v \<longleftrightarrow>
     (case strip_prefix ''sha256:'' v of
        Some h \<Rightarrow> length h = 64 \<and> list_all is_lower_hex h | None \<Rightarrow> False)"

definition value_digest :: "'f hashing \<Rightarrow> json \<Rightarrow> helper_error + string" where
  "value_digest H v = map_err (\<lambda>_. HMetadata) (protocol_identity (floats H) (writer H) (sha_hex H) v)"

section \<open>Environments and the worker runtime\<close>

text \<open>\<open>Path::components\<close> drops empty and \<open>.\<close> names; an absolute path has a file name when something
  is left.\<close>

definition managed_absolute :: "string \<Rightarrow> bool" where
  "managed_absolute p \<longleftrightarrow> starts_with ''/'' p \<and> ''..'' \<notin> set (split_on CHR ''/'' p)"

definition has_file_name :: "string \<Rightarrow> bool" where
  "has_file_name p \<longleftrightarrow> list_ex (\<lambda>c. c \<noteq> [] \<and> c \<noteq> ''.'') (split_on CHR ''/'' p)"

definition managed_environment :: "(string \<times> string) list \<Rightarrow> bool" where
  "managed_environment env \<longleftrightarrow>
     length env \<le> 512 \<and>
     list_all (\<lambda>(name, value). environment_name name \<and> NUL \<notin> set value) env \<and>
     sum_list (map (\<lambda>(k, v). length k + length v + 2) env) \<le> 128 * 1024"

definition runtime_key :: "string \<Rightarrow> bool" where
  "runtime_key name \<longleftrightarrow> name \<in> {''CUDA_VISIBLE_DEVICES'', ''NVIDIA_VISIBLE_DEVICES'',
     ''NVIDIA_DRIVER_CAPABILITIES'', ''LD_LIBRARY_PATH''}"

definition environment_policy :: "(string \<times> string) list \<Rightarrow> string list \<Rightarrow> bool" where
  "environment_policy base runtime \<longleftrightarrow>
     managed_environment base \<and>
     \<not> list_ex (\<lambda>(name, _). starts_with ''ML_EXPD_'' name \<or>
        name \<in> {''OUTPUT_DIR'', ''PROJECT_NAME'', ''RUN_ID'', ''ATTEMPT_ID'', ''DATASETS_JSON'',
          ''RESUME_DIR'', ''RESUME_CHECKPOINT_ID'', ''RESUME_STEP''}) base \<and>
     length runtime \<le> 4 \<and> list_all runtime_key runtime \<and>
     list_all (\<lambda>name. map_of base name = None) runtime \<and> distinct runtime"

record worker_runtime =
  program :: string
  base_environment :: "(string \<times> string) list"
  runtime_environment :: "string list"

definition validate_runtime :: "worker_runtime \<Rightarrow> helper_error + unit" where
  "validate_runtime r =
     (if \<not> managed_absolute (program r) \<or> \<not> has_file_name (program r) \<or>
         \<not> environment_policy (base_environment r) (runtime_environment r)
      then Inl HMetadata else Inr ())"

record requirement =
  runs_root :: string
  worker :: worker_runtime

definition validate_runs_root :: "string \<Rightarrow> helper_error + unit" where
  "validate_runs_root v =
     (if \<not> absolute_path v \<or> v = ''/'' \<or> ends_with ''/'' v \<or> contains_str ''//'' v
      then Inl HMetadata else Inr ())"

definition validate_requirement :: "requirement \<Rightarrow> helper_error + unit" where
  "validate_requirement r =
     and_then (validate_runtime (worker r)) (\<lambda>_. validate_runs_root (runs_root r))"

section \<open>The frozen intent\<close>

record target =
  backend_id :: string
  profile_sha256 :: string
  storage_scope :: string

definition validate_helper_target :: "target \<Rightarrow> helper_error + unit" where
  "validate_helper_target t =
     (if \<not> component (backend_id t) \<or> \<not> valid_digest (profile_sha256 t) \<or>
         \<not> valid_digest (storage_scope t)
      then Inl HIdentity else Inr ())"

record scope =
  project :: string
  run_id :: string
  attempt_id :: string

definition validate_helper_scope :: "scope \<Rightarrow> helper_error + unit" where
  "validate_helper_scope s =
     and_then (map_err (\<lambda>_. HIdentity) (validate_id (project s))) (\<lambda>_.
     and_then (map_err (\<lambda>_. HIdentity) (validate_id (run_id s))) (\<lambda>_.
     and_then (map_err (\<lambda>_. HIdentity) (validate_attempt (attempt_id s))) (\<lambda>_. Inr ())))"

text \<open>What \<open>serde_json::to_value\<close> makes of the records.\<close>

definition scope_value :: "scope \<Rightarrow> json" where
  "scope_value s = JObj [(''project'', JStr (project s)), (''run_id'', JStr (run_id s)),
     (''attempt_id'', JStr (attempt_id s))]"

definition scope_digest :: "'f hashing \<Rightarrow> scope \<Rightarrow> helper_error + string" where
  "scope_digest H s = and_then (validate_helper_scope s) (\<lambda>_. value_digest H (scope_value s))"

record frozen_intent =
  target :: target
  scope :: scope
  staging :: requirement
  submission_token :: string
  scheduler_name :: string
  manifest_sha256 :: string
  script_sha256 :: string

definition validate_intent :: "'f hashing \<Rightarrow> frozen_intent \<Rightarrow> helper_error + unit" where
  "validate_intent H i =
     and_then (validate_helper_target (target i)) (\<lambda>_.
     and_then (validate_helper_scope (scope i)) (\<lambda>_.
     and_then (validate_requirement (staging i)) (\<lambda>_.
     and_then (map_err (\<lambda>_. HIdentity) (submission_marker (submission_token i))) (\<lambda>_.
     and_then (map_err (\<lambda>_. HIdentity)
         (scheduler_job_name (sha_hex H) (run_id (scope i)) (attempt_id (scope i)))) (\<lambda>name.
     if name \<noteq> scheduler_name i \<or> \<not> valid_digest (manifest_sha256 i) \<or>
        \<not> valid_digest (script_sha256 i)
     then Inl HIdentity else Inr ())))))"

definition intent_value :: "frozen_intent \<Rightarrow> json" where
  "intent_value i = JObj
     [(''target'', JObj [(''backend_id'', JStr (backend_id (target i))),
         (''profile_sha256'', JStr (profile_sha256 (target i))),
         (''storage_scope'', JStr (storage_scope (target i)))]),
      (''scope'', scope_value (scope i)),
      (''staging'', JObj [(''runs_root'', JStr (runs_root (staging i))),
         (''worker'', JObj [(''program'', JStr (program (worker (staging i)))),
            (''base_environment'',
              JObj (map (\<lambda>(k, v). (k, JStr v)) (base_environment (worker (staging i))))),
            (''runtime_environment'',
              JArr (map JStr (runtime_environment (worker (staging i)))))])]),
      (''submission_token'', JStr (submission_token i)),
      (''scheduler_name'', JStr (scheduler_name i)),
      (''manifest_sha256'', JStr (manifest_sha256 i)),
      (''script_sha256'', JStr (script_sha256 i))]"

definition intent_digest :: "'f hashing \<Rightarrow> frozen_intent \<Rightarrow> helper_error + string" where
  "intent_digest H i = and_then (validate_intent H i) (\<lambda>_. value_digest H (intent_value i))"

text \<open>The content a preparation carries: its bytes are the pinned ones, and the two identity
  directives stand exactly once, exactly as the intent fixes them, in the head of the script.\<close>

definition directives :: "string \<Rightarrow> string list" where
  "directives script = takeWhile (\<lambda>l. l = [] \<or> starts_with ''#'' l) (lines script)"

definition validate_content :: "'f hashing \<Rightarrow> frozen_intent \<Rightarrow> string \<Rightarrow> string \<Rightarrow> helper_error + unit" where
  "validate_content H i manifest script =
     (if manifest = [] \<or> script = [] \<or> NUL \<in> set manifest \<or> NUL \<in> set script \<or>
         length manifest > MAX_METADATA_BYTES \<or> length script > MAX_METADATA_BYTES \<or>
         sha256_bytes H manifest \<noteq> manifest_sha256 i \<or> sha256_bytes H script \<noteq> script_sha256 i
      then Inl HContent else Inr ())"

definition validate_directives :: "frozen_intent \<Rightarrow> string \<Rightarrow> helper_error + unit" where
  "validate_directives i script =
     and_then (map_err (\<lambda>_. HIdentity) (submission_marker (submission_token i))) (\<lambda>marker.
     if filter (starts_with ''#SBATCH --job-name'') (directives script)
          \<noteq> [''#SBATCH --job-name='' @ scheduler_name i] \<or>
        filter (starts_with ''#SBATCH --comment'') (directives script)
          \<noteq> [''#SBATCH --comment='' @ marker]
     then Inl HContent else Inr ())"

section \<open>Replies and the ledger\<close>

datatype unknown_reason =
    MissingLedger | IncompleteClaim | MalformedLedger | SubmitStarted | UncertainProcessResult
  | StorageUnavailable | LockUnavailable | CancelledRequest | SchedulerNotObserved
  | SchedulerUnavailable | SchedulerEvidenceInvalid

datatype rejection = IdentityConflict | Unprepared | UnsupportedOperation | CapacityFull

datatype reply_outcome =
    RPrepared
  | RSubmitted string
  | RJobObserved status_observation
  | RWorkerObserved json
  | RMetricHistory json
  | RCheckpointObserved json
  | RArtifacts json
  | RCancelPending string
  | RUnknown unknown_reason
  | RRejected rejection

datatype ledger_phase = PhasePrepared | PhaseSubmitStarted | PhaseSubmitted string

record ledger_record =
  version :: nat
  intent :: frozen_intent
  phase :: ledger_phase

definition prepared_record :: "'f hashing \<Rightarrow> frozen_intent \<Rightarrow> helper_error + ledger_record" where
  "prepared_record H i =
     and_then (validate_intent H i) (\<lambda>_.
       Inr \<lparr>version = PROTOCOL_VERSION, intent = i, phase = PhasePrepared\<rparr>)"

text \<open>A job id without an array index.\<close>

definition require_job :: "string \<Rightarrow> helper_error + unit" where
  "require_job j =
     and_then (map_err (\<lambda>_. HIdentity) (parse_job_id j)) (\<lambda>v.
     if CHR ''_'' \<in> set v then Inl HIdentity else Inr ())"

definition validate_record :: "'f hashing \<Rightarrow> ledger_record \<Rightarrow> helper_error + unit" where
  "validate_record H r =
     (if version r \<noteq> PROTOCOL_VERSION then Inl HVersion
      else and_then (validate_intent H (intent r)) (\<lambda>_.
           case phase r of PhaseSubmitted j \<Rightarrow> require_job j | _ \<Rightarrow> Inr ()))"

datatype submit_decision = StartOnce | ReturnExisting string | ReconcileRequired

definition ledger_outcome ::
    "'f hashing \<Rightarrow> ledger_record \<Rightarrow> bool \<Rightarrow> string option \<Rightarrow> helper_error + reply_outcome" where
  "ledger_outcome H r start_exists receipt_job =
     and_then (validate_record H r) (\<lambda>_.
     case receipt_job of
       Some jid \<Rightarrow>
         and_then (map_err (\<lambda>_. HIdentity) (parse_job_id jid)) (\<lambda>v.
         if CHR ''_'' \<in> set v \<or> \<not> start_exists \<or> phase r = PhasePrepared \<or>
            (case phase r of PhaseSubmitted expected \<Rightarrow> expected \<noteq> jid | _ \<Rightarrow> False)
         then Inl HContent else Inr (RSubmitted jid))
     | None \<Rightarrow>
         Inr (case phase r of
                PhasePrepared \<Rightarrow> if \<not> start_exists then RPrepared else RUnknown SubmitStarted
              | PhaseSubmitted _ \<Rightarrow> RUnknown MalformedLedger
              | PhaseSubmitStarted \<Rightarrow> RUnknown SubmitStarted))"

definition submission_gate ::
    "'f hashing \<Rightarrow> frozen_intent \<Rightarrow> ledger_record \<Rightarrow> bool \<Rightarrow> helper_error + submit_decision" where
  "submission_gate H expected r start_exists =
     and_then (validate_intent H expected) (\<lambda>_.
     and_then (validate_record H r) (\<lambda>_.
     if intent r \<noteq> expected then Inl HIdentity
     else Inr (case phase r of
            PhasePrepared \<Rightarrow> if \<not> start_exists then StartOnce else ReconcileRequired
          | PhaseSubmitted jid \<Rightarrow> if start_exists then ReturnExisting jid else ReconcileRequired
          | PhaseSubmitStarted \<Rightarrow> ReconcileRequired)))"

lemma gate_StartOnce:
  "submission_gate H i r b = Inr StartOnce \<Longrightarrow> phase r = PhasePrepared \<and> \<not> b \<and> intent r = i"
  by (auto simp: submission_gate_def res_simps split: if_splits ledger_phase.splits)

section \<open>Requests and replies of the submission protocol\<close>

text \<open>The requests that need no evidence of another module: preparing, submitting, inspecting, and
  observing or cancelling a job.\<close>

datatype operation =
    PrepareSubmission string string
  | Submit
  | InspectSubmission
  | ObserveJob string
  | CancelJob string

datatype operation_tag = TagPrepare | TagSubmit | TagInspect | TagObserveJob | TagCancelJob

fun operation_tag_of :: "operation \<Rightarrow> operation_tag" where
  "operation_tag_of (PrepareSubmission m s) = TagPrepare"
| "operation_tag_of Submit = TagSubmit"
| "operation_tag_of InspectSubmission = TagInspect"
| "operation_tag_of (ObserveJob j) = TagObserveJob"
| "operation_tag_of (CancelJob j) = TagCancelJob"

fun requested_job_id :: "operation \<Rightarrow> string option" where
  "requested_job_id (ObserveJob j) = Some j"
| "requested_job_id (CancelJob j) = Some j"
| "requested_job_id _ = None"

fun operation_value :: "operation \<Rightarrow> json" where
  "operation_value (PrepareSubmission m s) =
     JObj [(''type'', JStr ''prepare_submission''), (''manifest'', JStr m), (''script'', JStr s)]"
| "operation_value Submit = JObj [(''type'', JStr ''submit'')]"
| "operation_value InspectSubmission = JObj [(''type'', JStr ''inspect_submission'')]"
| "operation_value (ObserveJob j) = JObj [(''type'', JStr ''observe_job''), (''job_id'', JStr j)]"
| "operation_value (CancelJob j) = JObj [(''type'', JStr ''cancel_job''), (''job_id'', JStr j)]"

definition request_value :: "frozen_intent \<Rightarrow> operation \<Rightarrow> json" where
  "request_value i op = JObj [(''version'', jnat PROTOCOL_VERSION), (''intent'', intent_value i),
     (''operation'', operation_value op)]"

text \<open>\<open>admitted\<close> is the verdict of the staging admission (\<open>slurm/staging.rs\<close>) on the manifest.\<close>

definition validate_request ::
    "'f hashing \<Rightarrow> (frozen_intent \<Rightarrow> string \<Rightarrow> helper_error + unit) \<Rightarrow> frozen_intent \<Rightarrow> operation
     \<Rightarrow> helper_error + unit" where
  "validate_request H admitted i op =
     and_then (validate_intent H i) (\<lambda>_.
     and_then (case requested_job_id op of Some j \<Rightarrow> require_job j | None \<Rightarrow> Inr ()) (\<lambda>_.
     and_then (case op of
         PrepareSubmission manifest script \<Rightarrow>
           and_then (validate_content H i manifest script) (\<lambda>_.
           and_then (admitted i manifest) (\<lambda>_. validate_directives i script))
       | _ \<Rightarrow> Inr ()) (\<lambda>_.
     if length (json_text (writer H) (request_value i op)) > MAX_METADATA_BYTES
     then Inl HTooLarge else Inr ())))"

record reply =
  reply_request :: string
  reply_intent :: string
  reply_operation :: operation_tag
  outcome :: reply_outcome

text \<open>The outcomes a helper gives without other evidence, as serde writes them.\<close>

fun outcome_value :: "reply_outcome \<Rightarrow> json option" where
  "outcome_value RPrepared = Some (JObj [(''state'', JStr ''PREPARED'')])"
| "outcome_value (RSubmitted j) = Some (JObj [(''state'', JStr ''SUBMITTED''), (''job_id'', JStr j)])"
| "outcome_value (RCancelPending j) = Some (JObj [(''state'', JStr ''CANCEL_PENDING''), (''job_id'', JStr j)])"
| "outcome_value (RUnknown r) = Some (JObj [(''state'', JStr ''UNKNOWN''), (''reason'', JStr (case r of
      MissingLedger \<Rightarrow> ''MISSING_LEDGER'' | IncompleteClaim \<Rightarrow> ''INCOMPLETE_CLAIM''
    | MalformedLedger \<Rightarrow> ''MALFORMED_LEDGER'' | SubmitStarted \<Rightarrow> ''SUBMIT_STARTED''
    | UncertainProcessResult \<Rightarrow> ''UNCERTAIN_PROCESS_RESULT'' | StorageUnavailable \<Rightarrow> ''STORAGE_UNAVAILABLE''
    | LockUnavailable \<Rightarrow> ''LOCK_UNAVAILABLE'' | CancelledRequest \<Rightarrow> ''CANCELLED''
    | SchedulerNotObserved \<Rightarrow> ''SCHEDULER_NOT_OBSERVED'' | SchedulerUnavailable \<Rightarrow> ''SCHEDULER_UNAVAILABLE''
    | SchedulerEvidenceInvalid \<Rightarrow> ''SCHEDULER_EVIDENCE_INVALID''))])"
| "outcome_value (RRejected c) = Some (JObj [(''state'', JStr ''REJECTED''), (''code'', JStr (case c of
      IdentityConflict \<Rightarrow> ''IDENTITY_CONFLICT'' | Unprepared \<Rightarrow> ''UNPREPARED''
    | UnsupportedOperation \<Rightarrow> ''UNSUPPORTED_OPERATION'' | CapacityFull \<Rightarrow> ''CAPACITY_FULL''))])"
| "outcome_value _ = None"

definition validate_outcome :: "operation_tag \<Rightarrow> reply_outcome \<Rightarrow> helper_error + unit" where
  "validate_outcome tag out =
     and_then (case out of
         RSubmitted j \<Rightarrow> require_job j
       | RCancelPending j \<Rightarrow>
           and_then (map_err (\<lambda>_. HIdentity) (parse_job_id j)) (\<lambda>v.
           if CHR ''_'' \<in> set v \<or> tag \<noteq> TagCancelJob then Inl HMetadata else Inr ())
       | _ \<Rightarrow> Inr ()) (\<lambda>_.
     if (out = RPrepared \<or> (case out of RSubmitted _ \<Rightarrow> True | _ \<Rightarrow> False)) \<and>
        tag \<in> {TagObserveJob, TagCancelJob} then Inl HMetadata
     else if tag = TagSubmit \<and> out = RPrepared then Inl HMetadata
     else Inr ())"

text \<open>Binding a reply to its request: the digests of both, and no echo of the submission token.
  Outcomes with a payload of another module are refused here.\<close>

definition reply_for ::
    "'f hashing \<Rightarrow> (frozen_intent \<Rightarrow> string \<Rightarrow> helper_error + unit) \<Rightarrow> frozen_intent \<Rightarrow> operation
     \<Rightarrow> reply_outcome \<Rightarrow> helper_error + reply" where
  "reply_for H admitted i op out =
     and_then (validate_request H admitted i op) (\<lambda>_.
     and_then (value_digest H (request_value i op)) (\<lambda>rd.
     and_then (intent_digest H i) (\<lambda>d.
     if \<not> valid_digest rd \<or> \<not> valid_digest d then Inl HIdentity
     else
     and_then (validate_outcome (operation_tag_of op) out) (\<lambda>_.
     if (case out of RCancelPending j \<Rightarrow> requested_job_id op \<noteq> Some j | _ \<Rightarrow> False) then Inl HIdentity
     else
     and_then (ok_or (outcome_value out) HMetadata) (\<lambda>v.
     if contains_str (submission_token i) (json_text (writer H) v) then Inl HMetadata
     else Inr \<lparr>reply_request = rd, reply_intent = d, reply_operation = operation_tag_of op,
                outcome = out\<rparr>)))))"

section \<open>Frames\<close>

definition be_bytes :: "nat \<Rightarrow> string" where
  "be_bytes n = map (\<lambda>i. char_of (n div 256 ^ i mod 256)) [3, 2, 1, 0]"

definition be_value :: "string \<Rightarrow> nat" where
  "be_value h = foldl (\<lambda>n c. n * 256 + of_char c) 0 h"

definition encode_frame :: "string \<Rightarrow> helper_error + string" where
  "encode_frame body =
     (if body = [] \<or> length body > MAX_METADATA_BYTES then Inl HTooLarge
      else Inr (be_bytes (length body) @ body))"

definition frame_body :: "string \<Rightarrow> helper_error + string" where
  "frame_body frame =
     (if length frame < 4 then Inl HFrame
      else let n = be_value (take 4 frame) in
        if n = 0 \<or> n > MAX_METADATA_BYTES then Inl HTooLarge
        else if length frame \<noteq> n + 4 then Inl HFrame
        else Inr (drop 4 frame))"

lemma length_be_bytes [simp]: "length (be_bytes n) = 4"
  by (simp add: be_bytes_def)

lemma be_value_four:
  "be_value [a, b, c, d] = ((of_char a * 256 + of_char b) * 256 + of_char c) * 256 + of_char d"
  by (simp add: be_value_def)

lemma be_bytes_four:
  "be_bytes n = [char_of (n div 256 div 256 div 256 mod 256), char_of (n div 256 div 256 mod 256),
     char_of (n div 256 mod 256), char_of (n mod 256)]"
proof -
  have "n div 65536 = n div 256 div 256" "n div 16777216 = n div 256 div 256 div 256"
    by (simp_all flip: div_mult2_eq)
  then show ?thesis by (simp add: be_bytes_def)
qed

lemma be_value_bytes:
  assumes "n < 4294967296"
  shows "be_value (be_bytes n) = n"
proof -
  have "n div 256 div 256 div 256 < 256"
    using assms by (simp flip: div_mult2_eq add: div_less_iff_less_mult)
  then have top: "n div 256 div 256 div 256 mod 256 = n div 256 div 256 div 256" by (rule mod_less)
  note parts = div_mult_mod_eq [of n 256] div_mult_mod_eq [of "n div 256" 256]
    div_mult_mod_eq [of "n div 256 div 256" 256]
  have "be_value (be_bytes n) = ((n div 256 div 256 div 256 * 256 + n div 256 div 256 mod 256) * 256
      + n div 256 mod 256) * 256 + n mod 256"
    by (simp only: be_bytes_four be_value_four of_char_of mod_mod_trivial top)
  then show ?thesis by (simp only: parts)
qed

lemma be_bytes_value:
  assumes "length h = 4"
  shows "be_bytes (be_value h) = h"
proof -
  from assms obtain a b c d where h: "h = [a, b, c, d]"
    by (auto simp: length_Suc_conv numeral_eq_Suc)
  have lt: "of_char x < (256 :: nat)" for x :: char
    using mod_less_divisor [of 256 "of_char x :: nat"] by (simp add: of_char_mod_256)
  have step: "(m * 256 + of_char x) div 256 = m" "(m * 256 + of_char x) mod 256 = of_char x"
    for m :: nat and x
    using lt [of x] by simp_all
  have "be_value [a, b, c, d] div 256 div 256 div 256 mod 256 = of_char a"
    by (simp only: be_value_four step mod_less lt)
  moreover have "be_value [a, b, c, d] div 256 div 256 mod 256 = of_char b"
    by (simp only: be_value_four step)
  moreover have "be_value [a, b, c, d] div 256 mod 256 = of_char c"
    by (simp only: be_value_four step)
  moreover have "be_value [a, b, c, d] mod 256 = of_char d"
    by (simp only: be_value_four step)
  ultimately show ?thesis unfolding h be_bytes_four by (simp only: char_of_char)
qed

text \<open>C28. Frames are read back exactly. A frame is accepted with a body if and only if it is the
  encoding of that body, so truncated, extended, empty and oversized frames are all refused and no two
  bodies share a frame.\<close>

theorem frames_are_exact: "frame_body frame = Inr body \<longleftrightarrow> encode_frame body = Inr frame"
proof
  assume b: "frame_body frame = Inr body"
  then have f: "4 \<le> length frame" "body = drop 4 frame" "length frame = be_value (take 4 frame) + 4"
    "be_value (take 4 frame) \<noteq> 0" "be_value (take 4 frame) \<le> MAX_METADATA_BYTES"
    by (auto simp: frame_body_def Let_def not_less split: if_splits)
  have "be_bytes (length body) @ body = take 4 frame @ drop 4 frame"
    using f be_bytes_value [of "take 4 frame"] by simp
  with f show "encode_frame body = Inr frame" by (simp add: encode_frame_def)
next
  assume "encode_frame body = Inr frame"
  then have f: "frame = be_bytes (length body) @ body" "body \<noteq> []" "length body \<le> MAX_METADATA_BYTES"
    by (auto simp: encode_frame_def split: if_splits)
  then have "be_value (be_bytes (length body)) = length body" by (intro be_value_bytes) simp
  with f show "frame_body frame = Inr body" by (simp add: frame_body_def)
qed

end
