(* ===== verification/SlurmLedger.thy ===== *)
theory SlurmLedger
  imports SlurmHelper "HOL-Library.AList"
begin

text \<open>
  The gateway helper's durable ledger and its one scheduler effect
  (\<open>rust/crates/worker/src/slurm/ledger.rs\<close>). The private root holds a marker, a registry of issued
  claims, and one directory per Attempt with the frozen intent, the manifest, the script, the ledger
  head, the mark that a submission started and the receipt of \<open>sbatch\<close>.

  Files are typed: absent, malformed, or holding a value. A handler is a program over a \<open>world\<close> that
  also holds what the environment decides: for every durable write whether it happens, fails without
  effect, or takes effect although an error is reported (which is also what a crash right after it
  looks like, because every error ends the handler at once); what a check of shared storage or of a
  cancellation flag says; and what an execution of \<open>sbatch\<close> returns. The lock is held for a whole
  submission, so submissions of one gateway do not overlap; a preparation releases it in the middle
  and is therefore two steps.
\<close>

datatype ledger_error =
    LConfiguration
  | Storage
  | Protocol helper_error
  | LMetadata
  | Bootstrap

section \<open>The files\<close>

datatype 'a slot = Absent | Malformed | Holds 'a

record started =
  started_version :: nat
  started_intent :: string

record receipt =
  receipt_version :: nat
  receipt_intent :: string
  receipt_job :: string

record claim_dir =
  state_file :: "ledger_record slot"
  intent_file :: "frozen_intent slot"
  manifest_file :: "string slot"
  script_file :: "string slot"
  start_file :: "started slot"
  receipt_file :: "receipt slot"

record root_marker =
  marker_version :: nat
  marker_target :: target
  marker_storage :: "string option"

record registry =
  registry_version :: nat
  registry_claims :: "(string \<times> string) list"

record gateway =
  marker_file :: "root_marker slot"
  registry_file :: "registry slot"
  claim_dirs :: "(scope \<times> claim_dir) list"

abbreviation claim_of :: "gateway \<Rightarrow> scope \<rightharpoonup> claim_dir" where
  "claim_of g \<equiv> map_of (claim_dirs g)"

record helper_config =
  config_target :: target
  config_shared_root :: "string option"
  config_storage :: "string option"
  config_sbatch :: string

record process_result =
  exit_code :: "int option"
  timed_out :: bool
  was_cancelled :: bool
  process_failure :: bool
  stdin_complete :: bool
  stdout_complete :: bool
  stdout_truncated :: bool
  stdout_text :: "string option"

text \<open>One execution of \<open>sbatch\<close>: its arguments, its standard input and what came back, if anything.\<close>

record sbatch_run =
  run_scope :: scope
  run_argv :: "string list"
  run_input :: string
  run_result :: "process_result option"

datatype fault = Done | Lost | Uncertain

record world =
  gateway :: gateway
  faults :: "fault list"
  verdicts :: "bool list"
  results :: "process_result list"
  runs :: "sbatch_run list"

type_synonym 'a helper_io = "world \<Rightarrow> (ledger_error + 'a) \<times> world"

definition h_return :: "'a \<Rightarrow> 'a helper_io" where
  "h_return x w = (Inr x, w)"

definition h_lift :: "ledger_error + 'a \<Rightarrow> 'a helper_io" where
  "h_lift r w = (r, w)"

definition h_bind :: "'a helper_io \<Rightarrow> ('a \<Rightarrow> 'b helper_io) \<Rightarrow> 'b helper_io" where
  "h_bind m f w = (case m w of (Inl e, w') \<Rightarrow> (Inl e, w') | (Inr x, w') \<Rightarrow> f x w')"

definition h_read :: "(gateway \<Rightarrow> ledger_error + 'a) \<Rightarrow> 'a helper_io" where
  "h_read f w = (f (gateway w), w)"

definition next_fault :: "world \<Rightarrow> fault \<times> world" where
  "next_fault w = (case faults w of [] \<Rightarrow> (Done, w) | f # fs \<Rightarrow> (f, w\<lparr>faults := fs\<rparr>))"

definition h_write :: "(gateway \<Rightarrow> gateway option) \<Rightarrow> unit helper_io" where
  "h_write f w =
     (case f (gateway w) of
        None \<Rightarrow> (Inl Storage, w)
      | Some g \<Rightarrow>
          (case next_fault w of
             (Done, w') \<Rightarrow> (Inr (), w'\<lparr>gateway := g\<rparr>)
           | (Lost, w') \<Rightarrow> (Inl Storage, w')
           | (Uncertain, w') \<Rightarrow> (Inl Storage, w'\<lparr>gateway := g\<rparr>)))"

text \<open>What the environment answers next; a missing answer is \<open>no\<close>.\<close>

definition h_verdict :: "bool helper_io" where
  "h_verdict w = (case verdicts w of [] \<Rightarrow> (Inr False, w) | b # bs \<Rightarrow> (Inr b, w\<lparr>verdicts := bs\<rparr>))"

definition h_execute :: "scope \<Rightarrow> string list \<Rightarrow> string \<Rightarrow> process_result helper_io" where
  "h_execute s args input w =
     (let run = (\<lambda>r. \<lparr>run_scope = s, run_argv = args, run_input = input, run_result = r\<rparr>) in
      case next_fault w of
        (Lost, w') \<Rightarrow> (Inl Storage, w')
      | (Uncertain, w') \<Rightarrow> (Inl Storage, w'\<lparr>runs := runs w' @ [run None]\<rparr>)
      | (Done, w') \<Rightarrow>
          (case results w' of
             [] \<Rightarrow> (Inl Storage, w'\<lparr>runs := runs w' @ [run None]\<rparr>)
           | r # rs \<Rightarrow> (Inr r, w'\<lparr>results := rs, runs := runs w' @ [run (Some r)]\<rparr>)))"

section \<open>Reading the ledger\<close>

definition read_file :: "'a slot \<Rightarrow> ledger_error + 'a" where
  "read_file f = (case f of Absent \<Rightarrow> Inl Storage | Malformed \<Rightarrow> Inl LMetadata | Holds v \<Rightarrow> Inr v)"

definition registry_of :: "gateway \<Rightarrow> ledger_error + registry" where
  "registry_of g =
     and_then (read_file (registry_file g)) (\<lambda>r.
     if registry_version r \<noteq> PROTOCOL_VERSION \<or>
        list_ex (\<lambda>(s, i). \<not> valid_digest s \<or> \<not> valid_digest i) (registry_claims r)
     then Inl Bootstrap else Inr r)"

definition verify_root :: "helper_config \<Rightarrow> gateway \<Rightarrow> ledger_error + unit" where
  "verify_root cfg g =
     and_then (read_file (marker_file g)) (\<lambda>m.
     if marker_version m \<noteq> PROTOCOL_VERSION \<or> marker_target m \<noteq> config_target cfg \<or>
        marker_storage m \<noteq> config_storage cfg
     then Inl Bootstrap else and_then (registry_of g) (\<lambda>_. Inr ()))"

definition verify_issued ::
    "'f hashing \<Rightarrow> helper_config \<Rightarrow> frozen_intent \<Rightarrow> gateway \<Rightarrow> ledger_error + unit" where
  "verify_issued H cfg i g =
     and_then (verify_root cfg g) (\<lambda>_.
     and_then (registry_of g) (\<lambda>r.
     and_then (map_err Protocol (scope_digest H (scope i))) (\<lambda>sd.
     and_then (map_err Protocol (intent_digest H i)) (\<lambda>d.
     if map_of (registry_claims r) sd \<noteq> Some d then Inl Bootstrap else Inr ()))))"

record snapshot =
  snap_record :: ledger_record
  snap_started :: bool
  snap_receipt :: "receipt option"

datatype ledger_read =
    LedgerMissing
  | LedgerUnknown unknown_reason
  | LedgerConflict
  | LedgerFound snapshot

definition valid_receipt :: "string \<Rightarrow> receipt \<Rightarrow> bool" where
  "valid_receipt d r \<longleftrightarrow> receipt_version r = PROTOCOL_VERSION \<and> receipt_intent r = d \<and>
     parse_submit_response (receipt_job r) = Inr (receipt_job r)"

text \<open>The tail of \<open>read_ledger\<close>, once head, intent, manifest and script agree.\<close>

definition read_progress :: "bool \<Rightarrow> string \<Rightarrow> claim_dir \<Rightarrow> ledger_record \<Rightarrow> ledger_read" where
  "read_progress shared d dir rec =
     (let start_exists = (start_file dir \<noteq> Absent) in
      if \<not> start_exists \<and> \<not> shared then LedgerUnknown StorageUnavailable
      else if start_exists \<and> (case start_file dir of
            Holds st \<Rightarrow> started_version st \<noteq> PROTOCOL_VERSION \<or> started_intent st \<noteq> d | _ \<Rightarrow> True)
      then LedgerUnknown MalformedLedger
      else if receipt_file dir \<noteq> Absent \<and> (case receipt_file dir of
            Holds r \<Rightarrow> \<not> valid_receipt d r \<or> \<not> start_exists \<or> phase rec = PhasePrepared | _ \<Rightarrow> True)
      then LedgerUnknown MalformedLedger
      else
        let receipt = (case receipt_file dir of Holds r \<Rightarrow> Some r | _ \<Rightarrow> None) in
        if (case phase rec of
              PhaseSubmitted j \<Rightarrow> (case receipt of Some r \<Rightarrow> receipt_job r \<noteq> j | None \<Rightarrow> True)
            | _ \<Rightarrow> False)
        then LedgerUnknown MalformedLedger
        else LedgerFound \<lparr>snap_record = rec, snap_started = start_exists, snap_receipt = receipt\<rparr>)"

definition read_claim ::
    "'f hashing \<Rightarrow> bool \<Rightarrow> frozen_intent \<Rightarrow> string \<Rightarrow> claim_dir \<Rightarrow> ledger_error + ledger_read" where
  "read_claim H shared i d dir =
     (if state_file dir = Absent
      then Inr (LedgerUnknown (if intent_file dir \<noteq> Absent then MalformedLedger else IncompleteClaim))
      else case (state_file dir, intent_file dir) of
        (Holds rec, Holds stored) \<Rightarrow>
          if \<not> is_ok (validate_record H rec) \<or> \<not> is_ok (validate_intent H stored) \<or> intent rec \<noteq> stored
          then Inr (LedgerUnknown MalformedLedger)
          else if intent rec \<noteq> i then Inr LedgerConflict
          else
            and_then (read_file (manifest_file dir)) (\<lambda>manifest.
            and_then (read_file (script_file dir)) (\<lambda>script.
            if sha256_bytes H manifest \<noteq> manifest_sha256 i \<or> sha256_bytes H script \<noteq> script_sha256 i
            then Inr (LedgerUnknown MalformedLedger)
            else Inr (read_progress shared d dir rec)))
      | _ \<Rightarrow> Inr (LedgerUnknown MalformedLedger))"

definition read_registered ::
    "'f hashing \<Rightarrow> frozen_intent \<Rightarrow> bool \<Rightarrow> gateway \<Rightarrow> string option \<Rightarrow> string \<Rightarrow> ledger_error + ledger_read" where
  "read_registered H i shared g registered d =
     (if (case registered of Some e \<Rightarrow> e \<noteq> d | None \<Rightarrow> False) then Inr LedgerConflict
      else case claim_of g (scope i) of
        None \<Rightarrow> Inr (if registered \<noteq> None then LedgerUnknown MissingLedger else LedgerMissing)
      | Some dir \<Rightarrow>
          if registered = None then Inr (LedgerUnknown IncompleteClaim)
          else read_claim H shared i d dir)"

definition read_ledger ::
    "'f hashing \<Rightarrow> frozen_intent \<Rightarrow> bool \<Rightarrow> gateway \<Rightarrow> ledger_error + ledger_read" where
  "read_ledger H i shared g =
     and_then (registry_of g) (\<lambda>reg.
     and_then (map_err Protocol (scope_digest H (scope i))) (\<lambda>sd.
     and_then (map_err Protocol (intent_digest H i)) (\<lambda>d.
       read_registered H i shared g (map_of (registry_claims reg) sd) d)))"

definition observed :: "'f hashing \<Rightarrow> ledger_read \<Rightarrow> reply_outcome" where
  "observed H l =
     (case l of
        LedgerMissing \<Rightarrow> RUnknown MissingLedger
      | LedgerUnknown r \<Rightarrow> RUnknown r
      | LedgerConflict \<Rightarrow> RRejected IdentityConflict
      | LedgerFound s \<Rightarrow>
          (case ledger_outcome H (snap_record s) (snap_started s) (map_option receipt_job (snap_receipt s)) of
             Inr out \<Rightarrow> out | Inl _ \<Rightarrow> RUnknown MalformedLedger))"

section \<open>Submitting\<close>

definition write_claim :: "scope \<Rightarrow> (claim_dir \<Rightarrow> claim_dir option) \<Rightarrow> unit helper_io" where
  "write_claim s f =
     h_write (\<lambda>g. Option.bind (claim_of g s) (\<lambda>dir.
       map_option (\<lambda>dir'. g\<lparr>claim_dirs := AList.update s dir' (claim_dirs g)\<rparr>) (f dir)))"

text \<open>\<open>publish_new\<close> refuses an existing name; \<open>replace_regular\<close> does not need one.\<close>

definition publish_start :: "scope \<Rightarrow> started \<Rightarrow> unit helper_io" where
  "publish_start s v = write_claim s (\<lambda>dir.
     if start_file dir = Absent then Some (dir\<lparr>start_file := Holds v\<rparr>) else None)"

definition publish_receipt :: "scope \<Rightarrow> receipt \<Rightarrow> unit helper_io" where
  "publish_receipt s v = write_claim s (\<lambda>dir.
     if receipt_file dir = Absent then Some (dir\<lparr>receipt_file := Holds v\<rparr>) else None)"

definition publish_state :: "scope \<Rightarrow> ledger_record \<Rightarrow> unit helper_io" where
  "publish_state s v = write_claim s (\<lambda>dir.
     if state_file dir = Absent then Some (dir\<lparr>state_file := Holds v\<rparr>) else None)"

definition replace_state :: "scope \<Rightarrow> ledger_record \<Rightarrow> unit helper_io" where
  "replace_state s v = write_claim s (\<lambda>dir. Some (dir\<lparr>state_file := Holds v\<rparr>))"

definition read_slot :: "scope \<Rightarrow> (claim_dir \<Rightarrow> 'a slot) \<Rightarrow> gateway \<Rightarrow> ledger_error + 'a" where
  "read_slot s f g = (case claim_of g s of None \<Rightarrow> Inl Storage | Some dir \<Rightarrow> read_file (f dir))"

definition sbatch_arguments :: "helper_config \<Rightarrow> frozen_intent \<Rightarrow> ledger_error + string list" where
  "sbatch_arguments cfg i =
     and_then (map_err (\<lambda>_. LConfiguration) (submission_marker (submission_token i))) (\<lambda>marker.
       Inr [config_sbatch cfg, ''--parsable'', ''--job-name='' @ scheduler_name i,
            ''--comment='' @ marker])"

definition certain :: "process_result \<Rightarrow> bool" where
  "certain r \<longleftrightarrow> exit_code r = Some 0 \<and> \<not> timed_out r \<and> \<not> was_cancelled r \<and> \<not> process_failure r \<and>
     stdin_complete r \<and> stdout_complete r \<and> \<not> stdout_truncated r"

definition reported_job :: "process_result \<Rightarrow> string option" where
  "reported_job r =
     (if certain r then Option.bind (stdout_text r) (\<lambda>t. ok (parse_submit_response t)) else None)"

text \<open>What follows a durable start: the head, the one execution, the receipt, the head again.\<close>

definition dispatch ::
    "'f hashing \<Rightarrow> helper_config \<Rightarrow> frozen_intent \<Rightarrow> string \<Rightarrow> ledger_record \<Rightarrow> string
     \<Rightarrow> reply_outcome helper_io" where
  "dispatch H cfg i d rec script =
     h_bind (replace_state (scope i) (rec\<lparr>phase := PhaseSubmitStarted\<rparr>)) (\<lambda>_.
     h_bind (h_read (verify_issued H cfg i)) (\<lambda>_.
     h_bind (h_lift (sbatch_arguments cfg i)) (\<lambda>args.
     h_bind (h_execute (scope i) args script) (\<lambda>local.
     h_bind (h_read (verify_issued H cfg i)) (\<lambda>_.
     case reported_job local of
       None \<Rightarrow> h_return (RUnknown UncertainProcessResult)
     | Some jid \<Rightarrow>
         h_bind (publish_receipt (scope i)
           \<lparr>receipt_version = PROTOCOL_VERSION, receipt_intent = d, receipt_job = jid\<rparr>) (\<lambda>_.
         h_bind (replace_state (scope i) (rec\<lparr>phase := PhaseSubmitted jid\<rparr>)) (\<lambda>_.
           h_return (RSubmitted jid))))))))"

definition start_submission ::
    "'f hashing \<Rightarrow> helper_config \<Rightarrow> frozen_intent \<Rightarrow> ledger_record \<Rightarrow> reply_outcome helper_io" where
  "start_submission H cfg i rec =
     h_bind (h_read (read_slot (scope i) script_file)) (\<lambda>script.
     if sha256_bytes H script \<noteq> script_sha256 i then h_return (RUnknown MalformedLedger)
     else
     h_bind h_verdict (\<lambda>shared.
     if \<not> shared then h_return (RUnknown StorageUnavailable)
     else
     h_bind (h_lift (map_err Protocol (intent_digest H i))) (\<lambda>d.
     h_bind (publish_start (scope i)
       \<lparr>started_version = PROTOCOL_VERSION, started_intent = d\<rparr>) (\<lambda>_.
     dispatch H cfg i d rec script))))"

definition submit ::
    "'f hashing \<Rightarrow> helper_config \<Rightarrow> frozen_intent \<Rightarrow> snapshot \<Rightarrow> reply_outcome helper_io" where
  "submit H cfg i snap =
     (case snap_receipt snap of
        Some r \<Rightarrow> h_lift (map_err Protocol
          (ledger_outcome H (snap_record snap) (snap_started snap) (Some (receipt_job r))))
      | None \<Rightarrow>
          h_bind (h_lift (map_err Protocol (submission_gate H i (snap_record snap) (snap_started snap)))) (\<lambda>g.
          case g of
            ReturnExisting jid \<Rightarrow> h_return (RSubmitted jid)
          | ReconcileRequired \<Rightarrow> h_return (RUnknown SubmitStarted)
          | StartOnce \<Rightarrow> start_submission H cfg i (snap_record snap)))"

section \<open>Handling a request\<close>

text \<open>What every request passes first: the frozen target and shared root are this gateway's, the
  caller has not cancelled, and the lock of the root is acquired.\<close>

definition h_lock :: "helper_config \<Rightarrow> unit helper_io" where
  "h_lock cfg = h_bind (h_write Some) (\<lambda>_. h_read (verify_root cfg))"

definition refusal :: "helper_config \<Rightarrow> frozen_intent \<Rightarrow> bool \<Rightarrow> reply_outcome option" where
  "refusal cfg i cancelled =
     (if target i \<noteq> config_target cfg then Some (RRejected IdentityConflict)
      else if config_shared_root cfg \<noteq> Some (runs_root (staging i))
      then Some (RRejected UnsupportedOperation)
      else if cancelled then Some (RUnknown CancelledRequest) else None)"

definition check_answer ::
    "'f hashing \<Rightarrow> helper_config \<Rightarrow> frozen_intent \<Rightarrow> reply_outcome \<Rightarrow> unit helper_io" where
  "check_answer H cfg i out =
     h_bind (h_read (verify_root cfg)) (\<lambda>_.
     if (case out of RPrepared \<Rightarrow> True | RSubmitted _ \<Rightarrow> True | _ \<Rightarrow> False)
     then h_bind (h_read (verify_issued H cfg i)) (\<lambda>_.
          h_bind h_verdict (\<lambda>shared.
          h_bind (h_read (read_ledger H i shared)) (\<lambda>l.
          if observed H l \<noteq> out then h_lift (Inl Bootstrap)
          else h_read (verify_issued H cfg i))))
     else h_return ())"

definition handle_locked ::
    "'f hashing \<Rightarrow> helper_config \<Rightarrow> (frozen_intent \<Rightarrow> string \<Rightarrow> helper_error + unit) \<Rightarrow> frozen_intent
     \<Rightarrow> operation \<Rightarrow> (ledger_read \<Rightarrow> reply_outcome helper_io) \<Rightarrow> reply helper_io" where
  "handle_locked H cfg admitted i op act =
     h_bind (h_lift (map_err Protocol (validate_request H admitted i op))) (\<lambda>_.
     h_bind h_verdict (\<lambda>cancelled.
     case refusal cfg i cancelled of
       Some out \<Rightarrow> h_lift (map_err Protocol (reply_for H admitted i op out))
     | None \<Rightarrow>
         h_bind (h_lock cfg) (\<lambda>_.
         h_bind h_verdict (\<lambda>shared.
         h_bind (h_read (read_ledger H i shared)) (\<lambda>l.
         h_bind (act l) (\<lambda>out.
         h_bind (check_answer H cfg i out) (\<lambda>_.
           h_lift (map_err Protocol (reply_for H admitted i op out)))))))))"

definition handle_submit ::
    "'f hashing \<Rightarrow> helper_config \<Rightarrow> (frozen_intent \<Rightarrow> string \<Rightarrow> helper_error + unit) \<Rightarrow> frozen_intent
     \<Rightarrow> reply helper_io" where
  "handle_submit H cfg admitted i = handle_locked H cfg admitted i Submit (\<lambda>l.
     case l of
       LedgerFound snap \<Rightarrow> submit H cfg i snap
     | LedgerMissing \<Rightarrow> h_return (RRejected Unprepared)
     | other \<Rightarrow> h_return (observed H other))"

definition handle_inspect ::
    "'f hashing \<Rightarrow> helper_config \<Rightarrow> (frozen_intent \<Rightarrow> string \<Rightarrow> helper_error + unit) \<Rightarrow> frozen_intent
     \<Rightarrow> reply helper_io" where
  "handle_inspect H cfg admitted i =
     handle_locked H cfg admitted i InspectSubmission (\<lambda>l. h_return (observed H l))"

section \<open>Preparing\<close>

definition registry_value :: "registry \<Rightarrow> json" where
  "registry_value r = JObj [(''version'', jnat (registry_version r)),
     (''claims'', JObj (map (\<lambda>(k, v). (k, JStr v)) (sort_key fst (registry_claims r))))]"

definition replace_registry :: "registry \<Rightarrow> unit helper_io" where
  "replace_registry r = h_write (\<lambda>g. Some (g\<lparr>registry_file := Holds r\<rparr>))"

definition empty_claim :: claim_dir where
  "empty_claim = \<lparr>state_file = Absent, intent_file = Absent, manifest_file = Absent,
     script_file = Absent, start_file = Absent, receipt_file = Absent\<rparr>"

definition create_claim :: "scope \<Rightarrow> unit helper_io" where
  "create_claim s = h_write (\<lambda>g. if claim_of g s = None
     then Some (g\<lparr>claim_dirs := AList.update s empty_claim (claim_dirs g)\<rparr>) else None)"

definition publish_intent :: "scope \<Rightarrow> frozen_intent \<Rightarrow> unit helper_io" where
  "publish_intent s v = write_claim s (\<lambda>dir.
     if intent_file dir = Absent then Some (dir\<lparr>intent_file := Holds v\<rparr>) else None)"

definition publish_manifest :: "scope \<Rightarrow> string \<Rightarrow> unit helper_io" where
  "publish_manifest s v = write_claim s (\<lambda>dir.
     if manifest_file dir = Absent then Some (dir\<lparr>manifest_file := Holds v\<rparr>) else None)"

definition publish_script :: "scope \<Rightarrow> string \<Rightarrow> unit helper_io" where
  "publish_script s v = write_claim s (\<lambda>dir.
     if script_file dir = Absent then Some (dir\<lparr>script_file := Holds v\<rparr>) else None)"

text \<open>Up to the release of the lock: \<open>None\<close> means the preparation goes on without it.\<close>

definition prepare_claim ::
    "'f hashing \<Rightarrow> frozen_intent \<Rightarrow> string \<Rightarrow> string \<Rightarrow> reply_outcome option helper_io" where
  "prepare_claim H i manifest script =
     h_bind (h_read registry_of) (\<lambda>reg.
     h_bind (h_lift (map_err Protocol (scope_digest H (scope i)))) (\<lambda>sd.
     if map_of (registry_claims reg) sd \<noteq> None then h_return (Some (RUnknown MissingLedger))
     else
     h_bind (h_lift (map_err Protocol (intent_digest H i))) (\<lambda>d.
     let reg' = reg\<lparr>registry_claims := (sd, d) # registry_claims reg\<rparr> in
     if length (json_text (writer H) (registry_value reg')) > MAX_METADATA_BYTES
     then h_return (Some (RRejected CapacityFull))
     else
     h_bind (replace_registry reg') (\<lambda>_.
     h_bind (h_read (\<lambda>g. Inr (claim_of g (scope i) \<noteq> None))) (\<lambda>exists.
     if exists then h_return (Some (RUnknown IncompleteClaim))
     else
     h_bind (create_claim (scope i)) (\<lambda>_.
     h_bind (publish_intent (scope i) i) (\<lambda>_.
     h_bind (publish_manifest (scope i) manifest) (\<lambda>_.
     h_bind (publish_script (scope i) script) (\<lambda>_. h_return None)))))))))"

definition prepare_begin ::
    "'f hashing \<Rightarrow> helper_config \<Rightarrow> (frozen_intent \<Rightarrow> string \<Rightarrow> helper_error + unit) \<Rightarrow> frozen_intent
     \<Rightarrow> string \<Rightarrow> string \<Rightarrow> reply option helper_io" where
  "prepare_begin H cfg admitted i manifest script =
     (let op = PrepareSubmission manifest script;
          answer = (\<lambda>out. h_bind (h_lift (map_err Protocol (reply_for H admitted i op out)))
                    (\<lambda>r. h_return (Some r))) in
      h_bind (h_lift (map_err Protocol (validate_request H admitted i op))) (\<lambda>_.
      h_bind h_verdict (\<lambda>cancelled.
      case refusal cfg i cancelled of
        Some out \<Rightarrow> answer out
      | None \<Rightarrow>
          h_bind (h_lock cfg) (\<lambda>_.
          h_bind h_verdict (\<lambda>shared.
          h_bind (h_read (read_ledger H i shared)) (\<lambda>l.
          if l \<noteq> LedgerMissing
          then h_bind (check_answer H cfg i (observed H l)) (\<lambda>_. answer (observed H l))
          else
            h_bind (prepare_claim H i manifest script) (\<lambda>out.
            case out of Some v \<Rightarrow> answer v | None \<Rightarrow> h_return None)))))))"

text \<open>After the shared storage is prepared (its result is an answer of the environment) the lock is
  taken again, the claim is compared with what was published, and the head is written.\<close>

definition prepare_finish ::
    "'f hashing \<Rightarrow> helper_config \<Rightarrow> (frozen_intent \<Rightarrow> string \<Rightarrow> helper_error + unit) \<Rightarrow> frozen_intent
     \<Rightarrow> string \<Rightarrow> string \<Rightarrow> reply helper_io" where
  "prepare_finish H cfg admitted i manifest script =
     h_bind h_verdict (\<lambda>prepared.
     if \<not> prepared then h_lift (Inl Storage)
     else
     h_bind (h_lock cfg) (\<lambda>_.
     h_bind (h_read (verify_issued H cfg i)) (\<lambda>_.
     h_bind (h_read (read_slot (scope i) intent_file)) (\<lambda>i'.
     if i' \<noteq> i then h_lift (Inl Bootstrap)
     else
     h_bind (h_read (read_slot (scope i) manifest_file)) (\<lambda>m.
     if m \<noteq> manifest then h_lift (Inl Bootstrap)
     else
     h_bind (h_read (read_slot (scope i) script_file)) (\<lambda>sc.
     if sc \<noteq> script then h_lift (Inl Bootstrap)
     else
     h_bind h_verdict (\<lambda>cancelled.
     h_bind (h_read (\<lambda>g. case claim_of g (scope i) of None \<Rightarrow> Inl Storage
       | Some dir \<Rightarrow> Inr (state_file dir \<noteq> Absent \<or> start_file dir \<noteq> Absent \<or>
                          receipt_file dir \<noteq> Absent))) (\<lambda>begun.
     if cancelled \<or> begun then h_lift (Inl Bootstrap)
     else
     h_bind (h_lift (map_err Protocol (prepared_record H i))) (\<lambda>rec.
     h_bind (publish_state (scope i) rec) (\<lambda>_.
     h_bind h_verdict (\<lambda>shared.
     h_bind (h_read (read_ledger H i shared)) (\<lambda>l.
     if observed H l \<noteq> RPrepared then h_lift (Inl Bootstrap)
     else
     h_bind (h_read (verify_issued H cfg i)) (\<lambda>_.
       h_lift (map_err Protocol (reply_for H admitted i (PrepareSubmission manifest script) RPrepared)))))))))))))))"

text \<open>The operator's bootstrap of an empty root.\<close>

definition initialize :: "helper_config \<Rightarrow> unit helper_io" where
  "initialize cfg =
     h_bind (h_write (\<lambda>g. if marker_file g = Absent \<and> registry_file g = Absent
       then Some (g\<lparr>marker_file := Holds \<lparr>marker_version = PROTOCOL_VERSION,
         marker_target = config_target cfg, marker_storage = config_storage cfg\<rparr>\<rparr>) else None)) (\<lambda>_.
     h_write (\<lambda>g. if registry_file g = Absent
       then Some (g\<lparr>registry_file := Holds \<lparr>registry_version = PROTOCOL_VERSION,
         registry_claims = []\<rparr>\<rparr>) else None))"

definition empty_world :: world where
  "empty_world = \<lparr>gateway = \<lparr>marker_file = Absent, registry_file = Absent, claim_dirs = []\<rparr>,
     faults = [], verdicts = [], results = [], runs = []\<rparr>"

section \<open>Histories\<close>

text \<open>Everything that can happen to a gateway: the environment changes its mind, and any request is
  handled, for any intent, complete or cut short by a fault.\<close>

inductive helper_step ::
    "'f hashing \<Rightarrow> helper_config \<Rightarrow> (frozen_intent \<Rightarrow> string \<Rightarrow> helper_error + unit) \<Rightarrow> world \<Rightarrow> world \<Rightarrow> bool"
  for H cfg admitted
where
  environment: "helper_step H cfg admitted w (w\<lparr>faults := fs, verdicts := bs, results := rs\<rparr>)"
| initialized: "initialize cfg w = (r, w') \<Longrightarrow> helper_step H cfg admitted w w'"
| begun: "prepare_begin H cfg admitted i manifest script w = (r, w') \<Longrightarrow> helper_step H cfg admitted w w'"
| finished: "prepare_finish H cfg admitted i manifest script w = (r, w') \<Longrightarrow> helper_step H cfg admitted w w'"
| submitted: "handle_submit H cfg admitted i w = (r, w') \<Longrightarrow> helper_step H cfg admitted w w'"
| inspected: "handle_inspect H cfg admitted i w = (r, w') \<Longrightarrow> helper_step H cfg admitted w w'"

definition helper_reachable ::
    "'f hashing \<Rightarrow> helper_config \<Rightarrow> (frozen_intent \<Rightarrow> string \<Rightarrow> helper_error + unit) \<Rightarrow> world \<Rightarrow> bool" where
  "helper_reachable H cfg admitted w \<longleftrightarrow> (helper_step H cfg admitted)\<^sup>*\<^sup>* empty_world w"

lemma claim_of_update [simp]: "map_of (AList.update k v al) = (map_of al)(k \<mapsto> v)"
  by (rule update_conv')

section \<open>Triples over helper programs\<close>

text \<open>An assertion speaks of the files and of the executions so far, never of what the environment will
  answer. \<open>E\<close> holds wherever a program stops with an error.\<close>

type_synonym assertion = "gateway \<Rightarrow> sbatch_run list \<Rightarrow> bool"

definition triple :: "assertion \<Rightarrow> 'a helper_io \<Rightarrow> ('a \<Rightarrow> assertion) \<Rightarrow> assertion \<Rightarrow> bool" where
  "triple P m Q E \<longleftrightarrow>
     (\<forall>w r w'. P (gateway w) (runs w) \<longrightarrow> m w = (r, w') \<longrightarrow>
        (case r of Inl _ \<Rightarrow> E (gateway w') (runs w') | Inr x \<Rightarrow> Q x (gateway w') (runs w')))"

named_theorems triple_rules "one rule per construct of a helper program"

lemma triple_bind [triple_rules]:
  assumes "triple P m Q E" "\<And>x. triple (Q x) (f x) R E"
  shows "triple P (h_bind m f) R E"
proof (unfold triple_def, intro allI impI)
  fix w r w'
  assume run: "P (gateway w) (runs w)" "h_bind m f w = (r, w')"
  obtain r1 w1 where m: "m w = (r1, w1)" by (cases "m w")
  show "case r of Inl _ \<Rightarrow> E (gateway w') (runs w') | Inr x \<Rightarrow> R x (gateway w') (runs w')"
  proof (cases r1)
    case (Inl e)
    with assms(1) run m show ?thesis by (auto simp: triple_def h_bind_def)
  next
    case (Inr x)
    with assms(1) run(1) m have "Q x (gateway w1) (runs w1)" by (auto simp: triple_def)
    moreover have "f x w1 = (r, w')" using run(2) m Inr by (simp add: h_bind_def)
    ultimately show ?thesis using assms(2) [of x] by (auto simp: triple_def)
  qed
qed

lemma triple_return [triple_rules]:
  "(\<And>g rs. P g rs \<Longrightarrow> Q x g rs) \<Longrightarrow> triple P (h_return x) Q E"
  by (simp add: triple_def h_return_def)

lemma triple_lift [triple_rules]:
  assumes "\<And>g rs x. P g rs \<Longrightarrow> r = Inr x \<Longrightarrow> Q x g rs" "\<And>g rs. P g rs \<Longrightarrow> E g rs"
  shows "triple P (h_lift r) Q E"
  using assms by (auto simp: triple_def h_lift_def split: sum.splits)

lemma triple_read [triple_rules]:
  assumes "\<And>g rs x. P g rs \<Longrightarrow> f g = Inr x \<Longrightarrow> Q x g rs" "\<And>g rs. P g rs \<Longrightarrow> E g rs"
  shows "triple P (h_read f) Q E"
  using assms by (auto simp: triple_def h_read_def split: sum.splits)

lemma triple_verdict [triple_rules]:
  "(\<And>g rs b. P g rs \<Longrightarrow> Q b g rs) \<Longrightarrow> triple P h_verdict Q E"
  by (auto simp: triple_def h_verdict_def split: list.splits)

lemma triple_write [triple_rules]:
  assumes "\<And>g rs g'. P g rs \<Longrightarrow> f g = Some g' \<Longrightarrow> Q () g' rs"
    and "\<And>g rs g'. P g rs \<Longrightarrow> f g = Some g' \<Longrightarrow> E g' rs" "\<And>g rs. P g rs \<Longrightarrow> E g rs"
  shows "triple P (h_write f) Q E"
  using assms
  by (auto simp: triple_def h_write_def next_fault_def split: option.splits list.splits fault.splits)

lemma triple_execute:
  assumes "\<And>g rs r. P g rs \<Longrightarrow>
      Q r g (rs @ [\<lparr>run_scope = s, run_argv = args, run_input = input, run_result = Some r\<rparr>])"
    and "\<And>g rs. P g rs \<Longrightarrow>
      E g (rs @ [\<lparr>run_scope = s, run_argv = args, run_input = input, run_result = None\<rparr>])"
    and "\<And>g rs. P g rs \<Longrightarrow> E g rs"
  shows "triple P (h_execute s args input) Q E"
  using assms
  by (auto simp: triple_def h_execute_def next_fault_def Let_def split: list.splits fault.splits)

lemma triple_if [triple_rules]:
  assumes "b \<Longrightarrow> triple P m Q E" "\<not> b \<Longrightarrow> triple P n Q E"
  shows "triple P (if b then m else n) Q E"
  using assms by simp

lemma triple_weaken:
  assumes "triple P' m Q' E" "\<And>g rs. P g rs \<Longrightarrow> P' g rs" "\<And>x g rs. Q' x g rs \<Longrightarrow> Q x g rs"
  shows "triple P m Q E"
proof (unfold triple_def, intro allI impI)
  fix w r w'
  assume run: "P (gateway w) (runs w)" "m w = (r, w')"
  with assms(1,2) have "case r of Inl _ \<Rightarrow> E (gateway w') (runs w') | Inr x \<Rightarrow> Q' x (gateway w') (runs w')"
    by (auto simp: triple_def)
  then show "case r of Inl _ \<Rightarrow> E (gateway w') (runs w') | Inr x \<Rightarrow> Q x (gateway w') (runs w')"
    using assms(3) by (cases r) auto
qed

lemma triple_pre:
  assumes "triple P' m Q E" "\<And>g rs. P g rs \<Longrightarrow> P' g rs"
  shows "triple P m Q E"
  using assms by (auto simp: triple_def)

lemma triple_assume:
  "(c \<Longrightarrow> triple P m Q E) \<Longrightarrow> triple (\<lambda>g rs. P g rs \<and> c) m Q E"
  by (auto simp: triple_def)

lemma tripleD:
  assumes "triple P m Q E" "P (gateway w) (runs w)" "m w = (r, w')"
  shows "case r of Inl _ \<Rightarrow> E (gateway w') (runs w') | Inr x \<Rightarrow> Q x (gateway w') (runs w')"
  using assms by (auto simp: triple_def)

section \<open>The invariant\<close>

definition runs_of :: "scope \<Rightarrow> sbatch_run list \<Rightarrow> sbatch_run list" where
  "runs_of s rs = filter (\<lambda>r. run_scope r = s) rs"

lemma runs_of_append: "runs_of s (rs @ [r]) = runs_of s rs @ (if run_scope r = s then [r] else [])"
  by (simp add: runs_of_def)

text \<open>The run an intent stands for: its command line, and a script with its digest.\<close>

definition run_for :: "'f hashing \<Rightarrow> helper_config \<Rightarrow> frozen_intent \<Rightarrow> sbatch_run \<Rightarrow> bool" where
  "run_for H cfg i r \<longleftrightarrow> run_scope r = scope i \<and> sbatch_arguments cfg i = Inr (run_argv r) \<and>
     sha256_bytes H (run_input r) = script_sha256 i"

definition reports :: "string \<Rightarrow> sbatch_run \<Rightarrow> bool" where
  "reports jid r \<longleftrightarrow> (case run_result r of Some res \<Rightarrow> reported_job res = Some jid | None \<Rightarrow> False)"

definition claim_ok ::
    "'f hashing \<Rightarrow> helper_config \<Rightarrow> scope \<Rightarrow> claim_dir option \<Rightarrow> sbatch_run list \<Rightarrow> bool" where
  "claim_ok H cfg s d rs \<longleftrightarrow>
     (rs = [] \<or> (\<exists>r i dir. rs = [r] \<and> d = Some dir \<and> start_file dir \<noteq> Absent \<and>
        intent_file dir = Holds i \<and> scope i = s \<and> run_for H cfg i r)) \<and>
     (\<forall>dir v. d = Some dir \<longrightarrow> receipt_file dir = Holds v \<longrightarrow> (\<exists>r \<in> set rs. reports (receipt_job v) r))"

definition ledger_inv :: "'f hashing \<Rightarrow> helper_config \<Rightarrow> assertion" where
  "ledger_inv H cfg g rs \<longleftrightarrow> (\<forall>s. claim_ok H cfg s (claim_of g s) (runs_of s rs))"

lemma ledger_inv_cong:
  "claim_dirs g = claim_dirs g' \<Longrightarrow> ledger_inv H cfg g rs = ledger_inv H cfg g' rs"
  by (simp add: ledger_inv_def)

lemma ledger_inv_update:
  assumes "ledger_inv H cfg g rs" "claim_ok H cfg s (Some dir) (runs_of s rs)"
  shows "ledger_inv H cfg (g\<lparr>claim_dirs := AList.update s dir (claim_dirs g)\<rparr>) rs"
  using assms by (simp add: ledger_inv_def)

text \<open>A write to a claim that keeps its intent, and keeps its start and receipt or adds a start, keeps
  the invariant.\<close>

lemma ledger_inv_write:
  assumes "ledger_inv H cfg g rs" "claim_of g s = Some dir"
    "intent_file dir = Absent \<or> intent_file dir' = intent_file dir"
    "start_file dir \<noteq> Absent \<Longrightarrow> start_file dir' \<noteq> Absent"
    "receipt_file dir' = receipt_file dir"
  shows "ledger_inv H cfg (g\<lparr>claim_dirs := AList.update s dir' (claim_dirs g)\<rparr>) rs"
proof (rule ledger_inv_update [OF assms(1)])
  have "claim_ok H cfg s (Some dir) (runs_of s rs)"
    using assms(1,2) by (metis ledger_inv_def)
  then show "claim_ok H cfg s (Some dir') (runs_of s rs)"
    using assms(3-5) by (auto simp: claim_ok_def)
qed

lemma unstarted_no_runs:
  assumes "ledger_inv H cfg g rs" "claim_of g s = Some dir" "start_file dir = Absent"
  shows "runs_of s rs = []"
proof -
  have "claim_ok H cfg s (Some dir) (runs_of s rs)"
    using assms(1,2) by (metis ledger_inv_def)
  with assms(3) show ?thesis by (auto simp: claim_ok_def)
qed

lemma unclaimed_no_runs:
  assumes "ledger_inv H cfg g rs" "claim_of g s = None"
  shows "runs_of s rs = []"
proof -
  have "claim_ok H cfg s None (runs_of s rs)"
    using assms by (metis ledger_inv_def)
  then show ?thesis by (auto simp: claim_ok_def)
qed

lemma write_claim_cases:
  assumes "Option.bind (claim_of g s) (\<lambda>dir.
       map_option (\<lambda>dir'. g\<lparr>claim_dirs := AList.update s dir' (claim_dirs g)\<rparr>) (f dir)) = Some g'"
  obtains dir dir' where "claim_of g s = Some dir" "f dir = Some dir'"
    "g' = g\<lparr>claim_dirs := AList.update s dir' (claim_dirs g)\<rparr>"
  using assms by (auto simp: bind_eq_Some_conv)

definition backed :: "'f hashing \<Rightarrow> helper_config \<Rightarrow> frozen_intent \<Rightarrow> string \<Rightarrow> assertion" where
  "backed H cfg i jid g rs \<longleftrightarrow>
     ledger_inv H cfg g rs \<and> (\<exists>r. runs_of (scope i) rs = [r] \<and> run_for H cfg i r \<and> reports jid r)"

text \<open>The assertions between a durable start and the execution, and after it.\<close>

definition begun :: "'f hashing \<Rightarrow> helper_config \<Rightarrow> frozen_intent \<Rightarrow> assertion" where
  "begun H cfg i g rs \<longleftrightarrow>
     ledger_inv H cfg g rs \<and> runs_of (scope i) rs = [] \<and>
     (\<exists>dir. claim_of g (scope i) = Some dir \<and> start_file dir \<noteq> Absent \<and> intent_file dir = Holds i)"

definition executed :: "'f hashing \<Rightarrow> helper_config \<Rightarrow> frozen_intent \<Rightarrow> process_result \<Rightarrow> assertion" where
  "executed H cfg i res g rs \<longleftrightarrow>
     ledger_inv H cfg g rs \<and>
     (\<exists>r. runs_of (scope i) rs = [r] \<and> run_for H cfg i r \<and> run_result r = Some res)"

lemma begun_replace:
  "begun H cfg i g rs \<Longrightarrow> claim_of g (scope i) = Some dir \<Longrightarrow>
   begun H cfg i (g\<lparr>claim_dirs := AList.update (scope i) (dir\<lparr>state_file := v\<rparr>) (claim_dirs g)\<rparr>) rs"
  by (auto simp: begun_def intro: ledger_inv_write)

lemma inv_replace_state:
  "ledger_inv H cfg g rs \<Longrightarrow> claim_of g s = Some dir \<Longrightarrow>
   ledger_inv H cfg (g\<lparr>claim_dirs := AList.update s (dir\<lparr>state_file := v\<rparr>) (claim_dirs g)\<rparr>) rs"
  by (auto intro: ledger_inv_write)

lemma begun_execute:
  assumes "begun H cfg i g rs" "run_for H cfg i r"
  shows "ledger_inv H cfg g (rs @ [r])" "runs_of (scope i) (rs @ [r]) = [r]"
proof -
  from assms(1) obtain dir where d: "claim_of g (scope i) = Some dir" "start_file dir \<noteq> Absent"
    "intent_file dir = Holds i" "runs_of (scope i) rs = []" "ledger_inv H cfg g rs"
    by (auto simp: begun_def)
  have scope: "run_scope r = scope i" using assms(2) by (simp add: run_for_def)
  with d(4) show one: "runs_of (scope i) (rs @ [r]) = [r]" by (simp add: runs_of_append)
  have "claim_ok H cfg (scope i) (Some dir) []"
    using d(1,4,5) by (metis ledger_inv_def)
  then have "claim_ok H cfg (scope i) (Some dir) [r]"
    using d(2,3) assms(2) by (auto simp: claim_ok_def)
  with d(1,5) one show "ledger_inv H cfg g (rs @ [r])"
    using scope by (auto simp: ledger_inv_def runs_of_append)
qed

lemma executed_receipt:
  assumes "executed H cfg i res g rs" "reported_job res = Some jid" "claim_of g (scope i) = Some dir"
    "receipt_job v = jid"
  shows "ledger_inv H cfg (g\<lparr>claim_dirs := AList.update (scope i) (dir\<lparr>receipt_file := Holds v\<rparr>) (claim_dirs g)\<rparr>) rs"
proof -
  from assms(1) obtain r where r: "ledger_inv H cfg g rs" "runs_of (scope i) rs = [r]" "run_result r = Some res"
    by (auto simp: executed_def)
  have "claim_ok H cfg (scope i) (Some dir) (runs_of (scope i) rs)"
    using r(1) assms(3) by (metis ledger_inv_def)
  then have "claim_ok H cfg (scope i) (Some (dir\<lparr>receipt_file := Holds v\<rparr>)) (runs_of (scope i) rs)"
    using r(2,3) assms(2,4) by (auto simp: claim_ok_def reports_def)
  with r(1) show ?thesis by (rule ledger_inv_update)
qed

lemma executed_backed:
  "executed H cfg i res g rs \<Longrightarrow> reported_job res = Some jid \<Longrightarrow> ledger_inv H cfg g' rs \<Longrightarrow>
   backed H cfg i jid g' rs"
  by (auto simp: executed_def backed_def reports_def)

lemma begun_inv: "begun H cfg i g rs \<Longrightarrow> ledger_inv H cfg g rs"
  by (simp add: begun_def)

lemma executed_inv: "executed H cfg i res g rs \<Longrightarrow> ledger_inv H cfg g rs"
  by (simp add: executed_def)

lemma backed_inv: "backed H cfg i jid g rs \<Longrightarrow> ledger_inv H cfg g rs"
  by (simp add: backed_def)

lemma backed_replace:
  "backed H cfg i jid g rs \<Longrightarrow> claim_of g s = Some dir \<Longrightarrow>
   backed H cfg i jid (g\<lparr>claim_dirs := AList.update s (dir\<lparr>state_file := v\<rparr>) (claim_dirs g)\<rparr>) rs"
  by (auto simp: backed_def intro: inv_replace_state)

definition answered :: "'f hashing \<Rightarrow> helper_config \<Rightarrow> frozen_intent \<Rightarrow> reply_outcome \<Rightarrow> assertion" where
  "answered H cfg i out g rs \<longleftrightarrow>
     (case out of RSubmitted jid \<Rightarrow> backed H cfg i jid g rs | _ \<Rightarrow> ledger_inv H cfg g rs)"

lemma replace_state_triple:
  assumes "\<And>g rs dir. P g rs \<Longrightarrow> claim_of g s = Some dir \<Longrightarrow>
      Q (g\<lparr>claim_dirs := AList.update s (dir\<lparr>state_file := Holds v\<rparr>) (claim_dirs g)\<rparr>) rs"
    and "\<And>g rs. Q g rs \<Longrightarrow> E g rs" "\<And>g rs. P g rs \<Longrightarrow> E g rs"
  shows "triple P (replace_state s v) (\<lambda>_. Q) E"
  unfolding replace_state_def write_claim_def
  by (rule triple_write; (elim write_claim_cases)?) (auto intro: assms)

lemma triple_dispatch:
  assumes "sha256_bytes H script = script_sha256 i"
  shows "triple (begun H cfg i) (dispatch H cfg i d rec script) (answered H cfg i) (ledger_inv H cfg)"
proof -
  note inv = begun_inv executed_inv backed_inv
  have exec: "triple (begun H cfg i) (h_execute (scope i) args script) (executed H cfg i) (ledger_inv H cfg)"
    if "sbatch_arguments cfg i = Inr args" for args
  proof (rule triple_execute)
    fix g rs r assume b: "begun H cfg i g rs"
    have "run_for H cfg i \<lparr>run_scope = scope i, run_argv = args, run_input = script, run_result = x\<rparr>" for x
      using that assms by (simp add: run_for_def)
    note e = begun_execute [OF b this] this
    show "executed H cfg i r g (rs @ [\<lparr>run_scope = scope i, run_argv = args, run_input = script, run_result = Some r\<rparr>])"
      unfolding executed_def using e by fastforce
    show "ledger_inv H cfg g (rs @ [\<lparr>run_scope = scope i, run_argv = args, run_input = script, run_result = None\<rparr>])"
      using e by blast
  qed (rule begun_inv)
  have receipt: "triple (executed H cfg i res) (publish_receipt (scope i) v) (\<lambda>_. backed H cfg i (receipt_job v))
      (ledger_inv H cfg)" if "reported_job res = Some (receipt_job v)" for res v
    unfolding publish_receipt_def write_claim_def
    by (rule triple_write; (elim write_claim_cases)?)
      (auto split: if_splits intro: executed_inv executed_backed executed_receipt that)
  have tail: "triple (executed H cfg i res)
      (case reported_job res of
         None \<Rightarrow> h_return (RUnknown UncertainProcessResult)
       | Some jid \<Rightarrow>
           h_bind (publish_receipt (scope i)
             \<lparr>receipt_version = PROTOCOL_VERSION, receipt_intent = d, receipt_job = jid\<rparr>) (\<lambda>_.
           h_bind (replace_state (scope i) (rec\<lparr>phase := PhaseSubmitted jid\<rparr>)) (\<lambda>_.
             h_return (RSubmitted jid)))) (answered H cfg i) (ledger_inv H cfg)" for res
  proof (cases "reported_job res")
    case None
    then show ?thesis by (auto intro!: triple_return simp: answered_def executed_inv)
  next
    case (Some jid)
    have "triple (executed H cfg i res) (publish_receipt (scope i)
        \<lparr>receipt_version = PROTOCOL_VERSION, receipt_intent = d, receipt_job = jid\<rparr>)
        (\<lambda>_. backed H cfg i jid) (ledger_inv H cfg)"
      using receipt [of res "\<lparr>receipt_version = PROTOCOL_VERSION, receipt_intent = d, receipt_job = jid\<rparr>"]
        Some by simp
    then show ?thesis unfolding Some option.case
      by (rule triple_bind, intro triple_bind [OF replace_state_triple] triple_return)
        (auto simp: answered_def intro: backed_replace backed_inv)
  qed
  show ?thesis
    unfolding dispatch_def
    apply (rule triple_bind [where Q = "\<lambda>_. begun H cfg i"])
     apply (rule replace_state_triple; auto intro: begun_replace inv)
    apply (rule triple_bind [where Q = "\<lambda>_. begun H cfg i"])
     apply (rule triple_read; auto intro: inv)
    apply (rule triple_bind [where Q = "\<lambda>args g rs. begun H cfg i g rs \<and> sbatch_arguments cfg i = Inr args"])
     apply (rule triple_lift; auto intro: inv)
    apply (rule triple_bind [where Q = "executed H cfg i"])
     apply (rule triple_assume, rule exec, assumption)
    apply (rule triple_bind [OF triple_read tail]; auto intro: inv)
    done
qed

section \<open>Every handler keeps the invariant\<close>

definition found :: "frozen_intent \<Rightarrow> snapshot \<Rightarrow> gateway \<Rightarrow> bool" where
  "found i snap g \<longleftrightarrow> (\<exists>dir. claim_of g (scope i) = Some dir \<and> intent_file dir = Holds i \<and>
     (snap_started snap \<longleftrightarrow> start_file dir \<noteq> Absent) \<and>
     (\<forall>r. snap_receipt snap = Some r \<longrightarrow> receipt_file dir = Holds r) \<and>
     (\<forall>jid. phase (snap_record snap) = PhaseSubmitted jid \<longrightarrow>
        (\<exists>r. snap_receipt snap = Some r \<and> receipt_job r = jid)))"

lemma read_progress_Found:
  assumes "read_progress shared d dir rec = LedgerFound snap"
  shows "snap_record snap = rec \<and> (snap_started snap \<longleftrightarrow> start_file dir \<noteq> Absent) \<and>
     (\<forall>r. snap_receipt snap = Some r \<longrightarrow> receipt_file dir = Holds r) \<and>
     (\<forall>jid. phase rec = PhaseSubmitted jid \<longrightarrow> (\<exists>r. snap_receipt snap = Some r \<and> receipt_job r = jid))"
  using assms
  by (cases "receipt_file dir"; cases "phase rec"; simp add: read_progress_def Let_def split: if_splits) auto

lemma read_claim_Found:
  assumes "read_claim H shared i d dir = Inr (LedgerFound snap)"
  obtains rec where "intent_file dir = Holds i" "read_progress shared d dir rec = LedgerFound snap"
  using assms by (auto simp: read_claim_def and_then_eq_Inr split: if_splits slot.splits)

lemma read_ledger_Found:
  assumes "read_ledger H i shared g = Inr (LedgerFound snap)"
  shows "found i snap g"
proof -
  from assms obtain registered d where "read_registered H i shared g registered d = Inr (LedgerFound snap)"
    unfolding read_ledger_def and_then_eq_Inr by blast
  then obtain dir where d: "claim_of g (scope i) = Some dir"
    "read_claim H shared i d dir = Inr (LedgerFound snap)"
    by (cases "claim_of g (scope i)") (simp_all add: read_registered_def split: if_splits)
  from d(2) obtain rec where "intent_file dir = Holds i" "read_progress shared d dir rec = LedgerFound snap"
    by (rule read_claim_Found)
  with d(1) read_progress_Found show ?thesis unfolding found_def by blast
qed

lemma receipt_backed:
  assumes "ledger_inv H cfg g rs" "found i snap g" "snap_receipt snap = Some v"
  shows "backed H cfg i (receipt_job v) g rs"
proof -
  from assms(2,3) obtain dir where d: "claim_of g (scope i) = Some dir" "intent_file dir = Holds i"
    "receipt_file dir = Holds v" by (auto simp: found_def)
  have "claim_ok H cfg (scope i) (Some dir) (runs_of (scope i) rs)"
    using assms(1) d(1) by (metis ledger_inv_def)
  with d(2,3) assms(1) show ?thesis by (auto simp: claim_ok_def backed_def)
qed

lemma gate_ReturnExisting:
  "submission_gate H i r b = Inr (ReturnExisting jid) \<Longrightarrow> phase r = PhaseSubmitted jid"
  by (auto simp: submission_gate_def res_simps split: if_splits ledger_phase.splits)

lemma ledger_outcome_receipt:
  "ledger_outcome H r b (Some jid) = Inr out \<Longrightarrow> out = RSubmitted jid"
  by (auto simp: ledger_outcome_def res_simps split: if_splits)

lemma start_triple:
  assumes "\<not> snap_started snap"
  shows "triple (\<lambda>g rs. ledger_inv H cfg g rs \<and> found i snap g) (publish_start (scope i) v)
    (\<lambda>_. begun H cfg i) (ledger_inv H cfg)"
  unfolding publish_start_def write_claim_def
proof (rule triple_write; (elim write_claim_cases)?)
  fix g rs g' dir dir'
  assume g: "ledger_inv H cfg g rs \<and> found i snap g" "claim_of g (scope i) = Some dir"
    "(if start_file dir = Absent then Some (dir\<lparr>start_file := Holds v\<rparr>) else None) = Some dir'"
    "g' = g\<lparr>claim_dirs := AList.update (scope i) dir' (claim_dirs g)\<rparr>"
  then have new: "start_file dir = Absent" "dir' = dir\<lparr>start_file := Holds v\<rparr>" by (auto split: if_splits)
  show inv: "ledger_inv H cfg g' rs"
    unfolding g(4) by (rule ledger_inv_write [where dir = dir]) (use g(1,2) new in auto)
  show "begun H cfg i g' rs"
    using inv g new unstarted_no_runs [of H cfg g rs "scope i" dir] by (auto simp: begun_def found_def)
qed simp

lemma triple_start_submission:
  assumes "\<not> snap_started snap"
  shows "triple (\<lambda>g rs. ledger_inv H cfg g rs \<and> found i snap g) (start_submission H cfg i rec)
    (answered H cfg i) (ledger_inv H cfg)" (is "triple ?P _ _ _")
proof -
  have started: "triple ?P
      (h_bind (h_lift (map_err Protocol (intent_digest H i))) (\<lambda>d.
       h_bind (publish_start (scope i) \<lparr>started_version = PROTOCOL_VERSION, started_intent = d\<rparr>) (\<lambda>_.
         dispatch H cfg i d rec script))) (answered H cfg i) (ledger_inv H cfg)"
    if "sha256_bytes H script = script_sha256 i" for script
    by (rule triple_bind [where Q = "\<lambda>_. ?P"], rule triple_lift, assumption, blast)
      (rule triple_bind [OF start_triple [OF assms] triple_dispatch [OF that]])
  have ret: "triple ?P (h_return (RUnknown r)) (answered H cfg i) (ledger_inv H cfg)" for r
    by (rule triple_return) (simp add: answered_def)
  show ?thesis
    unfolding start_submission_def
    apply (rule triple_bind [where Q = "\<lambda>_. ?P"])
     apply (rule triple_read; blast)
    apply (rule triple_if [OF ret])
    apply (rule triple_bind [where Q = "\<lambda>_. ?P"])
     apply (rule triple_verdict; blast)
    apply (rule triple_if [OF ret started]; blast)
    done
qed

lemma triple_submit:
  "triple (\<lambda>g rs. ledger_inv H cfg g rs \<and> found i snap g) (submit H cfg i snap) (answered H cfg i)
     (ledger_inv H cfg)" (is "triple ?P _ _ _")
proof (cases "snap_receipt snap")
  case (Some v)
  show ?thesis unfolding submit_def Some option.case
    by (rule triple_lift)
      (auto simp: answered_def map_err_eq_Inr dest!: ledger_outcome_receipt intro: receipt_backed [OF _ _ Some])
next
  case None
  have gate: "triple (\<lambda>g rs. ?P g rs \<and>
        submission_gate H i (snap_record snap) (snap_started snap) = Inr decision)
      (case decision of ReturnExisting jid \<Rightarrow> h_return (RSubmitted jid)
          | ReconcileRequired \<Rightarrow> h_return (RUnknown SubmitStarted)
          | StartOnce \<Rightarrow> start_submission H cfg i (snap_record snap))
      (answered H cfg i) (ledger_inv H cfg)" for decision
  proof (cases decision)
    case StartOnce
    show ?thesis unfolding StartOnce submit_decision.case
      by (rule triple_assume, rule triple_start_submission) (blast dest: gate_StartOnce)
  next
    case (ReturnExisting jid)
    show ?thesis unfolding ReturnExisting submit_decision.case
      by (rule triple_return) (auto simp: found_def None dest: gate_ReturnExisting)
  next
    case ReconcileRequired
    show ?thesis unfolding ReconcileRequired submit_decision.case
      by (rule triple_return) (simp add: answered_def)
  qed
  show ?thesis unfolding submit_def None option.case
    by (rule triple_bind [OF _ gate], rule triple_lift) (auto simp: map_err_eq_Inr)
qed

text \<open>Programs that only look: neither files nor executions change.\<close>

definition observer :: "'a helper_io \<Rightarrow> bool" where
  "observer m \<longleftrightarrow> (\<forall>w. gateway (snd (m w)) = gateway w \<and> runs (snd (m w)) = runs w)"

named_theorems observer_intros "programs that only look"

lemma observer_basic [observer_intros]:
  "observer (h_return x)" "observer (h_lift r)" "observer (h_read f)" "observer h_verdict"
  by (simp_all add: observer_def h_return_def h_lift_def h_read_def h_verdict_def split: list.splits)

lemma observer_bind [observer_intros]:
  "observer m \<Longrightarrow> (\<And>x. observer (f x)) \<Longrightarrow> observer (h_bind m f)"
  by (simp add: observer_def h_bind_def split: prod.split sum.split) (metis snd_conv)

lemma observer_if [observer_intros]: "observer m \<Longrightarrow> observer n \<Longrightarrow> observer (if b then m else n)"
  by simp

lemma observer_lock [observer_intros]: "observer (h_lock cfg)"
  unfolding h_lock_def
  by (rule observer_bind [OF _ observer_basic(3)])
    (auto simp: observer_def h_write_def next_fault_def split: list.split fault.split)

lemma observer_check [observer_intros]: "observer (check_answer H cfg i out)"
  unfolding check_answer_def by (intro observer_intros)

lemma triple_observer:
  assumes "observer m" "\<And>g rs. P g rs \<Longrightarrow> E g rs"
  shows "triple P m (\<lambda>_. P) E"
proof (unfold triple_def, intro allI impI)
  fix w r w'
  assume P: "P (gateway w) (runs w)" and "m w = (r, w')"
  then have "gateway w' = gateway w" "runs w' = runs w"
    using assms(1) unfolding observer_def by (metis snd_conv)+
  with P assms(2) show "case r of Inl _ \<Rightarrow> E (gateway w') (runs w') | Inr x \<Rightarrow> P (gateway w') (runs w')"
    by (auto split: sum.split)
qed

abbreviation keeps :: "'f hashing \<Rightarrow> helper_config \<Rightarrow> 'a helper_io \<Rightarrow> bool" where
  "keeps H cfg m \<equiv> triple (ledger_inv H cfg) m (\<lambda>_. ledger_inv H cfg) (ledger_inv H cfg)"

lemma keeps_observer: "observer m \<Longrightarrow> keeps H cfg m"
  by (rule triple_observer)

lemma keeps_bind: "keeps H cfg m \<Longrightarrow> (\<And>x. keeps H cfg (f x)) \<Longrightarrow> keeps H cfg (h_bind m f)"
  by (rule triple_bind)

lemma keeps_write_claim:
  assumes "\<And>dir dir'. f dir = Some dir' \<Longrightarrow>
      (intent_file dir = Absent \<or> intent_file dir' = intent_file dir) \<and>
      start_file dir' = start_file dir \<and> receipt_file dir' = receipt_file dir"
  shows "keeps H cfg (write_claim s f)"
  unfolding write_claim_def
proof (rule triple_write; (elim write_claim_cases)?)
  fix g rs g' dir dir'
  assume a: "ledger_inv H cfg g rs" "claim_of g s = Some dir" "f dir = Some dir'"
    "g' = g\<lparr>claim_dirs := AList.update s dir' (claim_dirs g)\<rparr>"
  show "ledger_inv H cfg g' rs"
    unfolding a(4) using assms [OF a(3)] by (intro ledger_inv_write [OF a(1,2)]) auto
  then show "ledger_inv H cfg g' rs" .
qed

lemma keeps_publish:
  "keeps H cfg (publish_intent s i)" "keeps H cfg (publish_manifest s m)"
  "keeps H cfg (publish_script s sc)" "keeps H cfg (publish_state s r)" "keeps H cfg (replace_state s r)"
  unfolding publish_intent_def publish_manifest_def publish_script_def publish_state_def replace_state_def
  by (rule keeps_write_claim; auto split: if_splits)+

lemma keeps_registry: "keeps H cfg (replace_registry r)"
  unfolding replace_registry_def by (rule triple_write) (auto simp: ledger_inv_def)

lemma keeps_create: "keeps H cfg (create_claim s)"
proof -
  have "ledger_inv H cfg (g\<lparr>claim_dirs := AList.update s empty_claim (claim_dirs g)\<rparr>) rs"
    if "ledger_inv H cfg g rs" "claim_of g s = None" for g rs
    by (rule ledger_inv_update [OF that(1)])
      (simp add: unclaimed_no_runs [OF that] claim_ok_def empty_claim_def)
  then show ?thesis
    unfolding create_claim_def by (intro triple_write) (auto split: if_splits)
qed

lemma keeps_initialize: "keeps H cfg (initialize cfg')"
  unfolding initialize_def
  by (rule keeps_bind; rule triple_write) (auto simp: ledger_inv_def split: if_splits)

lemmas keeps_intros = keeps_bind keeps_publish keeps_registry keeps_create triple_if
  keeps_observer [OF observer_basic(1)] keeps_observer [OF observer_basic(2)]
  keeps_observer [OF observer_basic(3)] keeps_observer [OF observer_basic(4)]
  keeps_observer [OF observer_lock] keeps_observer [OF observer_check]

lemma keeps_prepare_claim: "keeps H cfg (prepare_claim H i manifest script)"
  unfolding prepare_claim_def Let_def by (intro keeps_intros)

lemma keeps_prepare_begin: "keeps H cfg (prepare_begin H cfg admitted i manifest script)"
  unfolding prepare_begin_def Let_def
  by (intro keeps_intros keeps_prepare_claim | simp split: option.split; intro conjI allI impI)+

lemma keeps_prepare_finish: "keeps H cfg (prepare_finish H cfg admitted i manifest script)"
  unfolding prepare_finish_def by (intro keeps_intros)

lemma reply_for_outcome: "reply_for H admitted i op out = Inr r \<Longrightarrow> outcome r = out"
  unfolding reply_for_def and_then_eq_Inr by (elim exE conjE) (auto simp: and_then_eq_Inr split: if_splits)

lemma answered_inv: "answered H cfg i out g rs \<Longrightarrow> ledger_inv H cfg g rs"
  by (auto simp: answered_def backed_def split: reply_outcome.splits)

lemma refusal_answered: "refusal cfg i b = Some out \<Longrightarrow> ledger_inv H cfg g rs \<Longrightarrow> answered H cfg i out g rs"
  by (auto simp: refusal_def answered_def split: if_splits)

lemma triple_handle_locked:
  assumes act: "\<And>l. triple (\<lambda>g rs. ledger_inv H cfg g rs \<and> (\<forall>snap. l = LedgerFound snap \<longrightarrow> found i snap g))
      (act l) (answered H cfg i) (ledger_inv H cfg)"
  shows "triple (ledger_inv H cfg) (handle_locked H cfg admitted i op act)
    (\<lambda>r. answered H cfg i (outcome r)) (ledger_inv H cfg)"
proof -
  have reply: "triple (answered H cfg i out) (h_lift (map_err Protocol (reply_for H admitted i op out)))
      (\<lambda>r. answered H cfg i (outcome r)) (ledger_inv H cfg)" for out
    by (rule triple_lift) (auto simp: map_err_eq_Inr dest: reply_for_outcome answered_inv)
  have finish: "triple (answered H cfg i out) (h_bind (check_answer H cfg i out)
      (\<lambda>_. h_lift (map_err Protocol (reply_for H admitted i op out))))
      (\<lambda>r. answered H cfg i (outcome r)) (ledger_inv H cfg)" for out
    by (rule triple_bind [OF triple_observer [OF observer_check] reply]) (rule answered_inv)
  have read: "triple (ledger_inv H cfg) (h_read (read_ledger H i shared))
      (\<lambda>l g rs. ledger_inv H cfg g rs \<and> (\<forall>snap. l = LedgerFound snap \<longrightarrow> found i snap g))
      (ledger_inv H cfg)" for shared
    by (rule triple_read) (auto dest: read_ledger_Found)
  have locked: "triple (ledger_inv H cfg) (h_bind (h_lock cfg) (\<lambda>_. h_bind h_verdict (\<lambda>shared.
      h_bind (h_read (read_ledger H i shared)) (\<lambda>l. h_bind (act l) (\<lambda>out.
      h_bind (check_answer H cfg i out) (\<lambda>_. h_lift (map_err Protocol (reply_for H admitted i op out))))))))
      (\<lambda>r. answered H cfg i (outcome r)) (ledger_inv H cfg)"
    by (rule triple_bind [OF keeps_observer [OF observer_lock]],
        rule triple_bind [OF keeps_observer [OF observer_basic(4)]],
        rule triple_bind [OF read], rule triple_bind [OF act finish])
  have refused: "triple (ledger_inv H cfg) (h_lift (map_err Protocol (reply_for H admitted i op out)))
      (\<lambda>r. answered H cfg i (outcome r)) (ledger_inv H cfg)" if "refusal cfg i b = Some out" for b out
    by (rule triple_pre [OF reply]) (rule refusal_answered [OF that])
  have "triple (ledger_inv H cfg) (case refusal cfg i b of
      Some out \<Rightarrow> h_lift (map_err Protocol (reply_for H admitted i op out))
    | None \<Rightarrow> h_bind (h_lock cfg) (\<lambda>_. h_bind h_verdict (\<lambda>shared.
      h_bind (h_read (read_ledger H i shared)) (\<lambda>l. h_bind (act l) (\<lambda>out.
      h_bind (check_answer H cfg i out) (\<lambda>_. h_lift (map_err Protocol (reply_for H admitted i op out))))))))
      (\<lambda>r. answered H cfg i (outcome r)) (ledger_inv H cfg)" for b
    by (cases "refusal cfg i b") (simp_all add: locked refused)
  then show ?thesis
    unfolding handle_locked_def
    by (rule triple_bind [OF keeps_observer [OF observer_basic(2)] triple_bind [OF keeps_observer [OF observer_basic(4)]]])
qed

lemma observed_answered:
  assumes "ledger_inv H cfg g rs" "\<forall>snap. l = LedgerFound snap \<longrightarrow> found i snap g"
  shows "answered H cfg i (observed H l) g rs"
proof (cases l)
  case (LedgerFound snap)
  show ?thesis
  proof (cases "ledger_outcome H (snap_record snap) (snap_started snap) (map_option receipt_job (snap_receipt snap))")
    case (Inr out)
    show ?thesis
    proof (cases "snap_receipt snap")
      case None
      with Inr LedgerFound assms(1) show ?thesis
        by (auto simp: observed_def answered_def ledger_outcome_def res_simps split: if_splits ledger_phase.splits)
    next
      case (Some v)
      with Inr have "out = RSubmitted (receipt_job v)" by (auto dest: ledger_outcome_receipt)
      with Inr LedgerFound assms receipt_backed [OF _ _ Some] show ?thesis
        by (auto simp: observed_def answered_def)
    qed
  qed (use LedgerFound assms in \<open>simp add: observed_def answered_def\<close>)
qed (use assms in \<open>simp_all add: observed_def answered_def\<close>)

lemma triple_handle_submit:
  "triple (ledger_inv H cfg) (handle_submit H cfg admitted i) (\<lambda>r. answered H cfg i (outcome r)) (ledger_inv H cfg)"
proof -
  have ret: "triple (\<lambda>g rs. ledger_inv H cfg g rs \<and> (\<forall>snap. l = LedgerFound snap \<longrightarrow> found i snap g))
      (h_return (observed H l)) (answered H cfg i) (ledger_inv H cfg)" for l
    by (rule triple_return) (auto intro: observed_answered)
  have missing: "triple (ledger_inv H cfg) (h_return (RRejected Unprepared)) (answered H cfg i) (ledger_inv H cfg)"
    by (rule triple_return) (simp add: answered_def)
  have unknown: "triple (ledger_inv H cfg) (h_return (observed H (LedgerUnknown r))) (answered H cfg i)
      (ledger_inv H cfg)" for r
    using ret [of "LedgerUnknown r"] by simp
  have conflict: "triple (ledger_inv H cfg) (h_return (observed H LedgerConflict)) (answered H cfg i)
      (ledger_inv H cfg)"
    using ret [of LedgerConflict] by simp
  show ?thesis
    unfolding handle_submit_def
    apply (rule triple_handle_locked)
    subgoal for l
      by (cases l) (simp_all add: missing unknown conflict triple_submit)
    done
qed

lemma triple_handle_inspect:
  "triple (ledger_inv H cfg) (handle_inspect H cfg admitted i) (\<lambda>r. answered H cfg i (outcome r)) (ledger_inv H cfg)"
  unfolding handle_inspect_def
  by (rule triple_handle_locked, rule triple_return) (auto intro: observed_answered)

lemma tripleD_weak:
  assumes "triple P m Q E" "P (gateway w) (runs w)" "m w = (r, w')" "\<And>x g rs. Q x g rs \<Longrightarrow> E g rs"
  shows "E (gateway w') (runs w')"
  using tripleD [OF assms(1-3)] assms(4) by (cases r) auto

lemma helper_step_inv:
  assumes "helper_step H cfg admitted w w'" "ledger_inv H cfg (gateway w) (runs w)"
  shows "ledger_inv H cfg (gateway w') (runs w')"
  using assms(1)
proof (cases rule: helper_step.cases)
  case (initialized r)
  then show ?thesis by (rule tripleD_weak [OF keeps_initialize assms(2)])
next
  case (begun i manifest script r)
  then show ?thesis by (rule tripleD_weak [OF keeps_prepare_begin assms(2)])
next
  case (finished i manifest script r)
  then show ?thesis by (rule tripleD_weak [OF keeps_prepare_finish assms(2)])
next
  case (submitted i r)
  then show ?thesis by (rule tripleD_weak [OF triple_handle_submit assms(2)]) (rule answered_inv)
next
  case (inspected i r)
  then show ?thesis by (rule tripleD_weak [OF triple_handle_inspect assms(2)]) (rule answered_inv)
qed (use assms(2) in simp)

lemma reachable_inv: "helper_reachable H cfg admitted w \<Longrightarrow> ledger_inv H cfg (gateway w) (runs w)"
  unfolding helper_reachable_def
proof (induction rule: rtranclp_induct)
  case base
  show ?case by (simp add: empty_world_def ledger_inv_def claim_ok_def runs_of_def)
next
  case (step y z)
  then show ?case using helper_step_inv by blast
qed

text \<open>C2. The scheduler is asked at most once per Attempt. Whatever requests a gateway handles, in
  whatever order, with whatever faults, crashes and lost answers, for every Attempt at most one
  \<open>sbatch\<close> is ever executed. It was executed for the intent that the Attempt's claim in the ledger
  holds, after its start was written there: its arguments are the job name and the marker of that
  intent, and the digest of its input is the script digest of that intent.\<close>

theorem sbatch_runs_at_most_once:
  assumes "helper_reachable H cfg admitted w"
  shows "length (runs_of s (runs w)) \<le> 1 \<and>
    (\<forall>r \<in> set (runs_of s (runs w)). \<exists>dir i marker. claim_of (gateway w) s = Some dir \<and>
       intent_file dir = Holds i \<and> scope i = s \<and> start_file dir \<noteq> Absent \<and>
       submission_marker (submission_token i) = Inr marker \<and>
       run_argv r = [config_sbatch cfg, ''--parsable'', ''--job-name='' @ scheduler_name i,
         ''--comment='' @ marker] \<and>
       sha256_bytes H (run_input r) = script_sha256 i)"
proof -
  have "claim_ok H cfg s (claim_of (gateway w) s) (runs_of s (runs w))"
    using reachable_inv [OF assms] by (simp add: ledger_inv_def)
  then show ?thesis by (auto simp: claim_ok_def run_for_def sbatch_arguments_def res_simps)
qed


section \<open>A sample gateway\<close>

definition sample_hashing :: "unit hashing" where
  "sample_hashing = \<lparr>floats = \<lparr>as_f64 = (\<lambda>_. None), is_finite = (\<lambda>_. True), is_zero = (\<lambda>_. True),
     positive_zero = (), format_finite = (\<lambda>_. ''0.0'')\<rparr>,
     writer = (\<lambda>s. [CHR 0x22] @ s @ [CHR 0x22]), sha_hex = (\<lambda>_. replicate 64 CHR ''a'')\<rparr>"

definition sample_digest :: string where
  "sample_digest = ''sha256:'' @ replicate 64 CHR ''a''"

definition sample_intent :: frozen_intent where
  "sample_intent = \<lparr>
     target = \<lparr>backend_id = ''cluster'', profile_sha256 = sample_digest, storage_scope = sample_digest\<rparr>,
     scope = \<lparr>project = ''demo'', run_id = ''train'', attempt_id = ''attempt-001''\<rparr>,
     staging = \<lparr>runs_root = ''/shared/runs'', worker = \<lparr>program = ''/opt/worker'',
       base_environment = [(''PATH'', ''/usr/bin'')], runtime_environment = []\<rparr>\<rparr>,
     submission_token = replicate 32 CHR ''b'', scheduler_name = ''train--attempt-001'',
     manifest_sha256 = sample_digest, script_sha256 = sample_digest\<rparr>"

definition sample_helper :: helper_config where
  "sample_helper = \<lparr>config_target = target sample_intent, config_shared_root = Some ''/shared/runs'',
     config_storage = Some ''device'', config_sbatch = ''/usr/bin/sbatch''\<rparr>"

definition sample_script :: string where
  "sample_script = ''#!/bin/sh'' @ [CHR 0x0A] @ ''#SBATCH --job-name=train--attempt-001'' @ [CHR 0x0A] @
     ''#SBATCH --comment=ml-exp-'' @ replicate 32 CHR ''b'' @ [CHR 0x0A]"

definition sample_result :: process_result where
  "sample_result = \<lparr>exit_code = Some 0, timed_out = False, was_cancelled = False, process_failure = False,
     stdin_complete = True, stdout_complete = True, stdout_truncated = False,
     stdout_text = Some (''4711'' @ [CHR 0x0A])\<rparr>"

abbreviation admits_all :: "frozen_intent \<Rightarrow> string \<Rightarrow> helper_error + unit" where
  "admits_all \<equiv> \<lambda>_ _. Inr ()"

text \<open>The stages of one submission, with the answers the environment will give next.\<close>

definition sample_gateway :: "ledger_record slot \<Rightarrow> started slot \<Rightarrow> receipt slot \<Rightarrow> gateway" where
  "sample_gateway st start rcpt = \<lparr>
     marker_file = Holds \<lparr>marker_version = 1, marker_target = target sample_intent,
       marker_storage = Some ''device''\<rparr>,
     registry_file = Holds \<lparr>registry_version = 1, registry_claims = [(sample_digest, sample_digest)]\<rparr>,
     claim_dirs = [(scope sample_intent, \<lparr>state_file = st, intent_file = Holds sample_intent,
       manifest_file = Holds ''manifest'', script_file = Holds sample_script, start_file = start,
       receipt_file = rcpt\<rparr>)]\<rparr>"

definition sample_record :: "ledger_phase \<Rightarrow> ledger_record" where
  "sample_record ph = \<lparr>version = 1, intent = sample_intent, phase = ph\<rparr>"

definition sample_begun :: world where
  "sample_begun = \<lparr>gateway = sample_gateway Absent Absent Absent, faults = [],
     verdicts = [True, False, True, False, True, True, False], results = [sample_result], runs = []\<rparr>"

definition sample_prepared :: world where
  "sample_prepared = \<lparr>gateway = sample_gateway (Holds (sample_record PhasePrepared)) Absent Absent,
     faults = [], verdicts = [False, True, True, False], results = [sample_result], runs = []\<rparr>"

definition sample_run :: sbatch_run where
  "sample_run = \<lparr>run_scope = scope sample_intent, run_argv = [''/usr/bin/sbatch'', ''--parsable'',
     ''--job-name=train--attempt-001'', ''--comment=ml-exp-'' @ replicate 32 CHR ''b''],
     run_input = sample_script, run_result = Some sample_result\<rparr>"

definition sample_submitted :: world where
  "sample_submitted = \<lparr>gateway = sample_gateway (Holds (sample_record (PhaseSubmitted ''4711'')))
       (Holds \<lparr>started_version = 1, started_intent = sample_digest\<rparr>)
       (Holds \<lparr>receipt_version = 1, receipt_intent = sample_digest, receipt_job = ''4711''\<rparr>),
     faults = [], verdicts = [], results = [], runs = [sample_run]\<rparr>"

definition sample_started :: world where
  "sample_started = (snd (initialize sample_helper empty_world))
     \<lparr>faults := [], verdicts := [False, False, True, False, True, False, True, True, False],
      results := [sample_result]\<rparr>"

lemma sample_begins:
  "prepare_begin sample_hashing sample_helper admits_all sample_intent ''manifest'' sample_script sample_started
     = (Inr None, sample_begun)"
  by code_simp

lemma sample_finishes:
  "snd (prepare_finish sample_hashing sample_helper admits_all sample_intent ''manifest'' sample_script sample_begun)
     = sample_prepared"
  by code_simp

lemma sample_submits:
  "case handle_submit sample_hashing sample_helper admits_all sample_intent sample_prepared of
     (r, w) \<Rightarrow> w = sample_submitted \<and> map_option outcome (ok r) = Some (RSubmitted ''4711'')"
  by code_simp

lemma sample_reachable:
  "helper_reachable sample_hashing sample_helper admits_all sample_prepared"
  "helper_reachable sample_hashing sample_helper admits_all sample_submitted"
proof -
  let ?step = "helper_step sample_hashing sample_helper admits_all"
  have "?step empty_world (snd (initialize sample_helper empty_world))"
    by (rule initialized) (rule prod.collapse [symmetric])
  moreover have "?step (snd (initialize sample_helper empty_world)) sample_started"
    unfolding sample_started_def by (rule environment)
  moreover have "?step sample_started sample_begun"
    by (rule begun) (rule sample_begins)
  moreover have "?step sample_begun sample_prepared"
  proof -
    obtain r w where r: "prepare_finish sample_hashing sample_helper admits_all sample_intent ''manifest''
        sample_script sample_begun = (r, w)" by (rule prod.exhaust)
    then have "w = sample_prepared" using sample_finishes by (simp only: snd_conv)
    with r show ?thesis by (simp only: finished)
  qed
  ultimately show p: "helper_reachable sample_hashing sample_helper admits_all sample_prepared"
    unfolding helper_reachable_def by (meson rtranclp.rtrancl_into_rtrancl rtranclp.rtrancl_refl)
  have "?step sample_prepared sample_submitted"
  proof -
    obtain r w where r: "handle_submit sample_hashing sample_helper admits_all sample_intent sample_prepared = (r, w)"
      by (rule prod.exhaust)
    then have "w = sample_submitted" using sample_submits by (simp only: prod.case)
    with r show ?thesis by (simp only: submitted)
  qed
  with p show "helper_reachable sample_hashing sample_helper admits_all sample_submitted"
    unfolding helper_reachable_def by (rule rtranclp.rtrancl_into_rtrancl)
qed

theorem sbatch_runs_at_most_once_witness:
  "runs_of (scope sample_intent) (runs sample_submitted) = [sample_run] \<and>
   (\<exists>dir i. claim_of (gateway sample_submitted) (scope sample_intent) = Some dir \<and> intent_file dir = Holds i \<and>
      sha256_bytes sample_hashing (run_input sample_run) = script_sha256 i)"
proof -
  have "runs_of (scope sample_intent) (runs sample_submitted) = [sample_run]"
    by (simp add: sample_submitted_def runs_of_def sample_run_def)
  then show ?thesis
    using sbatch_runs_at_most_once [OF sample_reachable(2), of "scope sample_intent"] by auto
qed


end
