(* ===== verification/Checkpoints.thy ===== *)
theory Checkpoints
  imports CanonicalUnique Identity Slurm Distribution
begin

text \<open>
  Persistent checkpoints (\<open>rust/crates/core/src/checkpoints.rs\<close>): the ready manifest of a worker, the
  immutable document and its identity, registration, restore plans and the rule that a generation
  keeps its manifest. Checkpoint bytes never appear here. The double printer, the string writer and
  SHA-256 are the parameters \<open>F\<close>, \<open>W\<close> and \<open>sha\<close>; \<open>clock\<close> parses RFC 3339.
\<close>

datatype checkpoint_error =
    CManifest | CIdentity | CGenerationConflict | CDocument | CTimestamp | CStorageScope

abbreviation MANIFEST_LIMIT :: nat where "MANIFEST_LIMIT \<equiv> 262144"
abbreviation MAX_FILES :: nat where "MAX_FILES \<equiv> 20000"
abbreviation MAX_PATH_BYTES :: nat where "MAX_PATH_BYTES \<equiv> 4096"
abbreviation MAX_GENERATION_BYTES :: nat where "MAX_GENERATION_BYTES \<equiv> 128"

record file_record =
  file_path :: string
  file_bytes :: nat
  file_sha :: string

record checkpoint_manifest =
  ck_step :: nat
  ck_files :: "file_record list"
  ck_generation :: string

record checkpoint_context =
  ctx_project :: string
  ctx_run :: string
  ctx_attempt :: string
  ctx_source :: string
  ctx_image :: string
  ctx_scope :: string
  ctx_root :: string

record restore_plan_record =
  plan_checkpoint :: string
  plan_step :: nat
  plan_generation :: string
  plan_root :: string
  plan_files :: "file_record list"

section \<open>Bounded fields\<close>

definition exact_keys :: "json \<Rightarrow> string list \<Rightarrow> checkpoint_error + jobject" where
  "exact_keys v ks =
     and_then (ok_or (as_object v) CManifest) (\<lambda>m.
     if length m \<noteq> length ks \<or> list_ex (\<lambda>k. \<not> obj_has m k) ks then Inl CManifest else Inr m)"

definition bounded_string :: "jobject \<Rightarrow> string \<Rightarrow> nat \<Rightarrow> checkpoint_error + string" where
  "bounded_string m k maximum =
     and_then (ok_or (Option.bind (obj_get m k) as_str) CManifest) (\<lambda>s.
     if s = [] \<or> length s > maximum \<or> CHR 0x5C \<in> set s \<or> NUL \<in> set s then Inl CManifest else Inr s)"

definition sha256_text :: "string \<Rightarrow> bool" where
  "sha256_text s \<longleftrightarrow> length s = 64 \<and> list_all is_lower_hex s"

definition generation_name :: "string \<Rightarrow> bool" where
  "generation_name s \<longleftrightarrow>
     s \<noteq> [] \<and> length s \<le> MAX_GENERATION_BYTES \<and> is_ascii_alphanumeric (hd s) \<and>
     list_all (\<lambda>c. is_ascii_alphanumeric c \<or> c \<in> {CHR ''_'', CHR ''.'', CHR ''-''}) (tl s)"

definition checkpoint_path :: "string \<Rightarrow> checkpoint_error + string \<times> string" where
  "checkpoint_path s =
     (if s = [] \<or> length s > MAX_PATH_BYTES \<or> CHR 0x5C \<in> set s \<or> NUL \<in> set s then Inl CManifest
      else let parts = split_on CHR ''/'' s in
        if length parts < 3 \<or>
           list_ex (\<lambda>p. p = [] \<or> p = ''.'' \<or> p = ''..'' \<or> starts_with ''.'' p) parts \<or>
           parts ! 0 \<noteq> ''checkpoints'' \<or> \<not> generation_name (parts ! 1)
        then Inl CManifest else Inr (parts ! 1, s))"

definition bounded_manifest :: "(string \<Rightarrow> string) \<Rightarrow> json \<Rightarrow> checkpoint_error + unit" where
  "bounded_manifest W v = (if length (json_text W v) > MANIFEST_LIMIT then Inl CManifest else Inr ())"

section \<open>The ready manifest\<close>

definition file_row :: "json \<Rightarrow> checkpoint_error + file_record \<times> string" where
  "file_row row =
     and_then (exact_keys row [''path'', ''bytes'', ''sha256'']) (\<lambda>m.
     and_then (bounded_string m ''path'' MAX_PATH_BYTES) (\<lambda>path.
     and_then (checkpoint_path path) (\<lambda>(generation, _).
     and_then (ok_or (Option.bind (Option.bind (obj_get m ''bytes'') as_u64)
         (\<lambda>n. if n < 2 ^ 63 then Some n else None)) CManifest) (\<lambda>bytes.
     and_then (bounded_string m ''sha256'' 64) (\<lambda>sha.
     if \<not> sha256_text sha then Inl CManifest
     else Inr (\<lparr>file_path = path, file_bytes = bytes, file_sha = sha\<rparr>, generation))))))"

fun file_rows :: "string list \<Rightarrow> json list \<Rightarrow> checkpoint_error + (file_record \<times> string) list" where
  "file_rows seen [] = Inr []"
| "file_rows seen (row # rows) =
     and_then (file_row row) (\<lambda>(file, generation).
     if file_path file \<in> set seen then Inl CManifest
     else and_then (file_rows (file_path file # seen) rows) (\<lambda>rest. Inr ((file, generation) # rest)))"

text \<open>The one generation of the collected set, and the sorted files.\<close>

definition one_generation :: "(file_record \<times> string) list \<Rightarrow> checkpoint_error + string" where
  "one_generation found = (case remdups (map snd found) of [g] \<Rightarrow> Inr g | _ \<Rightarrow> Inl CManifest)"

definition manifest_rows :: "nat \<Rightarrow> json list \<Rightarrow> checkpoint_error + checkpoint_manifest" where
  "manifest_rows step rows =
     (if rows = [] \<or> length rows > MAX_FILES then Inl CManifest
      else
      and_then (file_rows [] rows) (\<lambda>found.
      and_then (one_generation found) (\<lambda>generation.
        Inr \<lparr>ck_step = step, ck_files = sort_key file_path (map fst found), ck_generation = generation\<rparr>)))"

definition manifest_of :: "(string \<Rightarrow> string) \<Rightarrow> json \<Rightarrow> checkpoint_error + checkpoint_manifest" where
  "manifest_of W v =
     and_then (exact_keys v [''step'', ''files'']) (\<lambda>m.
     and_then (bounded_manifest W v) (\<lambda>_.
     and_then (ok_or (Option.bind (obj_get m ''step'') as_u64) CManifest) (\<lambda>step.
     and_then (ok_or (Option.bind (obj_get m ''files'') as_array) CManifest) (\<lambda>rows.
       manifest_rows step rows))))"

section \<open>Contexts and documents\<close>

definition source_id :: "string \<Rightarrow> bool" where
  "source_id s \<longleftrightarrow> (case strip_prefix ''source.'' s of Some d \<Rightarrow> archive_digest d | None \<Rightarrow> False)"

definition context_of :: "json \<Rightarrow> checkpoint_error + checkpoint_context" where
  "context_of v =
     and_then (ok_or (as_object v) CManifest) (\<lambda>m.
     and_then (require (length m = 7) CIdentity) (\<lambda>_.
     and_then (bounded_string m ''project'' 128) (\<lambda>p.
     and_then (bounded_string m ''run_id'' 128) (\<lambda>r.
     and_then (bounded_string m ''attempt_id'' 128) (\<lambda>a.
     and_then (map_err (\<lambda>_. CIdentity) (validate_id p)) (\<lambda>_.
     and_then (map_err (\<lambda>_. CIdentity) (validate_id r)) (\<lambda>_.
     and_then (map_err (\<lambda>_. CIdentity) (validate_attempt a)) (\<lambda>_.
     and_then (bounded_string m ''source_id'' 128) (\<lambda>src.
     and_then (require (source_id src) CIdentity) (\<lambda>_.
     and_then (bounded_string m ''image_id'' 512) (\<lambda>image.
     and_then (bounded_string m ''storage_scope'' 256) (\<lambda>scope.
     and_then (bounded_string m ''state_root'' 4096) (\<lambda>root.
     and_then (require (starts_with ''/'' root \<and> ''..'' \<notin> set (split_on CHR ''/'' root)) CIdentity) (\<lambda>_.
       Inr \<lparr>ctx_project = p, ctx_run = r, ctx_attempt = a, ctx_source = src, ctx_image = image,
               ctx_scope = scope, ctx_root = root\<rparr>))))))))))))))"

definition context_keys :: "string list" where
  "context_keys = [''project'', ''run_id'', ''attempt_id'', ''source_id'', ''image_id'',
     ''storage_scope'', ''state_root'']"

definition context_members :: "checkpoint_context \<Rightarrow> jobject" where
  "context_members c =
     [(''project'', JStr (ctx_project c)), (''run_id'', JStr (ctx_run c)),
      (''attempt_id'', JStr (ctx_attempt c)), (''source_id'', JStr (ctx_source c)),
      (''image_id'', JStr (ctx_image c)), (''storage_scope'', JStr (ctx_scope c)),
      (''state_root'', JStr (ctx_root c))]"

definition file_value :: "file_record \<Rightarrow> json" where
  "file_value f =
     JObj [(''path'', JStr (file_path f)), (''bytes'', jnat (file_bytes f)), (''sha256'', JStr (file_sha f))]"

definition file_values :: "file_record list \<Rightarrow> json list" where
  "file_values fs = map file_value fs"

text \<open>What the identity covers.\<close>

definition base_members :: "checkpoint_context \<Rightarrow> checkpoint_manifest \<Rightarrow> jobject" where
  "base_members c m =
     obj_insert ''files'' (JArr (file_values (ck_files m)))
       (obj_insert ''step'' (jnat (ck_step m))
         (obj_insert ''schema_version'' (jnat 1) (context_members c)))"

definition identity_digest ::
    "'f float_ops \<Rightarrow> (string \<Rightarrow> string) \<Rightarrow> (string \<Rightarrow> string) \<Rightarrow> json \<Rightarrow> checkpoint_error + string" where
  "identity_digest F W sha v =
     and_then (map_err (\<lambda>_. CDocument) (canonical_digest F W sha v)) (\<lambda>d. Inr (''checkpoint.'' @ d))"

definition document ::
    "'f float_ops \<Rightarrow> (string \<Rightarrow> string) \<Rightarrow> (string \<Rightarrow> string) \<Rightarrow> checkpoint_context \<Rightarrow> json
     \<Rightarrow> checkpoint_error + json" where
  "document F W sha c ready =
     and_then (context_of (JObj (context_members c))) (\<lambda>_.
     and_then (manifest_of W ready) (\<lambda>m.
     and_then (identity_digest F W sha (JObj (base_members c m))) (\<lambda>i.
       Inr (JObj (obj_insert ''checkpoint_id'' (JStr i) (base_members c m))))))"

definition valid_checkpoint_id :: "string \<Rightarrow> bool" where
  "valid_checkpoint_id s \<longleftrightarrow>
     (case strip_prefix ''checkpoint.'' s of Some d \<Rightarrow> sha256_text d | None \<Rightarrow> False)"

definition validate_checkpoint_id :: "string \<Rightarrow> checkpoint_error + string" where
  "validate_checkpoint_id s =
     (if \<not> starts_with ''checkpoint.'' s \<or> \<not> valid_checkpoint_id s then Inl CIdentity else Inr s)"

fun pick_members :: "jobject \<Rightarrow> string list \<Rightarrow> checkpoint_error + jobject" where
  "pick_members m [] = Inr []"
| "pick_members m (k # ks) =
     and_then (ok_or (obj_get m k) CDocument) (\<lambda>v.
     and_then (pick_members m ks) (\<lambda>rest. Inr ((k, v) # rest)))"

definition validate_document ::
    "'f float_ops \<Rightarrow> (string \<Rightarrow> string) \<Rightarrow> (string \<Rightarrow> string) \<Rightarrow> json \<Rightarrow> checkpoint_context option
     \<Rightarrow> string option \<Rightarrow> checkpoint_error + checkpoint_context \<times> checkpoint_manifest" where
  "validate_document F W sha v expected_context expected_id =
     and_then (ok_or (as_object v) CManifest) (\<lambda>m.
     and_then (require
       (Option.bind (obj_get m ''schema_version'') as_u64 = Some 1 \<and>
        valid_checkpoint_id (case Option.bind (obj_get m ''checkpoint_id'') as_str of
            Some s \<Rightarrow> s | None \<Rightarrow> [])) CDocument) (\<lambda>_.
     and_then (pick_members m context_keys) (\<lambda>fields.
     and_then (context_of (JObj fields)) (\<lambda>c.
     and_then (require (expected_context = None \<or> expected_context = Some c) CDocument) (\<lambda>_.
     and_then (require
       (expected_id = None \<or> map_option JStr expected_id = obj_get m ''checkpoint_id'') CDocument) (\<lambda>_.
     and_then (pick_members m [''step'', ''files'']) (\<lambda>ready.
     and_then (manifest_of W (JObj ready)) (\<lambda>man.
     and_then (document F W sha c (JObj ready)) (\<lambda>expected.
     and_then (require (jget expected ''checkpoint_id'' = obj_get m ''checkpoint_id'') CDocument) (\<lambda>_.
       Inr (c, man)))))))))))"

section \<open>Registration and restoring\<close>

definition register ::
    "'f float_ops \<Rightarrow> (string \<Rightarrow> string) \<Rightarrow> (string \<Rightarrow> string) \<Rightarrow> (string \<Rightarrow> int option) \<Rightarrow> json \<Rightarrow> string
     \<Rightarrow> checkpoint_error + json" where
  "register F W sha clock v at =
     and_then (validate_document F W sha v None None) (\<lambda>_.
     if clock at = None then Inl CTimestamp
     else
     and_then (ok_or (as_object v) CManifest) (\<lambda>m.
       Inr (JObj (obj_insert ''registered_at'' (JStr at)
         (obj_insert ''verification'' (JStr ''worker-sha256'')
           (obj_insert ''status'' (JStr ''REGISTERED'') m))))))"

definition restore_plan ::
    "'f float_ops \<Rightarrow> (string \<Rightarrow> string) \<Rightarrow> (string \<Rightarrow> string) \<Rightarrow> json \<Rightarrow> string option
     \<Rightarrow> checkpoint_error + restore_plan_record" where
  "restore_plan F W sha v expected_scope =
     and_then (validate_document F W sha v None None) (\<lambda>(c, m).
     and_then (require (expected_scope = None \<or> expected_scope = Some (ctx_scope c)) CStorageScope) (\<lambda>_.
     and_then (ok_or (jget_str v ''checkpoint_id'') CDocument) (\<lambda>i.
       Inr \<lparr>plan_checkpoint = i, plan_step = ck_step m, plan_generation = ck_generation m,
            plan_root = ctx_root c, plan_files = ck_files m\<rparr>)))"

record reference =
  ref_run :: string
  ref_attempt :: string
  ref_checkpoint :: string

definition validate_reference :: "reference \<Rightarrow> checkpoint_error + unit" where
  "validate_reference r =
     and_then (map_err (\<lambda>_. CIdentity) (validate_id (ref_run r))) (\<lambda>_.
     and_then (map_err (\<lambda>_. CIdentity) (validate_attempt (ref_attempt r))) (\<lambda>_.
     and_then (validate_checkpoint_id (ref_checkpoint r)) (\<lambda>_. Inr ())))"

definition selected_at ::
    "'f float_ops \<Rightarrow> (string \<Rightarrow> string) \<Rightarrow> (string \<Rightarrow> string) \<Rightarrow> (string \<Rightarrow> int option) \<Rightarrow> reference \<Rightarrow> json
     \<Rightarrow> string \<Rightarrow> string \<Rightarrow> string \<Rightarrow> checkpoint_error + restore_plan_record" where
  "selected_at F W sha clock r v project storage_scope state_root =
     and_then (validate_reference r) (\<lambda>_.
     and_then (validate_document F W sha v None (Some (ref_checkpoint r))) (\<lambda>(c, _).
     and_then (require
       (ctx_project c = project \<and> ctx_run c = ref_run r \<and> ctx_attempt c = ref_attempt r \<and>
        ctx_root c = state_root \<and> jget v ''status'' = Some (JStr ''REGISTERED'') \<and>
        jget v ''verification'' = Some (JStr ''worker-sha256'') \<and>
        Option.bind (jget_str v ''registered_at'') clock \<noteq> None) CIdentity) (\<lambda>_.
       restore_plan F W sha v (Some storage_scope))))"

definition selected ::
    "'f float_ops \<Rightarrow> (string \<Rightarrow> string) \<Rightarrow> (string \<Rightarrow> string) \<Rightarrow> (string \<Rightarrow> int option) \<Rightarrow> reference \<Rightarrow> json
     \<Rightarrow> string \<Rightarrow> string \<Rightarrow> string \<Rightarrow> checkpoint_error + restore_plan_record" where
  "selected F W sha clock r v project storage_scope runs_root =
     selected_at F W sha clock r v project storage_scope
       (runs_root @ ''/'' @ project @ ''/'' @ ref_run r @ ''/attempts/'' @ ref_attempt r @ ''/state'')"

fun ensure_generation_compatible ::
    "'f float_ops \<Rightarrow> (string \<Rightarrow> string) \<Rightarrow> (string \<Rightarrow> string) \<Rightarrow> json list \<Rightarrow> json \<Rightarrow> checkpoint_error + unit" where
  "ensure_generation_compatible F W sha [] candidate =
     and_then (validate_document F W sha candidate None None) (\<lambda>_. Inr ())"
| "ensure_generation_compatible F W sha (v # vs) candidate =
     and_then (validate_document F W sha candidate None None) (\<lambda>(_, cm).
     and_then (validate_document F W sha v None None) (\<lambda>(_, em).
     if ck_generation em = ck_generation cm \<and> jget v ''checkpoint_id'' \<noteq> jget candidate ''checkpoint_id''
     then Inl CGenerationConflict
     else ensure_generation_compatible F W sha vs candidate))"


section \<open>What the ready manifest promises\<close>

lemma exact_keys_Inr: "exact_keys v ks = Inr m \<longleftrightarrow> v = JObj m \<and> length m = length ks \<and> list_all (obj_has m) ks"
  by (auto simp: exact_keys_def res_simps list_all_iff list_ex_iff split: if_splits)

lemma bounded_string_Inr:
  "bounded_string m k n = Inr s \<longleftrightarrow>
     obj_get m k = Some (JStr s) \<and> s \<noteq> [] \<and> length s \<le> n \<and> CHR 0x5C \<notin> set s \<and> NUL \<notin> set s"
  by (cases "obj_get m k") (auto simp: bounded_string_def res_simps split: if_splits)

text \<open>A well-formed file record of a generation.\<close>

definition file_wf :: "string \<Rightarrow> file_record \<Rightarrow> bool" where
  "file_wf g f \<longleftrightarrow>
     checkpoint_path (file_path f) = Inr (g, file_path f) \<and> file_bytes f < 2 ^ 63 \<and>
     sha256_text (file_sha f)"

lemma checkpoint_path_Inr:
  "checkpoint_path s = Inr (g, t) \<longleftrightarrow>
     t = s \<and> s \<noteq> [] \<and> length s \<le> MAX_PATH_BYTES \<and> CHR 0x5C \<notin> set s \<and> NUL \<notin> set s \<and>
     g = split_on CHR ''/'' s ! 1 \<and> split_on CHR ''/'' s ! 0 = ''checkpoints'' \<and>
     3 \<le> length (split_on CHR ''/'' s) \<and> generation_name g \<and>
     list_all (\<lambda>p. p \<noteq> [] \<and> \<not> starts_with ''.'' p) (split_on CHR ''/'' s)"
proof -
  have "p = [] \<or> p = ''.'' \<or> p = ''..'' \<or> starts_with ''.'' p \<longleftrightarrow> p = [] \<or> starts_with ''.'' p" for p
    by (auto simp: starts_with_iff)
  then have "list_ex (\<lambda>p. p = [] \<or> p = ''.'' \<or> p = ''..'' \<or> starts_with ''.'' p) ps \<longleftrightarrow>
      \<not> list_all (\<lambda>p. p \<noteq> [] \<and> \<not> starts_with ''.'' p) ps" for ps
    by (simp add: list_all_iff list_ex_iff)
  then show ?thesis
    by (auto simp add: checkpoint_path_def Let_def not_less linorder_not_le [symmetric])
qed

lemma file_row_Inr:
  "file_row row = Inr (f, g) \<Longrightarrow>
     \<exists>m b. row = JObj m \<and> length m = 3 \<and> obj_get m ''path'' = Some (JStr (file_path f)) \<and>
        obj_get m ''bytes'' = Some b \<and> as_u64 b = Some (file_bytes f) \<and>
        obj_get m ''sha256'' = Some (JStr (file_sha f)) \<and> file_wf g f"
  by (cases f)
    (auto simp: file_row_def file_wf_def res_simps exact_keys_Inr bind_eq_Some_conv
      bounded_string_Inr checkpoint_path_Inr simp del: One_nat_def split: if_splits)

lemma sha256_text_plain:
  "sha256_text s \<Longrightarrow> s \<noteq> [] \<and> length s \<le> 64 \<and> CHR 0x5C \<notin> set s \<and> NUL \<notin> set s"
  by (auto simp: sha256_text_def list_all_iff str_simps)

lemma file_row_intro:
  assumes "row = JObj m" "length m = 3" "obj_get m ''path'' = Some (JStr (file_path f))"
    "obj_get m ''bytes'' = Some b" "as_u64 b = Some (file_bytes f)"
    "obj_get m ''sha256'' = Some (JStr (file_sha f))" "file_wf g f"
  shows "file_row row = Inr (f, g)"
proof -
  have p: "checkpoint_path (file_path f) = Inr (g, file_path f)" and "file_bytes f < 2 ^ 63"
    and sha: "sha256_text (file_sha f)" using assms(7) by (simp_all add: file_wf_def)
  have "exact_keys row [''path'', ''bytes'', ''sha256''] = Inr m"
    using assms by (simp add: exact_keys_Inr obj_has_def)
  moreover have "bounded_string m ''path'' MAX_PATH_BYTES = Inr (file_path f)"
    using assms p by (simp add: bounded_string_Inr checkpoint_path_Inr)
  moreover have "bounded_string m ''sha256'' 64 = Inr (file_sha f)"
    using assms sha sha256_text_plain by (simp add: bounded_string_Inr)
  ultimately show ?thesis
    using assms p sha \<open>file_bytes f < 2 ^ 63\<close> by (cases f) (simp add: file_row_def)
qed

lemma file_row_wf: "file_row row = Inr (f, g) \<Longrightarrow> file_wf g f"
  using file_row_Inr by blast

lemma file_rows_wf:
  "file_rows seen rows = Inr found \<Longrightarrow>
     (\<forall>(f, g) \<in> set found. file_wf g f) \<and> distinct (map (file_path \<circ> fst) found) \<and>
     set (map (file_path \<circ> fst) found) \<inter> set seen = {} \<and> length found = length rows"
proof (induction seen rows arbitrary: found rule: file_rows.induct)
  case (2 seen row rows)
  obtain f g rest where r: "file_row row = Inr (f, g)" "file_path f \<notin> set seen"
    "file_rows (file_path f # seen) rows = Inr rest" "found = (f, g) # rest"
    using "2.prems" by (auto simp: res_simps split: if_splits)
  have "(\<forall>(f, g) \<in> set rest. file_wf g f) \<and> distinct (map (file_path \<circ> fst) rest) \<and>
      set (map (file_path \<circ> fst) rest) \<inter> set (file_path f # seen) = {} \<and> length rest = length rows"
    by (rule "2.IH" [OF r(2,3)])
  with r(2,4) file_row_wf [OF r(1)] show ?case by (auto simp: comp_def)
qed simp

definition manifest_wf :: "checkpoint_manifest \<Rightarrow> bool" where
  "manifest_wf m \<longleftrightarrow>
     ck_step m < u64_limit \<and> ck_files m \<noteq> [] \<and> length (ck_files m) \<le> MAX_FILES \<and>
     list_all (file_wf (ck_generation m)) (ck_files m) \<and>
     sorted (map file_path (ck_files m)) \<and> distinct (map file_path (ck_files m))"

lemma remdups_single: "remdups xs = [g] \<longleftrightarrow> xs \<noteq> [] \<and> (\<forall>x \<in> set xs. x = g)"
proof (induction xs)
  case (Cons x xs)
  then show ?case by (cases "x \<in> set xs"; cases xs) auto
qed simp

lemma one_generation_Inr:
  "one_generation found = Inr g \<longleftrightarrow> found \<noteq> [] \<and> (\<forall>x \<in> set found. snd x = g)"
proof -
  have "one_generation found = Inr g \<longleftrightarrow> remdups (map snd found) = [g]"
    by (auto simp: one_generation_def split: list.splits)
  then show ?thesis by (simp add: remdups_single)
qed

lemma as_u64_bound: "as_u64 v = Some n \<Longrightarrow> n < u64_limit"
  by (cases v) (auto simp: parse_unsigned_def Let_def split: if_splits)

lemma manifest_rows_Inr:
  "manifest_rows step rows = Inr man \<longleftrightarrow>
     (\<exists>found g. rows \<noteq> [] \<and> length rows \<le> MAX_FILES \<and> file_rows [] rows = Inr found \<and>
        found \<noteq> [] \<and> (\<forall>x \<in> set found. snd x = g) \<and>
        man = \<lparr>ck_step = step, ck_files = sort_key file_path (map fst found), ck_generation = g\<rparr>)"
  unfolding manifest_rows_def by (simp add: res_simps one_generation_Inr not_less) blast

lemma bounded_manifest_Inr: "bounded_manifest W v = Inr u \<longleftrightarrow> length (json_text W v) \<le> MANIFEST_LIMIT"
  by (simp add: bounded_manifest_def not_less del: json_text.simps)

lemma manifest_of_Inr:
  assumes "manifest_of W v = Inr man"
  shows "\<exists>m s step rows. v = JObj m \<and> length m = 2 \<and> obj_get m ''step'' = Some s \<and>
        as_u64 s = Some step \<and> obj_get m ''files'' = Some (JArr rows) \<and>
        length (json_text W v) \<le> MANIFEST_LIMIT \<and> manifest_rows step rows = Inr man"
proof -
  obtain m step rows where m: "v = JObj m" "length m = length [''step'', ''files'']"
      "bounded_manifest W v = Inr ()"
      "Option.bind (obj_get m ''step'') as_u64 = Some step"
      "Option.bind (obj_get m ''files'') as_array = Some rows" "manifest_rows step rows = Inr man"
    using assms unfolding manifest_of_def and_then_eq_Inr exact_keys_Inr ok_or_eq_Inr by auto
  then show ?thesis unfolding bounded_manifest_Inr bind_eq_Some_conv as_array_eq_Some by auto
qed

lemma manifest_of_intro:
  assumes "v = JObj m" "length m = 2" "obj_get m ''step'' = Some s" "as_u64 s = Some step"
    "obj_get m ''files'' = Some (JArr rows)" "length (json_text W v) \<le> MANIFEST_LIMIT"
    "manifest_rows step rows = Inr man"
  shows "manifest_of W v = Inr man"
proof -
  have "exact_keys v [''step'', ''files''] = Inr m"
    using assms(1-5) by (simp add: exact_keys_Inr obj_has_def)
  moreover have "bounded_manifest W v = Inr ()"
    using assms(6) by (simp only: bounded_manifest_Inr)
  ultimately show ?thesis using assms(3-5,7) by (simp add: manifest_of_def)
qed

lemma manifest_of_wf: "manifest_of W v = Inr m \<Longrightarrow> manifest_wf m"
proof -
  assume "manifest_of W v = Inr m"
  from manifest_of_Inr [OF this] obtain s step rows found g where r: "as_u64 s = Some step"
      "length rows \<le> MAX_FILES" "file_rows [] rows = Inr found" "found \<noteq> []"
      "\<forall>x \<in> set found. snd x = g"
      "m = \<lparr>ck_step = step, ck_files = sort_key file_path (map fst found), ck_generation = g\<rparr>"
    unfolding manifest_rows_Inr by blast
  note f = file_rows_wf [OF r(3)]
  have "distinct (map file_path (map fst found))" using f by (simp only: map_map)
  then have "distinct (map file_path (sort_key file_path (map fst found)))"
    by (simp only: distinct_map distinct_sort set_sort)
  moreover have "step < u64_limit" using r(1) by (rule as_u64_bound)
  moreover have "sort_key file_path (map fst found) \<noteq> []"
    using r(4) by (metis length_0_conv length_map length_sort)
  ultimately show ?thesis
    using r f by (fastforce simp: manifest_wf_def list_all_iff)
qed

section \<open>Identity\<close>

lemma norm_JObj_get:
  assumes "norm F (JObj m) = norm F (JObj n)" "distinct (obj_keys m)" "distinct (obj_keys n)"
  shows "map_option (norm F) (obj_get m k) = map_option (norm F) (obj_get n k)"
proof -
  have s: "sort_key fst (norm_members F m) = sort_key fst (norm_members F n)" using assms(1) by simp
  then have "set (norm_members F m) = set (norm_members F n)" by (metis set_sort)
  then have "map_of (norm_members F m) = map_of (norm_members F n)"
    using assms by (simp add: map_of_inject_set)
  moreover have "map_of (norm_members F x) k = map_option (norm F) (obj_get x k)" for x
    by (induction x) auto
  ultimately show ?thesis by metis
qed

lemma show_nat_no_mark: "\<not> has_float_mark (show_nat n)"
  using all_digits_show_nat [of n]
  by (auto simp: has_float_mark_def all_digits_def list_ex_iff list_all_iff is_ascii_digit_def byte_def)

lemma number_text_show_nat [simp]: "number_text F (show_nat n) = Inr (show_nat n)"
proof -
  have "show_nat n \<noteq> ''-0''" using hd_show_nat [of n] by (auto simp: is_ascii_digit_def byte_def)
  then show ?thesis by (simp add: number_text_def show_nat_no_mark)
qed

lemma norm_jnat [simp]: "norm F (jnat n) = jnat n"
  by (simp add: jnat_def norm_number_def)

lemma jnat_inject [simp]: "jnat m = jnat n \<longleftrightarrow> m = n"
  by (simp add: jnat_def)

lemma file_values_inject:
  "norm_items F (file_values fs) = norm_items F (file_values gs) \<Longrightarrow> fs = gs"
proof (induction fs arbitrary: gs)
  case Nil
  then show ?case by (cases gs) (auto simp: file_values_def file_value_def)
next
  case (Cons f fs)
  then obtain g gs' where g: "gs = g # gs'" by (cases gs) (auto simp: file_values_def file_value_def)
  let ?o = "\<lambda>f. [(''path'', JStr (file_path f)), (''bytes'', jnat (file_bytes f)), (''sha256'', JStr (file_sha f))]"
  have e: "norm F (JObj (?o f)) = norm F (JObj (?o g))"
    "norm_items F (file_values fs) = norm_items F (file_values gs')"
    using Cons.prems g by (simp_all add: file_values_def file_value_def)
  have "map_option (norm F) (obj_get (?o f) k) = map_option (norm F) (obj_get (?o g) k)" for k
    by (rule norm_JObj_get [OF e(1)]) simp_all
  from this [of "''path''"] this [of "''bytes''"] this [of "''sha256''"] have "f = g" by simp
  with Cons.IH [OF e(2)] g show ?case by simp
qed

lemma base_get:
  "obj_get (base_members c m) k =
     (if k = ''files'' then Some (JArr (file_values (ck_files m)))
      else if k = ''step'' then Some (jnat (ck_step m))
      else if k = ''schema_version'' then Some (jnat 1) else obj_get (context_members c) k)"
  by (simp add: base_members_def)

lemma distinct_base: "distinct (obj_keys (base_members c m))"
  by (simp add: base_members_def distinct_obj_insert context_members_def)

lemma base_inject:
  assumes "norm F (JObj (base_members c m)) = norm F (JObj (base_members d n))"
  shows "c = d \<and> ck_step m = ck_step n \<and> ck_files m = ck_files n"
proof -
  have k: "map_option (norm F) (obj_get (base_members c m) k) =
      map_option (norm F) (obj_get (base_members d n) k)" for k
    by (rule norm_JObj_get [OF assms distinct_base distinct_base])
  have "ck_step m = ck_step n" using k [of "''step''"] by (simp add: base_get)
  moreover have "ck_files m = ck_files n"
    using k [of "''files''"] file_values_inject by (simp add: base_get)
  moreover have "c = d"
    using k [of "''project''"] k [of "''run_id''"] k [of "''attempt_id''"] k [of "''source_id''"]
      k [of "''image_id''"] k [of "''storage_scope''"] k [of "''state_root''"]
    by (simp add: base_get context_members_def)
  ultimately show ?thesis by simp
qed

lemma generation_from_files:
  "manifest_wf m \<Longrightarrow> manifest_wf n \<Longrightarrow> ck_files m = ck_files n \<Longrightarrow> ck_generation m = ck_generation n"
  using list.set_sel(1) [of "ck_files n"]
  by (auto simp: manifest_wf_def file_wf_def list_all_iff)

section \<open>Accepted documents\<close>

lemma pick_members_Inr:
  "pick_members m ks = Inr n \<Longrightarrow> n = map (\<lambda>k. (k, the (obj_get m k))) ks \<and> list_all (obj_has m) ks"
  by (induction m ks arbitrary: n rule: pick_members.induct) (auto simp: res_simps obj_has_def)

lemma context_of_project:
  "context_of v = Inr c \<Longrightarrow>
     is_ok (validate_id (ctx_project c)) \<and> is_ok (validate_id (ctx_run c)) \<and>
     is_ok (validate_attempt (ctx_attempt c)) \<and> ''..'' \<notin> set (split_on CHR ''/'' (ctx_root c))"
  unfolding context_of_def and_then_eq_Inr map_err_eq_Inr require_eq_Inr is_ok_iff by auto

lemma document_Inr:
  assumes "document F W sha c ready = Inr v"
  obtains m t where "manifest_of W ready = Inr m" "canonical_bytes F W (JObj (base_members c m)) = Inr t"
    "v = JObj (obj_insert ''checkpoint_id'' (JStr (''checkpoint.'' @ sha t)) (base_members c m))"
    "\<exists>c'. context_of (JObj (context_members c)) = Inr c'"
  using assms
  unfolding document_def and_then_eq_Inr identity_digest_def map_err_eq_Inr canonical_digest_def by auto

lemma validate_document_Inr:
  assumes "validate_document F W sha v e i = Inr (c, m)"
  obtains fs ready t where "v = JObj fs" "obj_has fs ''checkpoint_id''"
    "context_of (JObj (map (\<lambda>k. (k, the (obj_get fs k))) context_keys)) = Inr c"
    "manifest_of W ready = Inr m" "canonical_bytes F W (JObj (base_members c m)) = Inr t"
    "obj_get fs ''checkpoint_id'' = Some (JStr (''checkpoint.'' @ sha t))"
    "\<And>x. i = Some x \<Longrightarrow> x = ''checkpoint.'' @ sha t"
proof -
  obtain fs fields ready expected where f: "v = JObj fs" "pick_members fs context_keys = Inr fields"
      "context_of (JObj fields) = Inr c" "i = None \<or> map_option JStr i = obj_get fs ''checkpoint_id''"
      "pick_members fs [''step'', ''files''] = Inr ready"
      "manifest_of W (JObj ready) = Inr m" "document F W sha c (JObj ready) = Inr expected"
      "jget expected ''checkpoint_id'' = obj_get fs ''checkpoint_id''"
    using assms
    unfolding validate_document_def and_then_eq_Inr ok_or_eq_Inr require_eq_Inr as_object_eq_Some
    by blast
  obtain t where t: "canonical_bytes F W (JObj (base_members c m)) = Inr t"
      "expected = JObj (obj_insert ''checkpoint_id'' (JStr (''checkpoint.'' @ sha t)) (base_members c m))"
    using f(7) by (rule document_Inr) (simp add: f(6))
  have fields: "fields = map (\<lambda>k. (k, the (obj_get fs k))) context_keys"
    using pick_members_Inr [OF f(2)] by simp
  have i: "obj_get fs ''checkpoint_id'' = Some (JStr (''checkpoint.'' @ sha t))"
    using f(8) by (simp add: t(2))
  show ?thesis
  proof (rule that [OF f(1) _ f(3) [unfolded fields] f(6) t(1) i])
    show "obj_has fs ''checkpoint_id''" using i by (simp add: obj_has_def)
    show "x = ''checkpoint.'' @ sha t" if "i = Some x" for x using f(4) i that by simp
  qed
qed

lemma num_text_show_nat: "num_text (show_nat n)"
  using all_digits_show_nat [of n] hd_show_nat [of n]
  by (auto simp: num_text_def num_char_def all_digits_def list_all_iff)

lemma numbers_ok_base: "numbers_ok (JObj (base_members c m))"
proof -
  have "numbers_ok_items (file_values fs)" for fs
    by (induction fs) (simp_all add: file_values_def file_value_def jnat_def num_text_show_nat)
  then show ?thesis
    by (simp add: base_members_def context_members_def jnat_def num_text_show_nat)
qed

context json_writer
begin

lemma written_base:
  assumes "canonical_bytes F W (JObj (base_members c m)) = Inr t"
    and "canonical_bytes F W (JObj (base_members d n)) = Inr t"
  shows "norm F (JObj (base_members c m)) = norm F (JObj (base_members d n))"
proof -
  have "t = raw W (norm F (JObj (base_members c m)))" "t = raw W (norm F (JObj (base_members d n)))"
    using assms by (simp_all only: canonical_bytes_def write_raw(1))
  then show ?thesis
    using raw_inject numbers_ok_norm(1) [OF numbers_ok_base] by metis
qed

end

section \<open>Round trip\<close>

lemma digits_value_less: "list_all is_ascii_digit s \<Longrightarrow> digits_value s < 10 ^ length s"
proof (induction s rule: rev_induct)
  case (snoc c s)
  then have "byte c - 48 \<le> 9" by (auto simp: is_ascii_digit_def)
  with snoc show ?case by (simp add: digits_value_def)
qed (simp add: digits_value_def)

lemma as_u64_length:
  assumes "as_u64 v = Some n"
  shows "length (show_nat n) \<le> length (json_text W v)"
proof -
  obtain t where t: "v = JNum t" "parse_unsigned u64_limit t = Some n"
    using assms by (cases v) auto
  then obtain ds where ds: "ds \<noteq> []" "all_digits ds" "n = digits_value ds" "length ds \<le> length t"
    by (auto simp: parse_unsigned_def Let_def split: if_splits list.splits)
  then have "length (show_nat n) \<le> length ds"
    using show_nat_Suc_length digits_value_less by (simp add: all_digits_def)
  with ds t show ?thesis by simp
qed

text \<open>An object with given members and no others is one of their orders.\<close>

lemma exact_members:
  assumes "length m = length ps" "distinct (map fst ps)" "\<And>k v. (k, v) \<in> set ps \<Longrightarrow> obj_get m k = Some v"
  shows "mset m = mset ps"
proof -
  have sub: "set ps \<subseteq> set m" using assms(3) by (auto dest: map_of_SomeD)
  have d: "distinct ps" using assms(2) by (simp add: distinct_map)
  have "card (set m) \<le> length m" by (rule card_length)
  then have "card (set m) \<le> card (set ps)" using distinct_card [OF d] assms(1) by simp
  then have "set ps = set m" using sub by (intro card_seteq) simp_all
  moreover from this have "distinct m" using distinct_card [OF d] assms(1) by (simp add: card_distinct)
  ultimately show ?thesis using d by (metis set_eq_iff_mset_eq_distinct)
qed

abbreviation member_length :: "(string \<Rightarrow> string) \<Rightarrow> string \<times> json \<Rightarrow> nat" where
  "member_length W p \<equiv> length (W (fst p)) + length (json_text W (snd p)) + 2"

lemma json_obj_length:
  "m \<noteq> [] \<Longrightarrow> length (json_text W (JObj m)) = sum_mset (image_mset (member_length W) (mset m)) + 1"
  using json_text_obj_length [of W m]
  by (simp add: case_prod_beta' flip: sum_mset_sum_list mset_map)

lemma file_value_length:
  assumes "file_row row = Inr (f, g)"
  shows "length (json_text W (file_value f)) \<le> length (json_text W row)"
proof -
  obtain m b where m: "row = JObj m" "length m = 3" "obj_get m ''path'' = Some (JStr (file_path f))"
      "obj_get m ''bytes'' = Some b" "as_u64 b = Some (file_bytes f)"
      "obj_get m ''sha256'' = Some (JStr (file_sha f))"
    using file_row_Inr [OF assms] by blast
  have s: "mset m = mset [(''path'', JStr (file_path f)), (''bytes'', b), (''sha256'', JStr (file_sha f))]"
    by (rule exact_members) (use m in auto)
  have "m \<noteq> []" using m(2) by auto
  then show ?thesis
    using as_u64_length [OF m(5), of W]
    by (simp add: m(1) json_obj_length s file_value_def jnat_def del: json_text.simps(6))
qed

lemma file_rows_length:
  "file_rows seen rows = Inr found \<Longrightarrow>
     (\<Sum>v \<leftarrow> map (file_value \<circ> fst) found. length (json_text W v) + 1) \<le>
     (\<Sum>v \<leftarrow> rows. length (json_text W v) + 1)"
proof (induction seen rows arbitrary: found rule: file_rows.induct)
  case (2 seen row rows)
  obtain f g rest where r: "file_row row = Inr (f, g)" "file_path f \<notin> set seen"
    "file_rows (file_path f # seen) rows = Inr rest" "found = (f, g) # rest"
    using "2.prems" by (auto simp: res_simps split: if_splits)
  from "2.IH" [OF r(2,3)] file_value_length [OF r(1), of W] r(4) show ?case by simp
qed simp

lemma file_rows_values:
  "list_all (file_wf g) fs \<Longrightarrow> distinct (map file_path fs) \<Longrightarrow> file_path ` set fs \<inter> set seen = {} \<Longrightarrow>
   file_rows seen (file_values fs) = Inr (map (\<lambda>f. (f, g)) fs)"
proof (induction fs arbitrary: seen)
  case (Cons f fs)
  have "file_row (file_value f) = Inr (f, g)"
  proof (rule file_row_intro)
    show "file_value f = JObj [(''path'', JStr (file_path f)), (''bytes'', jnat (file_bytes f)),
        (''sha256'', JStr (file_sha f))]" by (simp add: file_value_def)
    show "as_u64 (jnat (file_bytes f)) = Some (file_bytes f)"
      using Cons.prems(1) by (simp add: file_wf_def)
  qed (use Cons.prems(1) in simp_all)
  moreover have "file_rows (file_path f # seen) (file_values fs) = Inr (map (\<lambda>f. (f, g)) fs)"
    using Cons.prems by (intro Cons.IH) auto
  ultimately show ?case using Cons.prems(3) by (simp add: file_values_def)
qed (simp add: file_values_def)

definition normal_ready :: "checkpoint_manifest \<Rightarrow> jobject" where
  "normal_ready m = [(''step'', jnat (ck_step m)), (''files'', JArr (file_values (ck_files m)))]"

text \<open>The normalised marker of an accepted one is accepted with the same manifest.\<close>

lemma manifest_of_normal:
  assumes "manifest_of W ready = Inr m"
  shows "manifest_of W (JObj (normal_ready m)) = Inr m"
proof -
  obtain o1 s step rows where o1: "ready = JObj o1" "length o1 = 2" "obj_get o1 ''step'' = Some s"
      "as_u64 s = Some step" "obj_get o1 ''files'' = Some (JArr rows)"
      "length (json_text W ready) \<le> MANIFEST_LIMIT" "manifest_rows step rows = Inr m"
    using manifest_of_Inr [OF assms] by blast
  obtain found g where r: "rows \<noteq> []" "length rows \<le> MAX_FILES" "file_rows [] rows = Inr found"
      "found \<noteq> []" "\<forall>x \<in> set found. snd x = g"
      "m = \<lparr>ck_step = step, ck_files = sort_key file_path (map fst found), ck_generation = g\<rparr>"
    using o1(7) unfolding manifest_rows_Inr by blast
  have wf: "manifest_wf m" using assms by (rule manifest_of_wf)
  have rows: "manifest_rows step (file_values (ck_files m)) = Inr m"
    unfolding manifest_rows_Inr
  proof (intro exI conjI)
    show "file_rows [] (file_values (ck_files m)) = Inr (map (\<lambda>f. (f, g)) (ck_files m))"
      using wf r(6) by (intro file_rows_values) (simp_all add: manifest_wf_def)
    show "m = \<lparr>ck_step = step,
        ck_files = sort_key file_path (map fst (map (\<lambda>f. (f, g)) (ck_files m))), ck_generation = g\<rparr>"
      using r(6) by (simp add: sort_key_id_if_sorted comp_def)
  qed (use wf in \<open>auto simp: manifest_wf_def file_values_def\<close>)
  have "mset (map (file_value \<circ> fst) found) = mset (file_values (ck_files m))"
    by (simp add: file_values_def r(6) image_mset.compositionality)
  then have "(\<Sum>v \<leftarrow> file_values (ck_files m). length (json_text W v) + 1) \<le>
      (\<Sum>v \<leftarrow> rows. length (json_text W v) + 1)"
    using file_rows_length [OF r(3), of W] by (metis (no_types) mset_map sum_mset_sum_list)
  then have items: "length (item_text W (file_values (ck_files m))) \<le> length (item_text W rows)"
    using item_text_length [of W rows] item_text_length [of W "file_values (ck_files m)"] r(1) wf
    by (auto simp: manifest_wf_def file_values_def)
  have s: "mset o1 = mset [(''step'', s), (''files'', JArr rows)]"
    by (rule exact_members) (use o1 in auto)
  have "o1 \<noteq> []" using o1(2) by auto
  then have "length (json_text W (JObj (normal_ready m))) \<le> length (json_text W ready)"
    using as_u64_length [OF o1(4), of W] items r(6)
    by (simp add: o1(1) json_obj_length s normal_ready_def jnat_def del: json_text.simps(6))
  then have "length (json_text W (JObj (normal_ready m))) \<le> MANIFEST_LIMIT" using o1(6) by linarith
  moreover have "as_u64 (jnat step) = Some step" using as_u64_bound [OF o1(4)] by simp
  ultimately show ?thesis
    using rows r(6) by (intro manifest_of_intro [OF refl _ _ \<open>as_u64 (jnat step) = Some step\<close>])
      (simp_all add: normal_ready_def)
qed

lemma context_of_members:
  assumes "context_of (JObj (context_members c)) = Inr c'"
  shows "c' = c"
proof -
  note keys = context_members_def
  obtain p r a src image scope root where f:
      "bounded_string (context_members c) ''project'' 128 = Inr p"
      "bounded_string (context_members c) ''run_id'' 128 = Inr r"
      "bounded_string (context_members c) ''attempt_id'' 128 = Inr a"
      "bounded_string (context_members c) ''source_id'' 128 = Inr src"
      "bounded_string (context_members c) ''image_id'' 512 = Inr image"
      "bounded_string (context_members c) ''storage_scope'' 256 = Inr scope"
      "bounded_string (context_members c) ''state_root'' 4096 = Inr root"
      "c' = \<lparr>ctx_project = p, ctx_run = r, ctx_attempt = a, ctx_source = src, ctx_image = image,
               ctx_scope = scope, ctx_root = root\<rparr>"
    using assms unfolding context_of_def and_then_eq_Inr ok_or_eq_Inr as_object_eq_Some by blast
  then show ?thesis by (simp add: bounded_string_Inr context_members_def)
qed

lemma document_accepted:
  assumes d: "document F W sha c ready = Inr (JObj fs)" and m: "manifest_of W ready = Inr m"
    and sha: "\<And>t. sha256_text (sha t)"
    and same: "\<And>k. k \<in> set ([''schema_version'', ''checkpoint_id'', ''step'', ''files''] @ context_keys) \<Longrightarrow>
        obj_get gs k = obj_get fs k"
  shows "validate_document F W sha (JObj gs) None None = Inr (c, m)"
proof -
  obtain t where t: "canonical_bytes F W (JObj (base_members c m)) = Inr t"
      "fs = obj_insert ''checkpoint_id'' (JStr (''checkpoint.'' @ sha t)) (base_members c m)"
      "\<exists>c'. context_of (JObj (context_members c)) = Inr c'"
    using d by (rule document_Inr) (use m in auto)
  have c: "context_of (JObj (context_members c)) = Inr c"
    using t(3) context_of_members by auto
  have get: "obj_get gs k = (if k = ''checkpoint_id'' then Some (JStr (''checkpoint.'' @ sha t))
      else obj_get (base_members c m) k)"
    if "k \<in> set ([''schema_version'', ''checkpoint_id'', ''step'', ''files''] @ context_keys)" for k
    using same [OF that] t(2) by simp
  note ks = get [simplified context_keys_def base_get context_members_def, simplified]
  have "pick_members gs context_keys = Inr (context_members c)"
    by (simp add: context_keys_def context_members_def get base_get)
  moreover have "pick_members gs [''step'', ''files''] = Inr (normal_ready m)"
    by (simp add: normal_ready_def get base_get)
  moreover have "manifest_of W (JObj (normal_ready m)) = Inr m" using m by (rule manifest_of_normal)
  moreover from this have "document F W sha c (JObj (normal_ready m)) = Inr (JObj fs)"
    using t c by (simp add: document_def identity_digest_def canonical_digest_def)
  ultimately show ?thesis
    using c t(2) sha by (simp add: validate_document_def get base_get valid_checkpoint_id_def)
qed

lemma writable_base: "writable F (JObj (base_members c m))"
proof -
  have "writable_items F (file_values fs)" for fs
    by (induction fs) (simp_all add: file_values_def file_value_def jnat_def)
  then show ?thesis by (simp add: base_members_def context_members_def jnat_def)
qed

lemma document_total:
  assumes "context_of (JObj (context_members c)) = Inr c'" "manifest_of W ready = Inr m"
  shows "\<exists>v. document F W sha c ready = Inr v"
proof -
  have "canonical_bytes F W (JObj (base_members c m)) = Inr (raw W (norm F (JObj (base_members c m))))"
    by (simp only: canonical_bytes_def write_eq [OF writable_base])
  with assms show ?thesis by (simp add: document_def identity_digest_def canonical_digest_def)
qed

text \<open>C35. Register and restore. A valid context and an accepted ready marker always give a document; the
  document is accepted with exactly that context and that manifest, it can be registered at any
  time that parses, and the registered document gives the restore plan of those files in that state
  root, whatever spelling of numbers and order of members and files the worker wrote. The hypothesis on
  \<open>sha\<close> is the shape of a hexadecimal SHA-256.\<close>

theorem checkpoint_roundtrip:
  assumes "context_of (JObj (context_members c)) = Inr c'" and "manifest_of W ready = Inr m"
    and "\<And>t. sha256_text (sha t)" and "clock at \<noteq> None"
  shows "\<exists>v r i. document F W sha c ready = Inr v \<and>
    validate_document F W sha v (Some c) None = Inr (c, m) \<and>
    register F W sha clock v at = Inr r \<and> jget_str v ''checkpoint_id'' = Some i \<and>
    restore_plan F W sha r (Some (ctx_scope c)) =
      Inr \<lparr>plan_checkpoint = i, plan_step = ck_step m, plan_generation = ck_generation m,
           plan_root = ctx_root c, plan_files = ck_files m\<rparr>"
proof -
  obtain v where doc: "document F W sha c ready = Inr v" using document_total [OF assms(1,2)] by blast
  obtain t where v: "v = JObj (obj_insert ''checkpoint_id'' (JStr (''checkpoint.'' @ sha t)) (base_members c m))"
    using doc by (rule document_Inr) (use assms(2) in auto)
  let ?fs = "obj_insert ''checkpoint_id'' (JStr (''checkpoint.'' @ sha t)) (base_members c m)"
  let ?gs = "obj_insert ''registered_at'' (JStr at) (obj_insert ''verification'' (JStr ''worker-sha256'')
      (obj_insert ''status'' (JStr ''REGISTERED'') ?fs))"
  note acc = document_accepted [OF doc [unfolded v] assms(2,3)]
  have fs: "validate_document F W sha (JObj ?fs) None None = Inr (c, m)" by (rule acc) simp
  have gs: "validate_document F W sha (JObj ?gs) None None = Inr (c, m)"
    by (rule acc) (auto simp: context_keys_def)
  have "validate_document F W sha v (Some c) None = Inr (c, m)"
    using fs unfolding v validate_document_def and_then_eq_Inr require_eq_Inr ok_or_eq_Inr by auto
  moreover have "register F W sha clock v at = Inr (JObj ?gs)"
    using fs assms(4) by (simp add: register_def v)
  ultimately show ?thesis
    using gs doc by (simp add: restore_plan_def v jget_str_def)
qed

lemma accepted_names:
  "validate_id v = Inr w \<Longrightarrow> path_component v"
  "validate_attempt v = Inr w \<Longrightarrow> path_component v"
  by (auto simp: validate_id_eq_Inr validate_attempt_eq_Inr intro!: id_path_component
      attempt_suffix_id_bytes [simplified]) (simp_all add: str_simps)

lemma resolve_append_plain:
  "list_all (\<lambda>p. p \<noteq> ''.'' \<and> p \<noteq> ''..'') b \<Longrightarrow> resolve acc (a @ b) = resolve acc a @ b"
  by (induction a arbitrary: acc) (simp_all add: resolve_plain)

lemma component_parts: "path_component s \<Longrightarrow> path_parts s = [s]"
  by (simp add: path_component_def path_parts_def split_on_no_sep)

lemma wf_file_parts:
  assumes "file_wf g f"
  shows "\<exists>rest. rest \<noteq> [] \<and> path_parts (file_path f) = ''checkpoints'' # g # rest \<and>
    list_all (\<lambda>p. p \<noteq> ''.'' \<and> p \<noteq> ''..'') (path_parts (file_path f))"
proof -
  let ?s = "split_on CHR ''/'' (file_path f)"
  have s: "?s ! 0 = ''checkpoints''" "g = ?s ! 1" "3 \<le> length ?s"
      "list_all (\<lambda>p. p \<noteq> [] \<and> \<not> starts_with ''.'' p) ?s"
    using assms by (simp_all add: file_wf_def checkpoint_path_Inr)
  then have p: "path_parts (file_path f) = ?s" by (auto simp: path_parts_def list_all_iff)
  obtain a b c rest where r: "?s = a # b # c # rest"
    using s(3) by (metis (no_types, opaque_lifting) Suc_le_length_iff numeral_3_eq_3)
  have "starts_with ''.'' p" if "p = ''.'' \<or> p = ''..''" for p using that by (auto simp: starts_with_iff)
  then have "list_all (\<lambda>p. p \<noteq> ''.'' \<and> p \<noteq> ''..'') ?s" using s(4) by (auto simp: list_all_iff)
  with s p r show ?thesis by simp
qed

lemma state_file_inside:
  assumes "path_component project" "path_component run" "path_component attempt" "file_wf g f"
  shows "\<exists>rest. rest \<noteq> [] \<and>
    resolve [] (path_parts ((runs_root @ ''/'' @ project @ ''/'' @ run @ ''/attempts/'' @ attempt @ ''/state'')
        @ ''/'' @ file_path f)) =
      resolve [] (path_parts runs_root) @ [project, run, ''attempts'', attempt, ''state'', ''checkpoints'', g] @ rest"
proof -
  let ?path = "runs_root @ CHR ''/'' # (project @ CHR ''/'' # (run @ CHR ''/'' # (''attempts'' @ CHR ''/'' #
      (attempt @ CHR ''/'' # (''state'' @ CHR ''/'' # file_path f)))))"
  obtain rest where f: "rest \<noteq> []" "path_parts (file_path f) = ''checkpoints'' # g # rest"
      "list_all (\<lambda>p. p \<noteq> ''.'' \<and> p \<noteq> ''..'') (path_parts (file_path f))"
    using wf_file_parts [OF assms(4)] by blast
  have fixed: "path_component ''attempts''" "path_component ''state''" by (simp_all add: path_component_def)
  let ?b = "[project, run, ''attempts'', attempt, ''state'', ''checkpoints'', g] @ rest"
  have "path_parts ?path = path_parts runs_root @ ?b"
    by (simp only: path_parts_append component_parts assms fixed f(2)) simp
  moreover have "list_all (\<lambda>p. p \<noteq> ''.'' \<and> p \<noteq> ''..'') ?b"
    using f(2,3) assms(1-3) by (simp add: path_component_def)
  ultimately have "resolve [] (path_parts ?path) = resolve [] (path_parts runs_root) @ ?b"
    by (simp add: resolve_append_plain del: append.simps)
  with f(1) show ?thesis by auto
qed

text \<open>C36. A selected checkpoint stays in its Attempt. Restoring the checkpoint a user refers to reads only
  files that resolve, dot names included, strictly below the generation directory in the state of
  exactly the referenced Attempt of the project; the files are sorted, distinct, and each has
  a SHA-256 and a size of less than 2^63.\<close>

theorem selected_files_stay_in_attempt:
  assumes "selected F W sha clock r v project scope runs_root = Inr p"
  shows "plan_checkpoint p = ref_checkpoint r \<and> sorted (map file_path (plan_files p)) \<and>
    distinct (map file_path (plan_files p)) \<and> plan_files p \<noteq> [] \<and>
    (\<forall>f \<in> set (plan_files p). sha256_text (file_sha f) \<and> file_bytes f < 2 ^ 63 \<and>
       (\<exists>rest. rest \<noteq> [] \<and> resolve [] (path_parts (plan_root p @ ''/'' @ file_path f)) =
          resolve [] (path_parts runs_root) @ [project, ref_run r, ''attempts'', ref_attempt r, ''state'',
            ''checkpoints'', plan_generation p] @ rest))"
proof -
  let ?root = "runs_root @ ''/'' @ project @ ''/'' @ ref_run r @ ''/attempts/'' @ ref_attempt r @ ''/state''"
  obtain c m where v: "validate_document F W sha v None (Some (ref_checkpoint r)) = Inr (c, m)"
      "ctx_project c = project" "ctx_run c = ref_run r" "ctx_attempt c = ref_attempt r" "ctx_root c = ?root"
      "restore_plan F W sha v (Some scope) = Inr p"
    using assms
    unfolding selected_def selected_at_def and_then_eq_Inr require_eq_Inr by (auto simp: require_eq_Inr and_then_eq_Inr)
  obtain c' m' i where p: "validate_document F W sha v None None = Inr (c', m')"
      "jget_str v ''checkpoint_id'' = Some i"
      "p = \<lparr>plan_checkpoint = i, plan_step = ck_step m', plan_generation = ck_generation m',
            plan_root = ctx_root c', plan_files = ck_files m'\<rparr>"
    using v(6) unfolding restore_plan_def by (auto simp: require_eq_Inr and_then_eq_Inr ok_or_eq_Inr)
  have "(c', m') = (c, m)"
    using v(1) p(1) unfolding validate_document_def and_then_eq_Inr require_eq_Inr by auto
  then have pl: "p = \<lparr>plan_checkpoint = i, plan_step = ck_step m, plan_generation = ck_generation m,
            plan_root = ?root, plan_files = ck_files m\<rparr>" using p(3) v(5) by simp
  obtain fs t ready where d: "v = JObj fs" "context_of (JObj (map (\<lambda>k. (k, the (obj_get fs k))) context_keys)) = Inr c"
      "manifest_of W ready = Inr m" "obj_get fs ''checkpoint_id'' = Some (JStr (''checkpoint.'' @ sha t))"
      "ref_checkpoint r = ''checkpoint.'' @ sha t"
    using v(1) by (rule validate_document_Inr) blast
  have id: "plan_checkpoint p = ref_checkpoint r" using p(2) d by (simp add: pl json_simps)
  have wf: "manifest_wf m" using d(3) by (rule manifest_of_wf)
  note c = context_of_project [OF d(2)]
  have "\<exists>rest. rest \<noteq> [] \<and> resolve [] (path_parts (?root @ ''/'' @ file_path f)) =
          resolve [] (path_parts runs_root) @ [project, ref_run r, ''attempts'', ref_attempt r, ''state'',
            ''checkpoints'', ck_generation m] @ rest" if "f \<in> set (ck_files m)" for f
  proof (rule state_file_inside)
    show "path_component project" "path_component (ref_run r)" "path_component (ref_attempt r)"
      using c accepted_names v(2-4) by (metis is_ok_iff)+
    show "file_wf (ck_generation m) f" using wf that by (simp add: manifest_wf_def list_all_iff)
  qed
  then show ?thesis
    using id wf by (simp add: pl manifest_wf_def list_all_iff file_wf_def)
qed

text \<open>C37. A checkpoint identity stands for one checkpoint. Two documents that pass validation and
  carry the same identity were digested from texts of equal SHA-256, and these two texts are equal
  exactly when context, step, generation and files all agree: short of a collision of the two texts,
  neither member order nor the spelling of numbers lets an identity name a second checkpoint. The
  first hypothesis is the contract of the string and double writers outside the repository.\<close>

theorem checkpoint_identity_determines_content:
  assumes "json_writer F W"
    and "validate_document F W sha v e i = Inr (c, m)"
    and "validate_document F W sha w e' i' = Inr (d, n)"
    and "jget v ''checkpoint_id'' = jget w ''checkpoint_id''"
  shows "\<exists>s t. canonical_bytes F W (JObj (base_members c m)) = Inr s \<and>
    canonical_bytes F W (JObj (base_members d n)) = Inr t \<and> sha s = sha t \<and>
    (s = t \<longleftrightarrow> c = d \<and> m = n)"
proof -
  from assms(2) obtain q s where q: "manifest_of W q = Inr m"
      "canonical_bytes F W (JObj (base_members c m)) = Inr s"
      "jget v ''checkpoint_id'' = Some (JStr (''checkpoint.'' @ sha s))"
    by (rule validate_document_Inr) auto
  from assms(3) obtain r t where r: "manifest_of W r = Inr n"
      "canonical_bytes F W (JObj (base_members d n)) = Inr t"
      "jget w ''checkpoint_id'' = Some (JStr (''checkpoint.'' @ sha t))"
    by (rule validate_document_Inr) auto
  have "c = d \<and> m = n" if "s = t"
  proof -
    have "norm F (JObj (base_members c m)) = norm F (JObj (base_members d n))"
      using json_writer.written_base [OF assms(1)] that q(2) r(2) by blast
    from base_inject [OF this] have "c = d" "ck_step m = ck_step n" "ck_files m = ck_files n" by auto
    moreover from this have "ck_generation m = ck_generation n"
      using generation_from_files manifest_of_wf q(1) r(1) by blast
    ultimately show ?thesis by simp
  qed
  moreover have "sha s = sha t" using assms(4) q(3) r(3) by simp
  ultimately show ?thesis using q(2) r(2) by (intro exI [of _ s] exI [of _ t]) auto
qed

section \<open>Witnesses\<close>

definition sample_context :: checkpoint_context where
  "sample_context =
     \<lparr>ctx_project = ''demo'', ctx_run = ''trial'', ctx_attempt = ''attempt-001'',
      ctx_source = ''source.'' @ replicate 64 CHR ''a'', ctx_image = ''sha256:b'', ctx_scope = ''storage.c'',
      ctx_root = ''/runs/demo/trial/attempts/attempt-001/state''\<rparr>"

definition sample_ready :: json where
  "sample_ready = JObj [(''files'', JArr
     [JObj [(''path'', JStr ''checkpoints/step-42/model.pt''), (''sha256'', JStr (replicate 64 CHR ''d'')), (''bytes'', jnat 7)],
      JObj [(''path'', JStr ''checkpoints/step-42/adam.bin''), (''bytes'', jnat 3), (''sha256'', JStr (replicate 64 CHR ''e''))]]),
     (''step'', jnat 42)]"

definition sample_sha :: "string \<Rightarrow> string" where
  "sample_sha t = concat (map (\<lambda>d. [hex_digit (d div 16 mod 16), hex_digit (d mod 16)])
     (foldl (\<lambda>r c. tl r @ [(hd r + 5 * byte c + 1) mod 256]) (replicate 32 0) t))"

definition sample_document :: json where
  "sample_document = (case document integral_floats rfc_escape sample_sha sample_context sample_ready of
     Inr v \<Rightarrow> v | Inl _ \<Rightarrow> JNull)"

definition sample_registered :: json where
  "sample_registered = (case register integral_floats rfc_escape sample_sha (\<lambda>_. Some 0) sample_document ''now'' of
     Inr v \<Rightarrow> v | Inl _ \<Rightarrow> JNull)"

definition sample_manifest :: checkpoint_manifest where
  "sample_manifest = (case manifest_of rfc_escape sample_ready of Inr m \<Rightarrow> m | Inl _ \<Rightarrow> undefined)"

lemma sample_sha_shape: "sha256_text (sample_sha t)"
proof -
  have len: "length (foldl (\<lambda>r c. tl r @ [(hd r + 5 * byte c + 1) mod 256]) rs t) = 32"
    if "length rs = 32" for rs :: "nat list"
    using that by (induction t arbitrary: rs) simp_all
  have cat: "length (concat (map (\<lambda>d. [f d, g d]) xs)) = 2 * length xs" for f g :: "nat \<Rightarrow> char" and xs
    by (induction xs) simp_all
  have hex: "is_lower_hex (hex_digit (d mod 16))" for d
    using byte_hex_digit [of "d mod 16"] by (auto simp: is_lower_hex_def is_ascii_digit_def)
  show ?thesis
    using len [of "replicate 32 0"] hex
    by (simp add: sha256_text_def sample_sha_def cat list_all_iff)
qed

lemma sample_manifest_ok: "manifest_of rfc_escape sample_ready = Inr sample_manifest"
proof -
  have "is_ok (manifest_of rfc_escape sample_ready)" by code_simp
  then show ?thesis by (auto simp: sample_manifest_def is_ok_iff)
qed

lemma sample_context_ok: "context_of (JObj (context_members sample_context)) = Inr sample_context"
proof -
  have "is_ok (context_of (JObj (context_members sample_context)))" by code_simp
  then show ?thesis using context_of_members by (auto simp: is_ok_iff)
qed

text \<open>The writer's files are sorted and its numbers are read.\<close>

lemma sample_manifest_files: "map file_path (ck_files sample_manifest) =
    [''checkpoints/step-42/adam.bin'', ''checkpoints/step-42/model.pt''] \<and> ck_generation sample_manifest = ''step-42''"
  by code_simp

theorem checkpoint_roundtrip_witness:
  "\<exists>v r i. document integral_floats rfc_escape sample_sha sample_context sample_ready = Inr v \<and>
    validate_document integral_floats rfc_escape sample_sha v (Some sample_context) None =
      Inr (sample_context, sample_manifest) \<and>
    register integral_floats rfc_escape sample_sha (\<lambda>_. Some 0) v ''now'' = Inr r \<and>
    jget_str v ''checkpoint_id'' = Some i \<and>
    restore_plan integral_floats rfc_escape sample_sha r (Some ''storage.c'') =
      Inr \<lparr>plan_checkpoint = i, plan_step = ck_step sample_manifest,
           plan_generation = ck_generation sample_manifest,
           plan_root = ''/runs/demo/trial/attempts/attempt-001/state'', plan_files = ck_files sample_manifest\<rparr>"
  using checkpoint_roundtrip [OF sample_context_ok sample_manifest_ok sample_sha_shape, of "\<lambda>_. Some 0" "''now''" integral_floats]
  by (simp add: sample_context_def)

lemma sample_accepted:
  "document integral_floats rfc_escape sample_sha sample_context sample_ready = Inr sample_document \<and>
   validate_document integral_floats rfc_escape sample_sha sample_document None None =
     Inr (sample_context, sample_manifest) \<and>
   register integral_floats rfc_escape sample_sha (\<lambda>_. Some 0) sample_document ''now'' = Inr sample_registered \<and>
   validate_document integral_floats rfc_escape sample_sha sample_registered None None =
     Inr (sample_context, sample_manifest) \<and>
   (\<exists>i. jget sample_document ''checkpoint_id'' = Some (JStr i) \<and>
        jget sample_registered ''checkpoint_id'' = Some (JStr i)) \<and>
   jget sample_registered ''status'' = Some (JStr ''REGISTERED'') \<and>
   jget sample_registered ''verification'' = Some (JStr ''worker-sha256'') \<and>
   jget sample_registered ''registered_at'' = Some (JStr ''now'')"
proof -
  have d: "document integral_floats rfc_escape sample_sha sample_context sample_ready = Inr sample_document"
    using document_total [OF sample_context_ok sample_manifest_ok, of integral_floats sample_sha]
    by (auto simp: sample_document_def)
  obtain fs i where fs: "sample_document = JObj fs" "obj_get fs ''checkpoint_id'' = Some (JStr i)"
    using d by (rule document_Inr) auto
  note acc = document_accepted [OF d [unfolded fs(1)] sample_manifest_ok sample_sha_shape]
  have v: "validate_document integral_floats rfc_escape sample_sha (JObj fs) None None =
      Inr (sample_context, sample_manifest)" by (rule acc) simp
  then have r: "register integral_floats rfc_escape sample_sha (\<lambda>_. Some 0) sample_document ''now'' =
      Inr (JObj (obj_insert ''registered_at'' (JStr ''now'')
         (obj_insert ''verification'' (JStr ''worker-sha256'')
           (obj_insert ''status'' (JStr ''REGISTERED'') fs))))"
    by (simp add: register_def fs)
  then have s: "sample_registered = JObj (obj_insert ''registered_at'' (JStr ''now'')
         (obj_insert ''verification'' (JStr ''worker-sha256'')
           (obj_insert ''status'' (JStr ''REGISTERED'') fs)))"
    by (simp add: sample_registered_def)
  have "validate_document integral_floats rfc_escape sample_sha sample_registered None None =
      Inr (sample_context, sample_manifest)"
    unfolding s by (rule acc) (auto simp: context_keys_def)
  moreover have "jget sample_registered ''checkpoint_id'' = Some (JStr i)"
    "jget sample_registered ''status'' = Some (JStr ''REGISTERED'')"
    "jget sample_registered ''verification'' = Some (JStr ''worker-sha256'')"
    "jget sample_registered ''registered_at'' = Some (JStr ''now'')"
    "jget sample_document ''checkpoint_id'' = Some (JStr i)"
    unfolding s by (simp_all add: fs)
  ultimately show ?thesis using d v r [folded s] by (simp add: fs(1))
qed

theorem checkpoint_identity_determines_content_witness:
  "\<exists>s t. canonical_bytes integral_floats rfc_escape (JObj (base_members sample_context sample_manifest)) = Inr s \<and>
    canonical_bytes integral_floats rfc_escape (JObj (base_members sample_context sample_manifest)) = Inr t \<and>
    sample_sha s = sample_sha t \<and> s = t"
proof -
  have "jget sample_document ''checkpoint_id'' = jget sample_registered ''checkpoint_id''"
    using sample_accepted by auto
  then show ?thesis
    using checkpoint_identity_determines_content [OF rfc.json_writer_axioms] sample_accepted by blast
qed

definition sample_reference :: reference where
  "sample_reference = \<lparr>ref_run = ''trial'', ref_attempt = ''attempt-001'',
     ref_checkpoint = (case jget_str sample_document ''checkpoint_id'' of Some i \<Rightarrow> i | None \<Rightarrow> [])\<rparr>"

lemma validate_expected:
  assumes "validate_document F W sha v None None = Inr x" "jget v ''checkpoint_id'' = Some (JStr i)"
  shows "validate_document F W sha v None (Some i) = Inr x"
  using assms unfolding validate_document_def and_then_eq_Inr require_eq_Inr ok_or_eq_Inr by auto

theorem selected_files_stay_in_attempt_witness:
  "\<exists>p. selected integral_floats rfc_escape sample_sha (\<lambda>_. Some 0) sample_reference sample_registered
      ''demo'' ''storage.c'' ''/runs'' = Inr p \<and> plan_files p = ck_files sample_manifest \<and>
    plan_checkpoint p = ref_checkpoint sample_reference"
proof -
  note a = sample_accepted
  obtain i where i: "jget sample_document ''checkpoint_id'' = Some (JStr i)"
      "jget sample_registered ''checkpoint_id'' = Some (JStr i)" using a by blast
  have ref: "ref_checkpoint sample_reference = i" by (simp add: sample_reference_def json_simps i jget_str_def)
  have v: "validate_document integral_floats rfc_escape sample_sha sample_registered None (Some i) =
      Inr (sample_context, sample_manifest)" using a i(2) by (intro validate_expected) auto
  obtain t where "i = ''checkpoint.'' @ sample_sha t"
    using v by (rule validate_document_Inr) blast
  then have "validate_checkpoint_id i = Inr i"
    using sample_sha_shape by (simp add: validate_checkpoint_id_def valid_checkpoint_id_def starts_with_iff)
  moreover have "is_ok (validate_id ''trial'')" "is_ok (validate_attempt ''attempt-001'')" by code_simp+
  ultimately have r: "validate_reference sample_reference = Inr ()"
    using ref by (auto simp: validate_reference_def is_ok_iff sample_reference_def)
  have "selected integral_floats rfc_escape sample_sha (\<lambda>_. Some 0) sample_reference sample_registered
      ''demo'' ''storage.c'' ''/runs'' = Inr
      \<lparr>plan_checkpoint = i, plan_step = ck_step sample_manifest, plan_generation = ck_generation sample_manifest,
       plan_root = ctx_root sample_context, plan_files = ck_files sample_manifest\<rparr>"
    using a i(2) v r ref
    by (simp add: selected_def selected_at_def restore_plan_def jget_str_def)
       (simp add: sample_context_def sample_reference_def)
  with selected_files_stay_in_attempt [OF this] show ?thesis by auto
qed
end
