(* ===== verification/Metrics.thy ===== *)
theory Metrics
  imports CanonicalUnique
begin

text \<open>
  Normalisation of one metric record (\<open>rust/crates/core/src/metrics/observation.rs\<close>): what a worker
  wrote becomes a list of observations with an explicit unit, status and error; an invalid value
  keeps its text as evidence and is never replaced by a number. Operations on doubles, the
  JSON parser and the string writer are outside the repository; \<open>M\<close> bundles them.
\<close>

record 'f metric_ops =
  doubles :: "'f float_ops"
  parse_f64 :: "string \<Rightarrow> 'f option"
  is_nan :: "'f \<Rightarrow> bool"
  is_negative :: "'f \<Rightarrow> bool"
  nan_value :: 'f
  infinity_value :: 'f
  negative_infinity :: 'f
  string_text :: "string \<Rightarrow> string"
  hex_sha256 :: "string \<Rightarrow> string"
  parse_value :: "string \<Rightarrow> json option"
  parse_literal :: "string \<Rightarrow> string option"

datatype metric_error = MetricSchema | MetricRecord

datatype 'f metric_value = MJson json | MFloat 'f | MInvalidText string

type_synonym 'f observation_input = "(string \<times> 'f metric_value) list"

section \<open>Input fields\<close>

definition input_of_json :: "json \<Rightarrow> metric_error + 'f observation_input" where
  "input_of_json v = and_then (ok_or (as_object v) MetricRecord) (\<lambda>m. Inr (map (\<lambda>(k, w). (k, MJson w)) m))"

fun put_field :: "string \<Rightarrow> 'v \<Rightarrow> (string \<times> 'v) list \<Rightarrow> (string \<times> 'v) list" where
  "put_field k v [] = [(k, v)]"
| "put_field k v ((a, w) # m) = (if a = k then (a, v) # m else (a, w) # put_field k v m)"

definition with_number :: "string \<Rightarrow> 'f \<Rightarrow> 'f observation_input \<Rightarrow> 'f observation_input" where
  "with_number name x r = put_field name (MFloat x) r"

definition with_invalid_text :: "string \<Rightarrow> string \<Rightarrow> 'f observation_input \<Rightarrow> 'f observation_input" where
  "with_invalid_text name t r = put_field name (MInvalidText t) r"

text \<open>\<open>Number::from_f64\<close>: the text of a finite double, nothing otherwise.\<close>

definition number_of_f64 :: "'f metric_ops \<Rightarrow> 'f \<Rightarrow> json option" where
  "number_of_f64 M x =
     (if is_finite (doubles M) x then Some (JNum (format_finite (doubles M) x)) else None)"

fun value_json :: "'f metric_ops \<Rightarrow> 'f metric_value \<Rightarrow> json" where
  "value_json M (MJson v) = v"
| "value_json M (MFloat x) = (case number_of_f64 M x of Some v \<Rightarrow> v | None \<Rightarrow> JNull)"
| "value_json M (MInvalidText t) = JNull"

fun value_string :: "'f metric_value \<Rightarrow> string option" where
  "value_string (MJson v) = as_str v"
| "value_string _ = None"

fun value_is_number :: "'f metric_value \<Rightarrow> bool" where
  "value_is_number (MJson (JNum t)) = True"
| "value_is_number (MFloat x) = True"
| "value_is_number _ = False"

fun json_finite :: "'f metric_ops \<Rightarrow> json \<Rightarrow> bool" where
  "json_finite M (JNum t) =
     (case as_f64 (doubles M) t of Some x \<Rightarrow> is_finite (doubles M) x | None \<Rightarrow> False)"
| "json_finite M _ = False"

fun value_finite :: "'f metric_ops \<Rightarrow> 'f metric_value \<Rightarrow> bool" where
  "value_finite M (MJson v) = json_finite M v"
| "value_finite M (MFloat x) = is_finite (doubles M) x"
| "value_finite M (MInvalidText t) = False"

fun value_is_null :: "'f metric_value \<Rightarrow> bool" where
  "value_is_null (MJson JNull) = True"
| "value_is_null _ = False"

section \<open>Texts\<close>

text \<open>A float's text. In the last branch the double is finite, where \<open>float_text\<close> succeeds.\<close>

definition float_token :: "'f metric_ops \<Rightarrow> 'f \<Rightarrow> string" where
  "float_token M x =
     (if is_nan M x then ''nan''
      else if \<not> is_finite (doubles M) x then (if is_negative M x then ''-inf'' else ''inf'')
      else (case float_text (doubles M) x of Inr t \<Rightarrow> t | Inl _ \<Rightarrow> []))"

fun nonfinite_as_tokens :: "'f metric_ops \<Rightarrow> json \<Rightarrow> json"
and nonfinite_items :: "'f metric_ops \<Rightarrow> json list \<Rightarrow> json list"
and nonfinite_members :: "'f metric_ops \<Rightarrow> jobject \<Rightarrow> jobject"
where
  "nonfinite_as_tokens M (JNum t) =
     (if has_float_mark t \<and> as_f64 (doubles M) t = None
      then JStr (if starts_with ''-'' t then ''-inf'' else ''inf'') else JNum t)"
| "nonfinite_as_tokens M (JArr xs) = JArr (nonfinite_items M xs)"
| "nonfinite_as_tokens M (JObj m) = JObj (nonfinite_members M m)"
| "nonfinite_as_tokens M v = v"
| "nonfinite_items M [] = []"
| "nonfinite_items M (x # xs) = nonfinite_as_tokens M x # nonfinite_items M xs"
| "nonfinite_members M [] = []"
| "nonfinite_members M ((k, v) # m) = (k, nonfinite_as_tokens M v) # nonfinite_members M m"

text \<open>A value as plain text. The code panics in the last branch; \<open>plain_text_total\<close> below
  shows that it is not reached, as \<open>as_f64\<close> reads only finite doubles.\<close>

definition plain_json :: "'f metric_ops \<Rightarrow> json \<Rightarrow> string" where
  "plain_json M v =
     (case nonfinite_as_tokens M v of
        JStr s \<Rightarrow> s
      | w \<Rightarrow> (case canonical_bytes (doubles M) (string_text M) w of Inr t \<Rightarrow> t | Inl _ \<Rightarrow> []))"

fun invalid_text :: "'f metric_ops \<Rightarrow> 'f metric_value \<Rightarrow> string" where
  "invalid_text M (MJson v) = plain_json M v"
| "invalid_text M (MFloat x) = float_token M x"
| "invalid_text M (MInvalidText t) = t"

definition truncate_chars :: "string \<Rightarrow> nat \<Rightarrow> string" where
  "truncate_chars s n = concat (take n (utf8_chars s))"

definition metric_printable :: "string \<Rightarrow> nat \<Rightarrow> bool" where
  "metric_printable s n \<longleftrightarrow> trim s \<noteq> [] \<and> char_count s \<le> n \<and> list_all (\<lambda>c. byte c \<ge> 32) s"

definition input_value :: "'f metric_ops \<Rightarrow> 'f observation_input \<Rightarrow> string \<Rightarrow> json" where
  "input_value M r k = (case map_of r k of Some v \<Rightarrow> value_json M v | None \<Rightarrow> JNull)"

section \<open>Shared fields of a record\<close>

text \<open>\<open>source\<close> is given and not empty.\<close>

definition given_source :: "string option \<Rightarrow> string option" where
  "given_source source = (if source = Some [] then None else source)"

definition source_unusable :: "'f metric_ops \<Rightarrow> 'f observation_input \<Rightarrow> string option \<Rightarrow> bool" where
  "source_unusable M r source \<longleftrightarrow> given_source source = None \<and>
     (case map_of r ''_source_path'' of
        Some (MInvalidText t) \<Rightarrow> True
      | Some (MFloat x) \<Rightarrow> \<not> is_finite (doubles M) x
      | _ \<Rightarrow> False)"

definition schema_definitions :: "json \<Rightarrow> metric_error + jobject" where
  "schema_definitions schema =
     and_then (ok_or (as_object schema) MetricSchema) (\<lambda>s.
     case obj_get s ''definitions'' of
       None \<Rightarrow> Inr []
     | Some (JObj d) \<Rightarrow> Inr d
     | _ \<Rightarrow> Inl MetricSchema)"

definition keep_if ::
    "'f metric_ops \<Rightarrow> 'f observation_input \<Rightarrow> ('f metric_value \<Rightarrow> bool) \<Rightarrow> string list \<Rightarrow> jobject \<Rightarrow> jobject" where
  "keep_if M r P ks m =
     fold (\<lambda>k m. if (case map_of r k of Some v \<Rightarrow> P v | None \<Rightarrow> False)
                 then obj_insert k (input_value M r k) m else m) ks m"

definition short_text :: "'f metric_value \<Rightarrow> bool" where
  "short_text v \<longleftrightarrow> (case value_string v of Some s \<Rightarrow> char_count s \<le> 2000 | None \<Rightarrow> False)"

definition common_fields :: "'f metric_ops \<Rightarrow> 'f observation_input \<Rightarrow> jobject" where
  "common_fields M r =
     keep_if M r (\<lambda>v. short_text v \<or> value_finite M v) [''timestamp'', ''checkpoint_id'', ''dataset_id'']
       (keep_if M r (value_finite M) [''step'', ''epoch''] [])"

definition bad_context :: "'f observation_input \<Rightarrow> bool" where
  "bad_context r \<longleftrightarrow> (case map_of r ''protocol_id'' of
     Some v \<Rightarrow> \<not> value_is_null v \<and> \<not> short_text v | None \<Rightarrow> False)"

definition context_value :: "'f metric_ops \<Rightarrow> 'f observation_input \<Rightarrow> string option \<Rightarrow> json" where
  "context_value M r protocol =
     (if bad_context r then JNull
      else (case map_of r ''protocol_id'' of Some v \<Rightarrow> value_json M v | None \<Rightarrow> jstr_or_null protocol))"

definition bad_variant :: "'f observation_input \<Rightarrow> bool" where
  "bad_variant r \<longleftrightarrow> (case map_of r ''variant_id'' of
     Some v \<Rightarrow> \<not> value_is_null v \<and>
       \<not> (case value_string v of Some s \<Rightarrow> metric_printable s 2000 | None \<Rightarrow> False)
   | None \<Rightarrow> False)"

section \<open>One observation\<close>

record metric_state =
  m_state :: json
  m_error :: json
  m_errors :: "json list"

definition fail :: "string \<Rightarrow> string \<Rightarrow> metric_state \<Rightarrow> metric_state" where
  "fail status message s =
     \<lparr>m_state = JStr status, m_error = JStr message, m_errors = m_errors s @ [JStr message]\<rparr>"

definition fail_if :: "bool \<Rightarrow> string \<Rightarrow> string \<Rightarrow> metric_state \<Rightarrow> metric_state" where
  "fail_if b status message s = (if b then fail status message s else s)"

text \<open>What an explicit record says itself: the field of the item, if the metric has an item.\<close>

definition item_field :: "'f observation_input option \<Rightarrow> string \<Rightarrow> 'f metric_value option" where
  "item_field item k = Option.bind item (\<lambda>r. map_of r k)"

definition error_evidence :: "'f metric_ops \<Rightarrow> 'f metric_value \<Rightarrow> json" where
  "error_evidence M v =
     (case v of
        MFloat x \<Rightarrow> if \<not> is_finite (doubles M) x then JStr (invalid_text M v) else value_json M v
      | MInvalidText t \<Rightarrow> JStr t
      | MJson w \<Rightarrow> w)"

definition initial_state :: "'f metric_ops \<Rightarrow> 'f observation_input option \<Rightarrow> metric_state" where
  "initial_state M item =
     \<lparr>m_state = (case item_field item ''status'' of Some v \<Rightarrow> value_json M v | None \<Rightarrow> JStr ''VALID''),
      m_error = (case item_field item ''error'' of Some v \<Rightarrow> error_evidence M v | None \<Rightarrow> JNull),
      m_errors = []\<rparr>"

definition undeclared_status :: "metric_state \<Rightarrow> string" where
  "undeclared_status s = (if m_state s = JStr ''FAILED'' then ''FAILED'' else ''UNDECLARED'')"

definition unit_of :: "'f metric_ops \<Rightarrow> jobject \<Rightarrow> 'f observation_input option \<Rightarrow> json" where
  "unit_of M d item =
     (case item_field item ''unit'' of
        Some v \<Rightarrow> value_json M v
      | None \<Rightarrow> (case obj_get d ''unit'' of Some u \<Rightarrow> u | None \<Rightarrow> JNull))"

definition unit_printable :: "json \<Rightarrow> bool" where
  "unit_printable u \<longleftrightarrow> (case as_str u of Some s \<Rightarrow> metric_printable s 128 | None \<Rightarrow> False)"

definition check_unit :: "jobject \<Rightarrow> jobject \<Rightarrow> string \<Rightarrow> json \<Rightarrow> metric_state \<Rightarrow> metric_state \<times> json" where
  "check_unit definitions d name u s =
     (if \<not> unit_printable u then (fail (undeclared_status s) ''UNIT_NOT_DECLARED'' s, JNull)
      else if (case obj_get d ''unit'' of Some e \<Rightarrow> e \<noteq> JNull \<and> e \<noteq> u | None \<Rightarrow> False)
      then (fail ''FAILED'' ''UNIT_MISMATCH'' s, u)
      else if definitions \<noteq> [] \<and> \<not> obj_has definitions name
      then (fail (undeclared_status s) ''METRIC_NOT_DECLARED'' s, u)
      else (s, u))"

fun check_sums ::
    "'f metric_ops \<Rightarrow> 'f observation_input option \<Rightarrow> string list \<Rightarrow> metric_state \<times> jobject \<Rightarrow> metric_state \<times> jobject" where
  "check_sums M item [] (s, sums) = (s, sums)"
| "check_sums M item (k # ks) (s, sums) =
     (case item_field item k of
        Some v \<Rightarrow>
          if value_is_null v then check_sums M item ks (s, sums)
          else if value_finite M v then check_sums M item ks (s, obj_insert k (value_json M v) sums)
          else check_sums M item ks
            (fail ''FAILED'' ''NONFINITE_AGGREGATION_COUNT'' s, obj_insert k JNull sums)
      | None \<Rightarrow> check_sums M item ks (s, sums))"

definition json_nonpositive :: "'f metric_ops \<Rightarrow> json \<Rightarrow> bool" where
  "json_nonpositive M v =
     (case v of
        JNum t \<Rightarrow> (case as_f64 (doubles M) t of
            Some x \<Rightarrow> is_negative M x \<or> is_zero (doubles M) x | None \<Rightarrow> False)
      | _ \<Rightarrow> False)"

definition counts_unusable :: "'f metric_ops \<Rightarrow> jobject \<Rightarrow> jobject \<Rightarrow> bool" where
  "counts_unusable M d sums \<longleftrightarrow>
     Option.bind (obj_get d ''aggregation'') as_str = Some ''ratio_of_sums'' \<and>
     (obj_get sums ''numerator'' \<in> {None, Some JNull} \<or> obj_get sums ''denominator'' \<in> {None, Some JNull} \<or>
      (case obj_get sums ''denominator'' of Some v \<Rightarrow> json_nonpositive M v | None \<Rightarrow> False))"

definition known_status :: "json \<Rightarrow> bool" where
  "known_status v \<longleftrightarrow> as_str v \<in> Some ` set [''VALID'', ''PARTIAL'', ''FAILED'', ''MISSING'']"

definition bad_summary :: "'f metric_value \<Rightarrow> bool" where
  "bad_summary v \<longleftrightarrow> (case v of MJson (JBool b) \<Rightarrow> False | _ \<Rightarrow> True)"

text \<open>The checks in their order; the unit that remains is carried along.\<close>

definition judge ::
    "'f metric_ops \<Rightarrow> jobject \<Rightarrow> jobject \<Rightarrow> string option \<Rightarrow> 'f observation_input \<Rightarrow> string
     \<Rightarrow> 'f metric_value option \<Rightarrow> 'f observation_input option \<Rightarrow> metric_state \<times> json \<times> jobject" where
  "judge M definitions d protocol r name v item =
     (let s = initial_state M item;
          s = fail_if (\<not> known_status (m_state s)) ''FAILED'' ''INVALID_STATUS'' s;
          valid_number = (case v of Some w \<Rightarrow> value_finite M w | None \<Rightarrow> False);
          s = fail_if (m_state s = JStr ''VALID'' \<and> \<not> valid_number) ''FAILED'' ''NONFINITE_OR_MISSING_VALUE'' s;
          (s, u) = check_unit definitions d name (unit_of M d item) s;
          s = fail_if (bad_context r) ''FAILED'' ''INVALID_PROTOCOL_ID'' s;
          s = fail_if (bad_variant r) ''FAILED'' ''INVALID_VARIANT_ID'' s;
          s = fail_if (case item_field item ''summary'' of Some w \<Rightarrow> bad_summary w | None \<Rightarrow> False)
                ''FAILED'' ''INVALID_SUMMARY_FLAG'' s;
          s = fail_if (case protocol of Some p \<Rightarrow> as_str (context_value M r protocol) \<noteq> Some p | None \<Rightarrow> False)
                ''FAILED'' ''PROTOCOL_MISMATCH'' s;
          (s, sums) = check_sums M item [''numerator'', ''denominator''] (s, []);
          s = fail_if (counts_unusable M d sums) ''FAILED'' ''INVALID_AGGREGATION_COUNTS'' s
      in (s, u, sums))"

definition invalid_value :: "'f metric_ops \<Rightarrow> 'f metric_value option \<Rightarrow> json" where
  "invalid_value M v =
     (case v of
        Some w \<Rightarrow> if \<not> value_is_null w \<and> \<not> value_finite M w
                  then JStr (truncate_chars (invalid_text M w) 128) else JNull
      | None \<Rightarrow> JNull)"

definition observation_fields ::
    "'f metric_ops \<Rightarrow> string option \<Rightarrow> string option \<Rightarrow> 'f observation_input \<Rightarrow> string
     \<Rightarrow> 'f metric_value option \<Rightarrow> metric_state \<Rightarrow> json \<Rightarrow> jobject" where
  "observation_fields M protocol source r name v s u =
       [(''name'', JStr name),
        (''value'', case v of Some w \<Rightarrow> if value_finite M w then value_json M w else JNull | None \<Rightarrow> JNull),
        (''unit'', u),
        (''invalid_value'', invalid_value M v),
        (''variant_id'', if bad_variant r then JNull else input_value M r ''variant_id''),
        (''protocol_id'', context_value M r protocol),
        (''status'', m_state s),
        (''error'', if m_error s = JNull then JNull else JStr (truncate_chars (plain_json M (m_error s)) 2000)),
        (''source'', case given_source source of Some t \<Rightarrow> JStr t | None \<Rightarrow> input_value M r ''_source_path''),
        (''errors'', JArr (m_errors s))]"

definition one_observation ::
    "'f metric_ops \<Rightarrow> jobject \<Rightarrow> string option \<Rightarrow> string option \<Rightarrow> 'f observation_input
     \<Rightarrow> string \<times> 'f metric_value option \<times> 'f observation_input option \<Rightarrow> metric_error + json" where
  "one_observation M definitions protocol source r metric =
     (case metric of (name, v, item) \<Rightarrow>
     and_then (case obj_get definitions name of
         None \<Rightarrow> Inr [] | Some (JObj d) \<Rightarrow> Inr d | _ \<Rightarrow> Inl MetricSchema) (\<lambda>d.
     case judge M definitions d protocol r name v item of (s, u, sums) \<Rightarrow>
     let fields = obj_extend (obj_extend (common_fields M r)
       (observation_fields M protocol source r name v s u)) sums
     in Inr (JObj (case item_field item ''summary'' of
          Some w \<Rightarrow> obj_insert ''summary'' (JBool (w = MJson (JBool True))) fields
        | None \<Rightarrow> fields))))"

section \<open>All observations of a record\<close>

definition context_keys :: "string list" where
  "context_keys = [''step'', ''epoch'', ''timestamp'', ''checkpoint_id'', ''dataset_id'', ''protocol_id'', ''variant_id'']"

definition invalid_name :: "string option \<Rightarrow> json" where
  "invalid_name source = JObj
     [(''name'', JNull), (''value'', JNull), (''unit'', JNull), (''status'', JStr ''FAILED''),
      (''error'', JStr ''INVALID_METRIC_NAME''), (''errors'', JArr [JStr ''INVALID_METRIC_NAME'']),
      (''source'', jstr_or_null source)]"

definition metric_names ::
    "'f observation_input \<Rightarrow> (string \<times> 'f metric_value option \<times> 'f observation_input option) list option" where
  "metric_names r =
     (case map_of r ''name'' of
        Some v \<Rightarrow>
          (case value_string v of
             Some name \<Rightarrow> if metric_printable name 128 then Some [(name, map_of r ''value'', Some r)] else None
           | None \<Rightarrow> None)
      | None \<Rightarrow> Some (map (\<lambda>(k, v). (k, Some v, None))
          (filter (\<lambda>(k, v). k \<notin> set context_keys \<and> value_is_number v) r)))"

fun each_observation :: "('m \<Rightarrow> metric_error + json) \<Rightarrow> 'm list \<Rightarrow> metric_error + json list" where
  "each_observation f [] = Inr []"
| "each_observation f (x # xs) =
     and_then (f x) (\<lambda>v. and_then (each_observation f xs) (\<lambda>vs. Inr (v # vs)))"

definition observations_typed ::
    "'f metric_ops \<Rightarrow> 'f observation_input \<Rightarrow> json \<Rightarrow> string option \<Rightarrow> string option
     \<Rightarrow> metric_error + json list" where
  "observations_typed M r schema protocol source =
     (if source_unusable M r source then Inl MetricRecord
      else
      and_then (schema_definitions schema) (\<lambda>definitions.
      case metric_names r of
        None \<Rightarrow> Inr [invalid_name source]
      | Some names \<Rightarrow> each_observation (one_observation M definitions protocol source r) names))"

definition observations_of ::
    "'f metric_ops \<Rightarrow> json \<Rightarrow> json \<Rightarrow> string option \<Rightarrow> string option \<Rightarrow> metric_error + json list" where
  "observations_of M v schema protocol source =
     and_then (input_of_json v) (\<lambda>r. observations_typed M r schema protocol source)"


section \<open>Plain text is total\<close>

text \<open>\<open>as_f64\<close> reads only finite doubles.\<close>

definition reads_finite :: "'f float_ops \<Rightarrow> bool" where
  "reads_finite F \<longleftrightarrow> (\<forall>t x. as_f64 F t = Some x \<longrightarrow> is_finite F x)"

lemma tokens_writable:
  "reads_finite (doubles M) \<Longrightarrow> writable (doubles M) (nonfinite_as_tokens M v)"
  "reads_finite (doubles M) \<Longrightarrow> writable_items (doubles M) (nonfinite_items M xs)"
  "reads_finite (doubles M) \<Longrightarrow> writable_members (doubles M) (nonfinite_members M m)"
proof (induction M v and M xs and M m rule: nonfinite_as_tokens_nonfinite_items_nonfinite_members.induct)
  case (1 M t)
  show ?case
  proof (cases "has_float_mark t")
    case True
    then show ?thesis using "1.prems"
      by (cases "as_f64 (doubles M) t") (auto simp: number_text_def float_text_def Let_def reads_finite_def is_ok_iff)
  qed (simp add: number_text_def is_ok_iff)
qed simp_all

lemma plain_text_total:
  assumes "reads_finite (doubles M)"
  shows "is_ok (canonical_bytes (doubles M) (string_text M) (nonfinite_as_tokens M v))"
  using tokens_writable(1) [OF assms, of v] by (simp add: canonical_bytes_def write_ok_iff)

section \<open>What a valid observation says\<close>

lemma fail_not_valid: "m_state (fail st msg s) = JStr st" "m_errors (fail st msg s) = m_errors s @ [JStr msg]"
  by (simp_all add: fail_def)

lemma fail_if_valid:
  assumes "st \<noteq> ''VALID''"
  shows "m_state (fail_if b st msg s) = JStr ''VALID'' \<longleftrightarrow> \<not> b \<and> m_state s = JStr ''VALID''"
  using assms by (simp add: fail_if_def fail_def)

lemma check_sums_valid:
  "check_sums M item ks (s, sums) = (s', sums') \<Longrightarrow> m_state s' = JStr ''VALID'' \<Longrightarrow> s' = s"
proof (induction M item ks "(s, sums)" arbitrary: s sums rule: check_sums.induct)
  case (2 M item k ks s sums)
  show ?case
  proof (cases "item_field item k")
    case (Some v)
    consider "value_is_null v" | "\<not> value_is_null v" "value_finite M v" | "\<not> value_is_null v" "\<not> value_finite M v" by blast
    then show ?thesis
    proof cases
      case 3
      then have "s' = fail ''FAILED'' ''NONFINITE_AGGREGATION_COUNT'' s"
        using "2.hyps"(4) [OF Some 3 _ "2.prems"(2)] "2.prems"(1) Some by simp
      with "2.prems"(2) show ?thesis by (simp add: fail_def)
    qed (use 2 Some in simp_all)
  qed (use 2 in simp)
qed simp

lemma check_sums_keys:
  "check_sums M item ks (s, sums) = (s', sums') \<Longrightarrow>
   fst ` set sums' \<subseteq> set ks \<union> fst ` set sums \<and> (distinct (obj_keys sums) \<longrightarrow> distinct (obj_keys sums'))"
proof (induction M item ks "(s, sums)" arbitrary: s sums rule: check_sums.induct)
  case (2 M item k ks s sums)
  show ?case
  proof (cases "item_field item k")
    case (Some v)
    consider "value_is_null v" | "\<not> value_is_null v" "value_finite M v" | "\<not> value_is_null v" "\<not> value_finite M v" by blast
    then show ?thesis
    proof cases
      case 1
      then show ?thesis using "2.hyps"(2) [OF Some 1] "2.prems" Some by auto
    next
      case 2
      then show ?thesis using "2.hyps"(3) [OF Some 2] "2.prems" Some by (auto simp: obj_keys_insert distinct_obj_insert)
    next
      case 3
      then show ?thesis using "2.hyps"(4) [OF Some 3] "2.prems" Some by (auto simp: obj_keys_insert distinct_obj_insert)
    qed
  qed (use 2 in auto)
qed simp

lemma fail_if_keeps: "m_state (fail_if b st msg s) = JStr ''VALID'' \<Longrightarrow> st \<noteq> ''VALID'' \<Longrightarrow> fail_if b st msg s = s"
  by (simp add: fail_if_def fail_def split: if_splits)

lemma check_unit_valid:
  assumes "check_unit definitions d name u s = (s', u')" "m_state s' = JStr ''VALID''"
  shows "s' = s \<and> u' = u \<and> unit_printable u \<and>
    obj_get d ''unit'' \<in> {None, Some JNull, Some u} \<and> (definitions = [] \<or> obj_has definitions name)"
  using assms
  by (auto simp: check_unit_def fail_def undeclared_status_def split: if_splits option.splits)

definition checked ::
    "'f metric_ops \<Rightarrow> jobject \<Rightarrow> jobject \<Rightarrow> string option \<Rightarrow> 'f observation_input \<Rightarrow> string
     \<Rightarrow> 'f metric_value option \<Rightarrow> json \<Rightarrow> jobject \<Rightarrow> bool" where
  "checked M definitions d protocol r name v u sums \<longleftrightarrow>
     (\<exists>w. v = Some w \<and> value_finite M w) \<and> unit_printable u \<and>
     obj_get d ''unit'' \<in> {None, Some JNull, Some u} \<and> (definitions = [] \<or> obj_has definitions name) \<and>
     \<not> bad_context r \<and> \<not> bad_variant r \<and>
     (\<forall>p. protocol = Some p \<longrightarrow> as_str (context_value M r protocol) = Some p) \<and>
     \<not> counts_unusable M d sums"

lemma judge_valid:
  assumes "judge M definitions d protocol r name v item = (s, u, sums)" "m_state s = JStr ''VALID''"
  shows "checked M definitions d protocol r name v u sums \<and> m_errors s = [] \<and>
    fst ` set sums \<subseteq> {''numerator'', ''denominator''} \<and> distinct (obj_keys sums)"
proof -
  define a where "a = fail_if (\<not> known_status (m_state (initial_state M item))) ''FAILED'' ''INVALID_STATUS'' (initial_state M item)"
  define finite where "finite = (case v of Some w \<Rightarrow> value_finite M w | None \<Rightarrow> False)"
  define b where "b = fail_if (m_state a = JStr ''VALID'' \<and> \<not> finite) ''FAILED'' ''NONFINITE_OR_MISSING_VALUE'' a"
  obtain c u' where c: "check_unit definitions d name (unit_of M d item) b = (c, u')" by (rule prod.exhaust)
  define e where "e = fail_if (bad_context r) ''FAILED'' ''INVALID_PROTOCOL_ID'' c"
  define f where "f = fail_if (bad_variant r) ''FAILED'' ''INVALID_VARIANT_ID'' e"
  define g where "g = fail_if (case item_field item ''summary'' of Some w \<Rightarrow> bad_summary w | None \<Rightarrow> False)
      ''FAILED'' ''INVALID_SUMMARY_FLAG'' f"
  define h where "h = fail_if (case protocol of Some p \<Rightarrow> as_str (context_value M r protocol) \<noteq> Some p | None \<Rightarrow> False)
      ''FAILED'' ''PROTOCOL_MISMATCH'' g"
  obtain k sums' where k: "check_sums M item [''numerator'', ''denominator''] (h, []) = (k, sums')" by (rule prod.exhaust)
  have "judge M definitions d protocol r name v item =
      (fail_if (counts_unusable M d sums') ''FAILED'' ''INVALID_AGGREGATION_COUNTS'' k, u', sums')"
    unfolding judge_def Let_def
    by (simp only: a_def [symmetric] finite_def [symmetric] b_def [symmetric] c e_def [symmetric] f_def [symmetric]
        g_def [symmetric] h_def [symmetric] k prod.case)
  then have s: "s = fail_if (counts_unusable M d sums) ''FAILED'' ''INVALID_AGGREGATION_COUNTS'' k" "u = u'" "sums = sums'"
    using assms(1) by simp_all
  have last: "\<not> counts_unusable M d sums" "m_state k = JStr ''VALID''" "s = k"
    using assms(2) fail_if_keeps [of "counts_unusable M d sums"] unfolding s(1) by (simp_all add: fail_if_valid)
  have hk: "k = h" using check_sums_valid [OF k last(2)] .
  have steps: "\<not> bad_context r" "\<not> bad_variant r" "m_state c = JStr ''VALID''"
      "\<not> (case protocol of Some p \<Rightarrow> as_str (context_value M r protocol) \<noteq> Some p | None \<Rightarrow> False)"
    using last(2) unfolding hk h_def g_def f_def e_def by (simp_all add: fail_if_valid)
  have keep: "h = c"
    using last(2) unfolding hk unfolding h_def g_def f_def e_def by (simp add: fail_if_valid) (simp add: fail_if_def)
  have unit: "c = b" "u = unit_of M d item" "unit_printable u" "obj_get d ''unit'' \<in> {None, Some JNull, Some u}"
      "definitions = [] \<or> obj_has definitions name"
    using check_unit_valid [OF c steps(3)] s(2) by simp_all
  have first: "finite" "b = initial_state M item"
    using steps(3) unfolding unit(1) unfolding b_def a_def by (auto simp: fail_if_valid fail_if_def fail_def split: if_splits)
  have "m_errors s = []" by (simp add: last(3) hk keep unit(1) first(2) initial_state_def)
  moreover have "checked M definitions d protocol r name v u sums"
    using first(1) unit(3-5) steps last(1) unfolding checked_def finite_def by (auto split: option.splits)
  ultimately show ?thesis using check_sums_keys [OF k] s(3) by simp
qed

lemma each_observation_Inr:
  "each_observation f xs = Inr vs \<Longrightarrow> v \<in> set vs \<Longrightarrow> \<exists>x \<in> set xs. f x = Inr v"
  by (induction xs arbitrary: vs) (auto simp: res_simps)

lemma metric_names_values:
  assumes "metric_names r = Some names" "(name, Some w, item) \<in> set names"
  shows "w \<in> snd ` set r"
proof (cases "map_of r ''name''")
  case None
  then show ?thesis using assms by (force simp: metric_names_def)
next
  case (Some n)
  then have "map_of r ''value'' = Some w"
    using assms by (auto simp: metric_names_def split: option.splits if_splits)
  then show ?thesis using map_of_SomeD by force
qed

lemma one_observation_Inr:
  assumes "one_observation M definitions protocol source r (name, v, item) = Inr ob"
  obtains d s u sums where "obj_get definitions name = Some (JObj d) \<or> obj_get definitions name = None \<and> d = []"
    "judge M definitions d protocol r name v item = (s, u, sums)"
    "\<And>k. k \<noteq> ''summary'' \<Longrightarrow> jget ob k =
       obj_get (obj_extend (obj_extend (common_fields M r) (observation_fields M protocol source r name v s u)) sums) k"
proof -
  obtain d where d: "(case obj_get definitions name of
         None \<Rightarrow> Inr [] | Some (JObj d) \<Rightarrow> Inr d | _ \<Rightarrow> Inl MetricSchema) = Inr d"
    using assms by (auto simp: one_observation_def and_then_eq_Inr)
  obtain s u sums where j: "judge M definitions d protocol r name v item = (s, u, sums)" by (metis prod_cases3)
  have "ob = JObj (case item_field item ''summary'' of
        Some w \<Rightarrow> obj_insert ''summary'' (JBool (w = MJson (JBool True)))
          (obj_extend (obj_extend (common_fields M r) (observation_fields M protocol source r name v s u)) sums)
      | None \<Rightarrow> obj_extend (obj_extend (common_fields M r) (observation_fields M protocol source r name v s u)) sums)"
    using assms unfolding one_observation_def by (simp add: d j Let_def)
  moreover have "obj_get definitions name = Some (JObj d) \<or> obj_get definitions name = None \<and> d = []"
    using d by (auto split: option.splits json.splits)
  ultimately show ?thesis using that j by (simp split: option.split)
qed

lemma judge_keys:
  assumes "judge M definitions d protocol r name v item = (s, u, sums)"
  shows "fst ` set sums \<subseteq> {''numerator'', ''denominator''}" "distinct (obj_keys sums)"
proof -
  obtain h k where "check_sums M item [''numerator'', ''denominator''] (h, []) = (k, sums)"
    using assms unfolding judge_def Let_def by (auto simp del: check_sums.simps split: prod.splits)
  from check_sums_keys [OF this]
  show "fst ` set sums \<subseteq> {''numerator'', ''denominator''}" "distinct (obj_keys sums)" by auto
qed

lemma observation_field_get:
  assumes "fst ` set sums \<subseteq> {''numerator'', ''denominator''}" "distinct (obj_keys sums)"
    and "k \<in> set (obj_keys (observation_fields M protocol source r name v s u))"
  shows "obj_get (obj_extend (obj_extend c (observation_fields M protocol source r name v s u)) sums) k =
    obj_get (observation_fields M protocol source r name v s u) k"
proof -
  let ?fs = "observation_fields M protocol source r name v s u"
  have "obj_get sums k = None"
    using assms(1,3) by (auto simp: map_of_eq_None_iff observation_fields_def)
  moreover have "obj_get ?fs k \<noteq> None" using assms(3) by (simp add: map_of_eq_None_iff)
  moreover have "distinct (obj_keys ?fs)" by (simp add: observation_fields_def)
  ultimately show ?thesis using assms(2) by (auto simp: obj_get_extend)
qed

lemma unit_printable_str: "unit_printable u \<Longrightarrow> \<exists>t. u = JStr t \<and> metric_printable t 128"
  by (cases u) (auto simp: unit_printable_def)

text \<open>C39. A valid observation is checked. Whenever a metric record is normalised, an observation with
  status VALID carries the value of a field of the record, and that value is a finite number; its
  unit is printable and is the declared one where the schema declares one; its name is declared
  where the schema declares any; its protocol is the contract's; the counts of a ratio of sums are
  there with a positive denominator; and it reports no error and no evidence of an invalid value.\<close>

theorem valid_observations_are_checked:
  assumes "observations_typed M r schema protocol source = Inr os" and "ob \<in> set os"
    and "jget ob ''status'' = Some (JStr ''VALID'')"
  shows "\<exists>definitions d name w u. schema_definitions schema = Inr definitions \<and>
    (obj_get definitions name = Some (JObj d) \<or> definitions = []) \<and>
    jget ob ''name'' = Some (JStr name) \<and>
    w \<in> snd ` set r \<and> value_finite M w \<and> jget ob ''value'' = Some (value_json M w) \<and>
    jget ob ''unit'' = Some (JStr u) \<and> metric_printable u 128 \<and>
    (definitions = [] \<or> obj_get d ''unit'' \<in> {None, Some JNull, Some (JStr u)}) \<and>
    (\<forall>p. protocol = Some p \<longrightarrow> jget ob ''protocol_id'' = Some (JStr p)) \<and>
    (definitions \<noteq> [] \<and> Option.bind (obj_get d ''aggregation'') as_str = Some ''ratio_of_sums'' \<longrightarrow>
       (\<exists>n x. jget ob ''numerator'' = Some n \<and> jget ob ''denominator'' = Some x \<and> n \<noteq> JNull \<and> x \<noteq> JNull \<and>
          \<not> json_nonpositive M x)) \<and>
    jget ob ''errors'' = Some (JArr []) \<and> jget ob ''invalid_value'' = Some JNull"
proof -
  have not_name: "ob \<noteq> invalid_name source" using assms(3) by (auto simp: invalid_name_def)
  then obtain definitions names where names: "schema_definitions schema = Inr definitions" "metric_names r = Some names"
      "each_observation (one_observation M definitions protocol source r) names = Inr os"
    using assms(1,2) by (auto simp: observations_typed_def and_then_eq_Inr split: if_splits option.splits)
  obtain name v item where m: "(name, v, item) \<in> set names"
      "one_observation M definitions protocol source r (name, v, item) = Inr ob"
    using each_observation_Inr [OF names(3) assms(2)] by auto
  obtain d s u sums where d: "obj_get definitions name = Some (JObj d) \<or> obj_get definitions name = None \<and> d = []"
    and j: "judge M definitions d protocol r name v item = (s, u, sums)"
    and ob: "\<And>k. k \<noteq> ''summary'' \<Longrightarrow> jget ob k =
       obj_get (obj_extend (obj_extend (common_fields M r) (observation_fields M protocol source r name v s u)) sums) k"
    using m(2) by (rule one_observation_Inr) blast
  let ?fs = "observation_fields M protocol source r name v s u"
  note keys = judge_keys [OF j]
  have get: "jget ob k = obj_get ?fs k" if "k \<in> set (obj_keys ?fs)" for k
  proof -
    have "k \<noteq> ''summary''" using that by (auto simp: observation_fields_def)
    then show ?thesis using ob observation_field_get [OF keys that] by simp
  qed
  have valid: "m_state s = JStr ''VALID''"
    using get [of "''status''"] assms(3) by (simp add: observation_fields_def)
  obtain w where w: "v = Some w" "value_finite M w" and c: "checked M definitions d protocol r name v u sums"
    using judge_valid [OF j valid] by (auto simp: checked_def)
  obtain t where t: "u = JStr t" "metric_printable t 128"
    using c unit_printable_str by (auto simp: checked_def)
  have shown: "jget ob ''name'' = Some (JStr name)" "jget ob ''value'' = Some (value_json M w)"
      "jget ob ''unit'' = Some (JStr t)" "jget ob ''protocol_id'' = Some (context_value M r protocol)"
      "jget ob ''errors'' = Some (JArr [])" "jget ob ''invalid_value'' = Some JNull"
    using get judge_valid [OF j valid] w t(1) by (simp_all add: observation_fields_def invalid_value_def)
  have sums: "jget ob k = Some x" if "k \<in> {''numerator'', ''denominator''}" "obj_get sums k = Some x" for k x
    using that ob [of k] keys(2) by (auto simp: obj_get_extend)
  have declared: "obj_get definitions name = Some (JObj d) \<or> definitions = []"
    using d c by (auto simp: checked_def map_of_eq_None_iff obj_has_def)
  have counts: "\<exists>n x. jget ob ''numerator'' = Some n \<and> jget ob ''denominator'' = Some x \<and> n \<noteq> JNull \<and> x \<noteq> JNull \<and>
      \<not> json_nonpositive M x" if "Option.bind (obj_get d ''aggregation'') as_str = Some ''ratio_of_sums''"
    using that c sums [of "''numerator''"] sums [of "''denominator''"]
    unfolding checked_def counts_unusable_def by (fastforce split: option.splits)
  have "jget ob ''protocol_id'' = Some (JStr p)" if "protocol = Some p" for p
    using that c shown(4) by (cases "context_value M r protocol") (auto simp: checked_def)
  moreover have "w \<in> snd ` set r" using metric_names_values [OF names(2)] m(1) w(1) by blast
  moreover have "obj_get d ''unit'' \<in> {None, Some JNull, Some (JStr t)}" using c t(1) by (simp add: checked_def)
  ultimately show ?thesis using names(1) declared shown w(2) t(2) counts by blast
qed

definition sample_digest :: "string \<Rightarrow> string" where
  "sample_digest t = take 64 (filter (\<lambda>c. c \<in> set ''0123456789abcdef'') (rev t) @ replicate 64 CHR ''0'')"
end
