(* ===== verification/MetricLine.thy ===== *)
theory MetricLine
  imports Metrics
begin

text \<open>
  One line of a metrics file (\<open>rust/crates/core/src/records/metric_line.rs\<close>): JSON in which a bare
  \<open>NaN\<close>, \<open>Infinity\<close> or \<open>-Infinity\<close> may stand for a number. The line is rewritten so that
  every such token becomes a string that no string of the line starts with, and parsed with the
  standard parser.
\<close>

section \<open>UTF-8\<close>

text \<open>\<open>str::from_utf8\<close>: the well-formed byte sequences of the Unicode standard.\<close>

definition utf8_cont :: "char \<Rightarrow> nat \<Rightarrow> nat \<Rightarrow> bool" where
  "utf8_cont c lo hi \<longleftrightarrow> lo \<le> byte c \<and> byte c \<le> hi"

fun utf8_valid :: "string \<Rightarrow> bool" where
  "utf8_valid [] = True"
| "utf8_valid (a # r) =
     (let n = byte a in
      if n < 128 then utf8_valid r
      else if 194 \<le> n \<and> n \<le> 223
      then (case r of b # r' \<Rightarrow> utf8_cont b 128 191 \<and> utf8_valid r' | [] \<Rightarrow> False)
      else if 224 \<le> n \<and> n \<le> 239
      then (case r of b # c # r' \<Rightarrow>
              utf8_cont b (if n = 224 then 160 else 128) (if n = 237 then 159 else 191) \<and>
              utf8_cont c 128 191 \<and> utf8_valid r' | _ \<Rightarrow> False)
      else if 240 \<le> n \<and> n \<le> 244
      then (case r of b # c # d # r' \<Rightarrow>
              utf8_cont b (if n = 240 then 144 else 128) (if n = 244 then 143 else 191) \<and>
              utf8_cont c 128 191 \<and> utf8_cont d 128 191 \<and> utf8_valid r' | _ \<Rightarrow> False)
      else False)"

section \<open>String literals\<close>

text \<open>The rest of a literal after its opening quote: the bytes up to the closing quote and what follows.
  A backslash at the very end steps past the text, where slicing fails.\<close>

fun literal_rest :: "string \<Rightarrow> (string \<times> string) option" where
  "literal_rest [] = Some ([], [])"
| "literal_rest (c # r) =
     (if c = CHR 0x5C
      then (case r of
              [] \<Rightarrow> None
            | d # r' \<Rightarrow> map_option (\<lambda>(l, t). (c # d # l, t)) (literal_rest r'))
      else if c = CHR 0x22 then Some ([c], r)
      else map_option (\<lambda>(l, t). (c # l, t)) (literal_rest r))"

lemma literal_rest_split: "literal_rest s = Some (l, t) \<Longrightarrow> s = l @ t"
  by (induction s arbitrary: l t rule: literal_rest.induct) (auto split: if_splits list.splits)

lemma literal_rest_shorter: "literal_rest s = Some (l, t) \<Longrightarrow> length t \<le> length s"
  using literal_rest_split by fastforce

text \<open>Every string value of the line.\<close>

function line_strings :: "'f metric_ops \<Rightarrow> string \<Rightarrow> string list option" where
  "line_strings M [] = Some []"
| "line_strings M (c # r) =
     (if c \<noteq> CHR 0x22 then line_strings M r
      else case literal_rest r of
             None \<Rightarrow> None
           | Some (l, t) \<Rightarrow>
               (case parse_literal M (c # l) of
                  None \<Rightarrow> None
                | Some s \<Rightarrow> map_option (\<lambda>ss. s # ss) (line_strings M t)))"
  by pat_completeness auto
termination
  by (relation "measure (\<lambda>(M, s). length s)") (auto dest: literal_rest_shorter)

section \<open>An unused marker\<close>

definition marker_prefix :: "nat \<Rightarrow> string" where
  "marker_prefix n = NUL # ''ml-exp-nonfinite:'' @ show_nat n @ '':''"

text \<open>The search for a prefix that no string of the line starts with. It ends because a string starts
  with at most one of the prefixes.\<close>

lemma marker_prefix_inject:
  assumes "starts_with (marker_prefix m) s" "starts_with (marker_prefix n) s"
  shows "m = n"
proof -
  obtain a b where "show_nat m @ '':'' @ a = show_nat n @ '':'' @ b"
    using assms by (auto simp: starts_with_iff marker_prefix_def)
  then have ab: "show_nat m @ CHR '':'' # a = show_nat n @ CHR '':'' # b" by simp
  have no: "CHR '':'' \<notin> set (show_nat k)" for k
    using all_digits_show_nat [of k] by (auto simp: all_digits_def list_all_iff is_ascii_digit_def byte_def)
  have "split_once CHR '':'' (show_nat m @ CHR '':'' # a) = Some (show_nat m, a)"
    "split_once CHR '':'' (show_nat m @ CHR '':'' # a) = Some (show_nat n, b)"
    unfolding split_once_eq_Some using no ab by simp_all
  then show ?thesis by simp
qed

function unused_prefix :: "string list \<Rightarrow> nat \<Rightarrow> nat" where
  "unused_prefix ss n =
     (if list_ex (starts_with (marker_prefix n)) ss then unused_prefix ss (Suc n) else n)"
  by pat_completeness auto
termination
proof (relation "measure (\<lambda>(ss, n). length (filter (\<lambda>s. \<exists>m \<ge> n. starts_with (marker_prefix m) s) ss))")
  fix ss n
  assume "list_ex (starts_with (marker_prefix n)) ss"
  then obtain s where s: "s \<in> set ss" "starts_with (marker_prefix n) s" by (auto simp: list_ex_iff)
  let ?P = "\<lambda>n s. \<exists>m \<ge> n. starts_with (marker_prefix m) s"
  have "\<not> ?P (Suc n) s" using s(2) marker_prefix_inject by fastforce
  moreover have "?P n s" using s(2) by blast
  moreover have "filter (?P (Suc n)) ss = filter (?P (Suc n)) (filter (?P n) ss)"
    by (auto simp: intro!: filter_cong dest: Suc_leD)
  ultimately have "length (filter (?P (Suc n)) ss) < length (filter (?P n) ss)"
    using s(1) length_filter_less [of s "filter (?P n) ss" "?P (Suc n)"] by simp
  then show "((ss, Suc n), ss, n) \<in> measure (\<lambda>(ss, n). length (filter (?P n) ss))" by simp
qed simp

section \<open>Rewriting\<close>

definition nonfinite_token :: "'f metric_ops \<Rightarrow> string \<Rightarrow> (string \<times> 'f) option" where
  "nonfinite_token M s =
     (if starts_with ''-Infinity'' s then Some (''-Infinity'', negative_infinity M)
      else if starts_with ''Infinity'' s then Some (''Infinity'', infinity_value M)
      else if starts_with ''NaN'' s then Some (''NaN'', nan_value M)
      else None)"

definition json_space :: "char \<Rightarrow> bool" where
  "json_space c \<longleftrightarrow> c \<in> {CHR '' '', CHR 0x09, CHR 0x0D, CHR 0x0A}"

text \<open>The second loop. Literals are copied; a token outside them is replaced by a marker literal unless
  it stands before a colon. No token holds a quote, so the literals met here are those of the first
  loop, and no byte of a longer character starts a token.\<close>

function rewritten ::
    "'f metric_ops \<Rightarrow> string \<Rightarrow> nat \<Rightarrow> string \<Rightarrow> (string \<times> (string \<times> 'f) list) option" where
  "rewritten M p n [] = Some ([], [])"
| "rewritten M p n (c # r) =
     (if c = CHR 0x22
      then (case literal_rest r of
              None \<Rightarrow> None
            | Some (l, t) \<Rightarrow> map_option (\<lambda>(u, ms). (c # l @ u, ms)) (rewritten M p n t))
      else case nonfinite_token M (c # r) of
             Some (token, x) \<Rightarrow>
               let t = drop (length token) (c # r)
               in if starts_with '':'' (dropWhile json_space t) then None
                  else map_option (\<lambda>(u, ms). (string_text M (p @ show_nat n) @ u, (p @ show_nat n, x) # ms))
                         (rewritten M p (Suc n) t)
           | None \<Rightarrow> map_option (\<lambda>(u, ms). (c # u, ms)) (rewritten M p n r))"
  by pat_completeness auto
termination
  by (relation "measure (\<lambda>(M, p, n, s). length s)")
    (auto dest: literal_rest_shorter simp: nonfinite_token_def split: if_splits)

section \<open>Normalisation\<close>

text \<open>A nonfinite number reads as its token; the flag says that one was seen.\<close>

definition normalized_number :: "'f metric_ops \<Rightarrow> string \<Rightarrow> (json \<times> bool) option" where
  "normalized_number M t =
     (if has_float_mark t
      then map_option (\<lambda>x. case number_of_f64 M x of
             Some v \<Rightarrow> (v, False) | None \<Rightarrow> (JStr (float_token M x), True)) (parse_f64 M t)
      else if t = ''-0'' then Some (jnat 0, False)
      else Some (JNum t, False))"

fun normalized :: "'f metric_ops \<Rightarrow> (string \<times> 'f) list \<Rightarrow> json \<Rightarrow> (json \<times> bool) option"
and normalized_items :: "'f metric_ops \<Rightarrow> (string \<times> 'f) list \<Rightarrow> json list \<Rightarrow> (json list \<times> bool) option"
and normalized_members :: "'f metric_ops \<Rightarrow> (string \<times> 'f) list \<Rightarrow> jobject \<Rightarrow> (jobject \<times> bool) option"
where
  "normalized M ms (JStr s) =
     (case map_of ms s of Some x \<Rightarrow> Some (JStr (float_token M x), True) | None \<Rightarrow> Some (JStr s, False))"
| "normalized M ms (JNum t) = normalized_number M t"
| "normalized M ms (JArr xs) = map_option (\<lambda>(ys, b). (JArr ys, b)) (normalized_items M ms xs)"
| "normalized M ms (JObj m) = map_option (\<lambda>(n, b). (JObj n, b)) (normalized_members M ms m)"
| "normalized M ms v = Some (v, False)"
| "normalized_items M ms [] = Some ([], False)"
| "normalized_items M ms (x # xs) =
     (case normalized M ms x of
        None \<Rightarrow> None
      | Some (y, b) \<Rightarrow> map_option (\<lambda>(ys, c). (y # ys, b \<or> c)) (normalized_items M ms xs))"
| "normalized_members M ms [] = Some ([], False)"
| "normalized_members M ms ((k, x) # m) =
     (case normalized M ms x of
        None \<Rightarrow> None
      | Some (y, b) \<Rightarrow> map_option (\<lambda>(ys, c). ((k, y) # ys, b \<or> c)) (normalized_members M ms m))"

section \<open>Lines\<close>

record metric_line =
  line_value :: json
  line_nonfinite :: "string list"

fun top_members ::
    "'f metric_ops \<Rightarrow> (string \<times> 'f) list \<Rightarrow> jobject \<Rightarrow> (jobject \<times> string list) option" where
  "top_members M ms [] = Some ([], [])"
| "top_members M ms ((k, x) # m) =
     (case normalized M ms x of
        None \<Rightarrow> None
      | Some (y, b) \<Rightarrow>
          map_option (\<lambda>(ys, ks). ((k, y) # ys, if b then k # ks else ks)) (top_members M ms m))"

definition line_of :: "'f metric_ops \<Rightarrow> (string \<times> 'f) list \<Rightarrow> json \<Rightarrow> metric_line option" where
  "line_of M ms v =
     (case v of
        JObj m \<Rightarrow> map_option (\<lambda>(n, ks). \<lparr>line_value = JObj n, line_nonfinite = ks\<rparr>) (top_members M ms m)
      | _ \<Rightarrow> map_option (\<lambda>(w, _). \<lparr>line_value = w, line_nonfinite = []\<rparr>) (normalized M ms v))"

definition parse_line :: "'f metric_ops \<Rightarrow> string \<Rightarrow> metric_line option" where
  "parse_line M bytes =
     (if \<not> utf8_valid bytes then None
      else
      Option.bind (line_strings M bytes) (\<lambda>strings.
      Option.bind (rewritten M (marker_prefix (unused_prefix strings 0)) 0 bytes) (\<lambda>(text, markers).
      Option.bind (parse_value M text) (line_of M markers))))"

definition has_field :: "metric_line \<Rightarrow> string \<Rightarrow> bool" where
  "has_field l k \<longleftrightarrow> jget (line_value l) k \<noteq> None"

fun replace_nonfinite ::
    "'f metric_ops \<Rightarrow> json \<Rightarrow> string list \<Rightarrow> 'f observation_input \<Rightarrow> 'f observation_input option" where
  "replace_nonfinite M v [] r = Some r"
| "replace_nonfinite M v (k # ks) r =
     (case jidx v k of
        JStr token \<Rightarrow>
          (case parse_f64 M token of
             None \<Rightarrow> None
           | Some x \<Rightarrow> replace_nonfinite M v ks (with_number k x r))
      | container \<Rightarrow> replace_nonfinite M v ks (with_invalid_text k (plain_json M container) r))"

definition line_observation :: "'f metric_ops \<Rightarrow> metric_line \<Rightarrow> 'f observation_input option" where
  "line_observation M l =
     Option.bind (ok (input_of_json (line_value l))) (replace_nonfinite M (line_value l) (line_nonfinite l))"

section \<open>An instance of the operations\<close>

text \<open>Doubles without a fraction and the nonfinite ones, the RFC 8259 string writer, a digest of the right
  shape, and a parser that knows the texts of one file.\<close>

datatype sample_double = Whole int | NotANumber | Infinite bool

definition sample_doubles :: "sample_double float_ops" where
  "sample_doubles =
     \<lparr>as_f64 = (\<lambda>t. map_option Whole (parse_i64 (case strip_suffix ''.0'' t of Some u \<Rightarrow> u | None \<Rightarrow> t))),
      is_finite = (\<lambda>x. case x of Whole _ \<Rightarrow> True | _ \<Rightarrow> False), is_zero = (\<lambda>x. x = Whole 0),
      positive_zero = Whole 0, format_finite = (\<lambda>x. case x of Whole n \<Rightarrow> show_int n @ ''.0'' | _ \<Rightarrow> [])\<rparr>"

definition sample_record :: "json \<Rightarrow> json" where
  "sample_record v = JObj [(''name'', JStr ''loss''), (''value'', v), (''unit'', JStr ''nats'')]"

definition sample_line :: "string \<Rightarrow> string" where
  "sample_line t = CHR ''{'' # rfc_escape ''name'' @ '':'' @ rfc_escape ''loss'' @ '','' @ rfc_escape ''value'' @ '':'' @ t @
     '','' @ rfc_escape ''unit'' @ '':'' @ rfc_escape ''nats'' @ ''}'' @ [CHR 0x0A]"

definition sample_marker :: string where
  "sample_marker = marker_prefix 0 @ show_nat 0"

definition sample_ops :: "sample_double metric_ops" where
  "sample_ops =
     \<lparr>doubles = sample_doubles,
      parse_f64 = (\<lambda>t. if t = ''nan'' then Some NotANumber else if t = ''inf'' then Some (Infinite False)
        else if t = ''-inf'' then Some (Infinite True) else as_f64 sample_doubles t),
      is_nan = (\<lambda>x. x = NotANumber),
      is_negative = (\<lambda>x. case x of Whole n \<Rightarrow> n < 0 | NotANumber \<Rightarrow> False | Infinite b \<Rightarrow> b),
      nan_value = NotANumber, infinity_value = Infinite False, negative_infinity = Infinite True,
      string_text = rfc_escape, hex_sha256 = sample_digest,
      parse_value = map_of [(sample_line ''2.0'', sample_record (JNum ''2.0'')),
        (sample_line (rfc_escape sample_marker), sample_record (JStr sample_marker))],
      parse_literal = (\<lambda>t. if CHR 0x5C \<in> set t then None else Some (butlast (tl t)))\<rparr>"

lemma sample_reads_finite: "reads_finite (doubles sample_ops)"
  by (auto simp: reads_finite_def sample_ops_def sample_doubles_def)

definition sample_input :: "sample_double observation_input" where
  "sample_input = [(''name'', MJson (JStr ''loss'')), (''value'', MFloat (Whole 2)), (''unit'', MJson (JStr ''nats''))]"

definition sample_schema :: json where
  "sample_schema = JObj [(''definitions'', JObj [(''loss'', JObj [(''unit'', JStr ''nats'')])])]"

theorem valid_observations_are_checked_witness:
  "\<exists>ob. observations_typed sample_ops sample_input sample_schema (Some ''p1'') (Some ''file'') = Inr [ob] \<and>
     jget ob ''status'' = Some (JStr ''VALID'') \<and> jget ob ''protocol_id'' = Some (JStr ''p1'') \<and>
     jget ob ''errors'' = Some (JArr [])"
proof -
  have "case observations_typed sample_ops sample_input sample_schema (Some ''p1'') (Some ''file'') of
      Inr [ob] \<Rightarrow> jget ob ''status'' = Some (JStr ''VALID'') | _ \<Rightarrow> False" by code_simp
  then obtain ob where ob: "observations_typed sample_ops sample_input sample_schema (Some ''p1'') (Some ''file'') = Inr [ob]"
      "jget ob ''status'' = Some (JStr ''VALID'')" by (auto split: sum.splits list.splits)
  with valid_observations_are_checked [OF ob(1) _ ob(2)] show ?thesis by auto
qed
end
