(* ===== verification/Records.thy ===== *)
theory Records
  imports MetricLine
begin

text \<open>
  The journal's events and the import of metrics files (\<open>rust/crates/core/src/records.rs\<close>): event
  identities, the JSONL importer with its bounded buffer, and post-hoc batches.
\<close>

datatype record_error =
    RecordInvalid string | RecordCanonical canonical_error | RecordMetric metric_error

definition record_text :: "'f metric_ops \<Rightarrow> json \<Rightarrow> record_error + string" where
  "record_text M v = map_err RecordCanonical (canonical_bytes (doubles M) (string_text M) v)"

definition record_digest :: "'f metric_ops \<Rightarrow> json \<Rightarrow> record_error + string" where
  "record_digest M v =
     map_err RecordCanonical (canonical_digest (doubles M) (string_text M) (hex_sha256 M) v)"

section \<open>Normalised payloads\<close>

definition evaluation_of :: "json \<Rightarrow> record_error + jobject option" where
  "evaluation_of config =
     and_then (ok_or (as_object config) (RecordInvalid ''bound config object'')) (\<lambda>c.
     case obj_get c ''ml_expd'' of
       None \<Rightarrow> Inr None
     | Some (JObj d) \<Rightarrow>
         (case obj_get d ''evaluation'' of
            None \<Rightarrow> Inr None
          | Some (JObj e) \<Rightarrow> Inr (Some e)
          | _ \<Rightarrow> Inl (RecordInvalid ''evaluation object''))
     | _ \<Rightarrow> Inl (RecordInvalid ''ml_expd config object''))"

definition protocol_of :: "jobject \<Rightarrow> record_error + string option" where
  "protocol_of contract =
     (case obj_get contract ''protocol_id'' of
        None \<Rightarrow> Inr None
      | Some JNull \<Rightarrow> Inr None
      | Some (JStr s) \<Rightarrow> Inr (Some s)
      | _ \<Rightarrow> Inl (RecordInvalid ''protocol ID string''))"

definition normalized_metric_source ::
    "'f metric_ops \<Rightarrow> 'f observation_input \<Rightarrow> json \<Rightarrow> string \<Rightarrow> record_error + json" where
  "normalized_metric_source M r config source =
     and_then (evaluation_of config) (\<lambda>e.
     let contract = (case e of Some c \<Rightarrow> c | None \<Rightarrow> []);
         schema = (case obj_get contract ''metrics_schema'' of Some s \<Rightarrow> s | None \<Rightarrow> JObj [])
     in
     and_then (protocol_of contract) (\<lambda>protocol.
     and_then (map_err RecordMetric (observations_typed M r schema protocol (Some source))) (\<lambda>os.
       Inr (JObj [(''kind'', JStr ''metrics''), (''observations'', JArr os)]))))"

section \<open>Events\<close>

record event =
  event_id :: string
  event_payload :: json

record prepared_event =
  prep_id :: string
  prep_body :: string
  prep_checksum :: string
  prep_dedup :: "string option"

definition prepare_event :: "'f metric_ops \<Rightarrow> event \<Rightarrow> record_error + prepared_event" where
  "prepare_event M e =
     and_then (ok_or (as_object (event_payload e)) (RecordInvalid ''payload object'')) (\<lambda>p.
     and_then (ok_or (obj_get p ''kind'') (RecordInvalid ''payload kind'')) (\<lambda>kind.
     and_then (record_text M (event_payload e)) (\<lambda>body.
     and_then (record_digest M (event_payload e)) (\<lambda>checksum.
       Inr \<lparr>prep_id = event_id e, prep_body = body, prep_checksum = checksum,
            prep_dedup = (if kind = JStr ''metrics'' then Some checksum else None)\<rparr>))))"

section \<open>The importer\<close>

record import_counts =
  count_records :: nat
  count_invalid :: nat

record importer =
  imp_name :: string
  imp_config :: json
  imp_number :: nat
  imp_chunk :: string
  imp_oversized :: bool
  imp_counts :: import_counts
  imp_canonical_only :: bool

definition INPUT_BOUND :: nat where "INPUT_BOUND = 4096"
definition READLINE_BOUND :: nat where "READLINE_BOUND = 65537"

definition new_importer :: "string \<Rightarrow> json \<Rightarrow> record_error + importer" where
  "new_importer name config =
     (if name \<notin> {''metrics.jsonl'', ''train_metrics.jsonl''}
      then Inl (RecordInvalid ''verified metrics filename'')
      else Inr \<lparr>imp_name = name, imp_config = config, imp_number = 0, imp_chunk = [], imp_oversized = False,
                imp_counts = \<lparr>count_records = 0, count_invalid = 0\<rparr>, imp_canonical_only = False\<rparr>)"

definition canonical_metrics :: "json \<Rightarrow> record_error + importer" where
  "canonical_metrics config =
     and_then (new_importer ''metrics.jsonl'' config) (\<lambda>i. Inr (i\<lparr>imp_canonical_only := True\<rparr>))"

definition importer_matches :: "importer \<Rightarrow> string \<Rightarrow> json \<Rightarrow> bool" where
  "importer_matches i name config \<longleftrightarrow>
     imp_name i = name \<and> imp_config i = config \<and> length (imp_chunk i) \<le> READLINE_BOUND"

definition explicit_fields :: "string list" where
  "explicit_fields = [''name'', ''value'', ''unit'']"

definition hex_bytes :: "string \<Rightarrow> string" where
  "hex_bytes s = concat (map (\<lambda>c. [hex_digit (byte c div 16), hex_digit (byte c mod 16)]) s)"

definition metric_event ::
    "'f metric_ops \<Rightarrow> importer \<Rightarrow> 'f observation_input \<Rightarrow> record_error + event" where
  "metric_event M i r =
     and_then (normalized_metric_source M r (imp_config i)
       (if imp_canonical_only i then ''local-jsonl'' else ''exact-attempt-worker'')) (\<lambda>payload.
     and_then (record_digest M payload) (\<lambda>d.
       Inr \<lparr>event_id = ''archive.'' @ d, event_payload = payload\<rparr>))"

definition invalid_event :: "'f metric_ops \<Rightarrow> importer \<Rightarrow> string \<Rightarrow> record_error + event" where
  "invalid_event M i bytes =
     and_then (record_digest M (JArr [JStr (imp_name i), jnat (imp_number i), JStr (hex_bytes bytes)])) (\<lambda>d.
       Inr \<lparr>event_id = ''invalid.'' @ d,
            event_payload = JObj [(''kind'', JStr ''diagnostic''),
              (''data'', JObj [(''diagnostic'', JStr ''INVALID_METRIC_JSONL'')])]\<rparr>)"

text \<open>A line. The counters are 64 bits wide in the code and are not bounded here: a file that would
  overflow them holds 2^64 lines.\<close>

definition import_line ::
    "'f metric_ops \<Rightarrow> importer \<Rightarrow> string \<Rightarrow> bool \<Rightarrow> record_error + event \<times> importer" where
  "import_line M i0 bytes oversized =
     (let i = i0\<lparr>imp_number := imp_number i0 + 1\<rparr>;
          parsed = (if oversized then None else parse_line M bytes)
      in if imp_canonical_only i \<and>
            (case parsed of Some l \<Rightarrow> list_ex (\<lambda>k. \<not> has_field l k) explicit_fields | None \<Rightarrow> False)
      then Inl (RecordInvalid ''local JSONL requires explicit name, value and unit'')
      else case Option.bind parsed (line_observation M) of
        Some r \<Rightarrow>
          and_then (metric_event M i r) (\<lambda>e.
            Inr (e, i\<lparr>imp_counts := (imp_counts i)\<lparr>count_records := count_records (imp_counts i) + 1\<rparr>\<rparr>))
      | None \<Rightarrow>
          and_then (invalid_event M i bytes) (\<lambda>e.
            Inr (e, i\<lparr>imp_counts := (imp_counts i)\<lparr>count_invalid := count_invalid (imp_counts i) + 1\<rparr>\<rparr>)))"

abbreviation NEWLINE :: char where "NEWLINE \<equiv> CHR 0x0A"

fun feed_bytes :: "'f metric_ops \<Rightarrow> importer \<Rightarrow> string \<Rightarrow> record_error + importer \<times> event list" where
  "feed_bytes M i [] = Inr (i, [])"
| "feed_bytes M i (b # bs) =
     (let chunk = imp_chunk i @ [b] in
      if b = NEWLINE \<or> length chunk = READLINE_BOUND
      then let oversized = (imp_oversized i \<or> length chunk > 65536) in
        if oversized \<and> b \<noteq> NEWLINE
        then feed_bytes M (i\<lparr>imp_chunk := [], imp_oversized := True\<rparr>) bs
        else and_then (import_line M (i\<lparr>imp_chunk := []\<rparr>) chunk oversized) (\<lambda>(e, j).
             and_then (feed_bytes M (j\<lparr>imp_oversized := False\<rparr>) bs) (\<lambda>(k, es). Inr (k, e # es)))
      else feed_bytes M (i\<lparr>imp_chunk := chunk\<rparr>) bs)"

record import_emission =
  emitted :: "event list"
  emitted_counts :: import_counts

definition feed :: "'f metric_ops \<Rightarrow> importer \<Rightarrow> string \<Rightarrow> record_error + importer \<times> import_emission" where
  "feed M i bytes =
     (if length bytes > INPUT_BOUND then Inl (RecordInvalid ''import input chunk bound'')
      else and_then (feed_bytes M i bytes) (\<lambda>(j, es).
        Inr (j, \<lparr>emitted = es, emitted_counts = imp_counts j\<rparr>)))"

definition finish_import :: "'f metric_ops \<Rightarrow> importer \<Rightarrow> record_error + import_emission" where
  "finish_import M i =
     (if imp_oversized i
      then and_then (import_line M i [] True) (\<lambda>(e, j).
             Inr \<lparr>emitted = [e], emitted_counts = imp_counts j\<rparr>)
      else if imp_chunk i \<noteq> []
      then and_then (import_line M (i\<lparr>imp_chunk := []\<rparr>) (imp_chunk i) False) (\<lambda>(e, j).
             Inr \<lparr>emitted = [e], emitted_counts = imp_counts j\<rparr>)
      else Inr \<lparr>emitted = [], emitted_counts = imp_counts i\<rparr>)"

section \<open>Post-hoc batches\<close>

definition DERIVED_MAX_RECORDS :: nat where "DERIVED_MAX_RECORDS = 5000"
definition DERIVED_MAX_BYTES :: nat where "DERIVED_MAX_BYTES = 2 * 1024 * 1024"

datatype derived_refusal = DerivedTooLarge | DerivedInvalid

text \<open>\<open>u8::is_ascii_whitespace\<close>.\<close>

definition ascii_space :: "char \<Rightarrow> bool" where
  "ascii_space c \<longleftrightarrow> c \<in> {CHR '' '', CHR 0x09, CHR 0x0A, CHR 0x0C, CHR 0x0D}"

definition derived_line :: "'f metric_ops \<Rightarrow> json \<Rightarrow> string \<Rightarrow> derived_refusal + json" where
  "derived_line M config line =
     and_then (require (length line \<le> 65536) DerivedInvalid) (\<lambda>_.
     and_then (ok_or (parse_line M line) DerivedInvalid) (\<lambda>l.
     and_then (require (list_all (has_field l) explicit_fields) DerivedInvalid) (\<lambda>_.
     and_then (ok_or (line_observation M l) DerivedInvalid) (\<lambda>r.
     and_then (map_err (\<lambda>_. DerivedInvalid)
       (normalized_metric_source M r config ''derived-post-hoc'')) (\<lambda>payload.
     case jget payload ''observations'' of
       Some (JArr [item]) \<Rightarrow>
         if (case jget item ''name'' of Some (JStr _) \<Rightarrow> True | _ \<Rightarrow> False) then Inr item else Inl DerivedInvalid
     | _ \<Rightarrow> Inl DerivedInvalid)))))"

fun derived_lines ::
    "'f metric_ops \<Rightarrow> json \<Rightarrow> json list \<Rightarrow> string list \<Rightarrow> derived_refusal + json list" where
  "derived_lines M config os [] = Inr os"
| "derived_lines M config os (line # ls) =
     (if list_all ascii_space line then derived_lines M config os ls
      else if length os \<ge> DERIVED_MAX_RECORDS then Inl DerivedTooLarge
      else and_then (derived_line M config line) (\<lambda>o'. derived_lines M config (os @ [o']) ls))"

definition derived_observations :: "'f metric_ops \<Rightarrow> string \<Rightarrow> json \<Rightarrow> derived_refusal + json list" where
  "derived_observations M bytes config =
     (if length bytes > DERIVED_MAX_BYTES then Inl DerivedTooLarge
      else and_then (derived_lines M config [] (split_on NEWLINE bytes)) (\<lambda>os.
        if os = [] then Inl DerivedInvalid else Inr os))"

section \<open>An import is one import of the lines\<close>

text \<open>The reference: the file cut after every newline, one event per line. A line and its newline of more
  than 65536 bytes is oversized; its event is identified by what the bounded buffer still holds.\<close>

fun file_lines :: "string \<Rightarrow> string list" where
  "file_lines [] = []"
| "file_lines (c # s) =
     (if c = NEWLINE then [c] # file_lines s
      else case file_lines s of [] \<Rightarrow> [[c]] | l # ls \<Rightarrow> (c # l) # ls)"

definition line_bytes :: "string \<Rightarrow> string" where
  "line_bytes l =
     (if length l \<le> 65536 then l
      else if last l = NEWLINE then drop (READLINE_BOUND * ((length l - 1) div READLINE_BOUND)) l
      else [])"

fun import_lines :: "'f metric_ops \<Rightarrow> importer \<Rightarrow> string list \<Rightarrow> record_error + event list \<times> import_counts" where
  "import_lines M i [] = Inr ([], imp_counts i)"
| "import_lines M i (l # ls) =
     and_then (import_line M i (line_bytes l) (length l > 65536)) (\<lambda>(e, j).
     and_then (import_lines M j ls) (\<lambda>(es, c). Inr (e # es, c)))"

fun feed_chunks :: "'f metric_ops \<Rightarrow> importer \<Rightarrow> string list \<Rightarrow> record_error + importer \<times> event list" where
  "feed_chunks M i [] = Inr (i, [])"
| "feed_chunks M i (c # cs) =
     and_then (feed M i c) (\<lambda>(j, em).
     and_then (feed_chunks M j cs) (\<lambda>(k, es). Inr (k, emitted em @ es)))"

definition import_chunks ::
    "'f metric_ops \<Rightarrow> importer \<Rightarrow> string list \<Rightarrow> record_error + event list \<times> import_counts" where
  "import_chunks M i cs =
     and_then (feed_chunks M i cs) (\<lambda>(j, es).
     and_then (finish_import M j) (\<lambda>em. Inr (es @ emitted em, emitted_counts em)))"

lemma and_then_assoc:
  "and_then (and_then m f) g = and_then m (\<lambda>x. and_then (f x) g)"
  by (cases m) simp_all

lemma and_then_cong_pair:
  "(\<And>x y. f (x, y) = g (x, y)) \<Longrightarrow> and_then m f = and_then m g"
  by (cases m) auto

lemma feed_bytes_append:
  "feed_bytes M i (a @ b) =
     and_then (feed_bytes M i a) (\<lambda>(j, es). and_then (feed_bytes M j b) (\<lambda>(k, fs). Inr (k, es @ fs)))"
proof (induction M i a rule: feed_bytes.induct)
  case (1 M i)
  show ?case by (cases "feed_bytes M i b") auto
next
  case (2 M i c s)
  let ?chunk = "imp_chunk i @ [c]"
  let ?big = "imp_oversized i \<or> length ?chunk > 65536"
  consider (within) "\<not> (c = NEWLINE \<or> length ?chunk = READLINE_BOUND)"
    | (skip) "c = NEWLINE \<or> length ?chunk = READLINE_BOUND" "?big \<and> c \<noteq> NEWLINE"
    | (ended) "c = NEWLINE \<or> length ?chunk = READLINE_BOUND" "\<not> (?big \<and> c \<noteq> NEWLINE)" by blast
  then show ?case
  proof cases
    case within
    with "2.IH"(3) show ?thesis by (simp add: Let_def)
  next
    case skip
    with "2.IH"(1) show ?thesis by (simp add: Let_def)
  next
    case ended
    then have "feed_bytes M (j\<lparr>imp_oversized := False\<rparr>) (s @ b) =
        and_then (feed_bytes M (j\<lparr>imp_oversized := False\<rparr>) s)
          (\<lambda>(j, es). and_then (feed_bytes M j b) (\<lambda>(k, fs). Inr (k, es @ fs)))" for j
      using "2.IH"(2) by (simp add: Let_def)
    with ended show ?thesis
      by (cases "c = NEWLINE") (simp_all add: Let_def and_then_assoc case_prod_beta')
  qed
qed

lemma feed_chunks_concat:
  assumes "\<forall>c \<in> set cs. length c \<le> INPUT_BOUND"
  shows "feed_chunks M i cs = feed_bytes M i (concat cs)"
  using assms
proof (induction cs arbitrary: i)
  case (Cons c cs)
  then show ?case by (simp add: feed_def feed_bytes_append and_then_assoc case_prod_beta')
qed simp

lemma import_line_oversized:
  "import_line M (i\<lparr>imp_oversized := b\<rparr>) l v =
     and_then (import_line M i l v) (\<lambda>(e, j). Inr (e, j\<lparr>imp_oversized := b\<rparr>))"
  by (cases i)
    (simp add: import_line_def Let_def metric_event_def invalid_event_def and_then_assoc split: option.split)

lemma import_line_chunk:
  "import_line M (i\<lparr>imp_chunk := c\<rparr>) l v =
     and_then (import_line M i l v) (\<lambda>(e, j). Inr (e, j\<lparr>imp_chunk := c\<rparr>))"
  by (cases i)
    (simp add: import_line_def Let_def metric_event_def invalid_event_def and_then_assoc split: option.split)

lemma import_line_keeps:
  assumes "import_line M i l v = Inr (e, j)"
  shows "imp_chunk j = imp_chunk i \<and> imp_oversized j = imp_oversized i \<and> imp_name j = imp_name i \<and>
    imp_config j = imp_config i \<and> imp_canonical_only j = imp_canonical_only i"
  using assms unfolding import_line_def Let_def
  by (auto simp: res_simps split: if_splits option.splits)

text \<open>What the buffer holds within a line.\<close>

definition buffered :: "importer \<Rightarrow> string \<Rightarrow> importer" where
  "buffered i t = i\<lparr>imp_chunk := drop (READLINE_BOUND * (length t div READLINE_BOUND)) t,
     imp_oversized := length t \<ge> READLINE_BOUND\<rparr>"

lemma feed_within_line:
  "NEWLINE \<notin> set s \<Longrightarrow> feed_bytes M (buffered i t) s = Inr (buffered i (t @ s), [])"
proof (induction s arbitrary: t)
  case (Cons c s)
  let ?n = "length t"
  have chunk: "length (drop (READLINE_BOUND * (?n div READLINE_BOUND)) t) = ?n mod READLINE_BOUND"
    by (simp add: minus_mult_div_eq_mod)
  have "feed_bytes M (buffered i t) (c # s) = feed_bytes M (buffered i (t @ [c])) s"
  proof (cases "Suc (?n mod READLINE_BOUND) = READLINE_BOUND")
    case True
    have d: "Suc ?n div READLINE_BOUND = Suc (?n div READLINE_BOUND)"
      using True by (simp add: div_Suc mod_Suc split: if_splits)
    have full: "READLINE_BOUND * Suc (?n div READLINE_BOUND) = Suc ?n"
    proof -
      have "Suc ?n = READLINE_BOUND * (?n div READLINE_BOUND) + Suc (?n mod READLINE_BOUND)" by simp
      also have "\<dots> = READLINE_BOUND * Suc (?n div READLINE_BOUND)" using True by simp
      finally show ?thesis ..
    qed
    have rest: "drop (READLINE_BOUND * (Suc ?n div READLINE_BOUND)) (t @ [c]) = []"
      using full by (simp only: d) simp
    have big: "READLINE_BOUND \<le> Suc ?n" "65536 < READLINE_BOUND"
      using full [symmetric] by (simp_all add: READLINE_BOUND_def)
    have "c \<noteq> NEWLINE" using Cons.prems by auto
    then have "feed_bytes M (buffered i t) (c # s) =
        feed_bytes M ((buffered i t)\<lparr>imp_chunk := [], imp_oversized := True\<rparr>) s"
      using True big(2) chunk by (simp add: buffered_def Let_def)
    also have "(buffered i t)\<lparr>imp_chunk := [], imp_oversized := True\<rparr> = buffered i (t @ [c])"
      using rest big by (simp add: buffered_def)
    finally show ?thesis .
  next
    case False
    have d: "Suc ?n div READLINE_BOUND = ?n div READLINE_BOUND"
      using False by (simp add: div_Suc mod_Suc split: if_splits)
    have same: "READLINE_BOUND \<le> Suc ?n \<longleftrightarrow> READLINE_BOUND \<le> ?n"
    proof
      assume "READLINE_BOUND \<le> Suc ?n"
      moreover have "READLINE_BOUND \<noteq> Suc ?n" using False by auto
      ultimately show "READLINE_BOUND \<le> ?n" by simp
    qed simp
    have "c \<noteq> NEWLINE" using Cons.prems by auto
    then have "feed_bytes M (buffered i t) (c # s) =
        feed_bytes M ((buffered i t)\<lparr>imp_chunk := imp_chunk (buffered i t) @ [c]\<rparr>) s"
      using False chunk by (simp add: buffered_def Let_def)
    also have "(buffered i t)\<lparr>imp_chunk := imp_chunk (buffered i t) @ [c]\<rparr> = buffered i (t @ [c])"
      by (simp add: buffered_def d same)
    finally show ?thesis .
  qed
  with Cons show ?case by simp
qed simp

lemma buffered_start: "imp_chunk i = [] \<Longrightarrow> \<not> imp_oversized i \<Longrightarrow> buffered i [] = i"
  by (cases i) (simp add: buffered_def READLINE_BOUND_def)

lemma import_line_buffered:
  assumes "imp_chunk i = []" "\<not> imp_oversized i"
  shows "import_line M ((buffered i t)\<lparr>imp_chunk := []\<rparr>) l v =
    and_then (import_line M i l v) (\<lambda>(e, j). Inr (e, j\<lparr>imp_oversized := imp_oversized (buffered i t)\<rparr>))"
proof -
  have "(buffered i t)\<lparr>imp_chunk := []\<rparr> = i\<lparr>imp_oversized := imp_oversized (buffered i t)\<rparr>"
    using assms(1) by (cases i) (simp add: buffered_def)
  then show ?thesis by (simp only: import_line_oversized)
qed

lemma keep_not_oversized: "\<not> imp_oversized j \<Longrightarrow> j\<lparr>imp_oversized := False\<rparr> = j"
  by (cases j) simp

lemma feed_line:
  assumes "NEWLINE \<notin> set t" "imp_chunk i = []" "\<not> imp_oversized i"
  shows "feed_bytes M i (t @ NEWLINE # s) =
    and_then (import_line M i (line_bytes (t @ [NEWLINE])) (length (t @ [NEWLINE]) > 65536)) (\<lambda>(e, j).
    and_then (feed_bytes M j s) (\<lambda>(k, es). Inr (k, e # es)))"
proof -
  let ?b = "buffered i t"
  let ?chunk = "imp_chunk ?b @ [NEWLINE]"
  have len: "length (imp_chunk ?b) = length t mod READLINE_BOUND"
    by (simp add: buffered_def minus_mult_div_eq_mod)
  have big: "imp_oversized ?b \<or> length ?chunk > 65536 \<longleftrightarrow> length (t @ [NEWLINE]) > 65536"
  proof (cases "READLINE_BOUND \<le> length t")
    case True
    then show ?thesis by (simp add: buffered_def READLINE_BOUND_def)
  next
    case False
    then show ?thesis by (simp add: len buffered_def)
  qed
  have bytes: "?chunk = line_bytes (t @ [NEWLINE])"
  proof (cases "READLINE_BOUND \<le> length t")
    case True
    then show ?thesis by (simp add: line_bytes_def buffered_def READLINE_BOUND_def)
  next
    case False
    then show ?thesis by (simp add: line_bytes_def buffered_def)
  qed
  have "feed_bytes M i t = Inr (?b, [])"
    using feed_within_line [OF assms(1), of M i "[]"] assms(2,3) by (simp add: buffered_start)
  then have "feed_bytes M i (t @ NEWLINE # s) = feed_bytes M ?b (NEWLINE # s)"
    by (simp add: feed_bytes_append case_prod_beta' del: feed_bytes.simps) (cases "feed_bytes M ?b (NEWLINE # s)", auto)
  also have "\<dots> = and_then (import_line M (?b\<lparr>imp_chunk := []\<rparr>) ?chunk (imp_oversized ?b \<or> length ?chunk > 65536))
      (\<lambda>(e, j). and_then (feed_bytes M (j\<lparr>imp_oversized := False\<rparr>) s) (\<lambda>(k, es). Inr (k, e # es)))"
    by (simp add: Let_def)
  also have "\<dots> = and_then (import_line M i ?chunk (imp_oversized ?b \<or> length ?chunk > 65536))
      (\<lambda>(e, j). and_then (feed_bytes M (j\<lparr>imp_oversized := False\<rparr>) s) (\<lambda>(k, es). Inr (k, e # es)))"
    by (simp add: import_line_buffered [OF assms(2,3)] and_then_assoc case_prod_beta')
  also have "\<dots> = and_then (import_line M i ?chunk (imp_oversized ?b \<or> length ?chunk > 65536))
      (\<lambda>(e, j). and_then (feed_bytes M j s) (\<lambda>(k, es). Inr (k, e # es)))"
  proof (cases "import_line M i ?chunk (imp_oversized ?b \<or> length ?chunk > 65536)")
    case (Inr p)
    then have "\<not> imp_oversized (snd p)" using import_line_keeps [of M i _ _ "fst p" "snd p"] assms(3) by simp
    with Inr show ?thesis by (simp add: case_prod_beta' keep_not_oversized)
  qed simp
  finally show ?thesis unfolding big unfolding bytes .
qed

lemma finish_line:
  assumes "NEWLINE \<notin> set t" "imp_chunk i = []" "\<not> imp_oversized i" "t \<noteq> []"
  shows "finish_import M (buffered i t) =
    and_then (import_line M i (line_bytes t) (length t > 65536)) (\<lambda>(e, j).
      Inr \<lparr>emitted = [e], emitted_counts = imp_counts j\<rparr>)"
proof (cases "READLINE_BOUND \<le> length t")
  case True
  have "last t \<noteq> NEWLINE" using assms(1,4) last_in_set by metis
  with True have "line_bytes t = []" "length t > 65536" by (auto simp: line_bytes_def READLINE_BOUND_def)
  moreover have "imp_oversized (buffered i t)" using True by (simp add: buffered_def)
  moreover have "finish_import M (buffered i t) = and_then (import_line M (buffered i t) [] True) (\<lambda>(e, j).
      Inr \<lparr>emitted = [e], emitted_counts = imp_counts j\<rparr>)"
    using calculation(3) by (simp add: finish_import_def)
  ultimately show ?thesis
    by (simp add: buffered_def import_line_oversized import_line_chunk and_then_assoc case_prod_beta')
next
  case False
  then have "length t \<le> 65536" by (simp add: READLINE_BOUND_def)
  moreover have "imp_chunk (buffered i t) = t" "\<not> imp_oversized (buffered i t)"
    using False by (simp_all add: buffered_def)
  ultimately show ?thesis
    using import_line_buffered [OF assms(2,3), of M t] assms(4)
    by (simp add: finish_import_def line_bytes_def and_then_assoc case_prod_beta')
qed

lemma file_lines_end: "NEWLINE \<notin> set t \<Longrightarrow> file_lines t = (if t = [] then [] else [t])"
  by (induction t) auto

lemma file_lines_line: "NEWLINE \<notin> set t \<Longrightarrow> file_lines (t @ NEWLINE # s) = (t @ [NEWLINE]) # file_lines s"
  by (induction t) auto

lemma import_by_lines:
  assumes "imp_chunk i = []" "\<not> imp_oversized i"
  shows "and_then (feed_bytes M i s) (\<lambda>(j, es).
      and_then (finish_import M j) (\<lambda>em. Inr (es @ emitted em, emitted_counts em))) =
    import_lines M i (file_lines s)"
  using assms
proof (induction "length s" arbitrary: s i rule: less_induct)
  case less
  show ?case
  proof (cases "NEWLINE \<in> set s")
    case False
    have f: "feed_bytes M i s = Inr (buffered i s, [])"
      using feed_within_line [OF False, of M i "[]"] less.prems by (simp add: buffered_start)
    show ?thesis
    proof (cases "s = []")
      case True
      with less.prems show ?thesis by (simp add: finish_import_def)
    next
      case nonempty: False
      show ?thesis
        using finish_line [OF False less.prems nonempty, of M] nonempty
        by (simp add: f file_lines_end [OF False] and_then_assoc case_prod_beta')
    qed
  next
    case True
    then obtain t r where s: "s = t @ NEWLINE # r" "NEWLINE \<notin> set t" by (meson split_list_first)
    show ?thesis
    proof (cases "import_line M i (line_bytes (t @ [NEWLINE])) (length (t @ [NEWLINE]) > 65536)")
      case (Inl e)
      then show ?thesis
        unfolding s(1) file_lines_line [OF s(2)] feed_line [OF s(2) less.prems] by simp
    next
      case (Inr p)
      have j: "imp_chunk (snd p) = []" "\<not> imp_oversized (snd p)"
        using import_line_keeps [of M i _ _ "fst p" "snd p"] Inr less.prems by simp_all
      have "length r < length s" by (simp add: s(1))
      note ih = less.hyps [OF this j, symmetric]
      show ?thesis
        using Inr unfolding s(1) file_lines_line [OF s(2)] feed_line [OF s(2) less.prems]
        by (simp add: and_then_assoc case_prod_beta' ih)
    qed
  qed
qed

text \<open>C21. Chunking does not matter. However a metrics file arrives in pieces of at most 4096 bytes, feeding
  the pieces and finishing gives exactly the events, the counts and the error that importing the
  file line by line gives: one event per line in order, whatever the pieces cut through.\<close>

theorem jsonl_import_is_chunk_invariant:
  assumes "new_importer name config = Inr i0 \<or> canonical_metrics config = Inr i0"
    and "\<forall>c \<in> set cs. length c \<le> INPUT_BOUND"
  shows "import_chunks M i0 cs = import_lines M i0 (file_lines (concat cs))"
proof -
  have "imp_chunk i0 = []" "\<not> imp_oversized i0"
    using assms(1) by (auto simp: new_importer_def canonical_metrics_def res_simps split: if_splits)
  then show ?thesis
    using import_by_lines [of i0 M "concat cs"] by (simp add: import_chunks_def feed_chunks_concat [OF assms(2)])
qed

text \<open>The records a batch holds: its lines that are not blank.\<close>

definition derived_records :: "string \<Rightarrow> string list" where
  "derived_records bytes = filter (\<lambda>l. \<not> list_all ascii_space l) (split_on NEWLINE bytes)"

lemma and_then_Inl:
  assumes "and_then m f = Inl e"
  obtains "m = Inl e" | x where "m = Inr x" "f x = Inl e"
  using assms by (cases m) auto

lemma derived_line_refuses: "derived_line M config line = Inl e \<Longrightarrow> e = DerivedInvalid"
  unfolding derived_line_def require_def ok_or_def map_err_def
  by (auto split: option.splits sum.splits json.splits list.splits if_splits elim!: and_then_Inl)

lemma derived_lines_Inr:
  "length os \<le> DERIVED_MAX_RECORDS \<Longrightarrow>
   derived_lines M config os ls = Inr vs \<longleftrightarrow>
     (\<exists>us. vs = os @ us \<and> length vs \<le> DERIVED_MAX_RECORDS \<and>
        list_all2 (\<lambda>l v. derived_line M config l = Inr v) (filter (\<lambda>l. \<not> list_all ascii_space l) ls) us)"
proof (induction M config os ls rule: derived_lines.induct)
  case (1 M config os)
  then show ?case by auto
next
  case (2 M config os line ls)
  show ?case
  proof (cases "list_all ascii_space line")
    case True
    with 2 show ?thesis by simp
  next
    case False
    show ?thesis
    proof (cases "length os \<ge> DERIVED_MAX_RECORDS")
      case True
      with False show ?thesis by (auto simp: list_all2_Cons1)
    next
      case room: False
      show ?thesis
      proof (cases "derived_line M config line")
        case (Inl e)
        with False room show ?thesis by (auto simp: list_all2_Cons1)
      next
        case (Inr v)
        with False room show ?thesis
          using "2.IH"(2) [OF False _, of v] by (auto simp: list_all2_Cons1)
      qed
    qed
  qed
qed

lemma derived_lines_too_large:
  "length os \<le> DERIVED_MAX_RECORDS \<Longrightarrow>
   derived_lines M config os ls = Inl DerivedTooLarge \<longleftrightarrow>
     (let rs = filter (\<lambda>l. \<not> list_all ascii_space l) ls; n = DERIVED_MAX_RECORDS - length os in
      length rs > n \<and> list_all (\<lambda>l. is_ok (derived_line M config l)) (take n rs))"
proof (induction M config os ls rule: derived_lines.induct)
  case (1 M config os)
  then show ?case by simp
next
  case (2 M config os line ls)
  show ?case
  proof (cases "list_all ascii_space line")
    case True
    with 2 show ?thesis by simp
  next
    case False
    show ?thesis
    proof (cases "length os \<ge> DERIVED_MAX_RECORDS")
      case True
      with False show ?thesis by simp
    next
      case room: False
      then obtain n where n: "DERIVED_MAX_RECORDS - length os = Suc n" by (metis diff_is_0_eq not0_implies_Suc)
      show ?thesis
      proof (cases "derived_line M config line")
        case (Inl e)
        with False room n derived_line_refuses [OF Inl] show ?thesis by (simp add: Let_def is_ok_iff)
      next
        case (Inr v)
        have "DERIVED_MAX_RECORDS - length (os @ [v]) = n" using n by simp
        then show ?thesis
          using "2.IH"(2) [OF False _, of v] False room n Inr by (simp add: Let_def is_ok_iff)
      qed
    qed
  qed
qed

text \<open>C38. Post-hoc batches are all or nothing. A batch of at most 2 MiB with one to 5000 records, each of
  which gives an observation, becomes exactly the list of these observations in the order of the
  lines; it is refused as too large when it exceeds the size, or when it holds more than 5000 records
  of which the first 5000 are good; every other batch is refused as invalid. Blank lines are not
  records.\<close>

theorem derived_batches_are_all_or_nothing:
  "(derived_observations M bytes config = Inr os \<longleftrightarrow>
      length bytes \<le> DERIVED_MAX_BYTES \<and> os \<noteq> [] \<and> length os \<le> DERIVED_MAX_RECORDS \<and>
      list_all2 (\<lambda>l v. derived_line M config l = Inr v) (derived_records bytes) os) \<and>
   (derived_observations M bytes config = Inl DerivedTooLarge \<longleftrightarrow>
      length bytes > DERIVED_MAX_BYTES \<or>
      length (derived_records bytes) > DERIVED_MAX_RECORDS \<and>
        list_all (\<lambda>l. is_ok (derived_line M config l)) (take DERIVED_MAX_RECORDS (derived_records bytes)))"
proof (cases "length bytes > DERIVED_MAX_BYTES")
  case True
  then show ?thesis by (simp add: derived_observations_def)
next
  case False
  let ?ls = "split_on NEWLINE bytes"
  have ok: "derived_lines M config [] ?ls = Inr os \<longleftrightarrow> length os \<le> DERIVED_MAX_RECORDS \<and>
      list_all2 (\<lambda>l v. derived_line M config l = Inr v) (derived_records bytes) os"
    using derived_lines_Inr [of "[]" M config ?ls os] by (simp add: derived_records_def)
  have large: "derived_lines M config [] ?ls = Inl DerivedTooLarge \<longleftrightarrow>
      length (derived_records bytes) > DERIVED_MAX_RECORDS \<and>
      list_all (\<lambda>l. is_ok (derived_line M config l)) (take DERIVED_MAX_RECORDS (derived_records bytes))"
    using derived_lines_too_large [of "[]" M config ?ls] by (simp add: derived_records_def Let_def)
  have "derived_observations M bytes config = Inr os \<longleftrightarrow> os \<noteq> [] \<and> derived_lines M config [] ?ls = Inr os"
    using False by (cases "derived_lines M config [] ?ls") (auto simp: derived_observations_def)
  moreover have "derived_observations M bytes config = Inl DerivedTooLarge \<longleftrightarrow>
      derived_lines M config [] ?ls = Inl DerivedTooLarge"
    using False by (cases "derived_lines M config [] ?ls") (auto simp: derived_observations_def)
  ultimately show ?thesis using ok large False by auto
qed

section \<open>A file\<close>

definition sample_config :: json where
  "sample_config = JObj [(''ml_expd'', JObj [(''evaluation'', JObj [(''protocol_id'', JStr ''p1''),
     (''metrics_schema'', JObj [(''definitions'', JObj [(''loss'', JObj [(''unit'', JStr ''nats'')])])])])])]"

definition sample_file :: string where
  "sample_file = sample_line ''2.0'' @ ''not a metric'' @ [NEWLINE] @ sample_line ''NaN''"

definition sample_importer :: importer where
  "sample_importer = (case new_importer ''metrics.jsonl'' sample_config of Inr i \<Rightarrow> i | Inl _ \<Rightarrow> undefined)"

lemma sample_new_importer: "new_importer ''metrics.jsonl'' sample_config = Inr sample_importer"
  by (simp add: sample_importer_def new_importer_def)

definition status_of :: "event \<Rightarrow> json option" where
  "status_of e =
     (case jget (event_payload e) ''observations'' of Some (JArr (ob # _)) \<Rightarrow> jget ob ''status'' | _ \<Rightarrow> None)"

lemma sample_import:
  "case import_lines sample_ops sample_importer (file_lines sample_file) of
     Inr (es, c) \<Rightarrow> map status_of es = [Some (JStr ''VALID''), None, Some (JStr ''FAILED'')] \<and>
       count_records c = 2 \<and> count_invalid c = 1
   | Inl _ \<Rightarrow> False"
  by code_simp

theorem jsonl_import_is_chunk_invariant_witness:
  "import_chunks sample_ops sample_importer [take 30 sample_file, [], drop 30 sample_file] =
     import_lines sample_ops sample_importer (file_lines sample_file) \<and>
   (\<exists>es c. import_lines sample_ops sample_importer (file_lines sample_file) = Inr (es, c) \<and> length es = 3)"
proof -
  have "length (take 30 sample_file) \<le> INPUT_BOUND \<and> length (drop 30 sample_file) \<le> INPUT_BOUND" by code_simp
  then have "\<forall>c \<in> set [take 30 sample_file, [], drop 30 sample_file]. length c \<le> INPUT_BOUND"
    by (simp del: length_take length_drop)
  from jsonl_import_is_chunk_invariant [OF disjI1 [OF sample_new_importer] this, of sample_ops]
  have "import_chunks sample_ops sample_importer [take 30 sample_file, [], drop 30 sample_file] =
     import_lines sample_ops sample_importer (file_lines sample_file)" by simp
  then show ?thesis
    using sample_import by (auto split: sum.splits prod.splits dest!: arg_cong [of _ _ length])
qed
end
