(* ===== verification/Journal.thy ===== *)
theory Journal
  imports Records
begin

text \<open>
  The journal of one scope (\<open>rust/crates/server/src/records/store.rs\<close>): the tables \<open>events\<close> and
  \<open>event_ids\<close>, and appending a batch of events in one transaction. Post-hoc batches share the
  sequence; of them only the highest sequence matters here. The deletion fence and the binding of
  the scope are the verdict \<open>live\<close>.
\<close>

record journal_row =
  row_seq :: nat
  row_id :: string
  row_body :: string
  row_dedup :: "string option"

record journal =
  journal_ids :: "(string \<times> string) list"
  journal_rows :: "journal_row list"
  derived_last :: nat

datatype journal_error =
    JournalScope | JournalConflict | JournalSequence | JournalConstraint | JournalRecord record_error

definition journal_total :: "journal \<Rightarrow> nat" where
  "journal_total j = max (fold (\<lambda>r n. max (row_seq r) n) (journal_rows j) 0) (derived_last j)"

definition has_dedup :: "journal \<Rightarrow> string option \<Rightarrow> bool" where
  "has_dedup j d \<longleftrightarrow> d \<noteq> None \<and> list_ex (\<lambda>r. row_dedup r = d) (journal_rows j)"

fun append_rows :: "nat \<Rightarrow> prepared_event list \<Rightarrow> journal \<Rightarrow> journal_error + journal" where
  "append_rows n [] j = Inr j"
| "append_rows n (e # es) j =
     (case map_of (journal_ids j) (prep_id e) of
        Some old \<Rightarrow>
          if old \<noteq> prep_checksum e then Inl JournalConflict else append_rows n es j
      | None \<Rightarrow>
          let j' = j\<lparr>journal_ids := journal_ids j @ [(prep_id e, prep_checksum e)]\<rparr> in
          if has_dedup j (prep_dedup e) then append_rows n es j'
          else if n + 1 \<ge> i64_limit then Inl JournalSequence
          else if list_ex (\<lambda>r. row_id r = prep_id e) (journal_rows j) then Inl JournalConstraint
          else append_rows (n + 1) es (j'\<lparr>journal_rows := journal_rows j @
            [\<lparr>row_seq = n + 1, row_id = prep_id e, row_body = prep_body e, row_dedup = prep_dedup e\<rparr>]\<rparr>))"

fun prepare_events :: "'f metric_ops \<Rightarrow> event list \<Rightarrow> record_error + prepared_event list" where
  "prepare_events M [] = Inr []"
| "prepare_events M (e # es) =
     and_then (prepare_event M e) (\<lambda>p. and_then (prepare_events M es) (\<lambda>ps. Inr (p # ps)))"

definition append_events ::
    "'f metric_ops \<Rightarrow> bool \<Rightarrow> event list \<Rightarrow> journal \<Rightarrow> journal_error + journal" where
  "append_events M live es j =
     (if \<not> live then Inl JournalScope
      else and_then (map_err JournalRecord (prepare_events M es)) (\<lambda>ps. append_rows (journal_total j) ps j))"

text \<open>\<open>events.chunks(64)\<close>: the transactions of an import.\<close>

fun batches :: "nat \<Rightarrow> 'a list \<Rightarrow> 'a list list" where
  "batches n [] = []"
| "batches n (x # xs) = take (Suc n) (x # xs) # batches n (drop n xs)"

lemma concat_batches [simp]: "concat (batches n xs) = xs"
  by (induction n xs rule: batches.induct) auto

section \<open>What a journal holds\<close>

definition recorded :: "'f metric_ops \<Rightarrow> journal \<Rightarrow> event \<Rightarrow> bool" where
  "recorded M j e \<longleftrightarrow>
     (\<exists>p. prepare_event M e = Inr p \<and> map_of (journal_ids j) (prep_id p) = Some (prep_checksum p))"

definition known :: "journal \<Rightarrow> prepared_event \<Rightarrow> bool" where
  "known j p \<longleftrightarrow> map_of (journal_ids j) (prep_id p) = Some (prep_checksum p)"

lemma append_rows_known:
  "append_rows n es j = Inr j' \<Longrightarrow>
     (\<forall>p. known j p \<longrightarrow> known j' p) \<and> (\<forall>p \<in> set es. known j' p)"
proof (induction n es j arbitrary: j' rule: append_rows.induct)
  case (2 n e es j)
  show ?case
  proof (cases "map_of (journal_ids j) (prep_id e)")
    case None
    let ?j = "j\<lparr>journal_ids := journal_ids j @ [(prep_id e, prep_checksum e)]\<rparr>"
    let ?k = "?j\<lparr>journal_rows := journal_rows j @
            [\<lparr>row_seq = n + 1, row_id = prep_id e, row_body = prep_body e, row_dedup = prep_dedup e\<rparr>]\<rparr>"
    have k: "known ?j p \<longleftrightarrow> known ?k p" for p by (simp add: known_def)
    have step: "(\<forall>p. known ?j p \<longrightarrow> known j' p) \<and> (\<forall>p \<in> set es. known j' p)"
    proof (cases "has_dedup j (prep_dedup e)")
      case True
      then show ?thesis using "2.IH"(1) [OF None refl True] "2.prems" None by (simp add: Let_def)
    next
      case False
      with "2.prems" None have "append_rows (n + 1) es ?k = Inr j'"
        "\<not> i64_limit \<le> n + 1" "\<not> list_ex (\<lambda>r. row_id r = prep_id e) (journal_rows j)"
        by (simp_all add: Let_def split: if_splits)
      then show ?thesis using "2.IH"(2) [OF None refl False] k by simp
    qed
    have "known ?j e" using None by (simp add: known_def map_add_def)
    moreover have "known ?j p" if "known j p" for p using that by (simp add: known_def map_add_def)
    ultimately show ?thesis using step by auto
  next
    case (Some old)
    with "2.prems" have "old = prep_checksum e" "append_rows n es j = Inr j'" by (simp_all split: if_splits)
    then show ?thesis using "2.IH"(3) [OF Some] Some by (auto simp: known_def)
  qed
qed simp

lemma prepare_events_Inr:
  "prepare_events M es = Inr ps \<Longrightarrow> e \<in> set es \<Longrightarrow> \<exists>p \<in> set ps. prepare_event M e = Inr p"
  by (induction es arbitrary: ps) (auto simp: res_simps)

lemma append_events_Inr:
  assumes "append_events M live es j = Inr j'"
  obtains ps where "prepare_events M es = Inr ps" "append_rows (journal_total j) ps j = Inr j'"
  using assms by (auto simp: append_events_def res_simps split: if_splits)

lemma append_records:
  assumes "append_events M live es j = Inr j'"
  shows "e \<in> set es \<Longrightarrow> recorded M j' e" "recorded M j e \<Longrightarrow> recorded M j' e"
proof -
  obtain ps where ps: "prepare_events M es = Inr ps" "append_rows (journal_total j) ps j = Inr j'"
    using assms by (rule append_events_Inr)
  note k = append_rows_known [OF ps(2)]
  show "recorded M j' e" if "e \<in> set es"
    using prepare_events_Inr [OF ps(1) that] k by (auto simp: recorded_def known_def)
  show "recorded M j' e" if "recorded M j e"
    using that k by (auto simp: recorded_def known_def)
qed

section \<open>Each event once\<close>

definition row_backed :: "'f metric_ops \<Rightarrow> journal \<Rightarrow> journal_row \<Rightarrow> bool" where
  "row_backed M j r \<longleftrightarrow> map_of (journal_ids j) (row_id r) = Some (hex_sha256 M (row_body r)) \<and>
     row_dedup r \<in> {None, Some (hex_sha256 M (row_body r))}"

definition id_backed :: "'f metric_ops \<Rightarrow> journal \<Rightarrow> string \<Rightarrow> string \<Rightarrow> bool" where
  "id_backed M j i d \<longleftrightarrow>
     (\<exists>r \<in> set (journal_rows j). hex_sha256 M (row_body r) = d \<and> (row_id r = i \<or> row_dedup r = Some d))"

definition journal_wf :: "'f metric_ops \<Rightarrow> journal \<Rightarrow> bool" where
  "journal_wf M j \<longleftrightarrow>
     distinct (map row_id (journal_rows j)) \<and> distinct (List.map_filter row_dedup (journal_rows j)) \<and>
     sorted_wrt (<) (map row_seq (journal_rows j)) \<and>
     list_all (row_backed M j) (journal_rows j) \<and>
     (\<forall>i d. map_of (journal_ids j) i = Some d \<longrightarrow> id_backed M j i d)"

definition prep_ok :: "'f metric_ops \<Rightarrow> prepared_event \<Rightarrow> bool" where
  "prep_ok M p \<longleftrightarrow> prep_checksum p = hex_sha256 M (prep_body p) \<and>
     prep_dedup p \<in> {None, Some (prep_checksum p)}"

lemma prepare_event_ok: "prepare_event M e = Inr p \<Longrightarrow> prep_ok M p"
  by (auto simp: prepare_event_def prep_ok_def record_text_def record_digest_def canonical_digest_def res_simps)

lemma prepare_events_ok: "prepare_events M es = Inr ps \<Longrightarrow> p \<in> set ps \<Longrightarrow> prep_ok M p \<and> (\<exists>e \<in> set es. prepare_event M e = Inr p)"
  by (induction es arbitrary: ps) (auto simp: res_simps prepare_event_ok)

lemma set_map_filter: "y \<in> set (List.map_filter f xs) \<longleftrightarrow> (\<exists>x \<in> set xs. f x = Some y)"
  by (induction xs) (auto simp: List.map_filter_simps split: option.splits)

lemma map_filter_snoc: "List.map_filter f (xs @ [x]) = List.map_filter f xs @ (case f x of None \<Rightarrow> [] | Some y \<Rightarrow> [y])"
  by (induction xs) (auto simp: List.map_filter_simps split: option.splits)

lemma filter_distinct_le: "distinct (map f xs) \<Longrightarrow> length (filter (\<lambda>x. f x = y) xs) \<le> 1"
proof (induction xs)
  case (Cons a xs)
  then show ?case by (cases "f a = y") (auto simp: filter_empty_conv image_iff)
qed simp

lemma filter_distinct_some_le:
  "distinct (List.map_filter f xs) \<Longrightarrow> length (filter (\<lambda>x. f x = Some y) xs) \<le> 1"
proof (induction xs)
  case (Cons a xs)
  then show ?case
    by (cases "f a") (auto simp: List.map_filter_simps set_map_filter filter_empty_conv)
qed (simp add: List.map_filter_simps)

lemma wf_skip:
  assumes wf: "journal_wf M j" and p: "prep_ok M p" and new: "map_of (journal_ids j) (prep_id p) = None"
    and dup: "has_dedup j (prep_dedup p)"
  shows "journal_wf M (j\<lparr>journal_ids := journal_ids j @ [(prep_id p, prep_checksum p)]\<rparr>)"
    (is "journal_wf M ?j")
proof -
  obtain r where r: "r \<in> set (journal_rows j)" "row_dedup r = Some (prep_checksum p)"
    using p dup by (auto simp: has_dedup_def prep_ok_def list_ex_iff)
  have "row_backed M j r" using wf r(1) by (auto simp: journal_wf_def list_all_iff)
  then have "hex_sha256 M (row_body r) = prep_checksum p" using r(2) by (auto simp: row_backed_def)
  with r have "id_backed M ?j (prep_id p) (prep_checksum p)" by (auto simp: id_backed_def)
  moreover have "id_backed M ?j i d" if "map_of (journal_ids j) i = Some d" for i d
    using wf that by (auto simp: journal_wf_def id_backed_def)
  moreover have "row_backed M ?j s" if "s \<in> set (journal_rows j)" for s
    using wf that by (auto simp: journal_wf_def list_all_iff row_backed_def map_add_def)
  ultimately show ?thesis
    using wf new by (auto simp: journal_wf_def list_all_iff map_add_def split: option.splits if_splits)
qed

lemma wf_insert:
  assumes wf: "journal_wf M j" and p: "prep_ok M p" and new: "map_of (journal_ids j) (prep_id p) = None"
    and dup: "\<not> has_dedup j (prep_dedup p)" and seq: "\<forall>r \<in> set (journal_rows j). row_seq r \<le> n"
  shows "journal_wf M (j\<lparr>journal_ids := journal_ids j @ [(prep_id p, prep_checksum p)],
      journal_rows := journal_rows j @
        [\<lparr>row_seq = n + 1, row_id = prep_id p, row_body = prep_body p, row_dedup = prep_dedup p\<rparr>]\<rparr>)"
    (is "journal_wf M ?j")
proof -
  let ?r = "\<lparr>row_seq = n + 1, row_id = prep_id p, row_body = prep_body p, row_dedup = prep_dedup p\<rparr>"
  have ids: "map_of (journal_ids ?j) i = (if i = prep_id p then Some (prep_checksum p) else map_of (journal_ids j) i)" for i
    using new by (auto simp: map_add_def split: option.split)
  have old: "row_backed M j r \<and> row_id r \<noteq> prep_id p" if "r \<in> set (journal_rows j)" for r
    using wf that new by (auto simp: journal_wf_def list_all_iff row_backed_def)
  have "row_backed M ?j r" if "r \<in> set (journal_rows ?j)" for r
    using that old p by (auto simp: row_backed_def map_add_def new prep_ok_def)
  moreover have "id_backed M ?j i d" if "map_of (journal_ids ?j) i = Some d" for i d
  proof (cases "i = prep_id p")
    case True
    with that p show ?thesis by (auto simp: map_add_def new id_backed_def prep_ok_def)
  next
    case False
    then have "map_of (journal_ids j) i = Some d" using that ids [of i] by simp
    with wf show ?thesis by (auto simp: journal_wf_def id_backed_def)
  qed
  moreover have "prep_id p \<notin> row_id ` set (journal_rows j)" by (metis imageE old)
  then have "distinct (map row_id (journal_rows ?j))"
    using wf by (simp add: journal_wf_def)
  moreover have "distinct (List.map_filter row_dedup (journal_rows ?j))"
    using wf dup
    by (auto simp: journal_wf_def has_dedup_def list_ex_iff map_filter_snoc set_map_filter split: option.splits)
  moreover have "sorted_wrt (<) (map row_seq (journal_rows ?j))"
    using wf seq by (auto simp: journal_wf_def sorted_wrt_append le_imp_less_Suc)
  ultimately show ?thesis by (simp add: journal_wf_def list_all_iff)
qed

lemma append_rows_wf:
  "append_rows n ps j = Inr j' \<Longrightarrow> journal_wf M j \<Longrightarrow> list_all (prep_ok M) ps \<Longrightarrow>
   \<forall>r \<in> set (journal_rows j). row_seq r \<le> n \<Longrightarrow> journal_wf M j'"
proof (induction n ps j arbitrary: j' rule: append_rows.induct)
  case (2 n e es j)
  show ?case
  proof (cases "map_of (journal_ids j) (prep_id e)")
    case None
    show ?thesis
    proof (cases "has_dedup j (prep_dedup e)")
      case True
      show ?thesis
        using "2.IH"(1) [OF None refl True] "2.prems" None True wf_skip [OF "2.prems"(2) _ None True]
        by (simp add: Let_def)
    next
      case False
      have a: "append_rows (n + 1) es (j\<lparr>journal_ids := journal_ids j @ [(prep_id e, prep_checksum e)],
          journal_rows := journal_rows j @
        [\<lparr>row_seq = n + 1, row_id = prep_id e, row_body = prep_body e, row_dedup = prep_dedup e\<rparr>]\<rparr>) = Inr j'"
        "\<not> i64_limit \<le> n + 1" "\<not> list_ex (\<lambda>r. row_id r = prep_id e) (journal_rows j)"
        using "2.prems"(1) None False by (simp_all add: Let_def split: if_splits)
      show ?thesis
        using "2.IH"(2) [OF None refl False a(2,3)] a(1) wf_insert [OF "2.prems"(2) _ None False "2.prems"(4)] "2.prems"(3,4)
        by (simp add: le_Suc_eq)
    qed
  next
    case (Some old)
    with "2.prems" have "old = prep_checksum e" "append_rows n es j = Inr j'" by (simp_all split: if_splits)
    then show ?thesis using "2.IH"(3) [OF Some] "2.prems" by simp
  qed
qed simp

lemma fold_max_le: "x \<in> set xs \<Longrightarrow> f x \<le> fold (\<lambda>r n. max (f r) n) xs (m :: nat)"
proof (induction xs arbitrary: m)
  case (Cons y ys)
  have "m' \<le> fold (\<lambda>r n. max (f r) n) ys m'" for m' :: nat
    by (induction ys arbitrary: m') (auto intro: order_trans [OF max.cobounded2])
  from this [of "max (f y) m"] Cons show ?case by auto
qed simp

lemma append_events_wf:
  assumes "append_events M live es j = Inr j'" "journal_wf M j"
  shows "journal_wf M j'"
proof -
  obtain ps where ps: "prepare_events M es = Inr ps" "append_rows (journal_total j) ps j = Inr j'"
    using assms(1) by (rule append_events_Inr)
  have "row_seq r \<le> journal_total j" if "r \<in> set (journal_rows j)" for r
    using fold_max_le [OF that, of row_seq 0] by (simp add: journal_total_def)
  then show ?thesis
    using append_rows_wf [OF ps(2) assms(2)] prepare_events_ok [OF ps(1)] by (simp add: list_all_iff)
qed

definition stored_once :: "'f metric_ops \<Rightarrow> journal \<Rightarrow> event \<Rightarrow> bool" where
  "stored_once M j e \<longleftrightarrow>
     (\<exists>p. prepare_event M e = Inr p \<and>
        (\<exists>r \<in> set (journal_rows j). hex_sha256 M (row_body r) = prep_checksum p \<and>
           (row_id r = prep_id p \<or> row_dedup r = Some (prep_checksum p))) \<and>
        length (filter (\<lambda>r. row_id r = prep_id p) (journal_rows j)) \<le> 1 \<and>
        length (filter (\<lambda>r. row_dedup r = Some (prep_checksum p)) (journal_rows j)) \<le> 1)"

lemma recorded_stored_once:
  assumes "journal_wf M j" "recorded M j e"
  shows "stored_once M j e"
proof -
  obtain p where p: "prepare_event M e = Inr p" "map_of (journal_ids j) (prep_id p) = Some (prep_checksum p)"
    using assms(2) by (auto simp: recorded_def)
  have "id_backed M j (prep_id p) (prep_checksum p)" using assms(1) p(2) by (simp add: journal_wf_def)
  moreover have "length (filter (\<lambda>r. row_id r = prep_id p) (journal_rows j)) \<le> 1"
    using assms(1) by (intro filter_distinct_le) (simp add: journal_wf_def)
  moreover have "length (filter (\<lambda>r. row_dedup r = Some (prep_checksum p)) (journal_rows j)) \<le> 1"
    using assms(1) by (intro filter_distinct_some_le) (simp add: journal_wf_def)
  ultimately show ?thesis unfolding stored_once_def id_backed_def using p(1) by blast
qed

lemma append_rows_origin:
  "append_rows n ps j = Inr j' \<Longrightarrow> r \<in> set (journal_rows j') \<Longrightarrow>
     r \<in> set (journal_rows j) \<or> (\<exists>p \<in> set ps. row_id r = prep_id p \<and> row_body r = prep_body p)"
proof (induction n ps j rule: append_rows.induct)
  case (2 n e es j)
  show ?case
  proof (cases "map_of (journal_ids j) (prep_id e)")
    case None
    show ?thesis
    proof (cases "has_dedup j (prep_dedup e)")
      case True
      show ?thesis using "2.IH"(1) [OF None refl True] "2.prems" None True by (simp add: Let_def) blast
    next
      case False
      have a: "append_rows (n + 1) es (j\<lparr>journal_ids := journal_ids j @ [(prep_id e, prep_checksum e)],
          journal_rows := journal_rows j @
        [\<lparr>row_seq = n + 1, row_id = prep_id e, row_body = prep_body e, row_dedup = prep_dedup e\<rparr>]\<rparr>) = Inr j'"
        "\<not> i64_limit \<le> n + 1" "\<not> list_ex (\<lambda>r. row_id r = prep_id e) (journal_rows j)"
        using "2.prems"(1) None False by (simp_all add: Let_def split: if_splits)
      show ?thesis using "2.IH"(2) [OF None refl False a(2,3)] a(1) "2.prems"(2) by auto
    qed
  next
    case (Some old)
    with "2.prems" have "old = prep_checksum e" "append_rows n es j = Inr j'" by (simp_all split: if_splits)
    then show ?thesis using "2.IH"(3) [OF Some] "2.prems" by auto
  qed
qed simp

lemma append_events_origin:
  assumes "append_events M live es j = Inr j'" "r \<in> set (journal_rows j')"
  shows "r \<in> set (journal_rows j) \<or>
    (\<exists>e \<in> set es. \<exists>p. prepare_event M e = Inr p \<and> row_id r = prep_id p \<and> row_body r = prep_body p)"
proof -
  obtain ps where ps: "prepare_events M es = Inr ps" "append_rows (journal_total j) ps j = Inr j'"
    using assms(1) by (rule append_events_Inr)
  then show ?thesis
    using append_rows_origin [OF ps(2) assms(2)] prepare_events_ok [OF ps(1)] by blast
qed
end
