(* ===== verification/History.thy ===== *)
theory History
  imports Journal SlurmHelper
begin

text \<open>
  Ingestion of an Attempt's metrics file: pages and cursors
  (\<open>rust/crates/core/src/managed/history.rs\<close>), the read on the gateway
  (\<open>rust/crates/worker/src/slurm/ledger/history.rs\<close>) and the service that commits events before it
  advances its cursor (\<open>rust/crates/server/src/backends/slurm/service/engine/history.rs\<close>).
\<close>

section \<open>Pages\<close>

definition PAGE_BYTES :: nat where "PAGE_BYTES = 128 * 1024"

record history_cursor =
  cursor_inode :: nat
  cursor_offset :: nat
  cursor_prefix :: string

record history_page =
  page_contract :: string
  page_config :: string
  page_start :: "history_cursor option"
  page_next :: history_cursor
  page_bytes :: string
  page_total :: nat
  page_finished :: bool
  page_missing :: bool

definition CONTRACT :: string where "CONTRACT = ''managed-metric-history.v1''"

definition content_digest :: "'f metric_ops \<Rightarrow> string \<Rightarrow> string" where
  "content_digest M b = ''sha256:'' @ hex_sha256 M b"

definition validate_cursor :: "history_cursor \<Rightarrow> helper_error + unit" where
  "validate_cursor c = require (valid_digest (cursor_prefix c)) HMetadata"

definition start_offset :: "history_cursor option \<Rightarrow> nat" where
  "start_offset start = (case start of Some c \<Rightarrow> cursor_offset c | None \<Rightarrow> 0)"

definition page_consistent :: "history_cursor option \<Rightarrow> history_page \<Rightarrow> bool" where
  "page_consistent start p \<longleftrightarrow>
     (let offset = start_offset start in
      page_contract p = CONTRACT \<and> valid_digest (page_config p) \<and> page_start p = start \<and>
      length (page_bytes p) \<le> PAGE_BYTES \<and>
      checked_add_u64 offset (length (page_bytes p)) = Some (cursor_offset (page_next p)) \<and>
      cursor_offset (page_next p) \<le> page_total p \<and>
      \<not> (page_missing p \<and> (\<not> page_finished p \<or> page_total p \<noteq> 0 \<or> cursor_inode (page_next p) \<noteq> 0 \<or>
          start \<noteq> None)) \<and>
      length (page_bytes p) = min (page_total p - offset) PAGE_BYTES \<and>
      (case start of
         Some c \<Rightarrow> cursor_inode c = cursor_inode (page_next p) \<and>
           (page_bytes p = [] \<longrightarrow> cursor_prefix c = cursor_prefix (page_next p))
       | None \<Rightarrow> True))"

definition validate_page ::
    "'f metric_ops \<Rightarrow> history_cursor option \<Rightarrow> history_page \<Rightarrow> helper_error + unit" where
  "validate_page M start p =
     and_then (validate_cursor (page_next p)) (\<lambda>_.
     and_then (case start of Some c \<Rightarrow> validate_cursor c | None \<Rightarrow> Inr ()) (\<lambda>_.
     and_then (require (page_consistent start p) HMetadata) (\<lambda>_.
       require (start_offset start = 0 \<longrightarrow>
         content_digest M (page_bytes p) = cursor_prefix (page_next p)) HContent)))"

definition page_complete :: "history_page \<Rightarrow> bool" where
  "page_complete p \<longleftrightarrow> page_finished p \<and> cursor_offset (page_next p) = page_total p"

section \<open>The read on the gateway\<close>

text \<open>One stable look at the output directory: the file's bytes if it exists, and whether the worker
  has finished. A file that changes while it is read gives no page; that reply is the same as any
  other unavailable storage.\<close>

definition missing_page :: "'f metric_ops \<Rightarrow> string \<Rightarrow> history_page" where
  "missing_page M cfg =
     \<lparr>page_contract = CONTRACT, page_config = cfg, page_start = None,
      page_next = \<lparr>cursor_inode = 0, cursor_offset = 0, cursor_prefix = content_digest M []\<rparr>,
      page_bytes = [], page_total = 0, page_finished = True, page_missing = True\<rparr>"

definition file_page ::
    "'f metric_ops \<Rightarrow> string \<Rightarrow> nat \<Rightarrow> string \<Rightarrow> bool \<Rightarrow> history_cursor option \<Rightarrow> history_page" where
  "file_page M cfg inode f finished start =
     (let offset = start_offset start;
          count = min (length f - offset) PAGE_BYTES
      in \<lparr>page_contract = CONTRACT, page_config = cfg, page_start = start,
          page_next = \<lparr>cursor_inode = inode, cursor_offset = offset + count,
                       cursor_prefix = content_digest M (take (offset + count) f)\<rparr>,
          page_bytes = take count (drop offset f), page_total = length f, page_finished = finished,
          page_missing = False\<rparr>)"

definition read_page ::
    "'f metric_ops \<Rightarrow> string \<Rightarrow> nat \<Rightarrow> string option \<Rightarrow> bool \<Rightarrow> history_cursor option \<Rightarrow> history_page option" where
  "read_page M cfg inode contents finished start =
     (case contents of
        None \<Rightarrow>
          if finished \<and> start = None \<and> is_ok (validate_page M None (missing_page M cfg))
          then Some (missing_page M cfg) else None
      | Some f \<Rightarrow>
          if start_offset start > length f \<or>
             (case start of
                Some c \<Rightarrow> cursor_inode c \<noteq> inode \<or> content_digest M (take (cursor_offset c) f) \<noteq> cursor_prefix c
              | None \<Rightarrow> False)
          then None
          else let p = file_page M cfg inode f finished start
               in if is_ok (validate_page M start p) then Some p else None)"

section \<open>The service\<close>

record saved_history =
  saved_cursor :: "history_cursor option"
  saved_importer :: "importer option"
  saved_counts :: import_counts
  saved_complete :: bool
  saved_missing :: bool

datatype history_error = HistoryAuthority | HistoryImport record_error

definition start_importer :: "json \<Rightarrow> importer" where
  "start_importer config =
     \<lparr>imp_name = ''metrics.jsonl'', imp_config = config, imp_number = 0, imp_chunk = [], imp_oversized = False,
      imp_counts = \<lparr>count_records = 0, count_invalid = 0\<rparr>, imp_canonical_only = False\<rparr>"

definition fresh_history :: "json \<Rightarrow> saved_history" where
  "fresh_history config =
     \<lparr>saved_cursor = None, saved_importer = Some (start_importer config),
      saved_counts = \<lparr>count_records = 0, count_invalid = 0\<rparr>, saved_complete = False, saved_missing = False\<rparr>"

definition stored_history :: "json \<Rightarrow> saved_history option \<Rightarrow> history_error + saved_history" where
  "stored_history config slot =
     (case slot of
        None \<Rightarrow> Inr (fresh_history config)
      | Some s \<Rightarrow>
          if (saved_complete s \<longleftrightarrow> saved_importer s \<noteq> None) \<or>
             (case saved_cursor s of None \<Rightarrow> True | Some c \<Rightarrow> \<not> is_ok (validate_cursor c)) \<or>
             (case saved_importer s of None \<Rightarrow> False | Some i \<Rightarrow> \<not> importer_matches i ''metrics.jsonl'' config)
          then Inl HistoryAuthority else Inr s)"

text \<open>The transactions of a page in their order, and how feeding it ends.\<close>

fun feed_page ::
    "'f metric_ops \<Rightarrow> importer \<Rightarrow> import_counts \<Rightarrow> string list
     \<Rightarrow> event list list \<times> (history_error + importer \<times> import_counts)" where
  "feed_page M i c [] = ([], Inr (i, c))"
| "feed_page M i c (s # ss) =
     (case feed M i s of
        Inl e \<Rightarrow> ([], Inl (HistoryImport e))
      | Inr (j, em) \<Rightarrow>
          (case feed_page M j (emitted_counts em) ss of
             (bs, r) \<Rightarrow> (batches 63 (emitted em) @ bs, r)))"

definition next_history :: "history_page \<Rightarrow> importer option \<Rightarrow> import_counts \<Rightarrow> saved_history" where
  "next_history p i c =
     \<lparr>saved_cursor = Some (page_next p), saved_importer = i, saved_counts = c,
      saved_complete = page_complete p, saved_missing = page_missing p\<rparr>"

definition ingest_plan ::
    "'f metric_ops \<Rightarrow> saved_history \<Rightarrow> history_page \<Rightarrow> event list list \<times> (history_error + saved_history)" where
  "ingest_plan M s p =
     (case saved_importer s of
        None \<Rightarrow> ([], Inl HistoryAuthority)
      | Some i \<Rightarrow>
          (case feed_page M i (saved_counts s) (batches (INPUT_BOUND - 1) (page_bytes p)) of
             (bs, Inl e) \<Rightarrow> (bs, Inl e)
           | (bs, Inr (j, c)) \<Rightarrow>
               if page_complete p
               then (case finish_import M j of
                       Inl e \<Rightarrow> (bs, Inl (HistoryImport e))
                     | Inr em \<Rightarrow> (bs @ batches 63 (emitted em), Inr (next_history p None (emitted_counts em))))
               else (bs, Inr (next_history p (Some j) c))))"

section \<open>Every interleaving\<close>

record 'j ingest_world =
  metrics_file :: "string option"
  worker_finished :: bool
  history_slot :: "saved_history option"
  pending :: "(event list list \<times> (history_error + saved_history)) option"
  books :: 'j

definition file_bytes_of :: "'j ingest_world \<Rightarrow> string" where
  "file_bytes_of w = (case metrics_file w of Some f \<Rightarrow> f | None \<Rightarrow> [])"

text \<open>The worker appends to its file until it finishes. A call of the service reads the slot and one page,
  commits the page's batches one transaction at a time and replaces the slot last; it may stop, by a
  failed check, a refused append or a crash, between any two of these. Other writers append events
  of their own (\<open>other\<close>) at any time.\<close>

inductive ingest_step ::
    "'f metric_ops \<Rightarrow> (event list \<Rightarrow> 'j \<Rightarrow> 'e + 'j) \<Rightarrow> (event \<Rightarrow> bool) \<Rightarrow> string \<Rightarrow> json \<Rightarrow> nat
     \<Rightarrow> 'j ingest_world \<Rightarrow> 'j ingest_world \<Rightarrow> bool"
  for M app other cfg config inode
where
  create: "metrics_file w = None \<Longrightarrow> \<not> worker_finished w \<Longrightarrow>
     ingest_step M app other cfg config inode w (w\<lparr>metrics_file := Some []\<rparr>)"
| grow: "metrics_file w = Some f \<Longrightarrow> \<not> worker_finished w \<Longrightarrow>
     ingest_step M app other cfg config inode w (w\<lparr>metrics_file := Some (f @ bs)\<rparr>)"
| ends: "ingest_step M app other cfg config inode w (w\<lparr>worker_finished := True\<rparr>)"
| foreign: "app es (books w) = Inr b \<Longrightarrow> (\<forall>e \<in> set es. other e) \<Longrightarrow>
     ingest_step M app other cfg config inode w (w\<lparr>books := b\<rparr>)"
| begin_page: "pending w = None \<Longrightarrow> stored_history config (history_slot w) = Inr s \<Longrightarrow> \<not> saved_complete s \<Longrightarrow>
     read_page M cfg inode (metrics_file w) (worker_finished w) (saved_cursor s) = Some p \<Longrightarrow>
     is_ok (validate_page M (saved_cursor s) p) \<Longrightarrow> page_config p = cfg \<Longrightarrow>
     ingest_step M app other cfg config inode w (w\<lparr>pending := Some (ingest_plan M s p)\<rparr>)"
| commit_batch: "pending w = Some (b # bs, r) \<Longrightarrow> app b (books w) = Inr j \<Longrightarrow>
     ingest_step M app other cfg config inode w (w\<lparr>pending := Some (bs, r), books := j\<rparr>)"
| save: "pending w = Some ([], Inr s) \<Longrightarrow>
     ingest_step M app other cfg config inode w (w\<lparr>pending := None, history_slot := Some s\<rparr>)"
| stop: "ingest_step M app other cfg config inode w (w\<lparr>pending := None\<rparr>)"

inductive ingest_run ::
    "'f metric_ops \<Rightarrow> (event list \<Rightarrow> 'j \<Rightarrow> 'e + 'j) \<Rightarrow> (event \<Rightarrow> bool) \<Rightarrow> string \<Rightarrow> json \<Rightarrow> nat
     \<Rightarrow> 'j ingest_world \<Rightarrow> 'j ingest_world \<Rightarrow> bool"
  for M app other cfg config inode
where
  here: "ingest_run M app other cfg config inode w w"
| more: "ingest_run M app other cfg config inode w v \<Longrightarrow> ingest_step M app other cfg config inode v u \<Longrightarrow>
     ingest_run M app other cfg config inode w u"

definition first_world :: "'j \<Rightarrow> 'j ingest_world" where
  "first_world j = \<lparr>metrics_file = None, worker_finished = False, history_slot = None, pending = None, books = j\<rparr>"

inductive_cases ingest_stepE: "ingest_step M app other cfg config inode w w'"

section \<open>What has been ingested\<close>

lemma read_page_Some:
  assumes "read_page M cfg inode contents fin start = Some p"
  defines "f \<equiv> (case contents of Some f \<Rightarrow> f | None \<Rightarrow> [])"
  shows "start_offset start \<le> length f"
    and "page_bytes p = take (min (length f - start_offset start) PAGE_BYTES) (drop (start_offset start) f)"
    and "cursor_offset (page_next p) = start_offset start + length (page_bytes p)"
    and "page_total p = length f" and "page_finished p = fin"
  using assms(1) unfolding f_def
  by (auto simp: read_page_def missing_page_def file_page_def Let_def start_offset_def split: option.splits if_splits)

lemma feed_page_Inr:
  "feed_page M i c ss = (bs, Inr (j, d)) \<Longrightarrow> c = imp_counts i \<Longrightarrow>
   feed_bytes M i (concat ss) = Inr (j, concat bs) \<and> d = imp_counts j"
proof (induction M i c ss arbitrary: bs rule: feed_page.induct)
  case (2 M i c s ss)
  obtain k em bs' where f: "feed M i s = Inr (k, em)" "feed_page M k (emitted_counts em) ss = (bs', Inr (j, d))"
    "bs = batches 63 (emitted em) @ bs'"
    using "2.prems"(1) by (auto split: sum.splits prod.splits)
  have k: "feed_bytes M i s = Inr (k, emitted em)" "emitted_counts em = imp_counts k"
    using f(1) by (auto simp: feed_def res_simps split: if_splits)
  from "2.IH" [OF f(1) refl f(2) k(2)] k(1) f(3) show ?case by (simp add: feed_bytes_append)
qed simp

text \<open>A saved state stands for a prefix of the file, and when it is complete, for all of it; \<open>P\<close> holds
  of the events of that prefix.\<close>

definition progress ::
    "'f metric_ops \<Rightarrow> json \<Rightarrow> string \<Rightarrow> bool \<Rightarrow> (event \<Rightarrow> bool) \<Rightarrow> saved_history \<Rightarrow> bool" where
  "progress M config f fin P s \<longleftrightarrow>
     (if saved_complete s
      then fin \<and> (\<exists>i es em. feed_bytes M (start_importer config) f = Inr (i, es) \<and>
        finish_import M i = Inr em \<and> saved_counts s = emitted_counts em \<and>
        (\<forall>e \<in> set es \<union> set (emitted em). P e))
      else start_offset (saved_cursor s) \<le> length f \<and>
        (\<exists>i es. saved_importer s = Some i \<and>
          feed_bytes M (start_importer config) (take (start_offset (saved_cursor s)) f) = Inr (i, es) \<and>
          saved_counts s = imp_counts i \<and> (\<forall>e \<in> set es. P e)))"

lemma progress_mono:
  assumes "progress M config f fin P s" and "\<And>e. P e \<Longrightarrow> Q e"
  shows "progress M config f fin Q s"
proof (cases "saved_complete s")
  case True
  with assms(1) obtain i es em where "fin" "feed_bytes M (start_importer config) f = Inr (i, es)"
      "finish_import M i = Inr em" "saved_counts s = emitted_counts em" "\<forall>e \<in> set es \<union> set (emitted em). P e"
    by (auto simp: progress_def)
  with True assms(2) show ?thesis unfolding progress_def by auto
next
  case False
  with assms(1) obtain i es where "start_offset (saved_cursor s) \<le> length f" "saved_importer s = Some i"
      "feed_bytes M (start_importer config) (take (start_offset (saved_cursor s)) f) = Inr (i, es)"
      "saved_counts s = imp_counts i" "\<forall>e \<in> set es. P e"
    by (auto simp: progress_def)
  with False assms(2) show ?thesis unfolding progress_def by auto
qed

lemma progress_fresh: "progress M config f fin P (fresh_history config)"
  by (simp add: progress_def fresh_history_def start_offset_def start_importer_def)

lemma progress_grow: "progress M config f False P s \<Longrightarrow> progress M config (f @ g) False P s"
  by (auto simp: progress_def split: if_splits)

lemma progress_ends: "progress M config f fin P s \<Longrightarrow> progress M config f True P s"
  by (auto simp: progress_def split: if_splits)

lemma plan_progress:
  assumes s: "progress M config f fin P s" "\<not> saved_complete s"
    and off: "start_offset (saved_cursor s) \<le> length f"
    and bytes: "page_bytes p = take (min (length f - start_offset (saved_cursor s)) PAGE_BYTES)
        (drop (start_offset (saved_cursor s)) f)"
    and next_off: "cursor_offset (page_next p) = start_offset (saved_cursor s) + length (page_bytes p)"
    and total: "page_total p = length f" and fin: "page_finished p = fin"
    and plan: "ingest_plan M s p = (bs, Inr t)"
  shows "progress M config f fin (\<lambda>e. P e \<or> e \<in> set (concat bs)) t"
proof -
  let ?n = "start_offset (saved_cursor s)"
  let ?i = "start_importer config"
  let ?m = "cursor_offset (page_next p)"
  obtain i es where i: "saved_importer s = Some i" "feed_bytes M ?i (take ?n f) = Inr (i, es)"
      "saved_counts s = imp_counts i" "\<forall>e \<in> set es. P e"
    using s by (auto simp: progress_def)
  obtain cs j c where feed: "feed_page M i (saved_counts s) (batches (INPUT_BOUND - 1) (page_bytes p)) = (cs, Inr (j, c))"
    using plan i(1) by (auto simp: ingest_plan_def split: prod.splits sum.splits)
  have j: "feed_bytes M i (page_bytes p) = Inr (j, concat cs)" "c = imp_counts j"
    using feed_page_Inr [OF feed i(3)] by simp_all
  have m: "?m \<le> length f" "take ?m f = take ?n f @ page_bytes p"
    using off next_off bytes by (simp_all add: take_add)
  have read: "feed_bytes M ?i (take ?m f) = Inr (j, es @ concat cs)"
    by (simp add: m(2) feed_bytes_append i(2) j(1))
  show ?thesis
  proof (cases "page_complete p")
    case True
    then obtain em where em: "finish_import M j = Inr em" "bs = cs @ batches 63 (emitted em)"
        "t = next_history p None (emitted_counts em)"
      using plan i(1) feed by (auto simp: ingest_plan_def split: sum.splits)
    have "fin" "take ?m f = f" using True fin total by (simp_all add: page_complete_def)
    with em read i(4) True show ?thesis by (auto simp: progress_def next_history_def)
  next
    case False
    then have t: "bs = cs" "t = next_history p (Some j) c"
      using plan i(1) feed by (auto simp: ingest_plan_def)
    show ?thesis
      using False m(1) read i(4) j(2)
      by (auto simp: progress_def t next_history_def start_offset_def)
  qed
qed

section \<open>The journal as the service sees it\<close>

definition ingesting :: "'f metric_ops \<Rightarrow> json \<Rightarrow> ('j \<Rightarrow> event \<Rightarrow> bool) \<Rightarrow> 'j ingest_world \<Rightarrow> bool" where
  "ingesting M config holds w \<longleftrightarrow>
     (\<forall>s. history_slot w = Some s \<longrightarrow>
        progress M config (file_bytes_of w) (worker_finished w) (holds (books w)) s) \<and>
     (\<forall>bs s. pending w = Some (bs, Inr s) \<longrightarrow>
        progress M config (file_bytes_of w) (worker_finished w) (\<lambda>e. holds (books w) e \<or> e \<in> set (concat bs)) s)"

text \<open>What ingestion relies on: an accepted append records its events and keeps what was recorded.\<close>

locale event_journal =
  fixes app :: "event list \<Rightarrow> 'j \<Rightarrow> 'e + 'j"
    and holds :: "'j \<Rightarrow> event \<Rightarrow> bool"
  assumes appended: "app es j = Inr j' \<Longrightarrow> e \<in> set es \<Longrightarrow> holds j' e"
    and kept: "app es j = Inr j' \<Longrightarrow> holds j e \<Longrightarrow> holds j' e"
begin

lemma ingesting_books:
  assumes "ingesting M config holds w" and "app es (books w) = Inr j"
  shows "ingesting M config holds (w\<lparr>books := j\<rparr>)"
proof -
  have "progress M config f fin (holds j) s" if "progress M config f fin (holds (books w)) s" for f fin s
    by (rule progress_mono [OF that]) (rule kept [OF assms(2)])
  moreover have "progress M config f fin (\<lambda>e. holds j e \<or> e \<in> X) s"
    if "progress M config f fin (\<lambda>e. holds (books w) e \<or> e \<in> X) s" for f fin X s
    by (rule progress_mono [OF that]) (use kept [OF assms(2)] in blast)
  ultimately show ?thesis using assms(1)
    unfolding ingesting_def file_bytes_of_def by (simp del: set_concat)
qed

lemma step_ingesting:
  assumes "ingest_step M app other cfg config inode w w'" and "ingesting M config holds w"
  shows "ingesting M config holds w'"
  using assms(1)
proof cases
  case create
  then show ?thesis using assms(2) by (simp add: ingesting_def file_bytes_of_def)
next
  case (grow f bs)
  then show ?thesis using assms(2) progress_grow [of M config f] by (auto simp: ingesting_def file_bytes_of_def)
next
  case ends
  then show ?thesis using assms(2) progress_ends by (auto simp: ingesting_def file_bytes_of_def)
next
  case (foreign es b)
  then show ?thesis using ingesting_books [OF assms(2)] by simp
next
  case (begin_page s p)
  have "progress M config (file_bytes_of w) (worker_finished w) (holds (books w)) s"
    using begin_page(3) assms(2) progress_fresh
    by (auto simp: stored_history_def ingesting_def split: option.splits if_splits)
  then have "progress M config (file_bytes_of w) (worker_finished w) (\<lambda>e. holds (books w) e \<or> e \<in> set (concat bs)) t"
    if "ingest_plan M s p = (bs, Inr t)" for bs t
    using plan_progress [OF _ begin_page(4) _ _ _ _ _ that] read_page_Some [OF begin_page(5)]
    by (simp add: file_bytes_of_def)
  then show ?thesis using assms(2) begin_page(1) by (simp add: ingesting_def file_bytes_of_def)
next
  case (commit_batch b bs r j)
  have k: "ingesting M config holds (w\<lparr>books := j\<rparr>)" using ingesting_books [OF assms(2)] commit_batch(3) .
  have "progress M config (file_bytes_of w) (worker_finished w) (\<lambda>e. holds j e \<or> e \<in> set (concat bs)) s"
    if "r = Inr s" for s
  proof -
    have "progress M config (file_bytes_of w) (worker_finished w)
        (\<lambda>e. holds (books w) e \<or> e \<in> set (concat (b # bs))) s"
      using assms(2) commit_batch(2) that by (simp add: ingesting_def)
    then show ?thesis
      by (rule progress_mono) (use appended [OF commit_batch(3)] kept [OF commit_batch(3)] in auto)
  qed
  then show ?thesis using k commit_batch(1) by (simp add: ingesting_def file_bytes_of_def)
next
  case (save s)
  then show ?thesis using assms(2) by (simp add: ingesting_def file_bytes_of_def)
next
  case stop
  then show ?thesis using assms(2) by (simp add: ingesting_def file_bytes_of_def)
qed

lemma run_ingesting:
  "ingest_run M app other cfg config inode w v \<Longrightarrow> ingesting M config holds w \<Longrightarrow> ingesting M config holds v"
  by (induction rule: ingest_run.induct) (auto intro: step_ingesting)

lemma ingesting_first: "ingesting M config holds (first_world j)"
  by (simp add: ingesting_def first_world_def)

end

text \<open>A journal whose rows are known to come from given events.\<close>

definition imported :: "'f metric_ops \<Rightarrow> json \<Rightarrow> string \<Rightarrow> bool \<Rightarrow> event \<Rightarrow> bool" where
  "imported M config f fin e \<longleftrightarrow>
     (\<exists>n i es. feed_bytes M (start_importer config) (take n f) = Inr (i, es) \<and> e \<in> set es) \<or>
     (fin \<and> (\<exists>i es em. feed_bytes M (start_importer config) f = Inr (i, es) \<and> finish_import M i = Inr em \<and>
        e \<in> set (emitted em)))"

lemma imported_grow: "imported M config f False e \<Longrightarrow> imported M config (f @ g) False e"
proof -
  assume "imported M config f False e"
  then obtain n i es where n: "feed_bytes M (start_importer config) (take n f) = Inr (i, es)" "e \<in> set es"
    by (auto simp: imported_def)
  have "take (min n (length f)) (f @ g) = take n f" by (simp add: min_def)
  with n show ?thesis unfolding imported_def by metis
qed

lemma imported_ends: "imported M config f fin e \<Longrightarrow> imported M config f True e"
  by (auto simp: imported_def)

lemma feed_page_sourced:
  "e \<in> set (concat (fst (feed_page M i c ss))) \<Longrightarrow>
     \<exists>n j es. feed_bytes M i (take n (concat ss)) = Inr (j, es) \<and> e \<in> set es"
proof (induction M i c ss rule: feed_page.induct)
  case (2 M i c s ss)
  obtain k em where f: "feed M i s = Inr (k, em)"
    using "2.prems" by (auto split: sum.splits prod.splits)
  obtain bs r where r: "feed_page M k (emitted_counts em) ss = (bs, r)" by (rule prod.exhaust)
  have k: "feed_bytes M i s = Inr (k, emitted em)"
    using f by (auto simp: feed_def res_simps split: if_splits)
  from "2.prems" f r have "e \<in> set (emitted em) \<or> e \<in> set (concat bs)" by auto
  then show ?case
  proof
    assume "e \<in> set (emitted em)"
    moreover have "feed_bytes M i (take (length s) (concat (s # ss))) = Inr (k, emitted em)" using k by simp
    ultimately show ?thesis by blast
  next
    assume "e \<in> set (concat bs)"
    then obtain n j es where n: "feed_bytes M k (take n (concat ss)) = Inr (j, es)" "e \<in> set es"
      using "2.IH" [OF f refl] r by auto
    have "feed_bytes M i (take (length s + n) (concat (s # ss))) = Inr (j, emitted em @ es)"
      using k n(1) by (simp add: feed_bytes_append)
    with n(2) show ?thesis by fastforce
  qed
qed simp

lemma plan_sourced:
  assumes s: "progress M config f fin P s" "\<not> saved_complete s"
    and off: "start_offset (saved_cursor s) \<le> length f"
    and bytes: "page_bytes p = take (min (length f - start_offset (saved_cursor s)) PAGE_BYTES)
        (drop (start_offset (saved_cursor s)) f)"
    and next_off: "cursor_offset (page_next p) = start_offset (saved_cursor s) + length (page_bytes p)"
    and total: "page_total p = length f" and fin: "page_finished p = fin"
    and e: "e \<in> set (concat (fst (ingest_plan M s p)))"
  shows "imported M config f fin e"
proof -
  let ?n = "start_offset (saved_cursor s)"
  let ?ss = "batches (INPUT_BOUND - 1) (page_bytes p)"
  obtain i es where i: "saved_importer s = Some i" "feed_bytes M (start_importer config) (take ?n f) = Inr (i, es)"
      "saved_counts s = imp_counts i" using s by (auto simp: progress_def)
  obtain cs r where feed: "feed_page M i (saved_counts s) ?ss = (cs, r)" by (rule prod.exhaust)
  show ?thesis
  proof (cases "e \<in> set (concat cs)")
    case True
    then obtain n j es' where n: "feed_bytes M i (take n (page_bytes p)) = Inr (j, es')" "e \<in> set es'"
      using feed_page_sourced [of e M i "saved_counts s" ?ss] feed by auto
    have "take ?n f @ take n (page_bytes p) = take (?n + min n (length (page_bytes p))) f"
      using off bytes by (simp add: take_add min_def)
    moreover have "feed_bytes M (start_importer config) (take ?n f @ take n (page_bytes p)) = Inr (j, es @ es')"
      by (simp add: feed_bytes_append i(2) n(1))
    ultimately show ?thesis using n(2) unfolding imported_def by fastforce
  next
    case False
    have split: "set (concat (cs @ batches 63 (emitted em))) = set (concat cs) \<union> set (emitted em)" for em
      by (metis concat_append concat_batches set_append zero_less_numeral)
    obtain j c em where f: "r = Inr (j, c)" "page_complete p" "finish_import M j = Inr em"
        "e \<in> set (emitted em)"
      using e i(1) feed False split
      by (auto simp: ingest_plan_def simp del: set_concat concat_append split: sum.splits prod.splits if_splits)
    have j: "feed_bytes M i (page_bytes p) = Inr (j, concat cs)"
      using feed_page_Inr [OF feed [unfolded f(1)] i(3)] by simp
    have "take ?n f @ page_bytes p = f"
      using f(2) off bytes next_off total by (simp add: page_complete_def flip: take_add)
    moreover have "feed_bytes M (start_importer config) (take ?n f @ page_bytes p) = Inr (j, es @ concat cs)"
      by (simp add: feed_bytes_append i(2) j)
    ultimately show ?thesis using f fin unfolding imported_def page_complete_def by fastforce
  qed
qed

definition sourced :: "'f metric_ops \<Rightarrow> json \<Rightarrow> ('j \<Rightarrow> (event \<Rightarrow> bool) \<Rightarrow> bool) \<Rightarrow> (event \<Rightarrow> bool) \<Rightarrow> 'j ingest_world \<Rightarrow> bool" where
  "sourced M config only other w \<longleftrightarrow>
     only (books w) (\<lambda>e. other e \<or> imported M config (file_bytes_of w) (worker_finished w) e) \<and>
     (\<forall>bs r. pending w = Some (bs, r) \<longrightarrow>
        (\<forall>e \<in> set (concat bs). imported M config (file_bytes_of w) (worker_finished w) e))"

locale sourced_journal = event_journal app holds
  for app :: "event list \<Rightarrow> 'j \<Rightarrow> 'e + 'j" and holds :: "'j \<Rightarrow> event \<Rightarrow> bool" +
  fixes only :: "'j \<Rightarrow> (event \<Rightarrow> bool) \<Rightarrow> bool"
  assumes appended_only: "app es j = Inr j' \<Longrightarrow> only j P \<Longrightarrow> (\<forall>e \<in> set es. P e) \<Longrightarrow> only j' P"
    and only_mono: "only j P \<Longrightarrow> (\<And>e. P e \<Longrightarrow> Q e) \<Longrightarrow> only j Q"
begin

lemma sourced_mono:
  assumes "sourced M config only other w"
    and "\<And>e. imported M config (file_bytes_of w) (worker_finished w) e \<Longrightarrow>
      imported M config (file_bytes_of v) (worker_finished v) e"
    and "books v = books w" "pending v = pending w"
  shows "sourced M config only other v"
  using assms only_mono [of "books w" _ "\<lambda>e. other e \<or> imported M config (file_bytes_of v) (worker_finished v) e"]
  unfolding sourced_def by (metis (no_types, lifting))

lemma step_sourced:
  assumes "ingest_step M app other cfg config inode w w'" and "ingesting M config holds w"
    and src: "sourced M config only other w"
  shows "sourced M config only other w'"
  using assms(1)
proof cases
  case create
  show ?thesis by (rule sourced_mono [OF src]) (simp_all add: create file_bytes_of_def)
next
  case (grow f bs)
  show ?thesis
    by (rule sourced_mono [OF src]) (use grow imported_grow in \<open>auto simp: file_bytes_of_def\<close>)
next
  case ends
  show ?thesis
    by (rule sourced_mono [OF src]) (use ends imported_ends in \<open>auto simp: file_bytes_of_def\<close>)
next
  case (foreign es b)
  then show ?thesis using src appended_only [OF foreign(2)] by (simp add: sourced_def file_bytes_of_def)
next
  case (begin_page s p)
  have "progress M config (file_bytes_of w) (worker_finished w) (holds (books w)) s"
    using begin_page(3) assms(2) progress_fresh
    by (auto simp: stored_history_def ingesting_def split: option.splits if_splits)
  then have "imported M config (file_bytes_of w) (worker_finished w) e"
    if "e \<in> set (concat (fst (ingest_plan M s p)))" for e
    using plan_sourced [OF _ begin_page(4) _ _ _ _ _ that] read_page_Some [OF begin_page(5)]
    by (simp add: file_bytes_of_def)
  then show ?thesis using src begin_page(1) by (auto simp: sourced_def file_bytes_of_def)
next
  case (commit_batch b bs r j)
  have "only j (\<lambda>e. other e \<or> imported M config (file_bytes_of w) (worker_finished w) e)"
    by (rule appended_only [OF commit_batch(3)]) (use src commit_batch(2) in \<open>auto simp: sourced_def\<close>)
  then show ?thesis using src commit_batch(1,2) by (auto simp: sourced_def file_bytes_of_def)
next
  case (save s)
  then show ?thesis using src by (simp add: sourced_def file_bytes_of_def)
next
  case stop
  then show ?thesis using src by (simp add: sourced_def file_bytes_of_def)
qed

lemma run_sourced:
  "ingest_run M app other cfg config inode w v \<Longrightarrow> ingesting M config holds w \<Longrightarrow> sourced M config only other w \<Longrightarrow>
   ingesting M config holds v \<and> sourced M config only other v"
  by (induction rule: ingest_run.induct) (auto intro: step_ingesting step_sourced)

end

definition rows_from :: "'f metric_ops \<Rightarrow> journal \<Rightarrow> (event \<Rightarrow> bool) \<Rightarrow> bool" where
  "rows_from M j P \<longleftrightarrow>
     (\<forall>r \<in> set (journal_rows j). \<exists>e p. P e \<and> prepare_event M e = Inr p \<and> row_id r = prep_id p \<and> row_body r = prep_body p)"

interpretation scope_journal: sourced_journal "append_events M live" "recorded M" "rows_from M" for M live
proof unfold_locales
  fix es j j' e P Q
  show "recorded M j' e" if "append_events M live es j = Inr j'" "e \<in> set es"
    using append_records(1) that .
  show "recorded M j' e" if "append_events M live es j = Inr j'" "recorded M j e"
    using append_records(2) that .
  show "rows_from M j' P" if "append_events M live es j = Inr j'" "rows_from M j P" "\<forall>e \<in> set es. P e"
    using append_events_origin [OF that(1)] that(2,3) unfolding rows_from_def by blast
  show "rows_from M j Q" if "rows_from M j P" "\<And>e. P e \<Longrightarrow> Q e"
    using that unfolding rows_from_def by blast
qed

section \<open>Exactly once\<close>

lemma step_keeps_books_wf:
  "ingest_step M (append_events M live) other cfg config inode w w' \<Longrightarrow> journal_wf M (books w) \<Longrightarrow>
   journal_wf M (books w')"
  by (erule ingest_step.cases) (auto intro: append_events_wf)

lemma run_keeps_books_wf:
  "ingest_run M (append_events M live) other cfg config inode w v \<Longrightarrow> journal_wf M (books w) \<Longrightarrow>
   journal_wf M (books v)"
  by (induction rule: ingest_run.induct) (auto intro: step_keeps_books_wf)

definition empty_journal :: journal where
  "empty_journal = \<lparr>journal_ids = [], journal_rows = [], derived_last = 0\<rparr>"

lemma empty_journal_wf: "journal_wf M empty_journal" and empty_journal_rows: "rows_from M empty_journal P"
  by (simp_all add: journal_wf_def rows_from_def empty_journal_def List.map_filter_simps)

lemma start_importer_idle: "imp_chunk (start_importer config) = []" "\<not> imp_oversized (start_importer config)"
  by (simp_all add: start_importer_def)

lemma import_complete:
  assumes "feed_bytes M (start_importer config) f = Inr (i, es)" "finish_import M i = Inr em"
  shows "import_lines M (start_importer config) (file_lines f) = Inr (es @ emitted em, emitted_counts em)"
  using import_by_lines [OF start_importer_idle, of M config f] assms by simp

lemma imported_complete:
  assumes full: "feed_bytes M (start_importer config) f = Inr (i, es)" "finish_import M i = Inr em"
    and e: "imported M config f fin e"
  shows "e \<in> set (es @ emitted em)"
  using e unfolding imported_def
proof (elim disjE exE conjE)
  fix n i' es' assume p: "feed_bytes M (start_importer config) (take n f) = Inr (i', es')" "e \<in> set es'"
  then show ?thesis
    using full(1) feed_bytes_append [of M "start_importer config" "take n f" "drop n f"]
    by (cases "feed_bytes M i' (drop n f)") auto
qed (use full in auto)

definition from_source :: "'f metric_ops \<Rightarrow> (event \<Rightarrow> bool) \<Rightarrow> journal_row \<Rightarrow> bool" where
  "from_source M P r \<longleftrightarrow> (\<exists>e p. P e \<and> prepare_event M e = Inr p \<and> row_id r = prep_id p \<and> row_body r = prep_body p)"

text \<open>C3. The metrics file of an Attempt reaches the journal exactly once. Over every interleaving of the worker
  writing its file, other writers appending events, and the service reading pages, committing
  batches, saving its cursor, or stopping anywhere between two of these and starting over from the
  saved cursor: when the saved state says complete, the worker has finished, the counts are those
  of importing the whole file line by line, every event of that import stands in exactly one row
  (by its identifier, and for metrics by its content), and no row of the journal comes from
  anything but the file or the other writers.\<close>

theorem history_is_ingested_exactly_once:
  assumes run: "ingest_run M (append_events M live) other cfg config inode (first_world empty_journal) w"
    and slot: "history_slot w = Some s" "saved_complete s"
  shows "worker_finished w \<and>
    (\<exists>es. import_lines M (start_importer config) (file_lines (file_bytes_of w)) = Inr (es, saved_counts s) \<and>
      (\<forall>e \<in> set es. stored_once M (books w) e) \<and>
      (\<forall>r \<in> set (journal_rows (books w)). from_source M (\<lambda>e. other e \<or> e \<in> set es) r))"
proof -
  have first: "sourced M config (rows_from M) other (first_world empty_journal)"
    using empty_journal_rows [of M] by (simp add: sourced_def first_world_def)
  have inv: "ingesting M config (recorded M) w" "sourced M config (rows_from M) other w"
    using scope_journal.run_sourced [OF run scope_journal.ingesting_first first] by simp_all
  have wf: "journal_wf M (books w)"
    using run_keeps_books_wf [OF run] empty_journal_wf [of M] by (simp add: first_world_def)
  have p: "progress M config (file_bytes_of w) (worker_finished w) (recorded M (books w)) s"
    using inv(1) slot(1) by (simp add: ingesting_def)
  then obtain i es em where full: "worker_finished w"
      "feed_bytes M (start_importer config) (file_bytes_of w) = Inr (i, es)" "finish_import M i = Inr em"
      "saved_counts s = emitted_counts em" "\<forall>e \<in> set es \<union> set (emitted em). recorded M (books w) e"
    using slot(2) by (auto simp: progress_def)
  have "from_source M (\<lambda>e. other e \<or> e \<in> set (es @ emitted em)) r" if "r \<in> set (journal_rows (books w))" for r
    using inv(2) that imported_complete [OF full(2,3)]
    unfolding sourced_def rows_from_def from_source_def by blast
  moreover have "stored_once M (books w) e" if "e \<in> set (es @ emitted em)" for e
    using recorded_stored_once [OF wf] full(5) that by simp
  ultimately show ?thesis using full(1,4) import_complete [OF full(2,3)] by auto
qed

section \<open>Bounded pages\<close>

text \<open>Runs with the number of cursors they saved.\<close>

inductive ingest_saves ::
    "'f metric_ops \<Rightarrow> (event list \<Rightarrow> 'j \<Rightarrow> 'e + 'j) \<Rightarrow> (event \<Rightarrow> bool) \<Rightarrow> string \<Rightarrow> json \<Rightarrow> nat
     \<Rightarrow> 'j ingest_world \<Rightarrow> 'j ingest_world \<Rightarrow> nat \<Rightarrow> bool"
  for M app other cfg config inode
where
  none: "ingest_saves M app other cfg config inode w w 0"
| quiet: "ingest_saves M app other cfg config inode w v n \<Longrightarrow> ingest_step M app other cfg config inode v u \<Longrightarrow>
     history_slot u = history_slot v \<Longrightarrow>
     ingest_saves M app other cfg config inode w u n"
| saved: "ingest_saves M app other cfg config inode w v n \<Longrightarrow> pending v = Some ([], Inr s) \<Longrightarrow>
     ingest_saves M app other cfg config inode w (v\<lparr>pending := None, history_slot := Some s\<rparr>) (Suc n)"

definition slot_offset :: "'j ingest_world \<Rightarrow> nat" where
  "slot_offset w = (case history_slot w of Some s \<Rightarrow> start_offset (saved_cursor s) | None \<Rightarrow> 0)"

definition slot_complete :: "'j ingest_world \<Rightarrow> bool" where
  "slot_complete w \<longleftrightarrow> (case history_slot w of Some s \<Rightarrow> saved_complete s | None \<Rightarrow> False)"

definition pages_left :: "'j ingest_world \<Rightarrow> nat" where
  "pages_left w =
     (if slot_complete w then 0 else Suc ((length (file_bytes_of w) - slot_offset w) div PAGE_BYTES))"

text \<open>Where the page in flight would leave the cursor: after it, what is left of the finished file shrinks
  by a page or is done.\<close>

definition advances :: "'j ingest_world \<Rightarrow> bool" where
  "advances w \<longleftrightarrow>
     (\<forall>bs s. pending w = Some (bs, Inr s) \<longrightarrow>
        \<not> slot_complete w \<and>
        (saved_complete s \<or> length (file_bytes_of w) \<ge> start_offset (saved_cursor s) \<and>
           start_offset (saved_cursor s) = slot_offset w + PAGE_BYTES))"

lemma plan_cursor:
  assumes "ingest_plan M s p = (bs, Inr t)"
  shows "saved_cursor t = Some (page_next p) \<and> saved_complete t = page_complete p"
  using assms by (auto simp: ingest_plan_def next_history_def split: option.splits prod.splits sum.splits if_splits)

lemma begin_advances:
  assumes "stored_history config (history_slot w) = Inr s" "\<not> saved_complete s" "worker_finished w"
    and "read_page M cfg inode (metrics_file w) (worker_finished w) (saved_cursor s) = Some p"
  shows "advances (w\<lparr>pending := Some (ingest_plan M s p)\<rparr>)"
proof -
  have s: "slot_offset w = start_offset (saved_cursor s)" "\<not> slot_complete w"
    using assms(1,2)
    by (auto simp: stored_history_def fresh_history_def slot_offset_def slot_complete_def start_offset_def
        split: option.splits if_splits)
  note p = read_page_Some [OF assms(4), folded file_bytes_of_def]
  have "page_complete p \<or> length (page_bytes p) = PAGE_BYTES"
    using p assms(3) by (auto simp: page_complete_def)
  then show ?thesis
    using s p(1,2,3)
    by (auto simp: advances_def slot_offset_def slot_complete_def file_bytes_of_def start_offset_def
        dest!: plan_cursor)
qed

lemma finished_step_advances:
  assumes "ingest_step M app other cfg config inode w w'" "worker_finished w" "advances w"
  shows "advances w' \<and> worker_finished w' \<and> file_bytes_of w' = file_bytes_of w"
  using assms(1)
proof cases
  case (begin_page s p)
  then show ?thesis using begin_advances [OF begin_page(3,4) assms(2) begin_page(5)] assms(2)
    by (simp add: file_bytes_of_def)
qed (use assms(2,3) in \<open>auto simp: advances_def file_bytes_of_def slot_offset_def slot_complete_def\<close>)

lemma save_uses_a_page:
  assumes "advances v" "pending v = Some ([], Inr s)"
  shows "Suc (pages_left (v\<lparr>pending := None, history_slot := Some s\<rparr>)) \<le> pages_left v"
    (is "Suc (pages_left ?u) \<le> _")
proof (cases "saved_complete s")
  case True
  then show ?thesis using assms by (simp add: pages_left_def advances_def slot_complete_def)
next
  case False
  then have s: "\<not> slot_complete v" "start_offset (saved_cursor s) \<le> length (file_bytes_of v)"
      "start_offset (saved_cursor s) = slot_offset v + PAGE_BYTES"
    using assms by (auto simp: advances_def)
  let ?r = "length (file_bytes_of v) - start_offset (saved_cursor s)"
  have "length (file_bytes_of v) - slot_offset v = ?r + PAGE_BYTES" using s(2,3) by simp
  then have "(length (file_bytes_of v) - slot_offset v) div PAGE_BYTES = Suc (?r div PAGE_BYTES)"
    by (simp add: PAGE_BYTES_def)
  moreover have "pages_left ?u = Suc (?r div PAGE_BYTES)"
    using False by (simp add: pages_left_def slot_complete_def slot_offset_def file_bytes_of_def)
  ultimately show ?thesis using s(1) by (simp add: pages_left_def)
qed

lemma saves_use_pages:
  "ingest_saves M app other cfg config inode w v n \<Longrightarrow> worker_finished w \<Longrightarrow> advances w \<Longrightarrow>
   n + pages_left v \<le> pages_left w \<and> advances v \<and> worker_finished v \<and> file_bytes_of v = file_bytes_of w"
proof (induction rule: ingest_saves.induct)
  case (quiet w v n u)
  then have ih: "n + pages_left v \<le> pages_left w" "advances v" "worker_finished v" "file_bytes_of v = file_bytes_of w"
    by simp_all
  note next_step = finished_step_advances [OF quiet.hyps(2) ih(3,2)]
  have "pages_left u = pages_left v"
    using next_step quiet.hyps(3)
    by (simp add: pages_left_def slot_complete_def slot_offset_def)
  with ih next_step show ?case by simp
next
  case (saved w v n s)
  then have ih: "n + pages_left v \<le> pages_left w" "advances v" "worker_finished v" "file_bytes_of v = file_bytes_of w"
    by simp_all
  have "advances (v\<lparr>pending := None, history_slot := Some s\<rparr>)" by (simp add: advances_def)
  with ih save_uses_a_page [OF ih(2) saved.hyps(2)] show ?case by (simp add: file_bytes_of_def)
qed simp_all

text \<open>C40. Ingestion of a finished worker's file ends. From any state with no page in flight and the saved
  cursor not complete, however calls are interrupted and retried, at most one cursor is saved per
  128 KiB left of the file and one more, and once that many were saved the state is complete.\<close>

theorem history_needs_bounded_pages:
  assumes "ingest_saves M app other cfg config inode w v n"
    and "worker_finished w" "pending w = None" "\<not> slot_complete w"
  shows "n \<le> Suc ((length (file_bytes_of w) - slot_offset w) div PAGE_BYTES) \<and>
    (n = Suc ((length (file_bytes_of w) - slot_offset w) div PAGE_BYTES) \<longrightarrow> slot_complete v)"
proof -
  have "advances w" using assms(3) by (simp add: advances_def)
  from saves_use_pages [OF assms(1,2) this] assms(4) show ?thesis
    by (auto simp: pages_left_def split: if_splits)
qed

section \<open>A history\<close>

definition sample_page :: history_page where
  "sample_page = file_page sample_ops (content_digest sample_ops []) 7 sample_file True None"

definition sample_plan :: "event list list \<times> (history_error + saved_history)" where
  "sample_plan = ingest_plan sample_ops (fresh_history sample_config) sample_page"

definition sample_batch :: "event list" where "sample_batch = hd (fst sample_plan)"

definition sample_saved :: saved_history where
  "sample_saved = (case snd sample_plan of Inr s \<Rightarrow> s | Inl _ \<Rightarrow> undefined)"

definition sample_journal :: journal where
  "sample_journal = (case append_events sample_ops True sample_batch empty_journal of Inr j \<Rightarrow> j | Inl _ \<Rightarrow> undefined)"

lemma sample_page_read:
  "read_page sample_ops (content_digest sample_ops []) 7 (Some sample_file) True None = Some sample_page"
  "is_ok (validate_page sample_ops None sample_page)" "page_config sample_page = content_digest sample_ops []"
proof -
  show ok: "is_ok (validate_page sample_ops None sample_page)" by code_simp
  then show "read_page sample_ops (content_digest sample_ops []) 7 (Some sample_file) True None = Some sample_page"
    by (simp add: read_page_def start_offset_def Let_def sample_page_def)
  show "page_config sample_page = content_digest sample_ops []" by (simp add: sample_page_def file_page_def Let_def)
qed

lemma sample_plan_ends: "sample_plan = ([sample_batch], Inr sample_saved) \<and> saved_complete sample_saved \<and>
    length sample_batch = 3"
proof -
  have "case sample_plan of ([b], Inr s) \<Rightarrow> saved_complete s \<and> length b = 3 | _ \<Rightarrow> False" by code_simp
  then obtain b s where p: "sample_plan = ([b], Inr s)" "saved_complete s" "length b = 3"
    by (auto split: prod.splits list.splits sum.splits)
  show ?thesis unfolding sample_batch_def sample_saved_def p(1) by (simp add: p(2,3))
qed

lemma sample_appended: "append_events sample_ops True sample_batch empty_journal = Inr sample_journal"
proof -
  have "is_ok (append_events sample_ops True sample_batch empty_journal)" by code_simp
  then show ?thesis by (auto simp: sample_journal_def is_ok_iff)
qed

definition sample_finished :: "journal ingest_world" where
  "sample_finished = (first_world empty_journal)\<lparr>metrics_file := Some sample_file, worker_finished := True\<rparr>"

definition sample_ingested :: "journal ingest_world" where
  "sample_ingested = sample_finished\<lparr>history_slot := Some sample_saved, books := sample_journal\<rparr>"

abbreviation sample_step :: "journal ingest_world \<Rightarrow> journal ingest_world \<Rightarrow> bool" where
  "sample_step \<equiv> ingest_step sample_ops (append_events sample_ops True) (\<lambda>_. False) (content_digest sample_ops [])
     sample_config 7"

lemma sample_steps:
  "sample_step (first_world empty_journal) ((first_world empty_journal)\<lparr>metrics_file := Some []\<rparr>)"
  "sample_step ((first_world empty_journal)\<lparr>metrics_file := Some []\<rparr>) ((first_world empty_journal)\<lparr>metrics_file := Some sample_file\<rparr>)"
  "sample_step ((first_world empty_journal)\<lparr>metrics_file := Some sample_file\<rparr>) sample_finished"
  "sample_step sample_finished (sample_finished\<lparr>pending := Some ([sample_batch], Inr sample_saved)\<rparr>)"
  "sample_step (sample_finished\<lparr>pending := Some ([sample_batch], Inr sample_saved)\<rparr>)
     (sample_finished\<lparr>pending := Some ([], Inr sample_saved), books := sample_journal\<rparr>)"
proof -
  let ?w = "first_world empty_journal"
  show "sample_step ?w (?w\<lparr>metrics_file := Some []\<rparr>)"
    by (rule ingest_step.create) (simp_all add: first_world_def)
  show "sample_step (?w\<lparr>metrics_file := Some []\<rparr>) (?w\<lparr>metrics_file := Some sample_file\<rparr>)"
    using ingest_step.grow [of "?w\<lparr>metrics_file := Some []\<rparr>" "[]" sample_ops _ _ _ _ _ sample_file] by (simp add: first_world_def)
  show "sample_step (?w\<lparr>metrics_file := Some sample_file\<rparr>) sample_finished"
    using ingest_step.ends [of sample_ops _ _ _ _ _ "?w\<lparr>metrics_file := Some sample_file\<rparr>"] by (simp add: sample_finished_def)
  have "sample_step sample_finished (sample_finished\<lparr>pending := Some (ingest_plan sample_ops (fresh_history sample_config) sample_page)\<rparr>)"
    using sample_page_read
    by (intro ingest_step.begin_page) (simp_all add: sample_finished_def first_world_def stored_history_def fresh_history_def)
  then show "sample_step sample_finished (sample_finished\<lparr>pending := Some ([sample_batch], Inr sample_saved)\<rparr>)"
    using sample_plan_ends by (simp add: sample_plan_def)
  show "sample_step (sample_finished\<lparr>pending := Some ([sample_batch], Inr sample_saved)\<rparr>)
     (sample_finished\<lparr>pending := Some ([], Inr sample_saved), books := sample_journal\<rparr>)"
    using ingest_step.commit_batch [of "sample_finished\<lparr>pending := Some ([sample_batch], Inr sample_saved)\<rparr>"
        sample_batch "[]" "Inr sample_saved" "append_events sample_ops True" sample_journal]
      sample_appended by (simp add: sample_finished_def first_world_def)
qed

theorem history_needs_bounded_pages_witness:
  "ingest_saves sample_ops (append_events sample_ops True) (\<lambda>_. False) (content_digest sample_ops []) sample_config 7
     sample_finished sample_ingested 1 \<and> (1::nat) \<le> Suc (length sample_file div PAGE_BYTES) \<and> slot_complete sample_ingested"
proof -
  let ?v = "sample_finished\<lparr>pending := Some ([], Inr sample_saved), books := sample_journal\<rparr>"
  have "ingest_saves sample_ops (append_events sample_ops True) (\<lambda>_. False) (content_digest sample_ops []) sample_config 7
      sample_finished ?v 0"
    by (rule ingest_saves.quiet [OF ingest_saves.quiet [OF ingest_saves.none]], rule sample_steps(4))
      (simp, rule sample_steps(5), simp)
  from ingest_saves.saved [OF this, of sample_saved]
  have run: "ingest_saves sample_ops (append_events sample_ops True) (\<lambda>_. False) (content_digest sample_ops []) sample_config 7
      sample_finished sample_ingested 1" by (simp add: sample_ingested_def sample_finished_def first_world_def)
  have start: "worker_finished sample_finished" "pending sample_finished = None" "\<not> slot_complete sample_finished"
      "file_bytes_of sample_finished = sample_file" "slot_offset sample_finished = 0"
    by (simp_all add: sample_finished_def first_world_def slot_complete_def file_bytes_of_def slot_offset_def)
  have "length sample_file < PAGE_BYTES" by code_simp
  with run start history_needs_bounded_pages [OF run start(1-3)] show ?thesis by simp
qed

theorem history_is_ingested_exactly_once_witness:
  "\<exists>es. import_lines sample_ops (start_importer sample_config) (file_lines sample_file) =
       Inr (es, saved_counts sample_saved) \<and> length (journal_rows sample_journal) = 3 \<and>
     (\<forall>e \<in> set es. stored_once sample_ops sample_journal e)"
proof -
  have "ingest_run sample_ops (append_events sample_ops True) (\<lambda>_. False) (content_digest sample_ops []) sample_config 7
      (first_world empty_journal) (sample_finished\<lparr>pending := Some ([], Inr sample_saved), books := sample_journal\<rparr>)"
    using sample_steps by (meson ingest_run.intros)
  from ingest_run.more [OF this ingest_step.save [of _ sample_saved]]
  have run: "ingest_run sample_ops (append_events sample_ops True) (\<lambda>_. False) (content_digest sample_ops []) sample_config 7
      (first_world empty_journal) sample_ingested" by (simp add: sample_ingested_def sample_finished_def first_world_def)
  have w: "history_slot sample_ingested = Some sample_saved" "saved_complete sample_saved"
      "file_bytes_of sample_ingested = sample_file" "books sample_ingested = sample_journal"
    using sample_plan_ends by (simp_all add: sample_ingested_def file_bytes_of_def sample_finished_def)
  have "length (journal_rows sample_journal) = 3" by code_simp
  then show ?thesis using history_is_ingested_exactly_once [OF run w(1,2)] w(3,4) by auto
qed
end
