(* ===== verification/Publication.thy ===== *)
theory Publication
  imports Records
begin

text \<open>
  Publication of a journal to a tracking service: the planner
  (\<open>rust/crates/core/src/tracking/publication.rs\<close>), the proof a cursor advances by
  (\<open>confirmation_plan\<close> of \<open>rust/crates/core/src/records.rs\<close>), and the visit of the publisher that
  confirms, reserves and sends (\<open>rust/crates/server/src/tracking/publisher.rs\<close> and its
  \<open>publisher/repair.rs\<close>). A row is a sequence number and an event identity. Sequences are signed
  64-bit numbers; the only addition that can overflow is checked, as in the code.
\<close>

section \<open>Ordered maps\<close>

text \<open>\<open>BTreeMap\<close>: insert, remove and the last key.\<close>

fun bt_insert :: "'k::linorder \<Rightarrow> 'v \<Rightarrow> ('k \<times> 'v) list \<Rightarrow> ('k \<times> 'v) list" where
  "bt_insert k v [] = [(k, v)]"
| "bt_insert k v ((a, w) # m) =
     (if k < a then (k, v) # (a, w) # m else if k = a then (k, v) # m else (a, w) # bt_insert k v m)"

definition bt_remove :: "'k \<Rightarrow> ('k \<times> 'v) list \<Rightarrow> ('k \<times> 'v) list" where
  "bt_remove k m = filter (\<lambda>(a, _). a \<noteq> k) m"

definition bt_last_key :: "('k::linorder \<times> 'v) list \<Rightarrow> 'k option" where
  "bt_last_key m = (if m = [] then None else Some (Max (set (map fst m))))"

lemma keys_bt_insert [simp]: "fst ` set (bt_insert k v m) = insert k (fst ` set m)"
proof (induction m)
  case (Cons p m)
  obtain a w where p: "p = (a, w)" by (cases p)
  consider "k < a" | "k = a" | "a < k" by fastforce
  then show ?case
  proof cases
    case 3
    with Cons p show ?thesis by (simp add: insert_commute)
  qed (simp_all add: p)
qed simp

lemma map_of_bt_insert [simp]: "map_of (bt_insert k v m) a = (if a = k then Some v else map_of m a)"
  by (induction m) auto

lemma map_of_bt_remove [simp]: "map_of (bt_remove k m) a = (if a = k then None else map_of m a)"
  by (induction m) (auto simp: bt_remove_def)

lemma keys_bt_remove [simp]: "fst ` set (bt_remove k m) = fst ` set m - {k}"
  by (force simp: bt_remove_def)

lemma map_of_filter_key: "map_of (filter (\<lambda>(a, _). P a) m) k = (if P k then map_of m k else None)"
  by (induction m) auto

lemma bt_last_key_ge: "bt_last_key m = Some k \<Longrightarrow> a \<in> fst ` set m \<Longrightarrow> a \<le> k"
  unfolding bt_last_key_def by (metis List.finite_set Max_ge list.set_map option.distinct(1) option.inject)

lemma bt_last_key_None [simp]: "bt_last_key m = None \<longleftrightarrow> m = []"
  by (simp add: bt_last_key_def)

section \<open>The planner\<close>

datatype publication_error = BadState string | BadEvent string | BadRemote string

type_synonym row = "int \<times> string"

record remote_evidence =
  history_rows :: "row list"
  last_history_step :: "int option"
  seen_display_version :: "int option"
  seen_display_through :: "int option"

record publication_state =
  confirmed :: int
  sent :: "row list"
  display_version :: "int option"
  display_through :: "int option"
  pub_finished :: bool

datatype publication_action = EmitHistory int string | PublishDisplay int int | FinishRun int

datatype publication_status =
    PubPending int nat | AckPending int int | DisplayAckPending int int | Synced int | PubFinished int
  | ReconcileRequired string | IdentityConflict int string string

record publication_plan =
  plan_state :: publication_state
  plan_through :: int
  plan_actions :: "publication_action list"
  plan_status :: publication_status

definition valid_event_id :: "string \<Rightarrow> bool" where
  "valid_event_id s \<longleftrightarrow> s \<noteq> [] \<and> length s \<le> 256 \<and> list_all (\<lambda>c. \<not> c0_control c) s"

definition validate_event :: "row \<Rightarrow> publication_error + unit" where
  "validate_event e =
     (if fst e \<le> 0 then Inl (BadEvent ''positive sequence'')
      else if \<not> valid_event_id (snd e) then Inl (BadEvent ''event_id'') else Inr ())"

definition validate_remote_event :: "row \<Rightarrow> publication_error + unit" where
  "validate_remote_event e =
     (if fst e \<le> 0 then Inl (BadRemote ''positive sequence'')
      else if \<not> valid_event_id (snd e) then Inl (BadRemote ''event_id'') else Inr ())"

definition validate_state :: "publication_state \<Rightarrow> publication_error + unit" where
  "validate_state s =
     (if confirmed s < 0 then Inl (BadState ''non-negative confirmed cursor'')
      else if (case display_version s of Some v \<Rightarrow> v \<le> 0 | None \<Rightarrow> False)
      then Inl (BadState ''positive display version'')
      else if (case display_through s of Some t \<Rightarrow> t < 0 | None \<Rightarrow> False)
      then Inl (BadState ''non-negative display cursor'')
      else if list_ex (\<lambda>(n, i). n \<le> 0 \<or> \<not> valid_event_id i) (sent s)
      then Inl (BadState ''sent history reservation'') else Inr ())"

fun index_rows :: "row list \<Rightarrow> row list \<Rightarrow> publication_error + row list" where
  "index_rows m [] = Inr m"
| "index_rows m (e # es) =
     and_then (validate_remote_event e) (\<lambda>_.
       case map_of m (fst e) of
         Some i \<Rightarrow> if i = snd e then index_rows m es else Inl (BadRemote ''conflicting duplicate sequence'')
       | None \<Rightarrow> index_rows (bt_insert (fst e) (snd e) m) es)"

definition remote_index :: "remote_evidence \<Rightarrow> publication_error + row list" where
  "remote_index r =
     (if (case last_history_step r of Some s \<Rightarrow> s < - 1 | None \<Rightarrow> False) then Inl (BadRemote ''last_history_step'')
      else index_rows [] (history_rows r))"

text \<open>\<open>i64::checked_add\<close>.\<close>

definition next_step :: "int \<Rightarrow> publication_error + int" where
  "next_step s = (if s + 1 \<ge> int i64_limit then Inl (BadRemote ''last_history_step overflow'') else Inr (s + 1))"

definition or_key :: "int option \<Rightarrow> int \<Rightarrow> int" where
  "or_key k d = (case k of Some n \<Rightarrow> n | None \<Rightarrow> d)"

fun missing_rows ::
    "publication_state \<Rightarrow> row list \<Rightarrow> int \<Rightarrow> row list \<Rightarrow> publication_error + row list" where
  "missing_rows s seen m [] = Inr []"
| "missing_rows s seen m (e # es) =
     and_then (validate_event e) (\<lambda>_.
       case map_of seen (fst e) of
         Some i \<Rightarrow> if i \<noteq> snd e then Inl (BadRemote ''event identity'') else missing_rows s seen m es
       | None \<Rightarrow>
           if fst e > confirmed s \<and> fst e \<le> m
           then if map_of (sent s) (fst e) \<noteq> Some (snd e)
             then Inl (BadState ''repair requires original reservation'')
             else and_then (missing_rows s seen m es) (\<lambda>ms. Inr (e # ms))
           else missing_rows s seen m es)"

definition missing_reserved ::
    "publication_state \<Rightarrow> remote_evidence \<Rightarrow> row list \<Rightarrow> string option \<Rightarrow> publication_error + row list" where
  "missing_reserved s r events expected =
     and_then (validate_state s) (\<lambda>_.
     and_then (remote_index r) (\<lambda>seen.
     if confirmed s > 0 \<and> map_of seen (confirmed s) \<noteq> expected
     then Inl (BadRemote ''confirmed identity'')
     else
     and_then (next_step (case last_history_step r of Some n \<Rightarrow> n | None \<Rightarrow> - 1)) (\<lambda>n.
       missing_rows s seen
         (max (max n (or_key (bt_last_key seen) (confirmed s))) (or_key (bt_last_key (sent s)) (confirmed s)))
         events)))"

fun validate_events :: "int option \<Rightarrow> row list \<Rightarrow> publication_error + unit" where
  "validate_events prev [] = Inr ()"
| "validate_events prev (e # es) =
     and_then (validate_event e) (\<lambda>_.
       if (case prev of Some p \<Rightarrow> fst e \<le> p | None \<Rightarrow> False)
       then Inl (BadEvent ''strictly increasing event sequence'') else validate_events (Some (fst e)) es)"

text \<open>The loop over the events: reservations, cursor and actions so far, or the status that ends the
  plan with the state unchanged.\<close>

fun plan_rows ::
    "row list \<Rightarrow> int \<Rightarrow> row list \<Rightarrow> row list \<times> int \<times> publication_action list
     \<Rightarrow> publication_status + row list \<times> int \<times> publication_action list" where
  "plan_rows seen m [] r = Inr r"
| "plan_rows seen m (e # es) (res, c, acts) =
     (case map_of seen (fst e) of
        Some i \<Rightarrow>
          if i \<noteq> snd e then Inl (IdentityConflict (fst e) (snd e) i)
          else plan_rows seen m es (bt_remove (fst e) res, max c (fst e), acts)
      | None \<Rightarrow>
          if fst e \<le> m then Inl (ReconcileRequired ''REMOTE_HISTORY_RECONCILE_REQUIRED'')
          else case map_of res (fst e) of
            Some i \<Rightarrow> if i \<noteq> snd e then Inl (IdentityConflict (fst e) (snd e) i) else Inr (res, c, acts)
          | None \<Rightarrow>
              plan_rows seen m es (bt_insert (fst e) (snd e) res, c, acts @ [EmitHistory (fst e) (snd e)]))"

definition last_sequence :: "row list \<Rightarrow> int \<Rightarrow> int" where
  "last_sequence events c = (if events = [] then c else fst (last events))"

definition settle_plan ::
    "publication_state \<Rightarrow> remote_evidence \<Rightarrow> int \<Rightarrow> publication_action list \<Rightarrow> bool \<Rightarrow> int \<Rightarrow> publication_plan" where
  "settle_plan s r through acts terminal version =
     (let answer = (\<lambda>st a status. \<lparr>plan_state = st, plan_through = through, plan_actions = a, plan_status = status\<rparr>) in
      if acts \<noteq> [] then answer s acts (PubPending through (length acts))
      else if confirmed s < through then answer s acts (AckPending (confirmed s) through)
      else if \<not> (seen_display_version r = Some version \<and> seen_display_through r = Some through)
      then answer s [PublishDisplay through version] (DisplayAckPending through version)
      else let s = s\<lparr>display_version := Some version, display_through := Some through\<rparr> in
        if terminal then answer (s\<lparr>pub_finished := True\<rparr>) [FinishRun through] (PubFinished through)
        else answer s [] (Synced through))"

definition plan_publication ::
    "publication_state \<Rightarrow> remote_evidence \<Rightarrow> row list \<Rightarrow> string option \<Rightarrow> bool \<Rightarrow> int
     \<Rightarrow> publication_error + publication_plan" where
  "plan_publication s r events expected terminal version =
     and_then (validate_state s) (\<lambda>_.
     if version \<le> 0 then Inl (BadState ''positive display version'')
     else if (case expected of Some i \<Rightarrow> \<not> valid_event_id i | None \<Rightarrow> False) then Inl (BadEvent ''expected event_id'')
     else
     and_then (validate_events None events) (\<lambda>_.
     and_then (remote_index r) (\<lambda>seen.
     and_then (case last_history_step r of Some n \<Rightarrow> and_then (next_step n) (\<lambda>k. Inr (Some k)) | None \<Rightarrow> Inr None) (\<lambda>remote_next.
     let m = max (or_key (bt_last_key seen) (confirmed s)) (or_key remote_next (confirmed s));
         refuse = (\<lambda>through status.
           Inr \<lparr>plan_state = s, plan_through = through, plan_actions = [], plan_status = status\<rparr>)
     in if confirmed s > 0 \<and> expected \<noteq> None \<and> map_of seen (confirmed s) \<noteq> expected
        then refuse (confirmed s) (ReconcileRequired ''REMOTE_HISTORY_RECONCILE_REQUIRED'')
        else case plan_rows seen m events (sent s, confirmed s, []) of
          Inl status \<Rightarrow> refuse (last_sequence events (confirmed s)) status
        | Inr (res, c, acts) \<Rightarrow>
            Inr (settle_plan (s\<lparr>sent := res, confirmed := c\<rparr>) r (last_sequence events c) acts terminal version)))))"

section \<open>The proof a cursor advances by\<close>

definition DISPLAY_VERSION :: int where "DISPLAY_VERSION = 4"

record history_proof =
  proof_route :: json
  proof_wandb :: string
  proof_through :: int
  proof_observed :: "row list"
  proof_display_version :: "int option"
  proof_display_through :: "int option"

record cursor_advance =
  adv_confirmed :: int
  adv_display_version :: "int option"

text \<open>\<open>Number::as_f64\<close> equal to 1.\<close>

definition json_one :: "'f metric_ops \<Rightarrow> json \<Rightarrow> bool" where
  "json_one M v =
     (case v of JNum t \<Rightarrow> as_f64 (doubles M) t \<noteq> None \<and> as_f64 (doubles M) t = as_f64 (doubles M) ''1.0'' | _ \<Rightarrow> False)"

definition route_enabled :: "'f metric_ops \<Rightarrow> json \<Rightarrow> bool" where
  "route_enabled M route =
     (case jget route ''enabled'' of
        Some (JBool b) \<Rightarrow> b
      | Some v \<Rightarrow> json_one M v
      | None \<Rightarrow> False)"

fun observed_index :: "int \<Rightarrow> row list \<Rightarrow> row list \<Rightarrow> record_error + row list" where
  "observed_index through m [] = Inr m"
| "observed_index through m ((n, i) # es) =
     (if n \<le> 0 \<or> n > through \<or> map_of m n \<noteq> None then Inl (RecordInvalid ''remote sequence evidence'')
      else observed_index through (bt_insert n i m) es)"

definition expected_rows :: "int \<Rightarrow> int \<Rightarrow> row list \<Rightarrow> row list" where
  "expected_rows first through events =
     fold (\<lambda>(n, i). bt_insert n i) (filter (\<lambda>(n, _). first \<le> n \<and> n \<le> through) events) []"

definition confirmation_plan ::
    "'f metric_ops \<Rightarrow> json \<Rightarrow> json \<Rightarrow> row list \<Rightarrow> history_proof \<Rightarrow> string option \<Rightarrow> record_error + cursor_advance" where
  "confirmation_plan M state route events p error =
     and_then (ok_or (Option.bind (jget state ''confirmed'') as_i64) (RecordInvalid ''confirmed cursor'')) (\<lambda>current.
     and_then (require (current \<ge> 0) (RecordInvalid ''confirmed cursor'')) (\<lambda>_.
     and_then (ok_or (Option.bind (jget state ''total'') as_i64) (RecordInvalid ''journal total'')) (\<lambda>total.
     and_then (require (total \<ge> current) (RecordInvalid ''journal total'')) (\<lambda>_.
     and_then (require (route_enabled M route) (RecordInvalid ''remote confirmation identity or range'')) (\<lambda>_.
     and_then (record_text M (proof_route p)) (\<lambda>mine.
     and_then (record_text M route) (\<lambda>frozen.
     and_then (require (mine = frozen \<and> Option.bind (jget state ''wandb_id'') as_str = Some (proof_wandb p) \<and>
         proof_through p \<ge> current \<and> proof_through p \<le> total) (RecordInvalid ''remote confirmation identity or range'')) (\<lambda>_.
     and_then (observed_index (proof_through p) [] (proof_observed p)) (\<lambda>seen.
     let first = (if current = 0 then 1 else current);
         count = (if proof_through p < first then 0 else proof_through p - first + 1);
         expected = expected_rows first (proof_through p) events
     in
     and_then (require (int (length expected) = count \<and> int (length seen) = count \<and>
         list_all (\<lambda>(n, i). map_of seen n = Some i) expected)
       (RecordInvalid ''remote history is not a complete exact prefix'')) (\<lambda>_.
     and_then (require (case (proof_display_version p, proof_display_through p) of
           (None, None) \<Rightarrow> True
         | (Some v, Some t) \<Rightarrow> v = DISPLAY_VERSION \<and> t = proof_through p \<and> error = None
         | _ \<Rightarrow> False) (RecordInvalid ''remote display acknowledgement'')) (\<lambda>_.
       Inr \<lparr>adv_confirmed = proof_through p, adv_display_version = proof_display_version p\<rparr>)))))))))))"

section \<open>What a plan does\<close>

definition emitted_rows :: "publication_action list \<Rightarrow> row list" where
  "emitted_rows acts = concat (map (\<lambda>a. case a of EmitHistory n i \<Rightarrow> [(n, i)] | _ \<Rightarrow> []) acts)"

lemma emitted_rows_append [simp]: "emitted_rows (a @ b) = emitted_rows a @ emitted_rows b"
  and emitted_rows_simps [simp]: "emitted_rows [] = []" "emitted_rows (EmitHistory n i # a) = (n, i) # emitted_rows a"
    "emitted_rows (PublishDisplay t v # a) = emitted_rows a" "emitted_rows (FinishRun t # a) = emitted_rows a"
  by (simp_all add: emitted_rows_def)

text \<open>The events are a part the remote shows and a part beyond everything it shows; of that part a first
  piece is reserved and emitted.\<close>

lemma plan_rows_shown:
  "plan_rows seen m events (res, c, acts) = Inr r \<Longrightarrow> sorted_wrt (<) (map fst events) \<Longrightarrow>
   \<forall>n \<in> fst ` set seen. n \<le> m \<Longrightarrow>
   \<exists>S B. events = S @ B \<and> (\<forall>(n, i) \<in> set S. map_of seen n = Some i) \<and>
     (\<forall>(k, i) \<in> set B. map_of seen k = None \<and> m < k) \<and>
     plan_rows seen m B (fold (\<lambda>(n, i). bt_remove n) S res, fold (\<lambda>(n, i). max n) S c, acts) = Inr r"
proof (induction events arbitrary: res c)
  case (Cons e es)
  obtain n i where e: "e = (n, i)" by (cases e)
  show ?case
  proof (cases "map_of seen n")
    case None
    then have n: "m < n" using Cons.prems(1) by (auto simp: e split: if_splits)
    have "\<forall>(k, j) \<in> set (e # es). map_of seen k = None \<and> m < k"
      using n Cons.prems(2,3) None by (force simp: e map_of_eq_None_iff)
    with Cons.prems(1) show ?thesis by (intro exI [of _ "[]"] exI [of _ "e # es"]) simp
  next
    case (Some j)
    then have j: "j = i" "plan_rows seen m es (bt_remove n res, max c n, acts) = Inr r"
      using Cons.prems(1) by (simp_all add: e split: if_splits)
    have "sorted_wrt (<) (map fst es)" using Cons.prems(2) by simp
    from Cons.IH [OF j(2) this Cons.prems(3)] obtain S B where ih: "es = S @ B"
      "\<forall>(n, i) \<in> set S. map_of seen n = Some i" "\<forall>(k, i) \<in> set B. map_of seen k = None \<and> m < k"
      "plan_rows seen m B (fold (\<lambda>(n, i). bt_remove n) S (bt_remove n res), fold (\<lambda>(n, i). max n) S (max c n), acts) = Inr r"
      by blast
    then show ?thesis
      using Some j(1) by (intro exI [of _ "e # S"] exI [of _ B]) (simp add: e max.commute)
  qed
qed simp

lemma plan_rows_beyond:
  "plan_rows seen m es (res, c, acts) = Inr (res', c', acts') \<Longrightarrow> \<forall>(k, i) \<in> set es. map_of seen k = None \<Longrightarrow>
   sorted_wrt (<) (map fst es) \<Longrightarrow>
   \<exists>E R. es = E @ R \<and> c' = c \<and> acts' = acts @ map (\<lambda>(n, i). EmitHistory n i) E \<and>
     (\<forall>(n, i) \<in> set E. map_of res n = None) \<and> (R \<noteq> [] \<longrightarrow> map_of res (fst (hd R)) \<noteq> None) \<and>
     (\<forall>n. map_of res' n = (case map_of E n of Some i \<Rightarrow> Some i | None \<Rightarrow> map_of res n))"
proof (induction es arbitrary: res acts)
  case (Cons e es)
  obtain n i where e: "e = (n, i)" by (cases e)
  have unseen: "map_of seen n = None" using Cons.prems(2) by (auto simp: e)
  show ?case
  proof (cases "map_of res n")
    case (Some j)
    with Cons.prems(1) unseen show ?thesis
      by (intro exI [of _ "[]"] exI [of _ "e # es"]) (simp add: e split: if_splits)
  next
    case None
    let ?res = "bt_insert n i res"
    have later: "\<forall>(k, j) \<in> set es. n < k" "sorted_wrt (<) (map fst es)" using Cons.prems(3) by (auto simp: e)
    have "plan_rows seen m es (?res, c, acts @ [EmitHistory n i]) = Inr (res', c', acts')"
      using Cons.prems(1) None unseen by (simp add: e split: if_splits)
    from Cons.IH [OF this _ later(2)] Cons.prems(2) obtain E R where ih: "es = E @ R" "c' = c"
      "acts' = (acts @ [EmitHistory n i]) @ map (\<lambda>(n, i). EmitHistory n i) E"
      "\<forall>(k, j) \<in> set E. map_of ?res k = None" "R \<noteq> [] \<longrightarrow> map_of ?res (fst (hd R)) \<noteq> None"
      "\<forall>k. map_of res' k = (case map_of E k of Some j \<Rightarrow> Some j | None \<Rightarrow> map_of ?res k)" by (auto simp: e)
    have "map_of E n = None" using later(1) ih(1) by (force simp: map_of_eq_None_iff)
    moreover have "fst (hd R) \<noteq> n" if "R \<noteq> []" using later(1) ih(1) that by (cases R) auto
    moreover have "\<forall>(k, j) \<in> set (e # E). map_of res k = None"
      using ih(4) None by (auto simp: e split: if_splits)
    moreover have "map_of res' k = (case map_of (e # E) k of Some j \<Rightarrow> Some j | None \<Rightarrow> map_of res k)" for k
      using spec [OF ih(6), of k] calculation(1) by (cases "map_of E k") (auto simp: e)
    ultimately show ?thesis
      using ih(1-3,5) by (intro exI [of _ "e # E"] exI [of _ R]) (simp add: e)
  qed
qed simp

section \<open>Visits of the publisher\<close>

datatype visit_stage = Planned | Advanced | Reserved

record pub_visit =
  visit_plan :: publication_plan
  visit_evidence :: remote_evidence
  visit_rows :: "row list"
  visit_stage :: visit_stage

text \<open>An operator's repair that has sent its rows (\<open>repair\<close> of \<open>publisher/repair.rs\<close>): the rows it compared
  with the service, the identity expected at the cursor, the sequence it will prove, and whether the
  proof was accepted.\<close>

record pub_repair =
  mend_rows :: "row list"
  mend_expected :: "string option"
  mend_through :: int
  mend_proved :: bool

text \<open>The journal's rows, the durable cursor and publisher state of one scope, the visit or the operator's
  repair in progress, and what the service holds. \<open>sends\<close> is every row handed to the SDK, in order:
  with \<open>None\<close> by publishing, with \<open>Some\<close> by a repair and the rows its evidence showed.\<close>

record pub_world =
  pub_rows :: "row list"
  cursor :: int
  saved :: publication_state
  visit :: "pub_visit option"
  mend :: "pub_repair option"
  sends :: "(row \<times> row list option) list"
  remote :: "row list"

definition handed :: "pub_world \<Rightarrow> row list" where
  "handed w = map fst (sends w)"

definition load_state :: "pub_world \<Rightarrow> publication_state" where
  "load_state w = (saved w)\<lparr>confirmed := cursor w, sent := filter (\<lambda>(n, _). n > cursor w) (sent (saved w))\<rparr>"

definition window :: "pub_world \<Rightarrow> nat \<Rightarrow> row list" where
  "window w k = take k (filter (\<lambda>(n, _). n > cursor w) (pub_rows w))"

text \<open>Conflicts end a visit; a hole is looked at when there are reservations.\<close>

definition visit_goes_on :: "publication_state \<Rightarrow> publication_status \<Rightarrow> bool" where
  "visit_goes_on s status =
     (case status of
        ReconcileRequired _ \<Rightarrow> sent s \<noteq> []
      | IdentityConflict _ _ _ \<Rightarrow> False
      | _ \<Rightarrow> True)"

definition display_acknowledged :: "pub_visit \<Rightarrow> int \<Rightarrow> bool" where
  "display_acknowledged v through \<longleftrightarrow>
     seen_display_version (visit_evidence v) = Some DISPLAY_VERSION \<and>
     seen_display_through (visit_evidence v) = Some (confirmed (plan_state (visit_plan v))) \<and>
     confirmed (plan_state (visit_plan v)) = through"

definition visit_proof :: "json \<Rightarrow> string \<Rightarrow> int \<Rightarrow> pub_visit \<Rightarrow> history_proof" where
  "visit_proof route wandb current v =
     (let c = confirmed (plan_state (visit_plan v));
          shown = display_acknowledged v (plan_through (visit_plan v))
      in \<lparr>proof_route = route, proof_wandb = wandb, proof_through = c,
          proof_observed = filter (\<lambda>(n, _). max current 1 \<le> n \<and> n \<le> c) (history_rows (visit_evidence v)),
          proof_display_version = (if shown then Some DISPLAY_VERSION else None),
          proof_display_through = (if shown then Some c else None)\<rparr>)"

definition scope_state :: "string \<Rightarrow> pub_world \<Rightarrow> json" where
  "scope_state wandb w = JObj [(''confirmed'', jint (cursor w)), (''total'', jint (int (length (pub_rows w)))),
     (''wandb_id'', JStr wandb)]"

text \<open>The last sequence an operator's repair proves: what the remote step or the last row sent reaches,
  within the rows compared.\<close>

definition repair_through :: "remote_evidence \<Rightarrow> row list \<Rightarrow> row list \<Rightarrow> int \<Rightarrow> int" where
  "repair_through r ms events c =
     min (max (case last_history_step r of Some n \<Rightarrow> if n + 1 \<ge> int i64_limit then n else n + 1 | None \<Rightarrow> 0)
            (last_sequence ms c))
       (last_sequence events c)"

definition repair_proof :: "json \<Rightarrow> string \<Rightarrow> int \<Rightarrow> remote_evidence \<Rightarrow> history_proof" where
  "repair_proof route wandb through r =
     \<lparr>proof_route = route, proof_wandb = wandb, proof_through = through,
      proof_observed = filter (\<lambda>(n, _). n \<le> through) (history_rows r),
      proof_display_version = None, proof_display_through = None\<rparr>"

definition journal_part :: "pub_world \<Rightarrow> int \<Rightarrow> row list" where
  "journal_part w through = filter (\<lambda>(n, _). max (cursor w) 1 \<le> n \<and> n \<le> through) (pub_rows w)"

text \<open>What an operator's repair sends, and what it will prove.\<close>

definition operator_repair ::
    "pub_world \<Rightarrow> remote_evidence \<Rightarrow> row list \<Rightarrow> publication_error + row list \<times> pub_repair" where
  "operator_repair w r events =
     (let expected = map_of (pub_rows w) (cursor w) in
      and_then (missing_reserved (saved w) r events expected) (\<lambda>ms.
        Inr (ms, \<lparr>mend_rows = events, mend_expected = expected,
          mend_through = repair_through r ms events (cursor w), mend_proved = False\<rparr>)))"

text \<open>What a visit saves and sends when its reservations are outstanding and settled.\<close>

definition await_reservations ::
    "row list \<Rightarrow> pub_visit \<Rightarrow> publication_error + publication_state \<times> row list" where
  "await_reservations rows v =
     (let st = (plan_state (visit_plan v))\<lparr>pub_finished := False\<rparr> in
      and_then (missing_reserved st (visit_evidence v) (visit_rows v) (map_of rows (confirmed st)))
        (\<lambda>ms. Inr (st, ms)))"

text \<open>The service's evidence shows rows it holds. A visit plans, then advances the cursor when the plan
  does, then saves its reservations, and only then sends; it may stop after any of these. The rows
  of a plan may be sent in part.

  When a plan has nothing to do and reservations are outstanding, the visit may find some of them
  absent and send those again (\<open>await_reservations\<close>): it saves its state first. An operator's repair
  does the same from the saved state, with no visit in progress (both hold the leader's lock), and
  when all of it was sent it observes until nothing is missing, advances the cursor with its proof,
  and saves the state with the confirmed reservations dropped. It too may stop after any step.

  The journal grows at its end, and the service gains rows, at any time.\<close>

inductive publisher_step :: "'f metric_ops \<Rightarrow> json \<Rightarrow> string \<Rightarrow> pub_world \<Rightarrow> pub_world \<Rightarrow> bool"
  for M route wandb
where
  append: "publisher_step M route wandb w (w\<lparr>pub_rows := pub_rows w @ [(int (length (pub_rows w)) + 1, i)]\<rparr>)"
| gains: "publisher_step M route wandb w (w\<lparr>remote := r # remote w\<rparr>)"
| plan: "visit w = None \<Longrightarrow> mend w = None \<Longrightarrow> confirmed (saved w) \<le> cursor w \<Longrightarrow>
     set (history_rows ev) \<subseteq> set (remote w) \<Longrightarrow>
     plan_publication (load_state w) ev (window w k) (map_of (pub_rows w) (cursor w)) terminal DISPLAY_VERSION = Inr p \<Longrightarrow>
     visit_goes_on (load_state w) (plan_status p) \<Longrightarrow>
     publisher_step M route wandb w
       (w\<lparr>visit := Some \<lparr>visit_plan = p, visit_evidence = ev, visit_rows = window w k, visit_stage = Planned\<rparr>\<rparr>)"
| advance: "visit w = Some v \<Longrightarrow> visit_stage v = Planned \<Longrightarrow>
     confirmed (plan_state (visit_plan v)) > cursor w \<or> display_acknowledged v (plan_through (visit_plan v)) \<Longrightarrow>
     confirmation_plan M (scope_state wandb w) route
       (journal_part w (confirmed (plan_state (visit_plan v)))) (visit_proof route wandb (cursor w) v) None = Inr a \<Longrightarrow>
     publisher_step M route wandb w
       (w\<lparr>cursor := max (cursor w) (adv_confirmed a), visit := Some (v\<lparr>visit_stage := Advanced\<rparr>)\<rparr>)"
| unmoved: "visit w = Some v \<Longrightarrow> visit_stage v = Planned \<Longrightarrow> confirmed (plan_state (visit_plan v)) \<le> cursor w \<Longrightarrow>
     \<not> display_acknowledged v (plan_through (visit_plan v)) \<Longrightarrow>
     publisher_step M route wandb w (w\<lparr>visit := Some (v\<lparr>visit_stage := Advanced\<rparr>)\<rparr>)"
| finish: "visit w = Some v \<Longrightarrow> visit_stage v = Advanced \<Longrightarrow>
     FinishRun (plan_through (visit_plan v)) \<in> set (plan_actions (visit_plan v)) \<Longrightarrow>
     publisher_step M route wandb w (w\<lparr>saved := plan_state (visit_plan v), visit := None\<rparr>)"
| reserve: "visit w = Some v \<Longrightarrow> visit_stage v = Advanced \<Longrightarrow>
     publisher_step M route wandb w
       (w\<lparr>saved := (plan_state (visit_plan v))\<lparr>pub_finished := False\<rparr>, visit := Some (v\<lparr>visit_stage := Reserved\<rparr>)\<rparr>)"
| send: "visit w = Some v \<Longrightarrow> visit_stage v = Reserved \<Longrightarrow>
     publisher_step M route wandb w
       (w\<lparr>sends := sends w @ map (\<lambda>r. (r, None)) (take k (emitted_rows (plan_actions (visit_plan v)))), visit := None\<rparr>)"
| resend: "visit w = Some v \<Longrightarrow> visit_stage v = Advanced \<Longrightarrow>
     plan_actions (visit_plan v) = [] \<Longrightarrow> sent (plan_state (visit_plan v)) \<noteq> [] \<Longrightarrow>
     await_reservations (pub_rows w) v = Inr (st, ms) \<Longrightarrow>
     publisher_step M route wandb w
       (w\<lparr>saved := st, sends := sends w @ map (\<lambda>r. (r, Some (history_rows (visit_evidence v)))) (take k ms),
          visit := None\<rparr>)"
| repair: "visit w = None \<Longrightarrow> mend w = None \<Longrightarrow> set (history_rows ev) \<subseteq> set (remote w) \<Longrightarrow>
     operator_repair w ev (window w k) = Inr (ms, m) \<Longrightarrow> ms \<noteq> [] \<Longrightarrow>
     publisher_step M route wandb w
       (w\<lparr>sends := sends w @ map (\<lambda>r. (r, Some (history_rows ev))) (take j ms),
          mend := (if j < length ms then None else Some m)\<rparr>)"
| repaired: "mend w = Some m \<Longrightarrow> \<not> mend_proved m \<Longrightarrow> set (history_rows ev) \<subseteq> set (remote w) \<Longrightarrow>
     missing_reserved (saved w) ev (mend_rows m) (mend_expected m) = Inr [] \<Longrightarrow>
     confirmation_plan M (scope_state wandb w) route
       (journal_part w (mend_through m)) (repair_proof route wandb (mend_through m) ev) None = Inr a \<Longrightarrow>
     publisher_step M route wandb w
       (w\<lparr>cursor := max (cursor w) (adv_confirmed a), mend := Some (m\<lparr>mend_proved := True\<rparr>)\<rparr>)"
| settle: "mend w = Some m \<Longrightarrow> mend_proved m \<Longrightarrow>
     publisher_step M route wandb w
       (w\<lparr>saved := (saved w)\<lparr>confirmed := mend_through m,
            sent := filter (\<lambda>(n, _). n > mend_through m) (sent (saved w))\<rparr>, mend := None\<rparr>)"
| stop: "publisher_step M route wandb w (w\<lparr>visit := None, mend := None\<rparr>)"

inductive publisher_run :: "'f metric_ops \<Rightarrow> json \<Rightarrow> string \<Rightarrow> pub_world \<Rightarrow> pub_world \<Rightarrow> bool"
  for M route wandb
where
  here: "publisher_run M route wandb w w"
| more: "publisher_run M route wandb w v \<Longrightarrow> publisher_step M route wandb v u \<Longrightarrow> publisher_run M route wandb w u"

definition unpublished :: pub_world where
  "unpublished =
     \<lparr>pub_rows = [], cursor = 0,
      saved = \<lparr>confirmed = 0, sent = [], display_version = None, display_through = None, pub_finished = False\<rparr>,
      visit = None, mend = None, sends = [], remote = []\<rparr>"

section \<open>Invariants of a scope\<close>

definition numbered :: "row list \<Rightarrow> bool" where
  "numbered rows \<longleftrightarrow> (\<forall>k < length rows. fst (rows ! k) = int k + 1)"

lemma numbered_snoc: "numbered rows \<Longrightarrow> numbered (rows @ [(int (length rows) + 1, i)])"
  by (auto simp: numbered_def nth_append less_Suc_eq)

lemma numbered_row: "numbered rows \<Longrightarrow> 1 \<le> n \<Longrightarrow> n \<le> int (length rows) \<Longrightarrow> \<exists>i. (n, i) \<in> set rows"
proof -
  assume a: "numbered rows" "1 \<le> n" "n \<le> int (length rows)"
  then have "nat (n - 1) < length rows" by simp
  with a have "rows ! nat (n - 1) \<in> set rows" "fst (rows ! nat (n - 1)) = n" by (simp_all add: numbered_def)
  then show ?thesis by (metis prod.collapse)
qed

lemma numbered_bounds: "numbered rows \<Longrightarrow> (n, i) \<in> set rows \<Longrightarrow> 1 \<le> n \<and> n \<le> int (length rows)"
proof -
  assume a: "numbered rows" "(n, i) \<in> set rows"
  then obtain k where "k < length rows" "rows ! k = (n, i)" by (meson in_set_conv_nth)
  with a(1) have "n = int k + 1" unfolding numbered_def by (metis fst_conv)
  with \<open>k < length rows\<close> show ?thesis by simp
qed

lemma numbered_sorted: "numbered rows \<Longrightarrow> sorted_wrt (<) (map fst rows)"
  by (simp add: numbered_def sorted_wrt_iff_nth_less)

lemma sorted_take_closed:
  assumes "sorted_wrt (<) (map fst xs)" "x \<in> set xs" "y \<in> set (take k xs)" "fst x \<le> (fst y :: int)"
  shows "x \<in> set (take k xs)"
proof (rule ccontr)
  assume "x \<notin> set (take k xs)"
  then have "x \<in> set (drop k xs)" using assms(2) by (metis Un_iff append_take_drop_id set_append)
  moreover have "sorted_wrt (<) (map fst (take k xs @ drop k xs))" using assms(1) by simp
  ultimately have "fst y < fst x" using assms(3) by (auto simp only: map_append sorted_wrt_append set_map)
  with assms(4) show False by simp
qed

lemma window_rows:
  assumes "numbered (pub_rows w)"
  shows "sorted_wrt (<) (map fst (window w k))" "set (window w k) \<subseteq> set (pub_rows w)"
    "\<forall>(n, i) \<in> set (window w k). cursor w < n"
    "\<And>x y. y \<in> set (window w k) \<Longrightarrow> x \<in> set (pub_rows w) \<Longrightarrow> cursor w < fst x \<Longrightarrow> fst x \<le> fst y \<Longrightarrow> x \<in> set (window w k)"
proof -
  let ?f = "filter (\<lambda>(n, _). n > cursor w) (pub_rows w)"
  have s: "sorted_wrt (<) (map fst ?f)"
    using numbered_sorted [OF assms] by (auto simp: sorted_wrt_map intro: sorted_wrt_filter)
  then show "sorted_wrt (<) (map fst (window w k))" by (simp add: window_def take_map [symmetric] sorted_wrt_take)
  show "set (window w k) \<subseteq> set (pub_rows w)" "\<forall>(n, i) \<in> set (window w k). cursor w < n"
    by (auto simp: window_def dest!: in_set_takeD)
  show "x \<in> set (window w k)" if "y \<in> set (window w k)" "x \<in> set (pub_rows w)" "cursor w < fst x" "fst x \<le> fst y" for x y
    using sorted_take_closed [OF s, of x y k] that by (auto simp: window_def case_prod_beta')
qed

text \<open>Reservations are rows of the journal and leave no gap above the cursor; everything that was sent is
  confirmed or reserved.\<close>

definition reserved_ok :: "row list \<Rightarrow> int \<Rightarrow> row list \<Rightarrow> bool" where
  "reserved_ok rows c s \<longleftrightarrow>
     (\<forall>n i. map_of s n = Some i \<longrightarrow> (n, i) \<in> set rows) \<and>
     (\<forall>n m. map_of s n \<noteq> None \<and> c < m \<and> m < n \<longrightarrow> map_of s m \<noteq> None)"

definition covered :: "row list \<Rightarrow> int \<Rightarrow> row list \<Rightarrow> bool" where
  "covered out c s \<longleftrightarrow> (\<forall>(n, i) \<in> set out. n \<le> c \<or> map_of s n \<noteq> None)"

definition delivered :: "row list \<Rightarrow> int \<Rightarrow> row list \<Rightarrow> bool" where
  "delivered rows c held \<longleftrightarrow> (\<forall>(n, i) \<in> set rows. n \<le> c \<longrightarrow> (n, i) \<in> set held)"

text \<open>Rows that may be sent next: later than everything sent, and reserved.\<close>

definition sendable :: "row list \<Rightarrow> row list \<Rightarrow> row list \<Rightarrow> row list \<Rightarrow> bool" where
  "sendable rows out s es \<longleftrightarrow>
     sorted_wrt (<) (map fst es) \<and> set es \<subseteq> set rows \<and> (\<forall>(n, i) \<in> set es. map_of s n \<noteq> None) \<and>
     (\<forall>e \<in> set es. \<forall>x \<in> set out. fst x < fst e)"

lemma reserved_gapless: "reserved_ok rows c s \<Longrightarrow> map_of s n \<noteq> None \<Longrightarrow> c < m \<Longrightarrow> m < n \<Longrightarrow> map_of s m \<noteq> None"
  unfolding reserved_ok_def by blast

lemma fold_bt_remove: "map_of (fold (\<lambda>(n, i). bt_remove n) S res) n = (if n \<in> fst ` set S then None else map_of res n)"
  by (induction S arbitrary: res) (auto split: prod.splits)

lemma fold_max_sorted:
  "sorted_wrt (<) (map fst S) \<Longrightarrow> \<forall>(n, i) \<in> set S. (c::int) < n \<Longrightarrow>
   fold (\<lambda>(n, i). max n) S c = (if S = [] then c else fst (last S))"
proof (induction S arbitrary: c)
  case (Cons e S)
  obtain n i where e: "e = (n, i)" by (cases e)
  have "max n c = n" using Cons.prems(2) by (auto simp: e)
  moreover have "\<forall>(k, j) \<in> set S. n < k" "sorted_wrt (<) (map fst S)" using Cons.prems(1) by (auto simp: e)
  ultimately show ?case using Cons.IH [of n] by (simp add: e)
qed simp

lemma index_rows_sub:
  "index_rows m es = Inr m' \<Longrightarrow> map_of m' n = Some i \<Longrightarrow> map_of m n = Some i \<or> (n, i) \<in> set es"
proof (induction m es rule: index_rows.induct)
  case (2 m e es)
  show ?case
  proof (cases "map_of m (fst e)")
    case None
    with 2 show ?thesis by (cases e) (auto simp: and_then_eq_Inr split: if_splits)
  next
    case (Some j)
    with 2 show ?thesis by (auto simp: and_then_eq_Inr split: if_splits)
  qed
qed simp

lemma remote_index_sub: "remote_index r = Inr seen \<Longrightarrow> map_of seen n = Some i \<Longrightarrow> (n, i) \<in> set (history_rows r)"
  using index_rows_sub [of "[]" "history_rows r" seen n i] by (auto simp: remote_index_def split: if_splits)

lemma settle_plan_simps [simp]:
  "sent (plan_state (settle_plan s r t acts fin v)) = sent s"
  "confirmed (plan_state (settle_plan s r t acts fin v)) = confirmed s"
  "emitted_rows (plan_actions (settle_plan s r t acts fin v)) = emitted_rows acts"
  by (simp_all add: settle_plan_def Let_def)

lemma emitted_rows_map [simp]: "emitted_rows (map (\<lambda>(n, i). EmitHistory n i) es) = es"
  by (induction es) auto

lemma plan_publication_cases:
  assumes "plan_publication s r events expected fin v = Inr p"
  obtains (refused) "plan_state p = s" "plan_actions p = []"
  | (planned) seen m res c acts where "remote_index r = Inr seen" "\<forall>n \<in> fst ` set seen. n \<le> m"
      "plan_rows seen m events (sent s, confirmed s, []) = Inr (res, c, acts)"
      "sent (plan_state p) = res" "confirmed (plan_state p) = c" "emitted_rows (plan_actions p) = emitted_rows acts"
proof -
  obtain seen where seen: "remote_index r = Inr seen"
    using assms by (auto simp: plan_publication_def and_then_eq_Inr split: if_splits)
  obtain nxt where nxt: "(case last_history_step r of Some n \<Rightarrow> and_then (next_step n) (\<lambda>k. Inr (Some k)) | None \<Rightarrow> Inr None) = Inr nxt"
    using assms by (auto simp: plan_publication_def and_then_eq_Inr split: if_splits)
  define m where "m = max (or_key (bt_last_key seen) (confirmed s)) (or_key nxt (confirmed s))"
  have le: "\<forall>n \<in> fst ` set seen. n \<le> m"
  proof
    fix n assume n: "n \<in> fst ` set seen"
    then obtain k where "bt_last_key seen = Some k" using bt_last_key_None [of seen] by (cases "bt_last_key seen") auto
    with bt_last_key_ge [OF this n] show "n \<le> m" by (simp add: m_def or_key_def)
  qed
  have "plan_state p = s \<and> plan_actions p = [] \<or>
     (\<exists>res c acts. plan_rows seen m events (sent s, confirmed s, []) = Inr (res, c, acts) \<and>
        p = settle_plan (s\<lparr>sent := res, confirmed := c\<rparr>) r (last_sequence events c) acts fin v)"
    using assms seen nxt unfolding plan_publication_def
    by (auto simp: and_then_eq_Inr Let_def m_def split: if_splits sum.splits)
  with refused planned [OF seen le] show ?thesis by force
qed

text \<open>Reservations at or below the cursor may be forgotten.\<close>

lemma settled_reservations:
  assumes r: "reserved_ok rows c s" and out: "covered out c s"
  shows "reserved_ok rows c (filter (\<lambda>(n, _). n > c) s)" "covered out c (filter (\<lambda>(n, _). n > c) s)"
proof -
  let ?s = "filter (\<lambda>(n, _). n > c) s"
  have s_of: "map_of ?s n = (if c < n then map_of s n else None)" for n
    by (simp add: map_of_filter_key)
  show "reserved_ok rows c ?s"
    unfolding reserved_ok_def
  proof (intro conjI allI impI)
    fix n i assume "map_of ?s n = Some i"
    with r show "(n, i) \<in> set rows" by (auto simp: reserved_ok_def s_of split: if_splits)
  next
    fix n m assume "map_of ?s n \<noteq> None \<and> c < m \<and> m < n"
    with reserved_gapless [OF r, of n m] show "map_of ?s m \<noteq> None" by (auto simp: s_of split: if_splits)
  qed
  show "covered out c ?s" using out by (fastforce simp: covered_def s_of split: if_splits)
qed

lemma plan_keeps:
  assumes p: "plan_publication (load_state w) ev (window w k) expected fin v = Inr p"
    and rows: "numbered (pub_rows w)" and honest: "set (history_rows ev) \<subseteq> set (remote w)"
    and c: "0 \<le> cursor w" and r: "reserved_ok (pub_rows w) (cursor w) (sent (saved w))"
    and out: "covered (handed w) (cursor w) (sent (saved w))"
    and held: "delivered (pub_rows w) (cursor w) (remote w)" and len: "cursor w \<le> int (length (pub_rows w))"
  defines "c' \<equiv> confirmed (plan_state p)" and "s' \<equiv> sent (plan_state p)" and "es \<equiv> emitted_rows (plan_actions p)"
  shows "cursor w \<le> c' \<and> c' \<le> int (length (pub_rows w)) \<and> reserved_ok (pub_rows w) c' s' \<and> covered (handed w) c' s' \<and>
    delivered (pub_rows w) c' (remote w) \<and> sendable (pub_rows w) (handed w) s' es"
proof -
  define s where "s = sent (load_state w)"
  have s_of: "map_of s n = (if cursor w < n then map_of (sent (saved w)) n else None)" for n
    by (simp add: s_def load_state_def map_of_filter_key)
  have s: "reserved_ok (pub_rows w) (cursor w) s" "covered (handed w) (cursor w) s"
    using settled_reservations [OF r out] by (simp_all add: s_def load_state_def)
  note win = window_rows(1-3) [OF rows, of k] window_rows(4) [OF rows, where k = k]
  from p show ?thesis
  proof (cases rule: plan_publication_cases)
    case refused
    then have "c' = cursor w" "s' = s" "es = []" by (simp_all add: c'_def s'_def es_def s_def load_state_def)
    then show ?thesis using s held len by (simp add: sendable_def)
  next
    case (planned seen m res d acts)
    have d: "c' = d" "s' = res" "es = emitted_rows acts" using planned by (simp_all add: c'_def s'_def es_def)
    have start: "confirmed (load_state w) = cursor w" by (simp add: load_state_def)
    from plan_rows_shown [OF planned(3) win(1) planned(2)] obtain S B where sb: "window w k = S @ B"
      "\<forall>(n, i) \<in> set S. map_of seen n = Some i" "\<forall>(n, i) \<in> set B. map_of seen n = None \<and> m < n"
      "plan_rows seen m B (fold (\<lambda>(n, i). bt_remove n) S s, fold (\<lambda>(n, i). max n) S (cursor w), []) = Inr (res, d, acts)"
      unfolding s_def start by blast
    have sorted: "sorted_wrt (<) (map fst S)" "sorted_wrt (<) (map fst B)" "\<forall>x \<in> set S. \<forall>y \<in> set B. fst x < fst y"
      using win(1) by (auto simp: sb(1) sorted_wrt_append)
    have "\<forall>(n, i) \<in> set B. map_of seen n = None" using sb(3) by auto
    from plan_rows_beyond [OF sb(4) this sorted(2)] obtain E R where er: "B = E @ R"
      "d = fold (\<lambda>(n, i). max n) S (cursor w)" "acts = map (\<lambda>(n, i). EmitHistory n i) E"
      "\<forall>(n, i) \<in> set E. map_of (fold (\<lambda>(n, i). bt_remove n) S s) n = None"
      "\<forall>n. map_of res n = (case map_of E n of Some i \<Rightarrow> Some i | None \<Rightarrow> map_of (fold (\<lambda>(n, i). bt_remove n) S s) n)"
      by (auto simp: d)
    have E: "es = E" using d(3) er(3) by simp
    have above: "\<forall>(n, i) \<in> set S. cursor w < n" "\<forall>(n, i) \<in> set E. cursor w < n" using win(3) by (auto simp: sb(1) er(1))
    have d_last: "d = (if S = [] then cursor w else fst (last S))"
      using fold_max_sorted [OF sorted(1) above(1)] er(2) by simp
    have in_window: "x \<in> set S \<or> x \<in> set B" if "x \<in> set (pub_rows w)" "cursor w < fst x" "y \<in> set S \<union> set B" "fst x \<le> fst y" for x y
      using win(4) [of y x] that by (auto simp: sb(1))
    have low: "n \<le> d" if "(n, i) \<in> set S" for n i
      using that sorted(1) d_last by (cases S rule: rev_cases) (auto simp: sorted_wrt_append)
    have high: "d < n" if "(n, i) \<in> set B" for n i
    proof (cases "S = []")
      case True
      then show ?thesis using that win(3) d_last by (auto simp: sb(1))
    next
      case False
      then show ?thesis using that sorted(3) d_last last_in_set [of S] by fastforce
    qed
    have cd: "cursor w \<le> d" using above(1) d_last last_in_set [of S] by fastforce
    have dl: "d \<le> int (length (pub_rows w))"
    proof (cases "S = []")
      case False
      then have "last S \<in> set (pub_rows w)" using win(2) by (auto simp: sb(1))
      then show ?thesis using False d_last numbered_bounds [OF rows, of "fst (last S)" "snd (last S)"] by simp
    qed (use len d_last in simp)
    have res: "map_of res n = (case map_of E n of Some i \<Rightarrow> Some i | None \<Rightarrow> if n \<in> fst ` set S then None else map_of s n)" for n
      using spec [OF er(5), of n] by (simp add: fold_bt_remove split: option.split)
    have fresh: "map_of s n = None" if "(n, i) \<in> set E" for n i
      using that er(4) high [of n i] low by (fastforce simp: fold_bt_remove er(1) split: if_splits)
    have kept: "map_of res n \<noteq> None" if "map_of s n \<noteq> None" "d < n" for n
    proof -
      have "n \<notin> fst ` set S" using low that(2) by fastforce
      with that(1) show ?thesis by (simp add: res split: option.split)
    qed
    have "delivered (pub_rows w) d (remote w)"
      unfolding delivered_def
    proof (intro ballI, clarify)
      fix n i assume x: "(n, i) \<in> set (pub_rows w)" "n \<le> d"
      show "(n, i) \<in> set (remote w)"
      proof (cases "n \<le> cursor w")
        case True
        with x(1) held show ?thesis by (auto simp: delivered_def)
      next
        case False
        with x(2) d_last have "S \<noteq> []" "n \<le> fst (last S)" by (auto split: if_splits)
        then have "(n, i) \<in> set S" using in_window [of "(n, i)" "last S"] x False high by fastforce
        then have "map_of seen n = Some i" using sb(2) by auto
        from remote_index_sub [OF planned(1) this] honest show ?thesis by blast
      qed
    qed
    moreover have "reserved_ok (pub_rows w) d res"
      unfolding reserved_ok_def
    proof (intro conjI allI impI)
      fix n i assume "map_of res n = Some i"
      then have "(n, i) \<in> set E \<or> map_of s n = Some i" by (auto simp: res dest: map_of_SomeD split: option.splits if_splits)
      then show "(n, i) \<in> set (pub_rows w)"
        using s(1) win(2) by (auto simp: reserved_ok_def sb(1) er(1))
    next
      fix n m assume a: "map_of res n \<noteq> None \<and> d < m \<and> m < n"
      then consider i where "(n, i) \<in> set E" | "map_of s n \<noteq> None"
        by (auto simp: res dest: map_of_SomeD split: option.splits if_splits)
      then show "map_of res m \<noteq> None"
      proof cases
        case (1 i)
        then have "(n, i) \<in> set (pub_rows w)" using win(2) by (auto simp: sb(1) er(1))
        then obtain j where j: "(m, j) \<in> set (pub_rows w)"
          using numbered_row [OF rows, of m] numbered_bounds [OF rows] a cd c by fastforce
        moreover have "(m, j) \<notin> set S" using low [of m j] a by auto
        ultimately have "(m, j) \<in> set B" using in_window [of "(m, j)" "(n, i)"] 1 a cd by (auto simp: er(1))
        moreover have "(m, j) \<notin> set R" using sorted(2) 1 a by (fastforce simp: er(1) sorted_wrt_append)
        ultimately have "(m, j) \<in> set E" by (simp add: er(1))
        then have "map_of E m \<noteq> None" using weak_map_of_SomeI by fastforce
        then show ?thesis by (auto simp: res)
      next
        case 2
        then have "map_of s m \<noteq> None" using reserved_gapless [OF s(1), of n m] a cd by simp
        with kept a show ?thesis by blast
      qed
    qed
    moreover have "covered (handed w) d res"
      using s(2) kept cd unfolding covered_def by fastforce
    moreover have "sendable (pub_rows w) (handed w) res E"
      unfolding sendable_def
    proof (intro conjI ballI)
      show "sorted_wrt (<) (map fst E)" using sorted(2) by (simp add: er(1) sorted_wrt_append)
      show "set E \<subseteq> set (pub_rows w)" using win(2) by (auto simp: sb(1) er(1))
      show "case e of (n, i) \<Rightarrow> map_of res n \<noteq> None" if "e \<in> set E" for e
        using that weak_map_of_SomeI [of "fst e" "snd e" E] by (cases e) (auto simp: res)
      show "fst x < fst e" if "e \<in> set E" "x \<in> set (handed w)" for e x
      proof (rule ccontr)
        obtain n i where e: "e = (n, i)" by (cases e)
        assume "\<not> fst x < fst e"
        moreover have "fst x \<le> cursor w \<or> map_of s (fst x) \<noteq> None" using s(2) that(2) by (auto simp: covered_def)
        moreover have "cursor w < n" "map_of s n = None" using above(2) that(1) fresh by (auto simp: e)
        ultimately show False using reserved_gapless [OF s(1), of "fst x" n] by (cases "fst x = n") (auto simp: e)
      qed
    qed
    ultimately show ?thesis unfolding E d(1,2) using cd dl by blast
  qed
qed

definition visit_inv :: "pub_world \<Rightarrow> pub_visit \<Rightarrow> bool" where
  "visit_inv w v \<longleftrightarrow>
     (let c = confirmed (plan_state (visit_plan v)); s = sent (plan_state (visit_plan v));
          es = emitted_rows (plan_actions (visit_plan v)) in
      cursor w \<le> c \<and> c \<le> int (length (pub_rows w)) \<and> (visit_stage v \<noteq> Planned \<longrightarrow> cursor w = c) \<and>
      (visit_stage v = Reserved \<longrightarrow> sent (saved w) = s) \<and> set (visit_rows v) \<subseteq> set (pub_rows w) \<and>
      reserved_ok (pub_rows w) c s \<and> covered (handed w) c s \<and> delivered (pub_rows w) c (remote w) \<and>
      sendable (pub_rows w) (handed w) s es)"

text \<open>Whatever publishing sends comes after everything that was sent before, by publishing or by repair; a
  repair sends nothing that its evidence shows.\<close>

definition in_order :: "(row \<times> row list option) list \<Rightarrow> bool" where
  "in_order out \<longleftrightarrow> sorted_wrt (\<lambda>x y. snd y = None \<longrightarrow> fst (fst x) < fst (fst y)) out"

definition absent_only :: "(row \<times> row list option) list \<Rightarrow> bool" where
  "absent_only out \<longleftrightarrow> (\<forall>(r, shown) \<in> set out. \<forall>rows. shown = Some rows \<longrightarrow> fst r \<notin> fst ` set rows)"

definition pub_inv :: "pub_world \<Rightarrow> bool" where
  "pub_inv w \<longleftrightarrow>
     numbered (pub_rows w) \<and> 0 \<le> cursor w \<and> cursor w \<le> int (length (pub_rows w)) \<and>
     reserved_ok (pub_rows w) (cursor w) (sent (saved w)) \<and> covered (handed w) (cursor w) (sent (saved w)) \<and>
     delivered (pub_rows w) (cursor w) (remote w) \<and>
     in_order (sends w) \<and> absent_only (sends w) \<and> set (handed w) \<subseteq> set (pub_rows w) \<and>
     (visit w = None \<or> mend w = None) \<and>
     (\<forall>m. mend w = Some m \<and> mend_proved m \<longrightarrow> mend_through m = cursor w) \<and>
     (\<forall>v. visit w = Some v \<longrightarrow> visit_inv w v)"

lemma reserved_ok_mono: "reserved_ok rows c s \<Longrightarrow> reserved_ok (rows @ new) c s"
  unfolding reserved_ok_def by fastforce

lemma reserved_ok_cursor: "reserved_ok rows c s \<Longrightarrow> c \<le> d \<Longrightarrow> reserved_ok rows d s"
  unfolding reserved_ok_def by (meson le_less_trans)

lemma covered_cursor: "covered out c s \<Longrightarrow> c \<le> d \<Longrightarrow> covered out d s"
  unfolding covered_def by fastforce

lemma delivered_snoc: "delivered rows c held \<Longrightarrow> c \<le> int (length rows) \<Longrightarrow>
    delivered (rows @ [(int (length rows) + 1, i)]) c held"
  by (auto simp: delivered_def)

lemma delivered_gains: "delivered rows c held \<Longrightarrow> delivered rows c (r # held)"
  by (auto simp: delivered_def)

lemma sendable_snoc: "sendable rows out s es \<Longrightarrow> sendable (rows @ new) out s es"
  by (auto simp: sendable_def)

lemma handed_simps [simp]:
  "handed (w\<lparr>pub_rows := x\<rparr>) = handed w" "handed (w\<lparr>cursor := c\<rparr>) = handed w"
  "handed (w\<lparr>saved := st\<rparr>) = handed w" "handed (w\<lparr>visit := v\<rparr>) = handed w"
  "handed (w\<lparr>mend := m\<rparr>) = handed w" "handed (w\<lparr>remote := x\<rparr>) = handed w"
  "handed (w\<lparr>sends := out\<rparr>) = map fst out"
  by (simp_all add: handed_def)

lemma absent_only_sent [simp]: "absent_only (out @ map (\<lambda>r. (r, None)) es) \<longleftrightarrow> absent_only out"
  by (simp add: absent_only_def ball_Un)

lemma absent_only_resent [simp]:
  "absent_only (out @ map (\<lambda>r. (r, Some rows)) es) \<longleftrightarrow> absent_only out \<and> (\<forall>e\<in>set es. fst e \<notin> fst ` set rows)"
  by (simp add: absent_only_def ball_Un)

lemma sendable_sent:
  assumes "sendable rows (map fst out) s es" "in_order out" "covered (map fst out) c s"
  shows "in_order (out @ map (\<lambda>r. (r, None)) (take k es))" "set (take k es) \<subseteq> set rows"
    "covered (map fst out @ take k es) c s"
proof -
  have "sorted_wrt (<) (map fst (take k es))"
    using assms(1) by (simp add: sendable_def take_map [symmetric] sorted_wrt_take)
  moreover have "fst (fst x) < fst e" if "x \<in> set out" "e \<in> set (take k es)" for x e
    using assms(1) that by (auto simp: sendable_def dest!: in_set_takeD)
  ultimately show "in_order (out @ map (\<lambda>r. (r, None)) (take k es))"
    using assms(2) by (auto simp: in_order_def sorted_wrt_append sorted_wrt_map)
  show "set (take k es) \<subseteq> set rows" "covered (map fst out @ take k es) c s"
    using assms by (auto simp: sendable_def covered_def dest!: in_set_takeD)
qed

lemma confirmation_plan_Inr:
  assumes "confirmation_plan M state route events p error = Inr a"
  shows "adv_confirmed a = proof_through p"
  using assms unfolding confirmation_plan_def Let_def by (auto simp: and_then_eq_Inr require_eq_Inr)

lemma observed_index_sub:
  "observed_index t m es = Inr m' \<Longrightarrow> map_of m' n = Some i \<Longrightarrow> map_of m n = Some i \<or> (n, i) \<in> set es"
  by (induction t m es rule: observed_index.induct) (auto split: if_splits)

lemma expected_rows_fold:
  "distinct (map fst es) \<Longrightarrow> (n, i) \<in> set es \<or> map_of m n = Some i \<and> n \<notin> fst ` set es \<Longrightarrow>
   map_of (fold (\<lambda>(n, i). bt_insert n i) es m) n = Some i"
proof (induction es arbitrary: m)
  case (Cons e es)
  obtain a b where e: "e = (a, b)" by (cases e)
  with Cons.prems have "(n, i) \<in> set es \<or> map_of (bt_insert a b m) n = Some i \<and> n \<notin> fst ` set es"
    by force
  with Cons e show ?case by simp
qed simp

lemma jint_read: "as_i64 (jint n) = Some m \<Longrightarrow> m = n"
  by (cases "n < 0") (auto simp: jint_def show_int_def parse_i64_def [of "CHR ''-'' # s" for s] parse_i64_show_nat
    split: if_splits)

text \<open>What an accepted proof shows of the journal: from the cursor on, every row up to the proven sequence
  was observed under its identity.\<close>

lemma confirmation_plan_covers:
  assumes "confirmation_plan M (scope_state wandb w) route (journal_part w (proof_through p)) p None = Inr a"
    and rows: "numbered (pub_rows w)" and c: "0 \<le> cursor w"
  shows "cursor w \<le> proof_through p" "proof_through p \<le> int (length (pub_rows w))"
    "\<And>n i. (n, i) \<in> set (pub_rows w) \<Longrightarrow> cursor w < n \<Longrightarrow> n \<le> proof_through p \<Longrightarrow> (n, i) \<in> set (proof_observed p)"
proof -
  let ?t = "proof_through p" and ?first = "if cursor w = 0 then 1 else cursor w"
  from assms(1) obtain seen where p: "cursor w \<le> ?t" "?t \<le> int (length (pub_rows w))"
    "observed_index ?t [] (proof_observed p) = Inr seen"
    "list_all (\<lambda>(n, i). map_of seen n = Some i) (expected_rows ?first ?t (journal_part w ?t))"
    unfolding confirmation_plan_def Let_def scope_state_def
    by (auto simp: and_then_eq_Inr require_eq_Inr ok_or_eq_Inr dest!: jint_read)
  from p(1,2) show "cursor w \<le> ?t" "?t \<le> int (length (pub_rows w))" by simp_all
  fix n i assume x: "(n, i) \<in> set (pub_rows w)" "cursor w < n" "n \<le> ?t"
  let ?part = "filter (\<lambda>(n, _). ?first \<le> n \<and> n \<le> ?t) (journal_part w ?t)"
  have "distinct (map fst (pub_rows w))"
    using numbered_sorted [OF rows] by (metis strict_sorted_iff)
  then have "distinct (map fst ?part)" by (simp add: journal_part_def distinct_map_filter)
  moreover have "(n, i) \<in> set ?part" using x c by (auto simp: journal_part_def)
  ultimately have "map_of (expected_rows ?first ?t (journal_part w ?t)) n = Some i"
    unfolding expected_rows_def by (intro expected_rows_fold) auto
  then have "map_of seen n = Some i" using p(4) map_of_SomeD by (fastforce simp: list_all_iff)
  then show "(n, i) \<in> set (proof_observed p)" using observed_index_sub [OF p(3)] by auto
qed

lemma index_rows_keys: "index_rows m es = Inr m' \<Longrightarrow> fst ` set m \<union> fst ` set es \<subseteq> fst ` set m'"
proof (induction m es rule: index_rows.induct)
  case (2 m e es)
  show ?case
  proof (cases "map_of m (fst e)")
    case None
    with 2 show ?thesis by (auto simp: and_then_eq_Inr)
  next
    case (Some j)
    then have "fst e \<in> fst ` set m" using map_of_SomeD [OF Some] by (metis fst_conv image_eqI)
    with Some 2 show ?thesis by (auto simp: and_then_eq_Inr split: if_splits)
  qed
qed simp

lemma missing_rows_sub:
  "missing_rows s seen m es = Inr ms \<Longrightarrow> e \<in> set ms \<Longrightarrow>
   e \<in> set es \<and> map_of (sent s) (fst e) = Some (snd e) \<and> map_of seen (fst e) = None"
  by (induction s seen m es arbitrary: ms rule: missing_rows.induct)
    (fastforce simp: and_then_eq_Inr split: option.splits if_splits)+

lemma missing_reserved_sub:
  assumes "missing_reserved s r events expected = Inr ms" "e \<in> set ms"
  shows "e \<in> set events" "map_of (sent s) (fst e) = Some (snd e)" "fst e \<notin> fst ` set (history_rows r)"
proof -
  obtain seen m where ms: "remote_index r = Inr seen" "missing_rows s seen m events = Inr ms"
    using assms(1) by (auto simp: missing_reserved_def and_then_eq_Inr split: if_splits)
  note sub = missing_rows_sub [OF ms(2) assms(2)]
  from sub show "e \<in> set events" "map_of (sent s) (fst e) = Some (snd e)" by simp_all
  have "fst ` set (history_rows r) \<subseteq> fst ` set seen"
    using ms(1) index_rows_keys [of "[]" "history_rows r" seen] by (auto simp: remote_index_def split: if_splits)
  with sub show "fst e \<notin> fst ` set (history_rows r)" by (auto simp: map_of_eq_None_iff)
qed

text \<open>A repair sends reserved rows, so they stay covered, and rows that are absent from its evidence.\<close>

lemma resent:
  fixes k :: nat
  assumes ms: "missing_reserved s r events expected = Inr ms" and rows: "set events \<subseteq> set rows"
    and out: "in_order out" "absent_only out" "covered (map fst out) c (sent s)" "set (map fst out) \<subseteq> set rows"
  defines "new \<equiv> map (\<lambda>e. (e, Some (history_rows r))) (take k ms)"
  shows "in_order (out @ new)" "absent_only (out @ new)" "covered (map fst (out @ new)) c (sent s)"
    "set (map fst (out @ new)) \<subseteq> set rows"
proof -
  have e: "e \<in> set events" "map_of (sent s) (fst e) = Some (snd e)" "fst e \<notin> fst ` set (history_rows r)"
    if "(e, x) \<in> set new" for e x
    using that missing_reserved_sub [OF ms, of e] by (auto simp: new_def dest!: in_set_takeD)
  have "(e, None) \<notin> set new" for e by (auto simp: new_def)
  moreover have "sorted_wrt (\<lambda>x y. snd y = None \<longrightarrow> fst (fst x) < fst (fst y)) new"
    by (auto simp: new_def sorted_wrt_iff_nth_less)
  ultimately show "in_order (out @ new)" using out(1) by (auto simp: in_order_def sorted_wrt_append)
  show "absent_only (out @ new)"
    using out(2) missing_reserved_sub(3) [OF ms] by (simp add: new_def) (blast dest: in_set_takeD)
  show "covered (map fst (out @ new)) c (sent s)" using out(3) e(2) by (fastforce simp: covered_def)
  show "set (map fst (out @ new)) \<subseteq> set rows" using out(4) e(1) rows by force
qed

lemma advance_inv:
  assumes "pub_inv w" "visit w = Some v" "confirmed (plan_state (visit_plan v)) = c"
  shows "pub_inv (w\<lparr>cursor := c, visit := Some (v\<lparr>visit_stage := Advanced\<rparr>)\<rparr>)"
proof -
  have v: "cursor w \<le> c" "c \<le> int (length (pub_rows w))" "delivered (pub_rows w) c (remote w)"
    using assms by (auto simp: pub_inv_def visit_inv_def Let_def)
  moreover have "reserved_ok (pub_rows w) c (sent (saved w))" "covered (handed w) c (sent (saved w))"
    using assms(1) v(1) reserved_ok_cursor covered_cursor unfolding pub_inv_def by blast+
  ultimately show ?thesis
    using assms by (auto simp: pub_inv_def visit_inv_def Let_def)
qed

lemma repaired_inv:
  assumes inv: "pub_inv w" and m: "mend w = Some m" and honest: "set (history_rows ev) \<subseteq> set (remote w)"
    and a: "confirmation_plan M (scope_state wandb w) route (journal_part w (mend_through m))
      (repair_proof route wandb (mend_through m) ev) None = Inr a"
  shows "pub_inv (w\<lparr>cursor := max (cursor w) (adv_confirmed a), mend := Some (m\<lparr>mend_proved := True\<rparr>)\<rparr>)"
proof -
  let ?t = "mend_through m" and ?p = "repair_proof route wandb (mend_through m) ev"
  have t: "proof_through ?p = ?t" by (simp add: repair_proof_def)
  have w: "numbered (pub_rows w)" "0 \<le> cursor w" "visit w = None" using inv m by (auto simp: pub_inv_def)
  note p = confirmation_plan_covers [of M wandb w route ?p a, unfolded t, OF a w(1,2)]
  have "adv_confirmed a = ?t" using confirmation_plan_Inr [OF a] t by simp
  then have d: "max (cursor w) (adv_confirmed a) = ?t" using p(1) by simp
  have "(n, i) \<in> set (remote w)" if "(n, i) \<in> set (pub_rows w)" "n \<le> ?t" for n i
  proof (cases "n \<le> cursor w")
    case True
    with inv that(1) show ?thesis by (auto simp: pub_inv_def delivered_def)
  next
    case False
    then show ?thesis using p(3) [OF that(1) _ that(2)] honest by (auto simp: repair_proof_def)
  qed
  then have "delivered (pub_rows w) ?t (remote w)" by (auto simp: delivered_def)
  moreover have "reserved_ok (pub_rows w) ?t (sent (saved w))" "covered (handed w) ?t (sent (saved w))"
    using inv p(1) reserved_ok_cursor covered_cursor unfolding pub_inv_def by blast+
  ultimately show ?thesis unfolding d using inv p(1,2) w by (auto simp: pub_inv_def)
qed

lemma publisher_step_inv:
  assumes "publisher_step M route wandb w w'" and inv: "pub_inv w"
  shows "pub_inv w'"
  using assms(1)
proof cases
  case (append i)
  have "visit_inv w' v" if "visit w = Some v" for v
    using inv that append reserved_ok_mono delivered_snoc sendable_snoc
    by (auto simp: pub_inv_def visit_inv_def Let_def)
  with inv append show ?thesis
    using numbered_snoc reserved_ok_mono delivered_snoc
    by (auto simp: pub_inv_def)
next
  case (gains r)
  have "visit_inv w' v" if "visit w = Some v" for v
    using inv that gains delivered_gains by (simp add: pub_inv_def visit_inv_def Let_def)
  with inv gains show ?thesis using delivered_gains by (auto simp: pub_inv_def)
next
  case (plan ev k terminal p)
  note keep = plan_keeps [OF plan(6) _ plan(5)]
  from inv keep window_rows(2) [of w k]
  have "visit_inv w' \<lparr>visit_plan = p, visit_evidence = ev, visit_rows = window w k, visit_stage = Planned\<rparr>"
    by (simp add: plan(1) pub_inv_def visit_inv_def Let_def)
  with inv plan(3) show ?thesis by (simp add: plan(1) pub_inv_def visit_inv_def Let_def)
next
  case (advance v a)
  have "cursor w \<le> confirmed (plan_state (visit_plan v))"
    using inv advance(2) by (simp add: pub_inv_def visit_inv_def Let_def)
  moreover have "adv_confirmed a = confirmed (plan_state (visit_plan v))"
    using confirmation_plan_Inr [OF advance(5)] by (simp add: visit_proof_def Let_def)
  ultimately show ?thesis using advance_inv [OF inv advance(2) refl] by (simp add: advance(1) max_def)
next
  case (unmoved v)
  have "cursor w = confirmed (plan_state (visit_plan v))"
    using inv unmoved(2,4) by (simp add: pub_inv_def visit_inv_def Let_def)
  then have "w\<lparr>cursor := confirmed (plan_state (visit_plan v))\<rparr> = w" by (cases w) simp
  then show ?thesis using advance_inv [OF inv unmoved(2) refl] unmoved(1) by metis
next
  case (finish v)
  with inv show ?thesis by (simp add: pub_inv_def visit_inv_def Let_def)
next
  case (reserve v)
  with inv show ?thesis by (simp add: pub_inv_def visit_inv_def Let_def)
next
  case (send v k)
  have v: "sendable (pub_rows w) (map fst (sends w)) (sent (saved w)) (emitted_rows (plan_actions (visit_plan v)))"
    using inv send(2,3) by (auto simp: pub_inv_def visit_inv_def Let_def handed_def)
  with inv sendable_sent [OF v, of "cursor w" k] show ?thesis
    by (simp add: send(1) pub_inv_def handed_def comp_def)
next
  case (resend v st ms k)
  have v: "visit_inv w v" using inv resend(2) by (simp add: pub_inv_def)
  have st: "sent st = sent (plan_state (visit_plan v))"
    and ms: "missing_reserved st (visit_evidence v) (visit_rows v) (map_of (pub_rows w) (confirmed st)) = Inr ms"
    using resend(6) by (auto simp: await_reservations_def and_then_eq_Inr Let_def)
  have "in_order (sends w)" "absent_only (sends w)" "set (map fst (sends w)) \<subseteq> set (pub_rows w)"
      "covered (map fst (sends w)) (cursor w) (sent st)" "set (visit_rows v) \<subseteq> set (pub_rows w)"
    using inv v resend(3) by (auto simp: pub_inv_def visit_inv_def Let_def handed_def st)
  note sent = resent [OF ms this(5,1,2,4,3), of k]
  have "reserved_ok (pub_rows w) (cursor w) (sent st)"
    using v resend(3) by (simp add: visit_inv_def Let_def st)
  with sent inv show ?thesis by (simp add: resend(1) pub_inv_def)
next
  case (repair ev k ms m j)
  have ms: "missing_reserved (saved w) ev (window w k) (map_of (pub_rows w) (cursor w)) = Inr ms" and m: "\<not> mend_proved m"
    using repair(5) by (auto simp: operator_repair_def and_then_eq_Inr Let_def)
  have "in_order (sends w)" "absent_only (sends w)" "set (map fst (sends w)) \<subseteq> set (pub_rows w)"
      "covered (map fst (sends w)) (cursor w) (sent (saved w))" "set (window w k) \<subseteq> set (pub_rows w)"
    using inv window_rows(2) [of w k] by (auto simp: pub_inv_def handed_def)
  note sent = resent [OF ms this(5,1,2,4,3), of j]
  with inv repair(2) m show ?thesis by (simp add: repair(1) pub_inv_def)
next
  case (repaired m ev a)
  with repaired_inv [OF inv repaired(2,4,6)] show ?thesis by simp
next
  case (settle m)
  have "mend_through m = cursor w" using inv settle(2,3) by (auto simp: pub_inv_def)
  with inv settle settled_reservations show ?thesis by (auto simp: pub_inv_def)
next
  case stop
  with inv show ?thesis by (simp add: pub_inv_def)
qed

lemma publisher_run_inv: "publisher_run M route wandb w v \<Longrightarrow> pub_inv w \<Longrightarrow> pub_inv v"
  by (induction rule: publisher_run.induct) (auto intro: publisher_step_inv)

lemma unpublished_inv: "pub_inv unpublished"
  by (simp add: pub_inv_def unpublished_def numbered_def reserved_ok_def covered_def delivered_def handed_def
      in_order_def absent_only_def)

text \<open>C4. Publishing neither repeats nor reorders a row, and the cursor never runs ahead of the service. Over
  every sequence of visits, automatic repairs and operator's repairs, with whatever evidence the
  service shows of rows it holds, every window, and every interruption between planning, advancing
  the cursor, saving the reservations and sending: only rows of the journal are handed to the SDK;
  a row that publishing sends has a higher sequence than every row sent before it, by publishing or
  by a repair, so publishing sends no row twice and none that a repair already sent; a repair sends
  no row that the evidence it rests on shows; and every row up to the cursor, which visits and
  operator's repairs advance, is held by the service under exactly its event identity.\<close>

theorem publishing_sends_rows_once:
  assumes "publisher_run M route wandb unpublished w"
  shows "set (map fst (sends w)) \<subseteq> set (pub_rows w) \<and>
    (\<forall>before r after. sends w = before @ (r, None) # after \<longrightarrow> (\<forall>(q, _) \<in> set before. fst q < fst r)) \<and>
    (\<forall>(r, shown) \<in> set (sends w). \<forall>rows. shown = Some rows \<longrightarrow> fst r \<notin> fst ` set rows) \<and>
    (\<forall>(n, i) \<in> set (pub_rows w). n \<le> cursor w \<longrightarrow> (n, i) \<in> set (remote w))"
proof -
  note inv = publisher_run_inv [OF assms unpublished_inv]
  then have "in_order (sends w)" by (simp add: pub_inv_def)
  then have "\<forall>before r after. sends w = before @ (r, None) # after \<longrightarrow> (\<forall>(q, _) \<in> set before. fst q < fst r)"
    by (fastforce simp: in_order_def sorted_wrt_append)
  with inv show ?thesis by (simp add: pub_inv_def delivered_def handed_def absent_only_def)
qed

section \<open>A run\<close>

definition sample_route :: json where "sample_route = JObj [(''enabled'', JBool True)]"

definition sample_evidence :: "row list \<Rightarrow> int option \<Rightarrow> remote_evidence" where
  "sample_evidence rows step =
     \<lparr>history_rows = rows, last_history_step = step, seen_display_version = None, seen_display_through = None\<rparr>"

definition two_rows :: pub_world where
  "two_rows = unpublished\<lparr>pub_rows := [(1, ''a''), (2, ''b'')]\<rparr>"

definition first_plan :: publication_plan where
  "first_plan =
     (case plan_publication (load_state two_rows) (sample_evidence [] None) (window two_rows 2)
        (map_of (pub_rows two_rows) 0) False DISPLAY_VERSION of Inr p \<Rightarrow> p | Inl _ \<Rightarrow> undefined)"

definition both_sent :: pub_world where
  "both_sent = two_rows\<lparr>saved := (plan_state first_plan)\<lparr>pub_finished := False\<rparr>,
     sends := [((1, ''a''), None), ((2, ''b''), None)]\<rparr>"

text \<open>The first row never arrives; an operator's repair sends it again.\<close>

definition one_lost :: pub_world where "one_lost = both_sent\<lparr>remote := [(2, ''b'')]\<rparr>"

definition sample_repair :: "bool \<Rightarrow> pub_repair" where
  "sample_repair proved =
     \<lparr>mend_rows = [(1, ''a''), (2, ''b'')], mend_expected = None, mend_through = 2, mend_proved = proved\<rparr>"

definition sent_again :: pub_world where
  "sent_again = one_lost\<lparr>sends := sends both_sent @ [((1, ''a''), Some [(2, ''b'')])], mend := Some (sample_repair False)\<rparr>"

definition both_held :: pub_world where "both_held = sent_again\<lparr>remote := [(1, ''a''), (2, ''b'')]\<rparr>"

definition mended :: pub_world where
  "mended = both_held\<lparr>cursor := 2, saved := (saved both_sent)\<lparr>confirmed := 2, sent := []\<rparr>, mend := None\<rparr>"

lemma first_plan_eq:
  "plan_publication (load_state two_rows) (sample_evidence [] None) (window two_rows 2)
     (map_of (pub_rows two_rows) 0) False DISPLAY_VERSION = Inr first_plan"
  "visit_goes_on (load_state two_rows) (plan_status first_plan)"
  "emitted_rows (plan_actions first_plan) = [(1, ''a''), (2, ''b'')]"
  "confirmed (plan_state first_plan) = 0"
proof -
  have "case plan_publication (load_state two_rows) (sample_evidence [] None) (window two_rows 2)
     (map_of (pub_rows two_rows) 0) False DISPLAY_VERSION of
       Inr p \<Rightarrow> visit_goes_on (load_state two_rows) (plan_status p) \<and>
         emitted_rows (plan_actions p) = [(1, ''a''), (2, ''b'')] \<and> confirmed (plan_state p) = 0
     | Inl _ \<Rightarrow> False" by code_simp
  then show "plan_publication (load_state two_rows) (sample_evidence [] None) (window two_rows 2)
     (map_of (pub_rows two_rows) 0) False DISPLAY_VERSION = Inr first_plan"
    "visit_goes_on (load_state two_rows) (plan_status first_plan)"
    "emitted_rows (plan_actions first_plan) = [(1, ''a''), (2, ''b'')]"
    "confirmed (plan_state first_plan) = 0"
    by (auto simp: first_plan_def split: sum.splits)
qed

abbreviation sample_publishes :: "pub_world \<Rightarrow> bool" where
  "sample_publishes \<equiv> publisher_run sample_ops sample_route ''w'' unpublished"

lemma sample_both_sent: "sample_publishes both_sent"
proof -
  let ?v = "\<lparr>visit_plan = first_plan, visit_evidence = sample_evidence [] None, visit_rows = window two_rows 2, visit_stage = Planned\<rparr>"
  let ?saved = "(plan_state first_plan)\<lparr>pub_finished := False\<rparr>"
  have "sample_publishes (unpublished\<lparr>pub_rows := [(1, ''a'')]\<rparr>)"
    using publisher_run.more [OF publisher_run.here publisher_step.append, of sample_ops sample_route "''w''" unpublished "''a''"]
    by (simp add: unpublished_def)
  from publisher_run.more [OF this publisher_step.append, of "''b''"] have "sample_publishes two_rows"
    by (simp add: two_rows_def)
  moreover have "publisher_step sample_ops sample_route ''w'' two_rows (two_rows\<lparr>visit := Some ?v\<rparr>)"
    by (rule publisher_step.plan [OF _ _ _ _ _ first_plan_eq(2)])
      (use first_plan_eq(1) in \<open>simp_all add: two_rows_def unpublished_def sample_evidence_def\<close>)
  ultimately have "sample_publishes (two_rows\<lparr>visit := Some ?v\<rparr>)" by (rule publisher_run.more)
  from publisher_run.more [OF this publisher_step.unmoved [where v = ?v]]
  have "sample_publishes (two_rows\<lparr>visit := Some (?v\<lparr>visit_stage := Advanced\<rparr>)\<rparr>)"
    by (simp add: two_rows_def unpublished_def first_plan_eq display_acknowledged_def sample_evidence_def)
  from publisher_run.more [OF this publisher_step.reserve [where v = "?v\<lparr>visit_stage := Advanced\<rparr>"]]
  have "sample_publishes (two_rows\<lparr>saved := ?saved, visit := Some (?v\<lparr>visit_stage := Reserved\<rparr>)\<rparr>)"
    by (simp add: two_rows_def unpublished_def)
  from publisher_run.more [OF this publisher_step.send [where v = "?v\<lparr>visit_stage := Reserved\<rparr>" and k = 2]]
  show ?thesis by (simp add: both_sent_def two_rows_def unpublished_def first_plan_eq)
qed

lemma repair_eq:
  "operator_repair one_lost (sample_evidence [(2, ''b'')] (Some 1)) (window one_lost 2) =
     Inr ([(1, ''a'')], sample_repair False)"
  "missing_reserved (saved both_held) (sample_evidence [(1, ''a''), (2, ''b'')] (Some 1)) [(1, ''a''), (2, ''b'')] None = Inr []"
  "confirmation_plan sample_ops (scope_state ''w'' both_held) sample_route (journal_part both_held 2)
     (repair_proof sample_route ''w'' 2 (sample_evidence [(1, ''a''), (2, ''b'')] (Some 1))) None =
     Inr \<lparr>adv_confirmed = 2, adv_display_version = None\<rparr>"
  "filter (\<lambda>(n, _). n > 2) (sent (saved both_sent)) = []"
  by code_simp+

lemma sample_mended: "sample_publishes mended"
proof -
  have "sample_publishes one_lost"
    using publisher_run.more [OF sample_both_sent publisher_step.gains, of "(2, ''b'')"]
    by (simp add: one_lost_def both_sent_def two_rows_def unpublished_def)
  moreover have "publisher_step sample_ops sample_route ''w'' one_lost sent_again"
    using publisher_step.repair [of one_lost "sample_evidence [(2, ''b'')] (Some 1)" 2 "[(1, ''a'')]" "sample_repair False"
        sample_ops sample_route "''w''" 1] repair_eq(1)
    by (simp add: sent_again_def one_lost_def both_sent_def two_rows_def unpublished_def sample_evidence_def sample_repair_def)
  ultimately have "sample_publishes sent_again" by (rule publisher_run.more)
  from publisher_run.more [OF this publisher_step.gains, of "(1, ''a'')"] have "sample_publishes both_held"
    by (simp add: both_held_def sent_again_def one_lost_def)
  moreover have "publisher_step sample_ops sample_route ''w'' both_held
      (both_held\<lparr>cursor := 2, mend := Some (sample_repair True)\<rparr>)"
    using publisher_step.repaired [of both_held "sample_repair False" "sample_evidence [(1, ''a''), (2, ''b'')] (Some 1)"
        sample_ops "''w''" sample_route] repair_eq(2,3)
    by (simp add: both_held_def sent_again_def one_lost_def both_sent_def two_rows_def unpublished_def
        sample_evidence_def sample_repair_def)
  ultimately have "sample_publishes (both_held\<lparr>cursor := 2, mend := Some (sample_repair True)\<rparr>)"
    by (rule publisher_run.more)
  from publisher_run.more [OF this publisher_step.settle [where m = "sample_repair True"]]
  show ?thesis
    using repair_eq(4) by (simp add: mended_def both_held_def sent_again_def one_lost_def sample_repair_def)
qed

theorem publishing_sends_rows_once_witness:
  "sample_publishes mended \<and> cursor mended = 2 \<and>
   sends mended = [((1, ''a''), None), ((2, ''b''), None), ((1, ''a''), Some [(2, ''b'')])] \<and>
   {(1, ''a''), (2, ''b'')} \<subseteq> set (remote mended)"
proof -
  have "set (pub_rows mended) = {(1, ''a''), (2, ''b'')}" "cursor mended = 2"
    "sends mended = [((1, ''a''), None), ((2, ''b''), None), ((1, ''a''), Some [(2, ''b'')])]"
    by (simp_all add: mended_def both_held_def sent_again_def one_lost_def both_sent_def two_rows_def)
  with sample_mended publishing_sends_rows_once [OF sample_mended] show ?thesis by auto
qed
end
