(* ===== verification/Projects.thy ===== *)
theory Projects
  imports Identity Json
begin

text \<open>
  The project registry of a workspace (\<open>rust/crates/core/src/projects.rs\<close> and
  \<open>projects/definition.rs\<close>): lifecycle records, the evidence a shell gives about manifest paths, and
  the reducers that register, move and remove projects. A change is a new payload with one event; the
  payload is what is stored (\<open>Durable\<close>) and loaded again.
\<close>

section \<open>Records\<close>

datatype lifecycle_state = Active | Paused | Archived
datatype registration_source = ConfigSeed | Onboarding | Manual

datatype project_error =
    BadSchema | BadProjects | BadRecord | DuplicateProject | BadPath | BadPathEvidence | DuplicateManifest
  | ManifestIdentityConflict | ProjectPathConflict | IsArchived | UnknownProject | BadTransition | UnknownAction
  | ReasonRequired | BadDefinition

record lifecycle_record =
  lr_project :: string
  lr_file :: string
  lr_state :: lifecycle_state
  lr_source :: registration_source
  lr_registered :: string
  lr_updated :: string
  lr_reason :: string

fun state_name :: "lifecycle_state \<Rightarrow> string" where
  "state_name Active = ''ACTIVE''"
| "state_name Paused = ''PAUSED''"
| "state_name Archived = ''ARCHIVED''"

fun source_name :: "registration_source \<Rightarrow> string" where
  "source_name ConfigSeed = ''CONFIG_SEED''"
| "source_name Onboarding = ''ONBOARDING''"
| "source_name Manual = ''MANUAL''"

text \<open>A unit variant as \<open>serde_json\<close> reads it: its name, or an object of its name and null.\<close>

definition variant_name :: "json \<Rightarrow> string option" where
  "variant_name v = (case v of JStr s \<Rightarrow> Some s | JObj [(k, JNull)] \<Rightarrow> Some k | _ \<Rightarrow> None)"

definition read_state :: "json \<Rightarrow> lifecycle_state option" where
  "read_state v = find (\<lambda>s. variant_name v = Some (state_name s)) [Active, Paused, Archived]"

definition read_source :: "json \<Rightarrow> registration_source option" where
  "read_source v = find (\<lambda>s. variant_name v = Some (source_name s)) [ConfigSeed, Onboarding, Manual]"

text \<open>The field of a struct as the derived readers find it: by name, or by place in an array of all fields.\<close>

definition struct_get :: "string list \<Rightarrow> json \<Rightarrow> string \<Rightarrow> json option" where
  "struct_get names v k =
     (case v of
        JObj m \<Rightarrow> obj_get m k
      | JArr xs \<Rightarrow> if length xs = length names then map_of (zip names xs) k else None
      | _ \<Rightarrow> None)"

definition record_fields :: "string list" where
  "record_fields = [''project'', ''project_file'', ''state'', ''source'', ''registered_at'', ''updated_at'', ''state_reason'']"

text \<open>The derived reader asks for every field and ignores others.\<close>

definition record_text_field :: "json \<Rightarrow> string \<Rightarrow> string option" where
  "record_text_field v k = Option.bind (struct_get record_fields v k) as_str"

definition record_of_value :: "json \<Rightarrow> project_error + lifecycle_record" where
  "record_of_value v =
     and_then (ok_or (record_text_field v ''project'') BadRecord) (\<lambda>p.
     and_then (ok_or (record_text_field v ''project_file'') BadRecord) (\<lambda>f.
     and_then (ok_or (Option.bind (struct_get record_fields v ''state'') read_state) BadRecord) (\<lambda>st.
     and_then (ok_or (Option.bind (struct_get record_fields v ''source'') read_source) BadRecord) (\<lambda>src.
     and_then (ok_or (record_text_field v ''registered_at'') BadRecord) (\<lambda>ra.
     and_then (ok_or (record_text_field v ''updated_at'') BadRecord) (\<lambda>ua.
     and_then (ok_or (record_text_field v ''state_reason'') BadRecord) (\<lambda>sr.
     and_then (map_err (\<lambda>_. BadRecord) (validate_id p)) (\<lambda>_.
       Inr \<lparr>lr_project = p, lr_file = f, lr_state = st, lr_source = src, lr_registered = ra, lr_updated = ua,
            lr_reason = sr\<rparr>))))))))"

definition record_value :: "lifecycle_record \<Rightarrow> json" where
  "record_value r = JObj
     [(''project'', JStr (lr_project r)), (''project_file'', JStr (lr_file r)),
      (''state'', JStr (state_name (lr_state r))), (''source'', JStr (source_name (lr_source r))),
      (''registered_at'', JStr (lr_registered r)), (''updated_at'', JStr (lr_updated r)),
      (''state_reason'', JStr (lr_reason r))]"

section \<open>Path evidence\<close>

record path_evidence =
  provided :: string
  expanded_absolute :: string
  canonical_absolute :: string

definition is_canonical :: "string \<Rightarrow> bool" where
  "is_canonical s \<longleftrightarrow> s = ''/'' \<or>
     (starts_with ''/'' s \<and> NUL \<notin> set s \<and>
        list_all (\<lambda>p. p \<noteq> [] \<and> p \<noteq> ''.'' \<and> p \<noteq> ''..'') (split_on CHR ''/'' (tl s)))"

definition validate_evidence :: "path_evidence \<Rightarrow> project_error + unit" where
  "validate_evidence e =
     (if NUL \<in> set (provided e) \<or> \<not> starts_with ''/'' (expanded_absolute e) \<or> NUL \<in> set (expanded_absolute e) \<or>
         \<not> (starts_with ''/'' (provided e) \<or> starts_with ''~'' (provided e)) \<or>
         \<not> is_canonical (canonical_absolute e)
      then Inl BadPath else Inr ())"

section \<open>The registry\<close>

fun records_from :: "string list \<Rightarrow> json list \<Rightarrow> project_error + lifecycle_record list" where
  "records_from seen [] = Inr []"
| "records_from seen (v # vs) =
     and_then (record_of_value v) (\<lambda>r.
       if lr_project r \<in> set seen then Inl DuplicateProject
       else and_then (records_from (lr_project r # seen) vs) (\<lambda>rs. Inr (r # rs)))"

definition record_values :: "json \<Rightarrow> project_error + lifecycle_record list" where
  "record_values payload =
     and_then (ok_or (as_object payload) BadSchema) (\<lambda>m.
     if (case obj_get m ''schema_version'' of Some v \<Rightarrow> as_u64 v \<noteq> Some 1 | None \<Rightarrow> False) then Inl BadSchema
     else case obj_get m ''projects'' of
       None \<Rightarrow> Inr []
     | Some (JArr vs) \<Rightarrow> records_from [] vs
     | _ \<Rightarrow> Inl BadProjects)"

record registry =
  reg_payload :: json
  reg_records :: "lifecycle_record list"
  reg_paths :: "string list"

definition empty_registry :: registry where
  "empty_registry =
     \<lparr>reg_payload = JObj [(''schema_version'', jnat 1), (''projects'', JArr [])], reg_records = [], reg_paths = []\<rparr>"

definition required_paths :: "json \<Rightarrow> project_error + string list" where
  "required_paths payload = and_then (record_values payload) (\<lambda>rs. Inr (map lr_file rs))"

fun index_evidence ::
    "(string \<times> path_evidence) list \<Rightarrow> path_evidence list \<Rightarrow> project_error + (string \<times> path_evidence) list" where
  "index_evidence m [] = Inr m"
| "index_evidence m (e # es) =
     and_then (validate_evidence e) (\<lambda>_.
       case map_of m (provided e) of
         Some old \<Rightarrow> if old \<noteq> e then Inl BadPathEvidence else index_evidence m es
       | None \<Rightarrow> index_evidence ((provided e, e) # m) es)"

fun canonical_of ::
    "(string \<times> path_evidence) list \<Rightarrow> string list \<Rightarrow> lifecycle_record list \<Rightarrow> project_error + string list" where
  "canonical_of m seen [] = Inr []"
| "canonical_of m seen (r # rs) =
     (case map_of m (lr_file r) of
        None \<Rightarrow> Inl BadPathEvidence
      | Some e \<Rightarrow>
          if canonical_absolute e \<in> set seen then Inl DuplicateManifest
          else and_then (canonical_of m (canonical_absolute e # seen) rs) (\<lambda>cs. Inr (canonical_absolute e # cs)))"

definition registry_of_value :: "json \<Rightarrow> path_evidence list \<Rightarrow> project_error + registry" where
  "registry_of_value payload paths =
     and_then (record_values payload) (\<lambda>rs.
     and_then (index_evidence [] paths) (\<lambda>m.
     and_then (canonical_of m [] rs) (\<lambda>cs.
       Inr \<lparr>reg_payload = payload, reg_records = rs, reg_paths = cs\<rparr>)))"

section \<open>Changes\<close>

record reg_commit =
  new_payload :: json
  new_event :: json

record 'a reg_change =
  reg_result :: 'a
  reg_commit :: "reg_commit option"

definition unchanged :: "'a \<Rightarrow> 'a reg_change" where
  "unchanged x = \<lparr>reg_result = x, reg_commit = None\<rparr>"

definition changed ::
    "registry \<Rightarrow> lifecycle_record list \<Rightarrow> 'a \<Rightarrow> string \<Rightarrow> string \<Rightarrow> string \<Rightarrow> json \<Rightarrow> 'a reg_change" where
  "changed g rs x event project at detail =
     \<lparr>reg_result = x, reg_commit = Some
       \<lparr>new_payload = JObj (obj_insert ''projects'' (JArr (map record_value rs))
          (case reg_payload g of JObj m \<Rightarrow> m | _ \<Rightarrow> [])),
        new_event = JObj [(''event'', JStr event), (''project'', JStr project), (''at'', JStr at), (''detail'', detail)]\<rparr>\<rparr>"

fun position :: "('a \<Rightarrow> bool) \<Rightarrow> 'a list \<Rightarrow> nat option" where
  "position P [] = None"
| "position P (x # xs) = (if P x then Some 0 else map_option Suc (position P xs))"

definition moved :: "lifecycle_record \<Rightarrow> lifecycle_state \<Rightarrow> string \<Rightarrow> string \<Rightarrow> lifecycle_record" where
  "moved r st now reason = r\<lparr>lr_state := st, lr_updated := now, lr_reason := reason\<rparr>"

definition register_project ::
    "registry \<Rightarrow> string \<Rightarrow> path_evidence \<Rightarrow> registration_source \<Rightarrow> string \<Rightarrow> project_error + lifecycle_record reg_change" where
  "register_project g project e src now =
     and_then (map_err (\<lambda>_. BadRecord) (validate_id project)) (\<lambda>_.
     and_then (validate_evidence e) (\<lambda>_.
     if list_ex (\<lambda>(r, c). c = canonical_absolute e \<and> lr_project r \<noteq> project) (zip (reg_records g) (reg_paths g))
     then Inl ManifestIdentityConflict
     else case position (\<lambda>r. lr_project r = project) (reg_records g) of
       Some k \<Rightarrow>
         let r = reg_records g ! k in
         if reg_paths g ! k \<noteq> canonical_absolute e then Inl ProjectPathConflict
         else if lr_state r = Archived then Inl IsArchived
         else if lr_state r = Active then Inr (unchanged r)
         else let r' = moved r Active now ''registered'' in
           Inr (changed g ((reg_records g)[k := r']) r' ''REGISTER'' project now (record_value r'))
     | None \<Rightarrow>
         let r = \<lparr>lr_project = project, lr_file = canonical_absolute e, lr_state = Active, lr_source = src,
                  lr_registered = now, lr_updated = now, lr_reason = ''registered''\<rparr> in
         Inr (changed g (reg_records g @ [r]) r ''REGISTER'' project now (record_value r))))"

fun allowed_move :: "lifecycle_state \<Rightarrow> lifecycle_state \<Rightarrow> bool" where
  "allowed_move Active t \<longleftrightarrow> t \<in> {Paused, Archived}"
| "allowed_move Paused t \<longleftrightarrow> t \<in> {Active, Archived}"
| "allowed_move Archived t \<longleftrightarrow> t = Paused"

definition project_transition ::
    "registry \<Rightarrow> string \<Rightarrow> lifecycle_state \<Rightarrow> string \<Rightarrow> string \<Rightarrow> project_error + lifecycle_record reg_change" where
  "project_transition g project target reason now =
     (case position (\<lambda>r. lr_project r = project) (reg_records g) of
        None \<Rightarrow> Inl UnknownProject
      | Some k \<Rightarrow>
          let r = reg_records g ! k in
          if lr_state r = target then Inr (unchanged r)
          else if \<not> allowed_move (lr_state r) target then Inl BadTransition
          else let r' = moved r target now reason in
            Inr (changed g ((reg_records g)[k := r']) r' (state_name target) project now
              (JObj [(''from'', JStr (state_name (lr_state r))), (''reason'', JStr reason)])))"

text \<open>A reason of spaces and separators only.\<close>

definition blank_reason :: "string \<Rightarrow> bool" where
  "blank_reason s \<longleftrightarrow>
     list_all (\<lambda>u. is_whitespace u \<or> u \<in> set [[CHR 0x1C], [CHR 0x1D], [CHR 0x1E], [CHR 0x1F]]) (utf8_chars s)"

definition project_action ::
    "registry \<Rightarrow> string \<Rightarrow> string \<Rightarrow> string \<Rightarrow> string \<Rightarrow> project_error + lifecycle_record reg_change" where
  "project_action g project name reason now =
     (case find (\<lambda>r. lr_project r = project) (reg_records g) of
        None \<Rightarrow> Inl UnknownProject
      | Some r \<Rightarrow>
          (case (if name = ''pause'' then Some ([Active], Paused)
                 else if name = ''resume'' then Some ([Paused], Active)
                 else if name = ''archive'' then Some ([Active, Paused], Archived)
                 else if name = ''restore'' then Some ([Archived], Paused)
                 else None) of
             None \<Rightarrow> Inl UnknownAction
           | Some (from_states, target) \<Rightarrow>
               if lr_state r \<notin> set from_states then Inl BadTransition
               else if target = Archived \<and> blank_reason reason then Inl ReasonRequired
               else project_transition g project target reason now))"

definition unregister ::
    "registry \<Rightarrow> string \<Rightarrow> string \<Rightarrow> string \<Rightarrow> project_error + lifecycle_record reg_change" where
  "unregister g project reason now =
     (case find (\<lambda>r. lr_project r = project) (reg_records g) of
        None \<Rightarrow> Inl UnknownProject
      | Some r \<Rightarrow>
          Inr (changed g (filter (\<lambda>q. lr_project q \<noteq> project) (reg_records g)) r ''UNREGISTER'' project now
            (JObj [(''from'', JStr (state_name (lr_state r))), (''project_file'', JStr (lr_file r)),
                   (''reason'', JStr reason)])))"

definition unregister_all ::
    "registry \<Rightarrow> string \<Rightarrow> string \<Rightarrow> project_error + lifecycle_record list reg_change" where
  "unregister_all g reason now =
     (if reg_records g = [] then Inr (unchanged [])
      else Inr (changed g [] (reg_records g) ''UNREGISTER'' [] now
        (JObj [(''reason'', JStr (if reason = [] then ''unregister_all'' else reason)),
           (''unregistered'', JArr (map (\<lambda>r. JObj [(''project'', JStr (lr_project r)),
              (''from'', JStr (state_name (lr_state r))), (''project_file'', JStr (lr_file r))]) (reg_records g)))])))"

fun seed_records ::
    "(string \<times> string) list \<Rightarrow> string list \<Rightarrow> string \<Rightarrow> (string \<times> path_evidence) list
     \<Rightarrow> project_error + lifecycle_record list" where
  "seed_records paths names now [] = Inr []"
| "seed_records paths names now ((project, e) # ss) =
     and_then (validate_evidence e) (\<lambda>_.
     and_then (map_err (\<lambda>_. BadRecord) (validate_id project)) (\<lambda>_.
       case map_of paths (canonical_absolute e) of
         Some previous \<Rightarrow>
           if previous \<noteq> project then Inl ManifestIdentityConflict
           else seed_records paths names now ss
       | None \<Rightarrow>
           if project \<in> set names then Inl DuplicateProject
           else and_then (seed_records ((canonical_absolute e, project) # paths) (project # names) now ss) (\<lambda>rs.
             Inr (\<lparr>lr_project = project, lr_file = canonical_absolute e, lr_state = Active, lr_source = ConfigSeed,
                   lr_registered = now, lr_updated = now, lr_reason = []\<rparr> # rs))))"

definition bootstrap ::
    "registry option \<Rightarrow> (string \<times> path_evidence) list \<Rightarrow> string \<Rightarrow> project_error + lifecycle_record list reg_change" where
  "bootstrap existing seeds now =
     (case existing of
        Some g \<Rightarrow> Inr (unchanged (reg_records g))
      | None \<Rightarrow>
          and_then (seed_records [] [] now seeds) (\<lambda>rs.
            Inr (changed empty_registry rs rs ''BOOTSTRAP'' [] now
              (JObj [(''imported'', JArr (map record_value rs))]))))"

text \<open>An authored project file: exactly its four fields.\<close>

record project_definition =
  pd_project :: string
  pd_title :: string
  pd_roots :: "string list"

definition definition_fields :: "string list" where
  "definition_fields = [''schema_version'', ''project'', ''title'', ''run_roots'']"

definition definition_of_value :: "json \<Rightarrow> project_error + project_definition" where
  "definition_of_value v =
     (let get = struct_get definition_fields v in
      and_then (require (case v of JObj m \<Rightarrow> set (obj_keys m) \<subseteq> set definition_fields | _ \<Rightarrow> True) BadDefinition) (\<lambda>_.
      and_then (ok_or (Option.bind (get ''schema_version'') as_u64) BadDefinition) (\<lambda>n.
      and_then (ok_or (Option.bind (get ''project'') as_str) BadDefinition) (\<lambda>p.
      and_then (ok_or (Option.bind (get ''title'') as_str) BadDefinition) (\<lambda>t.
      and_then (ok_or (Option.bind (get ''run_roots'') as_array) BadDefinition) (\<lambda>roots.
      and_then (require (list_all (\<lambda>w. as_str w \<noteq> None) roots) BadDefinition) (\<lambda>_.
      and_then (require (n = 1) BadDefinition) (\<lambda>_.
      and_then (map_err (\<lambda>_. BadDefinition) (validate_id p)) (\<lambda>_.
        Inr \<lparr>pd_project = p, pd_title = t, pd_roots = List.map_filter as_str roots\<rparr>)))))))))"

section \<open>Loading\<close>

text \<open>The shell's evidence for each required path: \<open>resolve\<close> is what the filesystem says of a path.\<close>

definition load_registry :: "(string \<Rightarrow> path_evidence option) \<Rightarrow> json \<Rightarrow> project_error + registry" where
  "load_registry resolve payload =
     and_then (required_paths payload) (\<lambda>ps. registry_of_value payload (List.map_filter resolve ps))"

lemma read_state_name [simp]: "read_state (JStr (state_name s)) = Some s"
  by (cases s) (simp_all add: read_state_def variant_name_def)

lemma read_source_name [simp]: "read_source (JStr (source_name s)) = Some s"
  by (cases s) (simp_all add: read_source_def variant_name_def)

lemma record_of_record_value:
  assumes "is_ok (validate_id (lr_project r))"
  shows "record_of_value (record_value r) = Inr r"
proof -
  have get: "struct_get record_fields (record_value r) k = obj_get
     [(''project'', JStr (lr_project r)), (''project_file'', JStr (lr_file r)),
      (''state'', JStr (state_name (lr_state r))), (''source'', JStr (source_name (lr_source r))),
      (''registered_at'', JStr (lr_registered r)), (''updated_at'', JStr (lr_updated r)),
      (''state_reason'', JStr (lr_reason r))] k" for k
    by (simp add: struct_get_def record_value_def)
  from assms obtain x where "validate_id (lr_project r) = Inr x" by (auto simp: is_ok_iff)
  then show ?thesis unfolding record_of_value_def record_text_field_def get by (simp add: ok_or_def)
qed

lemma record_of_value_id: "record_of_value v = Inr r \<Longrightarrow> is_ok (validate_id (lr_project r))"
  by (auto simp: record_of_value_def res_simps is_ok_iff)

lemma records_from_Inr:
  "records_from seen vs = Inr rs \<Longrightarrow>
   distinct (map lr_project rs) \<and> set (map lr_project rs) \<inter> set seen = {} \<and> (\<forall>r \<in> set rs. is_ok (validate_id (lr_project r)))"
  by (induction seen vs arbitrary: rs rule: records_from.induct)
    (fastforce simp: and_then_eq_Inr dest: record_of_value_id split: if_splits)+

lemma records_from_values:
  "distinct (map lr_project rs) \<Longrightarrow> set (map lr_project rs) \<inter> set seen = {} \<Longrightarrow>
   \<forall>r \<in> set rs. is_ok (validate_id (lr_project r)) \<Longrightarrow> records_from seen (map record_value rs) = Inr rs"
  by (induction rs arbitrary: seen) (auto simp: record_of_record_value)

lemma record_values_wf:
  assumes "record_values payload = Inr rs"
  shows "distinct (map lr_project rs) \<and> (\<forall>r \<in> set rs. is_ok (validate_id (lr_project r))) \<and> (\<exists>m. payload = JObj m)"
  using assms unfolding record_values_def
  by (auto simp: and_then_eq_Inr ok_or_eq_Inr split: if_splits option.splits json.splits dest: records_from_Inr)

lemma record_values_changed:
  assumes "record_values (JObj m) = Inr old" and "distinct (map lr_project rs)"
    and "\<forall>r \<in> set rs. is_ok (validate_id (lr_project r))"
  shows "record_values (JObj (obj_insert ''projects'' (JArr (map record_value rs)) m)) = Inr rs"
  using assms records_from_values [OF assms(2) _ assms(3), of "[]"]
  by (simp add: record_values_def split: if_splits)

definition faithful :: "(string \<Rightarrow> path_evidence option) \<Rightarrow> bool" where
  "faithful resolve \<longleftrightarrow> (\<forall>p e. resolve p = Some e \<longrightarrow> provided e = p)"

definition good_paths :: "(string \<Rightarrow> path_evidence option) \<Rightarrow> lifecycle_record list \<Rightarrow> string list \<Rightarrow> bool" where
  "good_paths resolve rs cs \<longleftrightarrow> distinct cs \<and>
     list_all2 (\<lambda>r c. \<exists>e. resolve (lr_file r) = Some e \<and> validate_evidence e = Inr () \<and> canonical_absolute e = c) rs cs"

lemma index_evidence_resolved:
  assumes "faithful resolve" and "\<forall>(p, e) \<in> set m. resolve p = Some e"
  shows "index_evidence m (List.map_filter resolve ps) =
    (if \<forall>p \<in> set ps. \<forall>e. resolve p = Some e \<longrightarrow> validate_evidence e = Inr () then
       Inr (fold (\<lambda>p m. case resolve p of Some e \<Rightarrow> if map_of m p = None then (p, e) # m else m | None \<Rightarrow> m) ps m)
     else Inl BadPath)"
  using assms(2)
proof (induction ps arbitrary: m)
  case (Cons p ps)
  show ?case
  proof (cases "resolve p")
    case None
    with Cons show ?thesis by (simp add: List.map_filter_simps)
  next
    case (Some e)
    then have p: "provided e = p" using assms(1) by (simp add: faithful_def)
    have old: "e' = e" if "map_of m p = Some e'" for e'
      using Cons.prems Some map_of_SomeD [OF that] by auto
    show ?thesis
    proof (cases "validate_evidence e = Inr ()")
      case True
      then show ?thesis
        using Cons.IH [of m] Cons.IH [of "(p, e) # m"] Cons.prems Some p old
        by (cases "map_of m p") (simp_all add: List.map_filter_simps)
    next
      case False
      then have "validate_evidence e = Inl BadPath" by (auto simp: validate_evidence_def split: if_splits)
      with Some False show ?thesis by (simp add: List.map_filter_simps)
    qed
  qed
qed (simp add: List.map_filter_simps)

lemma fold_resolved:
  "map_of (fold (\<lambda>p m. case resolve p of Some e \<Rightarrow> if map_of m p = None then (p, e) # m else m | None \<Rightarrow> m) ps m) q =
     (case map_of m q of Some e \<Rightarrow> Some e | None \<Rightarrow> if q \<in> set ps then resolve q else None)"
proof (induction ps arbitrary: m)
  case (Cons p ps)
  then show ?case by (cases "resolve p"; cases "map_of m p"; cases "map_of m q") (auto split: if_splits)
qed (simp split: option.split)

lemma canonical_of_Inr:
  "canonical_of m seen rs = Inr cs \<longleftrightarrow> distinct cs \<and> set cs \<inter> set seen = {} \<and>
     list_all2 (\<lambda>r c. \<exists>e. map_of m (lr_file r) = Some e \<and> canonical_absolute e = c) rs cs"
proof (induction m seen rs arbitrary: cs rule: canonical_of.induct)
  case (2 m seen r rs)
  show ?case
  proof (cases "map_of m (lr_file r)")
    case None
    then show ?thesis by (auto simp: list_all2_Cons1)
  next
    case (Some e)
    show ?thesis
    proof (cases "canonical_absolute e \<in> set seen")
      case True
      with Some show ?thesis by (auto simp: list_all2_Cons1)
    next
      case False
      with "2.IH" [OF Some False] Some show ?thesis
        by (auto simp: list_all2_Cons1 and_then_eq_Inr)
    qed
  qed
qed auto

lemma load_registry_Inr:
  assumes "faithful resolve"
  shows "load_registry resolve payload = Inr g \<longleftrightarrow>
    reg_payload g = payload \<and> record_values payload = Inr (reg_records g) \<and>
    good_paths resolve (reg_records g) (reg_paths g)"
proof (cases "record_values payload")
  case (Inl e)
  then show ?thesis by (simp add: load_registry_def required_paths_def)
next
  case (Inr rs)
  let ?ok = "\<forall>p \<in> set (map lr_file rs). \<forall>e. resolve p = Some e \<longrightarrow> validate_evidence e = Inr ()"
  let ?m = "fold (\<lambda>p m. case resolve p of Some e \<Rightarrow> if map_of m p = None then (p, e) # m else m | None \<Rightarrow> m) (map lr_file rs) []"
  have get: "map_of ?m (lr_file r) = resolve (lr_file r)" if "r \<in> set rs" for r
    using that by (simp only: fold_resolved) simp
  have all2: "list_all2 (\<lambda>r c. \<exists>e. map_of ?m (lr_file r) = Some e \<and> canonical_absolute e = c) rs cs \<longleftrightarrow>
      list_all2 (\<lambda>r c. \<exists>e. resolve (lr_file r) = Some e \<and> canonical_absolute e = c) rs cs" for cs
    using get by (auto simp: list_all2_conv_all_nth)
  have strong: "?ok \<and> list_all2 (\<lambda>r c. \<exists>e. resolve (lr_file r) = Some e \<and> canonical_absolute e = c) rs cs \<longleftrightarrow>
      list_all2 (\<lambda>r c. \<exists>e. resolve (lr_file r) = Some e \<and> validate_evidence e = Inr () \<and> canonical_absolute e = c) rs cs" for cs
  proof
    assume a: "?ok \<and> list_all2 (\<lambda>r c. \<exists>e. resolve (lr_file r) = Some e \<and> canonical_absolute e = c) rs cs"
    from a have "list_all2 (\<lambda>r c. \<exists>e. resolve (lr_file r) = Some e \<and> canonical_absolute e = c) rs cs" ..
    then show "list_all2 (\<lambda>r c. \<exists>e. resolve (lr_file r) = Some e \<and> validate_evidence e = Inr () \<and> canonical_absolute e = c) rs cs"
      by (rule list.rel_mono_strong) (use a in auto)
  next
    assume a: "list_all2 (\<lambda>r c. \<exists>e. resolve (lr_file r) = Some e \<and> validate_evidence e = Inr () \<and> canonical_absolute e = c) rs cs"
    have "validate_evidence e = Inr ()" if "r \<in> set rs" "resolve (lr_file r) = Some e" for r e
      using list_all2_conv_all_nth [THEN iffD1, OF a] that by (fastforce simp: in_set_conv_nth)
    moreover have "list_all2 (\<lambda>r c. \<exists>e. resolve (lr_file r) = Some e \<and> canonical_absolute e = c) rs cs"
      using a by (rule list_all2_mono) auto
    ultimately show "?ok \<and> list_all2 (\<lambda>r c. \<exists>e. resolve (lr_file r) = Some e \<and> canonical_absolute e = c) rs cs"
      by auto
  qed
  have "index_evidence [] (List.map_filter resolve (map lr_file rs)) = (if ?ok then Inr ?m else Inl BadPath)"
    using index_evidence_resolved [OF assms, of "[]" "map lr_file rs"] by simp
  then have "load_registry resolve payload = Inr g \<longleftrightarrow>
      ?ok \<and> (\<exists>cs. canonical_of ?m [] rs = Inr cs \<and> g = \<lparr>reg_payload = payload, reg_records = rs, reg_paths = cs\<rparr>)"
    unfolding load_registry_def required_paths_def registry_of_value_def Inr
    by (auto simp: and_then_eq_Inr)
  also have "\<dots> \<longleftrightarrow> reg_payload g = payload \<and> reg_records g = rs \<and> good_paths resolve rs (reg_paths g)"
    unfolding canonical_of_Inr all2 good_paths_def using strong by (cases g) auto
  finally show ?thesis using Inr by auto
qed

section \<open>The registry as a map\<close>

text \<open>What a registry says: each project's state and canonical manifest path.\<close>

definition lifecycle :: "registry \<Rightarrow> string \<rightharpoonup> lifecycle_state \<times> string" where
  "lifecycle g = map_of (map (\<lambda>(r, c). (lr_project r, (lr_state r, c))) (zip (reg_records g) (reg_paths g)))"

datatype registry_request =
    Register string path_evidence registration_source | Act string string string | Unregister string string
  | UnregisterAll string

definition stored :: "registry \<Rightarrow> 'a reg_change \<Rightarrow> json" where
  "stored g ch = (case reg_commit ch of Some c \<Rightarrow> new_payload c | None \<Rightarrow> reg_payload g)"

fun apply_request :: "registry \<Rightarrow> string \<Rightarrow> registry_request \<Rightarrow> project_error + json" where
  "apply_request g now (Register p e s) = and_then (register_project g p e s now) (\<lambda>ch. Inr (stored g ch))"
| "apply_request g now (Act p name reason) = and_then (project_action g p name reason now) (\<lambda>ch. Inr (stored g ch))"
| "apply_request g now (Unregister p reason) = and_then (unregister g p reason now) (\<lambda>ch. Inr (stored g ch))"
| "apply_request g now (UnregisterAll reason) = and_then (unregister_all g reason now) (\<lambda>ch. Inr (stored g ch))"

text \<open>The same requests on the map, with the states in which they are granted.\<close>

fun abstract_request ::
    "registry_request \<Rightarrow> (string \<rightharpoonup> lifecycle_state \<times> string) \<Rightarrow> (string \<rightharpoonup> lifecycle_state \<times> string) option" where
  "abstract_request (Register p e s) m =
     (if \<not> is_ok (validate_id p) \<or> \<not> is_ok (validate_evidence e) then None
      else case m p of
        None \<Rightarrow> if canonical_absolute e \<in> snd ` ran m then None else Some (m(p \<mapsto> (Active, canonical_absolute e)))
      | Some (st, c) \<Rightarrow>
          if c \<noteq> canonical_absolute e \<or> st = Archived then None else Some (m(p \<mapsto> (Active, c))))"
| "abstract_request (Act p name reason) m =
     (case m p of
        None \<Rightarrow> None
      | Some (st, c) \<Rightarrow>
          if name = ''pause'' \<and> st = Active \<or> name = ''restore'' \<and> st = Archived then Some (m(p \<mapsto> (Paused, c)))
          else if name = ''resume'' \<and> st = Paused then Some (m(p \<mapsto> (Active, c)))
          else if name = ''archive'' \<and> st \<noteq> Archived \<and> \<not> blank_reason reason then Some (m(p \<mapsto> (Archived, c)))
          else None)"
| "abstract_request (Unregister p reason) m = (if m p = None then None else Some (m(p := None)))"
| "abstract_request (UnregisterAll reason) m = Some Map.empty"

lemma position_Some:
  "position P xs = Some k \<longleftrightarrow> k < length xs \<and> P (xs ! k) \<and> (\<forall>j < k. \<not> P (xs ! j))"
proof (induction xs arbitrary: k)
  case (Cons x xs)
  show ?case
  proof (cases k)
    case 0
    then show ?thesis by auto
  next
    case (Suc k')
    then show ?thesis using Cons.IH [of k'] by (auto simp: less_Suc_eq_0_disj)
  qed
qed simp

lemma position_None: "position P xs = None \<longleftrightarrow> (\<forall>x \<in> set xs. \<not> P x)"
  by (induction xs) auto

definition registry_wf :: "(string \<Rightarrow> path_evidence option) \<Rightarrow> registry \<Rightarrow> bool" where
  "registry_wf resolve g \<longleftrightarrow>
     record_values (reg_payload g) = Inr (reg_records g) \<and> good_paths resolve (reg_records g) (reg_paths g)"

lemma registry_wf_simps:
  assumes "registry_wf resolve g"
  shows "length (reg_paths g) = length (reg_records g)" "distinct (map lr_project (reg_records g))"
    "\<forall>r \<in> set (reg_records g). is_ok (validate_id (lr_project r))" "distinct (reg_paths g)"
  using assms record_values_wf [of "reg_payload g" "reg_records g"]
  by (auto simp: registry_wf_def good_paths_def dest: list_all2_lengthD)

lemma lifecycle_keys:
  assumes "registry_wf resolve g"
  shows "map fst (map (\<lambda>(r, c). (lr_project r, (lr_state r, c))) (zip (reg_records g) (reg_paths g))) =
    map lr_project (reg_records g)"
proof -
  have "map fst (map (\<lambda>(r, c). (lr_project r, (lr_state r, c))) (zip (reg_records g) (reg_paths g))) =
      map lr_project (map fst (zip (reg_records g) (reg_paths g)))" by (simp add: case_prod_beta' comp_def)
  then show ?thesis using registry_wf_simps(1) [OF assms] by simp
qed

lemma lifecycle_nth:
  assumes "registry_wf resolve g" "k < length (reg_records g)"
  shows "lifecycle g (lr_project (reg_records g ! k)) = Some (lr_state (reg_records g ! k), reg_paths g ! k)"
proof -
  note wf = registry_wf_simps [OF assms(1)]
  have d: "distinct (map fst (map (\<lambda>(r, c). (lr_project r, (lr_state r, c))) (zip (reg_records g) (reg_paths g))))"
    unfolding lifecycle_keys [OF assms(1)] by (rule wf(2))
  have "(reg_records g ! k, reg_paths g ! k) \<in> set (zip (reg_records g) (reg_paths g))"
    using assms(2) wf(1) by (auto simp: set_zip)
  then show ?thesis unfolding lifecycle_def by (intro map_of_is_SomeI [OF d]) force
qed

lemma lifecycle_None:
  assumes "registry_wf resolve g"
  shows "lifecycle g p = None \<longleftrightarrow> p \<notin> set (map lr_project (reg_records g))"
  unfolding lifecycle_def map_of_eq_None_iff set_map [symmetric] lifecycle_keys [OF assms] by simp

lemma lifecycle_Some:
  assumes "registry_wf resolve g" "lifecycle g p = Some (st, c)"
  obtains k where "k < length (reg_records g)" "lr_project (reg_records g ! k) = p"
    "lr_state (reg_records g ! k) = st" "reg_paths g ! k = c"
proof -
  have "p \<in> set (map lr_project (reg_records g))" using lifecycle_None [OF assms(1), of p] assms(2) by auto
  then obtain k where "k < length (reg_records g)" "lr_project (reg_records g ! k) = p" by (auto simp: in_set_conv_nth)
  with lifecycle_nth [OF assms(1)] assms(2) that show ?thesis by fastforce
qed

lemma map_of_list_update:
  "distinct (map fst xs) \<Longrightarrow> k < length xs \<Longrightarrow> fst (xs ! k) = key \<Longrightarrow> map_of (xs[k := (key, v)]) = (map_of xs)(key \<mapsto> v)"
proof (induction xs arbitrary: k)
  case (Cons x xs)
  show ?case
  proof (cases k)
    case 0
    with Cons.prems show ?thesis by (cases x) auto
  next
    case (Suc k')
    then have "fst x \<noteq> key" using Cons.prems by (auto dest: nth_mem)
    then show ?thesis using Cons Suc by (cases x) (auto simp: fun_upd_twist)
  qed
qed simp

lemma map_of_drop_key: "map_of (filter (\<lambda>x. fst x \<noteq> key) xs) = (map_of xs)(key := None)"
  by (induction xs) auto

lemma lifecycle_updated:
  assumes "registry_wf resolve g" "k < length (reg_records g)" "lr_project r' = lr_project (reg_records g ! k)"
  shows "lifecycle \<lparr>reg_payload = payload, reg_records = (reg_records g)[k := r'], reg_paths = reg_paths g\<rparr> =
    (lifecycle g)(lr_project r' \<mapsto> (lr_state r', reg_paths g ! k))"
proof -
  note wf = registry_wf_simps [OF assms(1)]
  let ?f = "\<lambda>(r, c). (lr_project r, (lr_state r, c))"
  have "zip ((reg_records g)[k := r']) (reg_paths g) = (zip (reg_records g) (reg_paths g))[k := (r', reg_paths g ! k)]"
    using zip_update [of "reg_records g" k r' "reg_paths g" "reg_paths g ! k"] by simp
  then have "map ?f (zip ((reg_records g)[k := r']) (reg_paths g)) =
      (map ?f (zip (reg_records g) (reg_paths g)))[k := (lr_project r', lr_state r', reg_paths g ! k)]"
    by (simp add: map_update)
  moreover have "distinct (map fst (map ?f (zip (reg_records g) (reg_paths g))))"
    unfolding lifecycle_keys [OF assms(1)] by (rule wf(2))
  ultimately show ?thesis unfolding lifecycle_def
    using assms(2,3) wf(1) by (simp add: map_of_list_update)
qed

lemma good_paths_updated:
  assumes "good_paths resolve rs cs" "k < length rs" "lr_file r' = lr_file (rs ! k)"
  shows "good_paths resolve (rs[k := r']) cs"
  using assms unfolding good_paths_def list_all2_conv_all_nth by (auto simp: nth_list_update)

lemma reload:
  assumes "faithful resolve" "registry_wf resolve g"
    and "distinct (map lr_project rs)" "\<forall>r \<in> set rs. is_ok (validate_id (lr_project r))" "good_paths resolve rs cs"
  shows "\<exists>payload'. stored g (changed g rs x ev p at d) = payload' \<and>
    load_registry resolve payload' = Inr \<lparr>reg_payload = payload', reg_records = rs, reg_paths = cs\<rparr>"
proof -
  have r: "record_values (reg_payload g) = Inr (reg_records g)" using assms(2) by (simp add: registry_wf_def)
  then obtain m where m: "reg_payload g = JObj m" using record_values_wf by blast
  have "record_values (JObj (obj_insert ''projects'' (JArr (map record_value rs)) m)) = Inr rs"
    using record_values_changed r m assms(3,4) by simp
  then show ?thesis
    using assms(5) load_registry_Inr [OF assms(1)] by (simp add: stored_def changed_def m)
qed

lemma load_wf: "faithful resolve \<Longrightarrow> load_registry resolve payload = Inr g \<longleftrightarrow> registry_wf resolve g \<and> reg_payload g = payload"
  by (auto simp: load_registry_Inr registry_wf_def)

lemma stored_unchanged [simp]: "stored g (unchanged x) = reg_payload g"
  by (simp add: stored_def unchanged_def)

text \<open>The state of one project changes: the reload and its map.\<close>

lemma moved_reload:
  assumes "faithful resolve" "registry_wf resolve g" "k < length (reg_records g)" "lr_project (reg_records g ! k) = p"
  shows "\<exists>g'. load_registry resolve
      (stored g (changed g ((reg_records g)[k := moved (reg_records g ! k) st now reason]) x ev p at d)) = Inr g' \<and>
    lifecycle g' = (lifecycle g)(p \<mapsto> (st, reg_paths g ! k))"
proof -
  note wf = registry_wf_simps [OF assms(2)]
  let ?r = "moved (reg_records g ! k) st now reason"
  have r: "lr_project ?r = p" "lr_state ?r = st" "lr_file ?r = lr_file (reg_records g ! k)"
    using assms(4) by (simp_all add: moved_def)
  have names: "map lr_project ((reg_records g)[k := ?r]) = map lr_project (reg_records g)"
    using r(1) assms(3,4) by (simp add: map_update list_update_same_conv)
  have "good_paths resolve ((reg_records g)[k := ?r]) (reg_paths g)"
    using good_paths_updated assms(2,3) r(3) by (simp add: registry_wf_def)
  moreover have "\<forall>r \<in> set ((reg_records g)[k := ?r]). is_ok (validate_id (lr_project r))"
    using wf(3) r(1) nth_mem [OF assms(3)] assms(4) by (metis insertE set_update_subset_insert subsetD)
  ultimately obtain payload' where
      "stored g (changed g ((reg_records g)[k := ?r]) x ev p at d) = payload'"
      "load_registry resolve payload' = Inr \<lparr>reg_payload = payload', reg_records = (reg_records g)[k := ?r], reg_paths = reg_paths g\<rparr>"
    using reload [OF assms(1,2)] names wf(2) by metis
  then show ?thesis using lifecycle_updated [OF assms(2,3), of ?r] r assms(4) by auto
qed

lemma find_position: "find P xs = (case position P xs of Some k \<Rightarrow> Some (xs ! k) | None \<Rightarrow> None)"
  by (induction xs) (auto split: option.split)

lemma position_lifecycle:
  assumes "registry_wf resolve g"
  shows "position (\<lambda>r. lr_project r = p) (reg_records g) = None \<longleftrightarrow> lifecycle g p = None"
    and "position (\<lambda>r. lr_project r = p) (reg_records g) = Some k \<Longrightarrow>
      k < length (reg_records g) \<and> lr_project (reg_records g ! k) = p \<and>
      lifecycle g p = Some (lr_state (reg_records g ! k), reg_paths g ! k)"
  subgoal using lifecycle_None [OF assms] by (auto simp: position_None)
  subgoal using lifecycle_nth [OF assms] by (auto simp: position_Some)
  done

lemma lifecycle_paths:
  assumes "registry_wf resolve g"
  shows "snd ` ran (lifecycle g) = set (reg_paths g)"
proof -
  note wf = registry_wf_simps [OF assms]
  have "distinct (map fst (map (\<lambda>(r, c). (lr_project r, (lr_state r, c))) (zip (reg_records g) (reg_paths g))))"
    unfolding lifecycle_keys [OF assms] by (rule wf(2))
  then have "ran (lifecycle g) = set (map (\<lambda>(r, c). (lr_state r, c)) (zip (reg_records g) (reg_paths g)))"
    unfolding lifecycle_def by (simp add: ran_distinct case_prod_beta' image_image)
  then have "snd ` ran (lifecycle g) = set (map snd (zip (reg_records g) (reg_paths g)))"
    by (simp add: image_image case_prod_beta')
  then show ?thesis using wf(1) by simp
qed

lemma unchanged_reload:
  assumes "faithful resolve" "registry_wf resolve g" "lifecycle g p = Some (st, c)"
  shows "\<exists>g'. load_registry resolve (stored g (unchanged x)) = Inr g' \<and> lifecycle g' = (lifecycle g)(p \<mapsto> (st, c))"
  using assms by (auto simp: load_wf fun_upd_idem)

lemma appended_reload:
  assumes "faithful resolve" "registry_wf resolve g" "lifecycle g p = None" "is_ok (validate_id p)"
    and "lr_project r = p" "lr_file r = c" "c \<notin> set (reg_paths g)"
    and "resolve c = Some e" "validate_evidence e = Inr ()" "canonical_absolute e = c"
  shows "\<exists>g'. load_registry resolve (stored g (changed g (reg_records g @ [r]) x ev p at d)) = Inr g' \<and>
    lifecycle g' = (lifecycle g)(p \<mapsto> (lr_state r, c))"
proof -
  note wf = registry_wf_simps [OF assms(2)]
  have new: "p \<notin> set (map lr_project (reg_records g))" using lifecycle_None [OF assms(2)] assms(3) by simp
  have "good_paths resolve (reg_records g @ [r]) (reg_paths g @ [c])"
    using assms(2,5-10) by (auto simp: registry_wf_def good_paths_def intro: list_all2_appendI)
  moreover have "distinct (map lr_project (reg_records g @ [r]))" using new wf(2) assms(5) by auto
  moreover have "\<forall>q \<in> set (reg_records g @ [r]). is_ok (validate_id (lr_project q))" using wf(3) assms(4,5) by auto
  ultimately obtain payload' where
      "stored g (changed g (reg_records g @ [r]) x ev p at d) = payload'"
      "load_registry resolve payload' = Inr \<lparr>reg_payload = payload', reg_records = reg_records g @ [r], reg_paths = reg_paths g @ [c]\<rparr>"
    using reload [OF assms(1,2)] by metis
  moreover have "lifecycle \<lparr>reg_payload = payload', reg_records = reg_records g @ [r], reg_paths = reg_paths g @ [c]\<rparr> =
      (lifecycle g)(p \<mapsto> (lr_state r, c))"
    using wf(1) assms(3,5) by (auto simp: lifecycle_def map_add_def fun_eq_iff split: option.split)
  ultimately show ?thesis by auto
qed

lemma filtered_reload:
  assumes "faithful resolve" "registry_wf resolve g"
  shows "\<exists>g'. load_registry resolve (stored g (changed g (filter (\<lambda>q. lr_project q \<noteq> p) (reg_records g)) x ev p' at d)) = Inr g' \<and>
    lifecycle g' = (lifecycle g)(p := None)"
proof -
  note wf = registry_wf_simps [OF assms(2)]
  let ?zs = "filter (\<lambda>(r, c). lr_project r \<noteq> p) (zip (reg_records g) (reg_paths g))"
  let ?rs = "filter (\<lambda>q. lr_project q \<noteq> p) (reg_records g)"
  have rs: "?rs = map fst ?zs"
    using wf(1) filter_map [of "\<lambda>q. lr_project q \<noteq> p" fst "zip (reg_records g) (reg_paths g)"]
    by (simp add: comp_def case_prod_beta')
  have pairs: "\<forall>(r, c) \<in> set ?zs. \<exists>e. resolve (lr_file r) = Some e \<and> validate_evidence e = Inr () \<and> canonical_absolute e = c"
    using assms(2) by (auto simp: registry_wf_def good_paths_def list_all2_iff)
  have "distinct (map snd (zip (reg_records g) (reg_paths g)))" using wf(1,4) by simp
  then have "distinct (map snd ?zs)" by (rule distinct_map_filter)
  then have "good_paths resolve ?rs (map snd ?zs)"
    using pairs unfolding rs good_paths_def by (fastforce simp: list_all2_map1 list_all2_map2 list_all2_same)
  moreover have "distinct (map lr_project ?rs)" using wf(2) by (rule distinct_map_filter)
  moreover have "\<forall>q \<in> set ?rs. is_ok (validate_id (lr_project q))" using wf(3) by auto
  ultimately obtain payload' where
      "stored g (changed g ?rs x ev p' at d) = payload'"
      "load_registry resolve payload' = Inr \<lparr>reg_payload = payload', reg_records = ?rs, reg_paths = map snd ?zs\<rparr>"
    using reload [OF assms] by metis
  moreover have "lifecycle \<lparr>reg_payload = payload', reg_records = ?rs, reg_paths = map snd ?zs\<rparr> = (lifecycle g)(p := None)"
    unfolding lifecycle_def registry.simps rs zip_map_fst_snd map_of_drop_key [symmetric]
    by (simp add: filter_map comp_def case_prod_beta')
  ultimately show ?thesis by auto
qed

lemma cleared_reload:
  assumes "faithful resolve" "registry_wf resolve g"
  shows "\<exists>g'. load_registry resolve (stored g (changed g [] x ev p at d)) = Inr g' \<and> lifecycle g' = Map.empty"
proof -
  have "good_paths resolve [] []" by (simp add: good_paths_def)
  then show ?thesis using reload [OF assms, of "[]" "[]" x ev p at d] by (auto simp: lifecycle_def)
qed

text \<open>A registered path resolves to itself.\<close>

fun settled_path :: "(string \<Rightarrow> path_evidence option) \<Rightarrow> registry_request \<Rightarrow> bool" where
  "settled_path resolve (Register p e s) =
     (case resolve (canonical_absolute e) of
        Some e' \<Rightarrow> validate_evidence e' = Inr () \<and> canonical_absolute e' = canonical_absolute e
      | None \<Rightarrow> False)"
| "settled_path resolve _ = True"

definition agrees ::
    "(string \<Rightarrow> path_evidence option) \<Rightarrow> project_error + json \<Rightarrow> (string \<rightharpoonup> lifecycle_state \<times> string) option \<Rightarrow> bool" where
  "agrees resolve out m =
     (case out of
        Inl _ \<Rightarrow> m = None
      | Inr payload' \<Rightarrow> \<exists>g'. load_registry resolve payload' = Inr g' \<and> m = Some (lifecycle g'))"

lemma agrees_granted:
  "agrees resolve (Inr payload') (Some m) \<longleftrightarrow> (\<exists>g'. load_registry resolve payload' = Inr g' \<and> lifecycle g' = m)"
  by (auto simp: agrees_def)

lemma register_agrees:
  assumes "faithful resolve" "registry_wf resolve g" "settled_path resolve (Register p e s)"
  shows "agrees resolve (apply_request g now (Register p e s)) (abstract_request (Register p e s) (lifecycle g))"
proof (cases "is_ok (validate_id p) \<and> is_ok (validate_evidence e)")
  case False
  then show ?thesis
    by (cases "validate_id p"; cases "validate_evidence e")
      (auto simp: register_project_def agrees_def is_ok_iff)
next
  case True
  then obtain u where ok: "validate_id p = Inr u" "validate_evidence e = Inr ()" by (auto simp: is_ok_iff)
  note wf = registry_wf_simps [OF assms(2)]
  let ?c = "canonical_absolute e"
  have clash: "list_ex (\<lambda>(r, c). c = ?c \<and> lr_project r \<noteq> p) (zip (reg_records g) (reg_paths g)) \<longleftrightarrow>
      (\<exists>k < length (reg_records g). reg_paths g ! k = ?c \<and> lr_project (reg_records g ! k) \<noteq> p)"
    unfolding list_ex_iff set_zip using wf(1) by (auto; metis)
  show ?thesis
  proof (cases "position (\<lambda>r. lr_project r = p) (reg_records g)")
    case None
    then have new: "lifecycle g p = None" using position_lifecycle(1) [OF assms(2)] by simp
    have all: "lr_project (reg_records g ! k) \<noteq> p" if "k < length (reg_records g)" for k
      using None that nth_mem [OF that] by (auto simp: position_None)
    have "(\<exists>k < length (reg_records g). reg_paths g ! k = ?c \<and> lr_project (reg_records g ! k) \<noteq> p) \<longleftrightarrow> ?c \<in> set (reg_paths g)"
      using all wf(1) by (auto simp: in_set_conv_nth)
    note clash' = clash [unfolded this]
    obtain e' where e': "resolve ?c = Some e'" "validate_evidence e' = Inr ()" "canonical_absolute e' = ?c"
      using assms(3) by (auto split: option.splits)
    show ?thesis
    proof (cases "?c \<in> set (reg_paths g)")
      case True
      then show ?thesis using ok clash' new lifecycle_paths [OF assms(2)]
        by (simp add: register_project_def agrees_def is_ok_iff)
    next
      case False
      let ?r = "\<lparr>lr_project = p, lr_file = ?c, lr_state = Active, lr_source = s, lr_registered = now,
        lr_updated = now, lr_reason = ''registered''\<rparr>"
      have "\<exists>g'. load_registry resolve (stored g (changed g (reg_records g @ [?r]) ?r ''REGISTER'' p now (record_value ?r))) = Inr g' \<and>
          lifecycle g' = (lifecycle g)(p \<mapsto> (lr_state ?r, ?c))"
        by (rule appended_reload [OF assms(1,2) new _ _ _ False e']) (use ok in \<open>simp_all add: is_ok_iff\<close>)
      with ok clash' new False None lifecycle_paths [OF assms(2)] show ?thesis
        by (simp add: register_project_def agrees_granted is_ok_iff Let_def)
    qed
  next
    case (Some k)
    note k = position_lifecycle(2) [OF assms(2) Some]
    show ?thesis
    proof (cases "reg_paths g ! k = ?c")
      case False
      with ok clash Some k show ?thesis by (auto simp: register_project_def agrees_def is_ok_iff)
    next
      case True
      have "\<not> list_ex (\<lambda>(r, c). c = ?c \<and> lr_project r \<noteq> p) (zip (reg_records g) (reg_paths g))"
        using clash k True wf(1,4) by (metis nth_eq_iff_index_eq)
      then have reg: "register_project g p e s now =
          (if lr_state (reg_records g ! k) = Archived then Inl IsArchived
           else if lr_state (reg_records g ! k) = Active then Inr (unchanged (reg_records g ! k))
           else Inr (changed g ((reg_records g)[k := moved (reg_records g ! k) Active now ''registered''])
             (moved (reg_records g ! k) Active now ''registered'') ''REGISTER'' p now
             (record_value (moved (reg_records g ! k) Active now ''registered''))))"
        using ok Some k True by (simp add: register_project_def Let_def)
      have map: "abstract_request (Register p e s) (lifecycle g) =
          (if lr_state (reg_records g ! k) = Archived then None else Some ((lifecycle g)(p \<mapsto> (Active, ?c))))"
        using ok k True by (simp add: is_ok_iff)
      consider "lr_state (reg_records g ! k) = Archived" | "lr_state (reg_records g ! k) = Active"
        | "lr_state (reg_records g ! k) = Paused" by (cases "lr_state (reg_records g ! k)") auto
      then show ?thesis
      proof cases
        case 1
        then show ?thesis unfolding apply_request.simps reg map by (simp add: agrees_def)
      next
        case 2
        with k True have "lifecycle g p = Some (Active, ?c)" by simp
        with unchanged_reload [OF assms(1,2), of p Active ?c "reg_records g ! k"] 2
        show ?thesis unfolding apply_request.simps reg map by (simp add: agrees_granted)
      next
        case 3
        with moved_reload [OF assms(1,2), of k p Active now "''registered''"
            "moved (reg_records g ! k) Active now ''registered''"] k True
        show ?thesis unfolding apply_request.simps reg map by (simp add: agrees_granted)
      qed
    qed
  qed
qed

text \<open>The state an action leads to, where it is granted.\<close>

definition granted :: "lifecycle_state \<Rightarrow> string \<Rightarrow> string \<Rightarrow> lifecycle_state option" where
  "granted st name reason =
     (if name = ''pause'' \<and> st = Active \<or> name = ''restore'' \<and> st = Archived then Some Paused
      else if name = ''resume'' \<and> st = Paused then Some Active
      else if name = ''archive'' \<and> st \<noteq> Archived \<and> \<not> blank_reason reason then Some Archived
      else None)"

lemma act_agrees:
  assumes "faithful resolve" "registry_wf resolve g"
  shows "agrees resolve (apply_request g now (Act p name reason)) (abstract_request (Act p name reason) (lifecycle g))"
proof (cases "position (\<lambda>r. lr_project r = p) (reg_records g)")
  case None
  then have "lifecycle g p = None" using position_lifecycle(1) [OF assms(2)] by simp
  with None show ?thesis by (simp add: project_action_def find_position agrees_def)
next
  case (Some k)
  note k = position_lifecycle(2) [OF assms(2) Some]
  let ?st = "lr_state (reg_records g ! k)"
  have act: "project_action g p name reason now = (case granted ?st name reason of
      Some t \<Rightarrow> project_transition g p t reason now
    | None \<Rightarrow> Inl (if name \<notin> {''pause'', ''resume'', ''archive'', ''restore''} then UnknownAction
                 else if name = ''archive'' \<and> ?st \<noteq> Archived then ReasonRequired else BadTransition))"
    using Some by (cases ?st) (simp_all add: project_action_def find_position granted_def)
  have map: "abstract_request (Act p name reason) (lifecycle g) =
      map_option (\<lambda>t. (lifecycle g)(p \<mapsto> (t, reg_paths g ! k))) (granted ?st name reason)"
    using k by (simp add: granted_def)
  show ?thesis
  proof (cases "granted ?st name reason")
    case None
    then show ?thesis unfolding apply_request.simps act map by (simp add: agrees_def)
  next
    case (Some t)
    then have "?st \<noteq> t \<and> allowed_move ?st t" by (cases ?st) (auto simp: granted_def split: if_splits)
    then have "project_transition g p t reason now = Inr (changed g ((reg_records g)[k := moved (reg_records g ! k) t now reason])
        (moved (reg_records g ! k) t now reason) (state_name t) p now
        (JObj [(''from'', JStr (state_name ?st)), (''reason'', JStr reason)]))"
      using \<open>position _ _ = Some k\<close> by (simp add: project_transition_def Let_def)
    moreover have "\<exists>g'. load_registry resolve (stored g (changed g
        ((reg_records g)[k := moved (reg_records g ! k) t now reason]) (moved (reg_records g ! k) t now reason)
        (state_name t) p now (JObj [(''from'', JStr (state_name ?st)), (''reason'', JStr reason)]))) = Inr g' \<and>
        lifecycle g' = (lifecycle g)(p \<mapsto> (t, reg_paths g ! k))"
      using k by (intro moved_reload [OF assms]) auto
    ultimately show ?thesis unfolding apply_request.simps act map by (simp add: Some agrees_granted)
  qed
qed

lemma unregister_agrees:
  assumes "faithful resolve" "registry_wf resolve g"
  shows "agrees resolve (apply_request g now (Unregister p reason)) (abstract_request (Unregister p reason) (lifecycle g))"
proof (cases "position (\<lambda>r. lr_project r = p) (reg_records g)")
  case None
  then have "lifecycle g p = None" using position_lifecycle(1) [OF assms(2)] by simp
  with None show ?thesis by (simp add: unregister_def find_position agrees_def)
next
  case (Some k)
  note k = position_lifecycle(2) [OF assms(2) Some]
  show ?thesis
    using Some k filtered_reload [OF assms, of p "reg_records g ! k"] by (simp add: unregister_def find_position agrees_granted)
qed

lemma unregister_all_agrees:
  assumes "faithful resolve" "registry_wf resolve g"
  shows "agrees resolve (apply_request g now (UnregisterAll reason)) (abstract_request (UnregisterAll reason) (lifecycle g))"
proof (cases "reg_records g = []")
  case True
  then have "lifecycle g = Map.empty" by (simp add: lifecycle_def)
  with True assms show ?thesis by (auto simp: unregister_all_def agrees_def load_wf)
next
  case False
  with cleared_reload [OF assms, of "reg_records g"] show ?thesis by (auto simp: unregister_all_def agrees_granted)
qed

text \<open>C13. The registry refines a map from projects to lifecycle states and canonical manifests: a request
  the map refuses is refused, a granted one stores a payload that loads again and reads as the changed
  map, so projects stay unique, no two share a manifest, and archived projects come back only by a restore.
\<close>

theorem registry_requests_refine_map:
  assumes "faithful resolve" and "load_registry resolve payload = Inr g" and "settled_path resolve rq"
  shows "agrees resolve (apply_request g now rq) (abstract_request rq (lifecycle g))"
proof -
  have wf: "registry_wf resolve g" using assms(1,2) by (simp add: load_wf)
  show ?thesis
  proof (cases rq)
    case (Register p e s)
    with register_agrees [OF assms(1) wf] assms(3) show ?thesis by blast
  qed (use act_agrees [OF assms(1) wf] unregister_agrees [OF assms(1) wf] unregister_all_agrees [OF assms(1) wf] in blast)+
qed

definition resolve_plain :: "string \<Rightarrow> path_evidence option" where
  "resolve_plain p = Some \<lparr>provided = p, expanded_absolute = p, canonical_absolute = p\<rparr>"

definition two_projects :: json where
  "two_projects = JObj [(''schema_version'', jnat 1), (''projects'', JArr
     [record_value \<lparr>lr_project = ''alpha'', lr_file = ''/w/alpha'', lr_state = Archived, lr_source = Manual,
        lr_registered = ''t0'', lr_updated = ''t1'', lr_reason = ''done''\<rparr>,
      record_value \<lparr>lr_project = ''beta'', lr_file = ''/w/beta'', lr_state = Active, lr_source = ConfigSeed,
        lr_registered = ''t0'', lr_updated = ''t0'', lr_reason = []\<rparr>])]"

lemma two_projects_load:
  "is_ok (load_registry resolve_plain two_projects)"
  "case load_registry resolve_plain two_projects of Inl _ \<Rightarrow> False | Inr g \<Rightarrow>
     (case apply_request g ''t2'' (Act ''alpha'' ''restore'' []) of Inl _ \<Rightarrow> False | Inr payload' \<Rightarrow>
        (case load_registry resolve_plain payload' of Inl _ \<Rightarrow> False | Inr g' \<Rightarrow>
           lifecycle g' ''alpha'' = Some (Paused, ''/w/alpha'') \<and> lifecycle g' ''beta'' = Some (Active, ''/w/beta'')))"
  "case load_registry resolve_plain two_projects of Inl _ \<Rightarrow> False | Inr g \<Rightarrow>
     \<not> is_ok (apply_request g ''t2'' (Act ''alpha'' ''resume'' []))"
  by code_simp+

lemma registry_requests_refine_map_witness:
  "\<exists>g. load_registry resolve_plain two_projects = Inr g \<and>
     agrees resolve_plain (apply_request g ''t2'' (Act ''alpha'' ''restore'' []))
       (abstract_request (Act ''alpha'' ''restore'' []) (lifecycle g)) \<and>
     is_ok (apply_request g ''t2'' (Act ''alpha'' ''restore'' [])) \<and>
     \<not> is_ok (apply_request g ''t2'' (Act ''alpha'' ''resume'' []))"
proof -
  have f: "faithful resolve_plain" by (simp add: faithful_def resolve_plain_def)
  obtain g where g: "load_registry resolve_plain two_projects = Inr g"
    using two_projects_load(1) by (auto simp: is_ok_iff)
  have "is_ok (apply_request g ''t2'' (Act ''alpha'' ''restore'' []))"
    using two_projects_load(2) by (auto simp: g is_ok_iff split: sum.splits)
  moreover have "\<not> is_ok (apply_request g ''t2'' (Act ''alpha'' ''resume'' []))"
    using two_projects_load(3) by (simp add: g)
  moreover note registry_requests_refine_map [OF f g, of "Act ''alpha'' ''restore'' []" "''t2''"]
  ultimately show ?thesis using g by simp
qed

end
