(* ===== verification/Cloud.thy ===== *)
theory Cloud
  imports SlurmHelper SlurmPlans Cancel
begin

text \<open>
  Requests to the cloud provider (\<open>rust/crates/core/src/cloud/mod.rs\<close>, \<open>cloud/pai.rs\<close> and
  \<open>cloud/observation.rs\<close>): bounded requests, jobs with their names and ownership tags, the PAI profile
  and the requests it compiles, and the checks on what the provider answers. Nothing here performs a
  request.

  SHA-256, the double printer and the string writer are the parameter \<open>H\<close>; the redaction of log lines,
  a set of regular expressions, and the strict object parser are fields of \<open>Q\<close>. The types of the fields
  bound their integers; they are natural numbers here.
\<close>

datatype cloud_fault = CloudFault string

section \<open>Requests\<close>

datatype http_method = MGet | MPost | MDelete | MPut
datatype product_kind = PaiDlc | PaiDsw | PaiStudio | AiWorkspace
datatype endpoint = PaiEndpoint product_kind string

fun product_name :: "product_kind \<Rightarrow> string" where
  "product_name PaiDlc = ''pai-dlc''"
| "product_name PaiDsw = ''pai-dsw''"
| "product_name PaiStudio = ''paistudio''"
| "product_name AiWorkspace = ''aiworkspace''"

definition product_endpoint :: "product_kind \<Rightarrow> string" where
  "product_endpoint p = (if p = PaiStudio then ''pai'' else product_name p)"

fun product_version :: "product_kind \<Rightarrow> string" where
  "product_version PaiDlc = ''2020-12-03''"
| "product_version PaiDsw = ''2022-01-01''"
| "product_version PaiStudio = ''2022-01-12''"
| "product_version AiWorkspace = ''2021-02-04''"

definition resource_component :: "string \<Rightarrow> cloud_fault + string" where
  "resource_component v =
     (if v = [] \<or> length v > 256 \<or> \<not> is_ascii_alphanumeric (hd v) \<or>
         \<not> list_all (\<lambda>c. is_ascii_alphanumeric c \<or> c \<in> set ''_.-'') v
      then Inl (CloudFault ''resource component'') else Inr v)"

definition region_id :: "string \<Rightarrow> cloud_fault + string" where
  "region_id v =
     (if length v < 3 \<or> length v > 64 \<or> \<not> is_ascii_lower (hd v) \<or>
         \<not> list_all (\<lambda>c. is_ascii_lower c \<or> is_ascii_digit c \<or> c = CHR ''-'') v
      then Inl (CloudFault ''region'') else Inr v)"

definition mount_path :: "string \<Rightarrow> cloud_fault + string" where
  "mount_path v =
     (if \<not> starts_with ''/'' v \<or> length v > 4096 \<or> list_ex (\<lambda>c. c \<in> set v) [NUL, CHR 0x0D, CHR 0x0A, CHR 0x5C] \<or>
         list_ex (\<lambda>p. p = ''.'' \<or> p = ''..'') (split_on CHR ''/'' v)
      then Inl (CloudFault ''mount path'') else Inr v)"

fun endpoint_host :: "endpoint \<Rightarrow> cloud_fault + string" where
  "endpoint_host (PaiEndpoint product region) =
     and_then (region_id region) (\<lambda>_. Inr (product_endpoint product @ ''.'' @ region @ ''.aliyuncs.com''))"

record cloud_request =
  rq_endpoint :: endpoint
  rq_method :: http_method
  rq_action :: string
  rq_path :: string
  rq_query :: "(string \<times> string) list"
  rq_body :: "json option"
  rq_read_only :: bool

abbreviation MAX_REQUEST_BYTES :: nat where "MAX_REQUEST_BYTES \<equiv> 2 ^ 20"

definition body_text :: "'f hashing \<Rightarrow> json option \<Rightarrow> string" where
  "body_text H b = (case b of None \<Rightarrow> ''null'' | Some v \<Rightarrow> json_text (writer H) v)"

definition validate_request :: "'f hashing \<Rightarrow> cloud_request \<Rightarrow> cloud_fault + unit" where
  "validate_request H r =
     and_then (endpoint_host (rq_endpoint r)) (\<lambda>_.
     and_then (resource_component (rq_action r)) (\<lambda>_.
     if \<not> starts_with ''/'' (rq_path r) \<or> length (rq_path r) > 4096 \<or> has_control (rq_path r) \<or>
        list_ex (\<lambda>c. c \<in> set (rq_path r)) [CHR ''?'', CHR 0x23, CHR 0x5C, CHR 0x25] \<or>
        list_ex (\<lambda>p. p = ''.'' \<or> p = ''..'') (split_on CHR ''/'' (rq_path r)) \<or>
        length (rq_query r) > 32 \<or>
        list_ex (\<lambda>(k, v). \<not> is_ok (resource_component k) \<or> length v > 16384 \<or> has_control v) (rq_query r) \<or>
        rq_method r = MGet \<and> rq_body r \<noteq> None \<or>
        length (body_text H (rq_body r)) > MAX_REQUEST_BYTES
     then Inl (CloudFault ''request'') else Inr ()))"

definition make_request ::
    "'f hashing \<Rightarrow> endpoint \<Rightarrow> http_method \<Rightarrow> string \<Rightarrow> string \<Rightarrow> (string \<times> string) list \<Rightarrow> json option \<Rightarrow> bool
     \<Rightarrow> cloud_fault + cloud_request" where
  "make_request H e meth action path query body read_only =
     (let r = \<lparr>rq_endpoint = e, rq_method = meth, rq_action = action, rq_path = path,
               rq_query = sort_key fst query, rq_body = body, rq_read_only = read_only\<rparr> in
      and_then (validate_request H r) (\<lambda>_. Inr r))"

definition cloud_digest :: "'f hashing \<Rightarrow> json \<Rightarrow> cloud_fault + string" where
  "cloud_digest H v = map_err (\<lambda>_. CloudFault ''identity'') (protocol_identity (floats H) (writer H) (sha_hex H) v)"

section \<open>Commands\<close>

definition single_quoted :: "string \<Rightarrow> string" where
  "single_quoted s = squote # replace_quotes s @ [squote]"

definition cloud_shell_join :: "string list \<Rightarrow> cloud_fault + string" where
  "cloud_shell_join args =
     (if args = [] \<or> length args > 256 \<or> list_ex (\<lambda>s. length s > 65536 \<or> NUL \<in> set s) args \<or> hd args = []
      then Inl (CloudFault ''command'')
      else let command = join '' '' (map single_quoted args) in
        if length command > MAX_REQUEST_BYTES then Inl (CloudFault ''command length'') else Inr command)"

abbreviation MAX_GPU_COMMAND_BYTES :: nat where "MAX_GPU_COMMAND_BYTES \<equiv> 128 * 1024"

section \<open>Jobs\<close>

record cloud_job =
  cj_project :: string
  cj_run :: string
  cj_attempt :: string
  cj_token :: string
  cj_source :: string
  cj_image :: string
  cj_command :: "string list"
  cj_gpus :: nat
  cj_cpus :: nat
  cj_memory_gb :: nat
  cj_seconds :: nat
  cj_priority :: nat
  cj_read_only :: bool

definition job_value :: "cloud_job \<Rightarrow> json" where
  "job_value j = JObj
     ([(''project'', JStr (cj_project j)), (''run_id'', JStr (cj_run j)), (''attempt_id'', JStr (cj_attempt j)),
       (''submission_token'', JStr (cj_token j)), (''source_id'', JStr (cj_source j)), (''image'', JStr (cj_image j)),
       (''command'', JArr (map JStr (cj_command j))), (''gpus'', jnat (cj_gpus j)), (''cpus'', jnat (cj_cpus j)),
       (''memory_gb'', jnat (cj_memory_gb j)), (''max_time_seconds'', jnat (cj_seconds j)),
       (''priority'', jnat (cj_priority j))] @
      (if cj_read_only j then [(''read_only_storage'', JBool True)] else []))"

definition pinned_image :: "string \<Rightarrow> bool" where
  "pinned_image v =
     (case split_once_str ''@sha256:'' v of
        None \<Rightarrow> False
      | Some (repository, h) \<Rightarrow>
          repository \<noteq> [] \<and> length repository \<le> 2048 \<and>
          \<not> list_ex (\<lambda>c. c \<in> set repository) [CHR ''@'', CHR '':'', CHR ''?'', CHR 0x23] \<and>
          CHR ''/'' \<in> set repository \<and>
          list_all (\<lambda>c. is_ascii_alphanumeric c \<or> c \<in> set ''/._-'') repository \<and>
          valid_digest (''sha256:'' @ h))"

definition validate_job :: "cloud_job \<Rightarrow> cloud_fault + unit" where
  "validate_job j =
     and_then (map_err (\<lambda>_. CloudFault ''project'') (validate_id (cj_project j))) (\<lambda>_.
     and_then (map_err (\<lambda>_. CloudFault ''run'') (validate_id (cj_run j))) (\<lambda>_.
     and_then (map_err (\<lambda>_. CloudFault ''attempt'') (validate_attempt (cj_attempt j))) (\<lambda>_.
     and_then (map_err (\<lambda>_. CloudFault ''token'') (validate_submission_token (cj_token j))) (\<lambda>_.
     and_then (ok_or (strip_prefix ''source.'' (cj_source j)) (CloudFault ''source'')) (\<lambda>source.
     and_then (require (valid_digest (''sha256:'' @ source)) (CloudFault ''source'')) (\<lambda>_.
     and_then (require (pinned_image (cj_image j)) (CloudFault ''pinned image'')) (\<lambda>_.
     if cj_cpus j = 0 \<or> cj_cpus j > 65536 \<or> cj_memory_gb j = 0 \<or> cj_memory_gb j > 1048576 \<or> cj_gpus j > 4096 \<or>
        cj_seconds j = 0 \<or> cj_seconds j > 1000 * 3600 \<or> cj_priority j < 1 \<or> cj_priority j > 9
     then Inl (CloudFault ''resources'')
     else
     and_then (cloud_shell_join (cj_command j)) (\<lambda>command.
       if length command > MAX_GPU_COMMAND_BYTES \<and> cj_gpus j > 0 then Inl (CloudFault ''command length'')
       else Inr ()))))))))"

definition job_name :: "cloud_job \<Rightarrow> cloud_fault + string" where
  "job_name j = and_then (validate_job j) (\<lambda>_. Inr (''ml-exp-'' @ cj_token j))"

definition job_tags :: "cloud_job \<Rightarrow> string \<Rightarrow> cloud_fault + json" where
  "job_tags j sc =
     and_then (validate_job j) (\<lambda>_.
     if \<not> valid_digest sc then Inl (CloudFault ''scope'')
     else Inr (JObj [(''ml-expd.project'', JStr (cj_project j)), (''ml-expd.run'', JStr (cj_run j)),
       (''ml-expd.attempt'', JStr (cj_attempt j)), (''ml-expd.scope'', JStr sc),
       (''ml-expd.submission'', JStr (cj_token j))]))"

section \<open>PAI profiles\<close>

datatype pai_allocation = Guaranteed | AllowIdle | IdleOnly

definition for_new_run :: "nat \<Rightarrow> pai_allocation" where
  "for_new_run n = (if n = 0 then Guaranteed else AllowIdle)"

fun allocation_name :: "pai_allocation \<Rightarrow> string" where
  "allocation_name Guaranteed = ''guaranteed''"
| "allocation_name AllowIdle = ''allow_idle''"
| "allocation_name IdleOnly = ''idle_only''"

fun oversold :: "pai_allocation \<Rightarrow> string" where
  "oversold Guaranteed = ''ForbiddenQuotaOverSold''"
| "oversold AllowIdle = ''AcceptQuotaOverSold''"
| "oversold IdleOnly = ''ForceQuotaOverSold''"

record pai_vpc =
  vpc_id :: string
  switch_id :: string
  security_group_id :: string

definition validate_vpc :: "pai_vpc \<Rightarrow> cloud_fault + unit" where
  "validate_vpc v =
     (if list_all (\<lambda>(s, p). case strip_prefix p s of
           None \<Rightarrow> False
         | Some r \<Rightarrow> r \<noteq> [] \<and> list_all (\<lambda>c. is_ascii_lower c \<or> is_ascii_digit c) r)
         [(vpc_id v, ''vpc-''), (switch_id v, ''vsw-''), (security_group_id v, ''sg-'')]
      then Inr () else Inl (CloudFault ''VPC''))"

definition vpc_value :: "pai_vpc \<Rightarrow> json" where
  "vpc_value v = JObj [(''VpcId'', JStr (vpc_id v)), (''VSwitchId'', JStr (switch_id v)),
     (''SecurityGroupId'', JStr (security_group_id v))]"

record pai_storage =
  cpfs_uri :: string
  workspace_user :: string
  role_arn :: string

definition validate_storage :: "pai_storage \<Rightarrow> string \<Rightarrow> pai_vpc option \<Rightarrow> cloud_fault + unit" where
  "validate_storage s rg network =
     and_then (resource_component (workspace_user s)) (\<lambda>_.
     if length (workspace_user s) > 64 \<or> \<not> starts_with ''bmcpfs://cpfs-'' (cpfs_uri s) \<or>
        \<not> ends_with (''.'' @ rg @ ''.cpfs.aliyuncs.com/'') (cpfs_uri s) \<or>
        \<not> list_all (\<lambda>c. is_ascii_lower c \<or> is_ascii_digit c \<or> c \<in> set ''.-'') (drop 9 (butlast (cpfs_uri s))) \<or>
        contains_str ''-vpc-'' (cpfs_uri s) \<and> network = None
     then Inl (CloudFault ''approved CPFS'')
     else
     and_then (ok_or (Option.bind (strip_prefix ''acs:ram::'' (role_arn s))
         (strip_suffix ('':role/pai-data-'' @ workspace_user s))) (CloudFault ''personal data role'')) (\<lambda>account.
       if account = [] \<or> length account > 32 \<or> \<not> list_all is_ascii_digit account
       then Inl (CloudFault ''role account'') else Inr ()))"

definition storage_mounts :: "pai_storage \<Rightarrow> (string \<times> string \<times> string) list" where
  "storage_mounts s = map (\<lambda>(path, mount, access). (cpfs_uri s @ path, mount, access))
     [(''users/'' @ workspace_user s @ ''/'', ''/mnt/workspace'', ''RW''),
      (''public/models/'', ''/mnt/models'', ''RO''), (''public/datasets/'', ''/mnt/datasets'', ''RO'')]"

definition mount_value :: "string \<times> string \<times> string \<Rightarrow> json" where
  "mount_value m = (case m of (uri, path, access) \<Rightarrow>
     JObj [(''Uri'', JStr uri), (''MountPath'', JStr path), (''MountAccess'', JStr access)])"

definition credential_config :: "pai_storage \<Rightarrow> cloud_fault + json" where
  "credential_config s =
     and_then (ok_or (map_option (\<lambda>r. hd (split_on CHR '':'' r)) (strip_prefix ''acs:ram::'' (role_arn s)))
         (CloudFault ''role account'')) (\<lambda>account.
       Inr (JObj [(''EnableCredentialInject'', JBool True), (''AliyunEnvRoleKey'', JStr ''0''),
         (''CredentialConfigItems'', JArr [JObj [(''Key'', JStr ''0''), (''Type'', JStr ''Role''),
           (''Roles'', JArr [JObj [(''RoleArn'', JStr (role_arn s)), (''RoleType'', JStr ''service''),
             (''AssumeRoleFor'', JStr account)]])]])]))"

record pai_profile =
  region :: string
  workspace_id :: string
  quota_id :: string
  max_gpus :: nat
  max_cpus :: nat
  max_memory_gb :: nat
  gpu_type :: "string option"
  storage :: "pai_storage option"
  vpc :: "pai_vpc option"

definition validate_profile :: "pai_profile \<Rightarrow> cloud_fault + unit" where
  "validate_profile p =
     and_then (region_id (region p)) (\<lambda>_.
     and_then (resource_component (workspace_id p)) (\<lambda>_.
     and_then (resource_component (quota_id p)) (\<lambda>_.
     if max_gpus p > 4096 \<or> max_cpus p = 0 \<or> max_cpus p > 65536 \<or> max_memory_gb p = 0 \<or> max_memory_gb p > 1048576
     then Inl (CloudFault ''capacity'')
     else
     and_then (case gpu_type p of None \<Rightarrow> Inr [] | Some g \<Rightarrow> resource_component g) (\<lambda>_.
     and_then (case vpc p of None \<Rightarrow> Inr () | Some v \<Rightarrow> validate_vpc v) (\<lambda>_.
       case storage p of None \<Rightarrow> Inr () | Some s \<Rightarrow> validate_storage s (region p) (vpc p))))))"

definition profile_members :: "pai_profile \<Rightarrow> jobject" where
  "profile_members p =
     [(''region'', JStr (region p)), (''workspace_id'', JStr (workspace_id p)), (''quota_id'', JStr (quota_id p)),
      (''max_gpus'', jnat (max_gpus p)), (''max_cpus'', jnat (max_cpus p)), (''max_memory_gb'', jnat (max_memory_gb p)),
      (''gpu_type'', jstr_or_null (gpu_type p)),
      (''storage'', case storage p of None \<Rightarrow> JNull | Some s \<Rightarrow>
         JObj [(''cpfs_uri'', JStr (cpfs_uri s)), (''workspace_user'', JStr (workspace_user s)), (''role_arn'', JStr (role_arn s))]),
      (''vpc'', case vpc p of None \<Rightarrow> JNull | Some v \<Rightarrow> vpc_value v)]"

definition profile_scope :: "'f hashing \<Rightarrow> pai_profile \<Rightarrow> cloud_fault + string" where
  "profile_scope H p = and_then (validate_profile p) (\<lambda>_. cloud_digest H (JObj (profile_members p)))"

definition pai_request ::
    "'f hashing \<Rightarrow> pai_profile \<Rightarrow> product_kind \<Rightarrow> http_method \<Rightarrow> string \<Rightarrow> string \<Rightarrow> (string \<times> string) list \<Rightarrow> json option
     \<Rightarrow> cloud_fault + cloud_request" where
  "pai_request H p product meth action path query body =
     and_then (validate_profile p) (\<lambda>_.
       make_request H (PaiEndpoint product (region p)) meth action path query body (meth = MGet))"

abbreviation MAX_JOB_SECONDS :: nat where "MAX_JOB_SECONDS \<equiv> 86400"

text \<open>The document of a create request.\<close>

definition create_document ::
    "pai_profile \<Rightarrow> cloud_job \<Rightarrow> pai_allocation \<Rightarrow> string \<Rightarrow> string \<Rightarrow> json \<Rightarrow> json option \<Rightarrow> json" where
  "create_document p j a name command tags credentials =
     (let mounts = (case storage p of None \<Rightarrow> [] | Some s \<Rightarrow> storage_mounts s);
          mounts = (if cj_read_only j then map (\<lambda>(u, m, _). (u, m, ''RO'')) mounts else mounts)
      in JObj
     ([(''WorkspaceId'', JStr (workspace_id p)), (''ResourceId'', JStr (quota_id p)), (''DisplayName'', JStr name),
       (''JobType'', JStr ''PyTorchJob''), (''Accessibility'', JStr ''PRIVATE''), (''UserCommand'', JStr command),
       (''JobMaxRunningTimeMinutes'', jnat ((cj_seconds j + 59) div 60)), (''Priority'', jnat (cj_priority j)),
       (''DataSources'', JArr (map mount_value mounts)),
       (''UserVpc'', case vpc p of None \<Rightarrow> JObj [] | Some v \<Rightarrow> vpc_value v),
       (''Settings'', JObj [(''Tags'', tags), (''JobReservedMinutes'', jnat 0),
          (''EnableErrorMonitoringInAIMaster'', JBool False), (''EnableRDMA'', JBool False),
          (''EnableTideResource'', JBool (a \<noteq> Guaranteed)), (''OversoldType'', JStr (oversold a))]),
       (''JobSpecs'', JArr [JObj [(''Type'', JStr ''Worker''), (''PodCount'', jnat 1), (''UseSpotInstance'', JBool False),
          (''RestartPolicy'', JStr ''Never''), (''Image'', JStr (cj_image j)), (''OversoldType'', JStr (oversold a)),
          (''ResourceConfig'', JObj
             ([(''CPU'', JStr (show_nat (cj_cpus j))), (''Memory'', JStr (show_nat (cj_memory_gb j) @ ''Gi'')),
               (''GPU'', JStr (show_nat (cj_gpus j)))] @
              (case gpu_type p of None \<Rightarrow> [] | Some g \<Rightarrow> [(''GPUType'', JStr g)])))]])] @
      (case credentials of None \<Rightarrow> [] | Some c \<Rightarrow> [(''CredentialConfig'', c)])))"

definition pai_create ::
    "'f hashing \<Rightarrow> pai_profile \<Rightarrow> cloud_job \<Rightarrow> pai_allocation \<Rightarrow> cloud_fault + cloud_request" where
  "pai_create H p j a =
     and_then (validate_profile p) (\<lambda>_.
     and_then (validate_job j) (\<lambda>_.
     if cj_seconds j > MAX_JOB_SECONDS \<or> cj_gpus j > max_gpus p \<or> cj_cpus j > max_cpus p \<or> cj_memory_gb j > max_memory_gb p
     then Inl (CloudFault ''resource limit'')
     else if cj_read_only j \<and> storage p = None then Inl (CloudFault ''read-only storage requires CPFS'')
     else
     and_then (job_name j) (\<lambda>name.
     and_then (cloud_shell_join (cj_command j)) (\<lambda>command.
     and_then (profile_scope H p) (\<lambda>sc.
     and_then (job_tags j sc) (\<lambda>tags.
     and_then (case storage p of None \<Rightarrow> Inr None | Some s \<Rightarrow> and_then (credential_config s) (\<lambda>c. Inr (Some c))) (\<lambda>credentials.
       pai_request H p PaiDlc MPost ''CreateJob'' ''/api/v1/jobs'' []
         (Some (create_document p j a name command tags credentials)))))))))"

definition pai_get :: "'f hashing \<Rightarrow> pai_profile \<Rightarrow> string \<Rightarrow> cloud_fault + cloud_request" where
  "pai_get H p job_id =
     and_then (resource_component job_id) (\<lambda>_.
       pai_request H p PaiDlc MGet ''GetJob'' (''/api/v1/jobs/'' @ job_id) [] None)"

definition pai_list :: "'f hashing \<Rightarrow> pai_profile \<Rightarrow> cloud_job \<Rightarrow> nat \<Rightarrow> cloud_fault + cloud_request" where
  "pai_list H p j page =
     and_then (validate_job j) (\<lambda>_.
     if page < 1 \<or> page > 100 then Inl (CloudFault ''page'')
     else
     and_then (job_name j) (\<lambda>name.
     and_then (profile_scope H p) (\<lambda>sc.
     and_then (job_tags j sc) (\<lambda>tags.
       pai_request H p PaiDlc MGet ''ListJobs'' ''/api/v1/jobs''
         [(''WorkspaceId'', workspace_id p), (''ResourceId'', quota_id p), (''ShowOwn'', ''true''),
          (''PageNumber'', show_nat page), (''PageSize'', ''100''), (''StartTime'', ''2020-01-01T00:00:00Z''),
          (''DisplayName'', name), (''Tags'', json_text (writer H) tags)] None))))"

definition pai_stop :: "'f hashing \<Rightarrow> pai_profile \<Rightarrow> string \<Rightarrow> cloud_fault + cloud_request" where
  "pai_stop H p job_id =
     and_then (resource_component job_id) (\<lambda>_.
       pai_request H p PaiDlc MPost ''StopJob'' (''/api/v1/jobs/'' @ job_id @ ''/stop'') [] None)"

definition pai_quota :: "'f hashing \<Rightarrow> pai_profile \<Rightarrow> cloud_fault + cloud_request" where
  "pai_quota H p =
     pai_request H p PaiStudio MGet ''GetQuota'' (''/api/v1/quotas/'' @ quota_id p) [(''Verbose'', ''true'')] None"

definition pai_queue :: "'f hashing \<Rightarrow> pai_profile \<Rightarrow> string \<Rightarrow> cloud_fault + cloud_request" where
  "pai_queue H p job_id =
     and_then (resource_component job_id) (\<lambda>_.
       pai_request H p PaiStudio MGet ''ListQuotaWorkloads'' (''/api/v1/quotas/'' @ quota_id p @ ''/workloads'')
         [(''WorkspaceIds'', workspace_id p), (''WorkloadType'', ''dlc''), (''WorkloadIds'', job_id),
          (''PageNumber'', ''1''), (''PageSize'', ''2'')] None)"

definition pai_pod_logs :: "'f hashing \<Rightarrow> pai_profile \<Rightarrow> string \<Rightarrow> string \<Rightarrow> nat \<Rightarrow> cloud_fault + cloud_request" where
  "pai_pod_logs H p job_id pod tail =
     and_then (resource_component job_id) (\<lambda>_.
     and_then (resource_component pod) (\<lambda>_.
     if tail < 1 \<or> tail > 10000 then Inl (CloudFault ''log tail'')
     else pai_request H p PaiDlc MGet ''GetPodLogs'' (''/api/v1/jobs/'' @ job_id @ ''/pods/'' @ pod @ ''/logs'')
       [(''MaxLines'', show_nat tail)] None))"

definition pai_job_events :: "'f hashing \<Rightarrow> pai_profile \<Rightarrow> string \<Rightarrow> cloud_fault + cloud_request" where
  "pai_job_events H p job_id =
     and_then (resource_component job_id) (\<lambda>_.
       pai_request H p PaiDlc MGet ''GetJobEvents'' (''/api/v1/jobs/'' @ job_id @ ''/events'') [] None)"

section \<open>What the provider answers\<close>

record cloud_reader =
  redact_line :: "string \<Rightarrow> string"
  object_of :: "string \<Rightarrow> jobject option"

record queue_diagnostic =
  qd_source :: string
  qd_code :: "string option"
  qd_code_type :: "string option"
  qd_reason :: "string option"
  qd_position :: "nat option"
  qd_priority :: "nat option"
  qd_enqueued :: "string option"
  qd_blocker :: "json option"

definition take_chars :: "nat \<Rightarrow> string \<Rightarrow> string" where
  "take_chars n s = concat (take n (utf8_chars s))"

definition safe_text :: "cloud_reader \<Rightarrow> json option \<Rightarrow> string option" where
  "safe_text Q v = map_option (\<lambda>s. take_chars 2048 (redact_line Q (take_chars 8192 s))) (Option.bind v as_str)"

definition option_or :: "'a option \<Rightarrow> 'a option \<Rightarrow> 'a option" where
  "option_or a b = (case a of Some x \<Rightarrow> Some x | None \<Rightarrow> b)"

definition queue_row :: "cloud_reader \<Rightarrow> json \<Rightarrow> cloud_fault + queue_diagnostic" where
  "queue_row Q row =
     (if \<not> is_object row then Inl (CloudFault ''queue row'')
      else
      let q = \<lparr>qd_source = ''pai-quota-workload'', qd_code = safe_text Q (jget row ''Code''),
                qd_code_type = safe_text Q (jget row ''CodeType''), qd_reason = safe_text Q (jget row ''Reason''),
                qd_position = as_u64 (jidx row ''Position''), qd_priority = as_u64 (jidx row ''Priority''),
                qd_enqueued = safe_text Q (jget row ''GmtEnqueuedTime''), qd_blocker = None\<rparr>
      in case Option.bind (as_str (jidx row ''Reason'')) (\<lambda>s. if length s \<le> 16384 then object_of Q s else None) of
        None \<Rightarrow> Inr q
      | Some blocker \<Rightarrow>
          let fields = List.map_filter (\<lambda>k. map_option (\<lambda>v. (k, JStr v)) (safe_text Q (obj_get blocker k)))
                [''CodeType'', ''Code'', ''Reason'']
          in Inr (q\<lparr>qd_code := option_or (safe_text Q (obj_get fields ''Code'')) (qd_code q),
               qd_code_type := option_or (safe_text Q (obj_get fields ''CodeType'')) (qd_code_type q),
               qd_reason := safe_text Q (obj_get fields ''Reason''), qd_blocker := Some (JObj fields)\<rparr>))"

record job_observation =
  jo_job :: string
  jo_provider_state :: string
  jo_state :: run_state
  jo_queue :: "queue_diagnostic option"

record cloud_page =
  pg_rows :: "json list"
  pg_total :: "nat option"
  pg_next :: "string option"

definition pai_page :: "json \<Rightarrow> string \<Rightarrow> nat \<Rightarrow> nat \<Rightarrow> cloud_fault + cloud_page" where
  "pai_page v field page per_page =
     and_then (ok_or (as_array (jidx v field)) (CloudFault ''list rows'')) (\<lambda>rows.
     and_then (ok_or (as_u64 (jidx v ''TotalCount'')) (CloudFault ''list total'')) (\<lambda>total.
     if page = 0 \<or> per_page = 0 \<or> per_page > 100 \<or> length rows > per_page \<or> total > 10000 then Inl (CloudFault ''list bounds'')
     else
     let offset = (page - 1) * per_page in
     if offset > total \<or> offset + length rows > total \<or> offset + length rows < total \<and> length rows \<noteq> per_page
     then Inl (CloudFault ''incomplete page'')
     else Inr \<lparr>pg_rows = rows, pg_total = Some total,
                pg_next = (if offset + length rows < total then Some (show_nat (page + 1)) else None)\<rparr>))"

definition resource_text :: "json \<Rightarrow> cloud_fault + string" where
  "resource_text v =
     (case v of
        JStr s \<Rightarrow> Inr s
      | JNum t \<Rightarrow> if as_u64 v \<noteq> None then Inr t else Inl (CloudFault ''resource identity'')
      | _ \<Rightarrow> Inl (CloudFault ''resource identity''))"

definition normalize_state :: "string \<Rightarrow> run_state" where
  "normalize_state s =
     (if s \<in> set [''Creating'', ''Queuing'', ''Bidding''] then Queued
      else if s \<in> set [''Dequeued'', ''WaitingConfig'', ''EnvPreparing'', ''SanityChecking''] then Starting
      else if s \<in> set [''Running'', ''Restarting''] then Running
      else if s \<in> set [''SucceededReserving'', ''Succeeded''] then Succeeded
      else if s \<in> set [''FailedReserving'', ''Failed''] then Failed
      else if s = ''Stopped'' then Cancelled
      else Unknown)"

text \<open>A row is of a job when its workspace, quota, name and tags are those the create request carried.\<close>

definition validate_row ::
    "'f hashing \<Rightarrow> pai_profile \<Rightarrow> json \<Rightarrow> cloud_job \<Rightarrow> string option \<Rightarrow> cloud_fault + job_observation" where
  "validate_row H p row j expected =
     and_then (validate_profile p) (\<lambda>_.
     and_then (validate_job j) (\<lambda>_.
     and_then (ok_or (as_str (jidx row ''JobId'')) (CloudFault ''job ID'')) (\<lambda>i.
     and_then (resource_component i) (\<lambda>_.
     if (case expected of Some e \<Rightarrow> e \<noteq> i | None \<Rightarrow> False) then Inl (CloudFault ''job ownership'')
     else
     and_then (resource_text (jidx row ''WorkspaceId'')) (\<lambda>workspace.
     if workspace \<noteq> workspace_id p \<or> jidx row ''ResourceId'' \<noteq> JStr (quota_id p)
     then Inl (CloudFault ''job ownership'')
     else
     and_then (job_name j) (\<lambda>name.
     if jidx row ''DisplayName'' \<noteq> JStr name then Inl (CloudFault ''job ownership'')
     else
     and_then (profile_scope H p) (\<lambda>sc.
     and_then (job_tags j sc) (\<lambda>tags.
     if \<not> jeq (jidx (jidx row ''Settings'') ''Tags'') tags then Inl (CloudFault ''job ownership'')
     else
     and_then (ok_or (as_str (jidx row ''Status'')) (CloudFault ''job state'')) (\<lambda>raw.
     if length raw > 128 \<or> has_control raw then Inl (CloudFault ''job state'')
     else Inr \<lparr>jo_job = i, jo_provider_state = raw, jo_state = normalize_state raw, jo_queue = None\<rparr>)))))))))"

definition validate_queue ::
    "cloud_reader \<Rightarrow> pai_profile \<Rightarrow> json \<Rightarrow> string \<Rightarrow> cloud_fault + queue_diagnostic option" where
  "validate_queue Q p v job_id =
     and_then (validate_profile p) (\<lambda>_.
     and_then (resource_component job_id) (\<lambda>_.
     and_then (ok_or (as_array (jidx v ''Workloads'')) (CloudFault ''queue rows'')) (\<lambda>rows.
     if as_u64 (jidx v ''TotalCount'') \<noteq> Some (length rows) \<or> length rows > 1 then Inl (CloudFault ''ambiguous queue'')
     else case rows of
       [] \<Rightarrow> Inr None
     | row # _ \<Rightarrow>
         if jidx row ''WorkloadId'' \<noteq> JStr job_id then Inl (CloudFault ''queue scope'')
         else
         and_then (resource_text (jidx row ''WorkspaceId'')) (\<lambda>workspace.
         if workspace \<noteq> workspace_id p \<or> jidx row ''QuotaId'' \<noteq> JStr (quota_id p) \<or> jidx row ''WorkloadType'' \<noteq> JStr ''dlc''
         then Inl (CloudFault ''queue scope'')
         else and_then (queue_row Q row) (\<lambda>q. Inr (Some q))))))"

subsection \<open>Quotas\<close>

definition quota_count :: "json \<Rightarrow> cloud_fault + nat" where
  "quota_count v =
     (case (case v of JStr s \<Rightarrow> Some s | JNum t \<Rightarrow> Some t | _ \<Rightarrow> None) of
        None \<Rightarrow> Inl (CloudFault ''quota count'')
      | Some raw \<Rightarrow>
          if raw = [] \<or> \<not> list_all is_ascii_digit raw then Inl (CloudFault ''quota count'')
          else ok_or (parse_unsigned u64_limit raw) (CloudFault ''quota overflow''))"

fun quota_units :: "(string \<times> nat) list \<Rightarrow> string \<Rightarrow> cloud_fault + nat" where
  "quota_units [] v = Inl (CloudFault ''quota memory unit'')"
| "quota_units ((u, ex) # us) v =
     (case strip_suffix u v of
        Some digits \<Rightarrow>
          and_then (quota_count (JStr digits)) (\<lambda>n.
            ok_or (checked_mul_u64 n (1024 ^ ex)) (CloudFault ''quota overflow''))
      | None \<Rightarrow> quota_units us v)"

definition quota_memory :: "json \<Rightarrow> cloud_fault + nat" where
  "quota_memory v =
     and_then (ok_or (as_str v) (CloudFault ''quota memory'')) (\<lambda>s.
       quota_units [(''Ki'', 1), (''Mi'', 2), (''Gi'', 3), (''Ti'', 4)] s)"

fun quota_resources :: "(string \<times> nat \<times> nat) list \<Rightarrow> cloud_fault + jobject" where
  "quota_resources [] = Inr []"
| "quota_resources ((name, a, b) # rs) =
     (if a < b then Inl (CloudFault ''quota allocation exceeds total'')
      else and_then (quota_resources rs) (\<lambda>m. Inr
        ((name, JObj [(''total'', jnat a), (''allocated'', jnat b), (''unallocated'', jnat (a - b))]) # m)))"

definition quota_view :: "pai_profile \<Rightarrow> json \<Rightarrow> cloud_fault + json" where
  "quota_view p quota =
     and_then (validate_profile p) (\<lambda>_.
     if jidx quota ''QuotaId'' \<noteq> JStr (quota_id p) \<or>
        \<not> (case as_array (jidx quota ''Workspaces'') of
             Some rows \<Rightarrow> list_ex (\<lambda>r. resource_text (jidx r ''WorkspaceId'') = Inr (workspace_id p)) rows
           | None \<Rightarrow> False)
     then Inl (CloudFault ''quota workspace scope'')
     else
     let total = jidx (jidx quota ''QuotaDetails'') ''ActualMinQuota'';
         used = jidx (jidx quota ''QuotaDetails'') ''AllocatedQuota'' in
     and_then (quota_count (jidx total ''GPU'')) (\<lambda>g.
     and_then (quota_count (jidx used ''GPU'')) (\<lambda>g'.
     and_then (quota_count (jidx total ''CPU'')) (\<lambda>c.
     and_then (quota_count (jidx used ''CPU'')) (\<lambda>c'.
     and_then (quota_memory (jidx total ''Memory'')) (\<lambda>m.
     and_then (quota_memory (jidx used ''Memory'')) (\<lambda>m'.
     and_then (quota_resources [(''gpus'', g, g'), (''cpus'', c, c'), (''memory_bytes'', m, m')]) (\<lambda>resources.
     case as_str (jidx quota ''Status'') of
       None \<Rightarrow> Inl (CloudFault ''quota status'')
     | Some st \<Rightarrow>
         if length st > 128 \<or> has_control st then Inl (CloudFault ''quota status'')
         else Inr (JObj [(''source'', JStr ''pai-quota''), (''scope'', JStr ''quota''), (''quota_id'', JStr (quota_id p)),
           (''resources'', JObj resources), (''quota_state'', JStr st), (''pending_queue_entries'', JNull)])))))))))"

subsection \<open>Diagnostics\<close>

abbreviation DIAGNOSTIC_LINE_CHARS :: nat where "DIAGNOSTIC_LINE_CHARS \<equiv> 4096"
abbreviation DIAGNOSTIC_TAIL_BYTES :: nat where "DIAGNOSTIC_TAIL_BYTES \<equiv> 256 * 1024"

definition clipped :: "string \<Rightarrow> string" where
  "clipped s = take_chars DIAGNOSTIC_LINE_CHARS s"

definition provider_text :: "json \<Rightarrow> json" where
  "provider_text v = (case as_str v of Some s \<Rightarrow> JStr (clipped s) | None \<Rightarrow> JNull)"

definition diagnostic_job :: "json \<Rightarrow> json" where
  "diagnostic_job row = JObj
     [(''used_idle'', case as_bool (jidx row ''UseOversoldResource'') of Some b \<Rightarrow> JBool b | None \<Rightarrow> JNull),
      (''provider_state'', provider_text (jidx row ''Status'')), (''sub_status'', provider_text (jidx row ''SubStatus'')),
      (''reason_code'', provider_text (jidx row ''ReasonCode'')),
      (''reason_message'', provider_text (jidx row ''ReasonMessage'')),
      (''created_at'', provider_text (jidx row ''GmtCreateTime'')),
      (''running_at'', provider_text (jidx row ''GmtRunningTime'')),
      (''failed_at'', provider_text (jidx row ''GmtFailedTime'')),
      (''finished_at'', provider_text (jidx row ''GmtFinishTime''))]"

definition diagnostic_pod :: "json \<Rightarrow> json" where
  "diagnostic_pod pod = JObj
     [(''pod_id'', provider_text (jidx pod ''PodId'')), (''type'', provider_text (jidx pod ''Type'')),
      (''status'', provider_text (jidx pod ''Status'')), (''sub_status'', provider_text (jidx pod ''SubStatus'')),
      (''started_at'', provider_text (jidx pod ''GmtStartTime'')),
      (''finished_at'', provider_text (jidx pod ''GmtFinishTime''))]"

fun within_bytes :: "nat \<Rightarrow> string list \<Rightarrow> string list" where
  "within_bytes used [] = []"
| "within_bytes used (l # ls) =
     (let used = used + length l + 1 in
      if used \<le> DIAGNOSTIC_TAIL_BYTES then l # within_bytes used ls else [])"

definition diagnostic_tail :: "json \<Rightarrow> nat \<Rightarrow> string list" where
  "diagnostic_tail v n =
     (let rows = (case v of
          JArr xs \<Rightarrow> map clipped (List.map_filter as_str xs)
        | JStr s \<Rightarrow> map clipped (lines s)
        | _ \<Rightarrow> [])
      in rev (within_bytes 0 (take n (rev rows))))"

section \<open>Commands and ownership\<close>

lemma words_single_quoted:
  "shell_words Bare None (single_quoted a @ rest) = shell_words Bare (Some a) rest"
  using words_single [of "[]" a rest] by (simp add: single_quoted_def extend_word_def)

lemma words_joined:
  "args \<noteq> [] \<Longrightarrow> shell_words Bare None (join '' '' (map single_quoted args)) = Some args"
proof (induction args)
  case (Cons a args)
  show ?case
  proof (cases args)
    case Nil
    then show ?thesis using words_single_quoted [of a "[]"] by simp
  next
    case (Cons b bs)
    with Cons.IH words_single_quoted [of a "'' '' @ join '' '' (map single_quoted args)"] show ?thesis by simp
  qed
qed simp

lemma cloud_shell_join_reads_back:
  "cloud_shell_join args = Inr text \<Longrightarrow> shell_words Bare None text = Some args"
  using words_joined [of args] by (auto simp: cloud_shell_join_def Let_def split: if_splits)

text \<open>What identifies a job to the provider: the names it is tagged with.\<close>

definition job_key :: "cloud_job \<Rightarrow> string \<times> string \<times> string \<times> string" where
  "job_key j = (cj_project j, cj_run j, cj_attempt j, cj_token j)"

lemma job_tags_Inr:
  "job_tags j sc = Inr tags \<longleftrightarrow> validate_job j = Inr () \<and> valid_digest sc \<and>
     tags = JObj [(''ml-expd.project'', JStr (cj_project j)), (''ml-expd.run'', JStr (cj_run j)),
       (''ml-expd.attempt'', JStr (cj_attempt j)), (''ml-expd.scope'', JStr sc), (''ml-expd.submission'', JStr (cj_token j))]"
  by (auto simp: job_tags_def res_simps)

lemma job_name_Inr: "job_name j = Inr n \<longleftrightarrow> validate_job j = Inr () \<and> n = ''ml-exp-'' @ cj_token j"
  by (auto simp: job_name_def res_simps)

lemma tags_jeq:
  "job_tags j sc = Inr tags \<Longrightarrow> job_tags j' sc = Inr tags' \<Longrightarrow> jeq tags tags' \<longleftrightarrow> job_key j = job_key j'"
  by (auto simp: job_tags_Inr job_key_def)

lemma guard_eq_Inr: "(if c then Inl e else x) = Inr y \<longleftrightarrow> \<not> c \<and> x = Inr y" by simp

lemma validate_row_Inr:
  "validate_row H p row j expected = Inr ob \<longleftrightarrow>
     validate_profile p = Inr () \<and> validate_job j = Inr () \<and> jidx row ''JobId'' = JStr (jo_job ob) \<and>
     is_ok (resource_component (jo_job ob)) \<and> (\<forall>e. expected = Some e \<longrightarrow> e = jo_job ob) \<and>
     resource_text (jidx row ''WorkspaceId'') = Inr (workspace_id p) \<and> jidx row ''ResourceId'' = JStr (quota_id p) \<and>
     jidx row ''DisplayName'' = JStr (''ml-exp-'' @ cj_token j) \<and>
     (\<exists>sc tags. profile_scope H p = Inr sc \<and> job_tags j sc = Inr tags \<and>
        jeq (jidx (jidx row ''Settings'') ''Tags'') tags) \<and>
     jidx row ''Status'' = JStr (jo_provider_state ob) \<and> length (jo_provider_state ob) \<le> 128 \<and>
     \<not> has_control (jo_provider_state ob) \<and> jo_state ob = normalize_state (jo_provider_state ob) \<and> jo_queue ob = None"
  (is "?l \<longleftrightarrow> ?r")
proof
  assume ?l
  then show ?r
    unfolding validate_row_def by (clarsimp simp: res_simps guard_eq_Inr job_name_Inr is_ok_iff)
next
  assume r: ?r
  then obtain x sc tags where "resource_component (jo_job ob) = Inr x" "profile_scope H p = Inr sc" "job_tags j sc = Inr tags"
    "jeq (jidx (jidx row ''Settings'') ''Tags'') tags" by (auto simp: is_ok_iff)
  with r show ?l unfolding validate_row_def by (cases ob) (simp add: res_simps guard_eq_Inr job_name_Inr split: option.split)
qed

text \<open>C19. A created job is recognised, and as no other job. Let a row of the provider carry the workspace, quota,
  name and tags of a create request, an acceptable id and a plain state. Then the row is accepted as an
  observation of a valid job exactly when that job has the project, run, attempt and submission token
  the request was made for.\<close>

theorem created_jobs_are_recognised:
  assumes "pai_create H p j a = Inr rq" and "rq_body rq = Some doc" and "validate_job j' = Inr ()"
    and "jidx row ''JobId'' = JStr i" and "is_ok (resource_component i)"
    and "jidx row ''Status'' = JStr st" and "length st \<le> 128" and "\<not> has_control st"
    and "jidx row ''WorkspaceId'' = jidx doc ''WorkspaceId''" and "jidx row ''ResourceId'' = jidx doc ''ResourceId''"
    and "jidx row ''DisplayName'' = jidx doc ''DisplayName''"
    and "jidx (jidx row ''Settings'') ''Tags'' = jidx (jidx doc ''Settings'') ''Tags''"
  shows "is_ok (validate_row H p row j' (Some i)) \<longleftrightarrow> job_key j' = job_key j"
proof -
  from assms(1,2) obtain name command sc tags credentials where
      p: "validate_profile p = Inr ()" and j: "validate_job j = Inr ()" and n: "job_name j = Inr name"
      and sc: "profile_scope H p = Inr sc" and t: "job_tags j sc = Inr tags"
      and doc: "doc = create_document p j a name command tags credentials"
    by (auto simp: pai_create_def pai_request_def make_request_def Let_def res_simps split: if_splits)
  have fields: "jidx doc ''WorkspaceId'' = JStr (workspace_id p)" "jidx doc ''ResourceId'' = JStr (quota_id p)"
      "jidx doc ''DisplayName'' = JStr name" "jidx (jidx doc ''Settings'') ''Tags'' = tags"
    by (simp_all add: doc create_document_def jidx_JObj Let_def)
  have d: "valid_digest sc" using t by (simp add: job_tags_Inr)
  obtain tags' where t': "job_tags j' sc = Inr tags'" using d assms(3) by (simp add: job_tags_Inr)
  have "is_ok (validate_row H p row j' (Some i)) \<longleftrightarrow> name = ''ml-exp-'' @ cj_token j' \<and> jeq tags tags'"
    unfolding is_ok_iff validate_row_Inr using assms(3-12) p sc t' fields
    by (auto simp: resource_text_def is_ok_iff intro!: exI [of _ "\<lparr>jo_job = i, jo_provider_state = st, jo_state = normalize_state st, jo_queue = None\<rparr>"])
  also have "\<dots> \<longleftrightarrow> job_key j' = job_key j" using tags_jeq [OF t t'] n by (auto simp: job_name_Inr job_key_def)
  finally show ?thesis .
qed

section \<open>A run\<close>

definition sample_profile :: pai_profile where
  "sample_profile =
     \<lparr>region = ''cn-wulanchabu'', workspace_id = ''w1'', quota_id = ''quota1'', max_gpus = 8, max_cpus = 96,
      max_memory_gb = 512, gpu_type = Some ''A100'', storage = None, vpc = None\<rparr>"

definition sample_hex :: string where "sample_hex = replicate 64 (CHR ''a'')"

definition sample_job :: cloud_job where
  "sample_job =
     \<lparr>cj_project = ''demo'', cj_run = ''run1'', cj_attempt = ''attempt-001'', cj_token = replicate 32 (CHR ''b''),
      cj_source = ''source.'' @ sample_hex, cj_image = ''registry/team/image@sha256:'' @ sample_hex,
      cj_command = [''python'', ''it'' @ [squote] @ ''s.py''], cj_gpus = 1, cj_cpus = 8, cj_memory_gb = 32,
      cj_seconds = 3601, cj_priority = 5, cj_read_only = False\<rparr>"

definition cloud_hashing :: "unit hashing" where
  "cloud_hashing =
     \<lparr>floats = \<lparr>as_f64 = (\<lambda>_. None), is_finite = (\<lambda>_. True), is_zero = (\<lambda>_. True), positive_zero = (), format_finite = (\<lambda>_. ''0.0'')\<rparr>,
      writer = (\<lambda>s. [CHR 0x22] @ s @ [CHR 0x22]), sha_hex = (\<lambda>_. replicate 64 (CHR ''c''))\<rparr>"

definition sample_row :: "json \<Rightarrow> json" where
  "sample_row doc = JObj
     [(''JobId'', JStr ''dlc1''), (''Status'', JStr ''Running''), (''WorkspaceId'', jidx doc ''WorkspaceId''),
      (''ResourceId'', jidx doc ''ResourceId''), (''DisplayName'', jidx doc ''DisplayName''),
      (''Settings'', JObj [(''Tags'', jidx (jidx doc ''Settings'') ''Tags'')])]"

lemma sample_create:
  "case pai_create cloud_hashing sample_profile sample_job AllowIdle of
     Inl _ \<Rightarrow> False | Inr rq \<Rightarrow> rq_action rq = ''CreateJob'' \<and> rq_body rq \<noteq> None"
  "is_ok (validate_job sample_job)" "is_ok (validate_job (sample_job\<lparr>cj_attempt := ''attempt-002''\<rparr>))"
  "is_ok (resource_component ''dlc1'')" "\<not> has_control ''Running''"
  by code_simp+

theorem created_jobs_are_recognised_witness:
  "\<exists>rq doc. pai_create cloud_hashing sample_profile sample_job AllowIdle = Inr rq \<and> rq_body rq = Some doc \<and>
     is_ok (validate_row cloud_hashing sample_profile (sample_row doc) sample_job (Some ''dlc1'')) \<and>
     \<not> is_ok (validate_row cloud_hashing sample_profile (sample_row doc)
          (sample_job\<lparr>cj_attempt := ''attempt-002''\<rparr>) (Some ''dlc1''))"
proof -
  obtain rq doc where rq: "pai_create cloud_hashing sample_profile sample_job AllowIdle = Inr rq" "rq_body rq = Some doc"
    using sample_create(1) by (auto split: sum.splits)
  have ok: "validate_job sample_job = Inr ()" "validate_job (sample_job\<lparr>cj_attempt := ''attempt-002''\<rparr>) = Inr ()"
    using sample_create(2,3) by (auto simp: is_ok_iff)
  have row: "jidx (sample_row doc) ''JobId'' = JStr ''dlc1''" "jidx (sample_row doc) ''Status'' = JStr ''Running''"
    "jidx (sample_row doc) ''WorkspaceId'' = jidx doc ''WorkspaceId''"
    "jidx (sample_row doc) ''ResourceId'' = jidx doc ''ResourceId''"
    "jidx (sample_row doc) ''DisplayName'' = jidx doc ''DisplayName''"
    "jidx (jidx (sample_row doc) ''Settings'') ''Tags'' = jidx (jidx doc ''Settings'') ''Tags''"
    by (simp_all add: sample_row_def jidx_JObj)
  have "is_ok (validate_row cloud_hashing sample_profile (sample_row doc) j (Some ''dlc1'')) \<longleftrightarrow> job_key j = job_key sample_job"
    if "validate_job j = Inr ()" for j
    by (rule created_jobs_are_recognised [OF rq that row(1) sample_create(4) row(2) _ sample_create(5) row(3-6)]) simp
  with ok rq show ?thesis by (auto simp: job_key_def sample_job_def)
qed

end
