(* ===== verification/CloudAdapter.thy ===== *)
theory CloudAdapter
  imports Cloud
begin

text \<open>
  The bound provider adapter (\<open>rust/crates/server/src/backends/cloud/adapter.rs\<close>): creating, observing,
  finding and stopping one job through a transport. The transport is the parameter \<open>T\<close>: what it answers
  a request, and the state of the world after it, are the provider's.
\<close>

record cloud_error =
  ce_code :: string
  ce_status :: "nat option"
  ce_uncertain :: bool

definition configuration_error :: cloud_error where
  "configuration_error = \<lparr>ce_code = ''CLOUD_CONFIGURATION_INVALID'', ce_status = None, ce_uncertain = False\<rparr>"

definition evidence_error :: cloud_error where
  "evidence_error = \<lparr>ce_code = ''CLOUD_EVIDENCE_INVALID'', ce_status = None, ce_uncertain = False\<rparr>"

definition transport_error :: "bool \<Rightarrow> cloud_error" where
  "transport_error u = \<lparr>ce_code = ''CLOUD_RESPONSE_UNAVAILABLE'', ce_status = None, ce_uncertain = u\<rparr>"

type_synonym 'p transport = "cloud_request \<Rightarrow> 'p \<Rightarrow> (cloud_error + json) \<times> 'p"

text \<open>The rest of a computation, when the call before it succeeded.\<close>

definition answered :: "('e + 'a) \<times> 'p \<Rightarrow> ('a \<Rightarrow> 'p \<Rightarrow> ('e + 'b) \<times> 'p) \<Rightarrow> ('e + 'b) \<times> 'p" where
  "answered m f = (case m of (Inl e, w) \<Rightarrow> (Inl e, w) | (Inr x, w) \<Rightarrow> f x w)"

lemma answered_simps [simp]: "answered (Inl e, w) f = (Inl e, w)" "answered (Inr x, w) f = f x w"
  by (simp_all add: answered_def)

definition uncertain :: "(cloud_error + 'a) \<times> 'p \<Rightarrow> (cloud_error + 'a) \<times> 'p" where
  "uncertain m = (case m of (Inl e, w) \<Rightarrow> (Inl (e\<lparr>ce_uncertain := True\<rparr>), w) | (Inr x, w) \<Rightarrow> (Inr x, w))"

definition provider_call ::
    "'p transport \<Rightarrow> cloud_fault + cloud_request \<Rightarrow> 'p \<Rightarrow> (cloud_error + json) \<times> 'p" where
  "provider_call T r w = (case r of Inl _ \<Rightarrow> (Inl configuration_error, w) | Inr rq \<Rightarrow> T rq w)"

section \<open>Handles\<close>

record job_handle =
  ha_profile :: string
  ha_request :: string
  ha_job :: string
  ha_uid :: "string option"

definition checked_profile :: "pai_profile \<Rightarrow> cloud_error + unit" where
  "checked_profile p = map_err (\<lambda>_. configuration_error) (validate_profile p)"

text \<open>The adapter's profile is tagged with its provider.\<close>

definition profile_digest :: "'f hashing \<Rightarrow> pai_profile \<Rightarrow> cloud_error + string" where
  "profile_digest H p =
     and_then (checked_profile p) (\<lambda>_.
       map_err (\<lambda>_. configuration_error)
         (cloud_digest H (JObj ((''provider'', JStr ''pai'') # profile_members p))))"

definition job_digest :: "'f hashing \<Rightarrow> cloud_job \<Rightarrow> cloud_error + string" where
  "job_digest H j =
     and_then (map_err (\<lambda>_. evidence_error) (validate_job j)) (\<lambda>_.
       map_err (\<lambda>_. evidence_error) (cloud_digest H (job_value j)))"

definition validate_handle :: "'f hashing \<Rightarrow> pai_profile \<Rightarrow> cloud_job \<Rightarrow> job_handle \<Rightarrow> cloud_error + unit" where
  "validate_handle H p j h =
     and_then (profile_digest H p) (\<lambda>pd.
     if ha_profile h \<noteq> pd then Inl evidence_error
     else
     and_then (job_digest H j) (\<lambda>jd.
     if ha_request h \<noteq> jd \<or> \<not> is_ok (resource_component (ha_job h)) then Inl evidence_error
     else if ha_uid h \<noteq> None then Inl evidence_error else Inr ()))"

definition row_handle :: "'f hashing \<Rightarrow> pai_profile \<Rightarrow> cloud_job \<Rightarrow> json \<Rightarrow> cloud_error + job_handle" where
  "row_handle H p j row =
     and_then (map_err (\<lambda>_. evidence_error) (validate_row H p row j None)) (\<lambda>ob.
     and_then (profile_digest H p) (\<lambda>pd.
     and_then (job_digest H j) (\<lambda>jd.
     let h = \<lparr>ha_profile = pd, ha_request = jd, ha_job = jo_job ob, ha_uid = None\<rparr> in
     and_then (validate_handle H p j h) (\<lambda>_. Inr h))))"

section \<open>Operations\<close>

definition raw_job :: "'f hashing \<Rightarrow> 'p transport \<Rightarrow> pai_profile \<Rightarrow> string \<Rightarrow> 'p \<Rightarrow> (cloud_error + json) \<times> 'p" where
  "raw_job H T p i w = provider_call T (pai_get H p i) w"

text \<open>A created id is read back and compared before a handle is returned.\<close>

definition create_job ::
    "'f hashing \<Rightarrow> 'p transport \<Rightarrow> pai_profile \<Rightarrow> cloud_job \<Rightarrow> pai_allocation \<Rightarrow> 'p \<Rightarrow> (cloud_error + job_handle) \<times> 'p" where
  "create_job H T p j a w =
     answered (provider_call T (pai_create H p j a) w) (\<lambda>response w.
       case as_str (jidx response ''JobId'') of
         None \<Rightarrow> (Inl \<lparr>ce_code = ''CLOUD_CREATE_UNCONFIRMED'', ce_status = None, ce_uncertain = True\<rparr>, w)
       | Some i \<Rightarrow>
           if \<not> is_ok (resource_component i)
           then (Inl \<lparr>ce_code = ''CLOUD_CREATE_UNCONFIRMED'', ce_status = None, ce_uncertain = True\<rparr>, w)
           else
           answered (uncertain (raw_job H T p i w)) (\<lambda>row w.
           answered (uncertain (row_handle H p j row, w)) (\<lambda>h w.
             if ha_job h \<noteq> i
             then (Inl \<lparr>ce_code = ''CLOUD_CREATE_IDENTITY_CONFLICT'', ce_status = None, ce_uncertain = True\<rparr>, w)
             else (Inr h, w))))"

definition with_queue ::
    "'f hashing \<Rightarrow> cloud_reader \<Rightarrow> 'p transport \<Rightarrow> pai_profile \<Rightarrow> string \<Rightarrow> job_observation \<Rightarrow> 'p
     \<Rightarrow> (cloud_error + job_observation) \<times> 'p" where
  "with_queue H Q T p i ob w =
     (if jo_state ob = Queued
      then case provider_call T (pai_queue H p i) w of
        (Inr qv, w) \<Rightarrow>
          (case validate_queue Q p qv i of
             Inr d \<Rightarrow> (Inr (ob\<lparr>jo_queue := d\<rparr>), w)
           | Inl _ \<Rightarrow> (Inr ob, w))
      | (Inl _, w) \<Rightarrow> (Inr ob, w)
      else (Inr ob, w))"

definition observe_job ::
    "'f hashing \<Rightarrow> cloud_reader \<Rightarrow> 'p transport \<Rightarrow> pai_profile \<Rightarrow> cloud_job \<Rightarrow> job_handle \<Rightarrow> 'p
     \<Rightarrow> (cloud_error + job_observation) \<times> 'p" where
  "observe_job H Q T p j h w =
     answered (validate_handle H p j h, w) (\<lambda>_ w.
     answered (raw_job H T p (ha_job h) w) (\<lambda>row w.
     answered (map_err (\<lambda>_. evidence_error) (validate_row H p row j (Some (ha_job h))), w) (\<lambda>ob w.
       with_queue H Q T p (ha_job h) ob w)))"

fun find_rows ::
    "'f hashing \<Rightarrow> pai_profile \<Rightarrow> cloud_job \<Rightarrow> json list \<Rightarrow> string list \<times> job_handle option
     \<Rightarrow> cloud_error + string list \<times> job_handle option" where
  "find_rows H p j [] (ids, result) = Inr (ids, result)"
| "find_rows H p j (row # rows) (ids, result) =
     and_then (row_handle H p j row) (\<lambda>h.
       if ha_job h \<in> set ids \<or> result \<noteq> None then Inl evidence_error
       else find_rows H p j rows (ha_job h # ids, Some h))"

text \<open>At most a hundred pages; the first argument counts them down.\<close>

fun find_pages ::
    "nat \<Rightarrow> 'f hashing \<Rightarrow> 'p transport \<Rightarrow> pai_profile \<Rightarrow> cloud_job \<Rightarrow> string \<Rightarrow> string list \<Rightarrow>
     string list \<times> job_handle option \<Rightarrow> nat option \<Rightarrow> nat \<Rightarrow> 'p \<Rightarrow> (cloud_error + job_handle option) \<times> 'p" where
  "find_pages 0 H T p j token tokens found announced received w = (Inl evidence_error, w)"
| "find_pages (Suc n) H T p j token tokens found announced received w =
     (if token \<in> set tokens then (Inl evidence_error, w)
      else
      answered (ok_or (parse_unsigned (2 ^ 32) token) evidence_error, w) (\<lambda>number w.
      answered (provider_call T (pai_list H p j number) w) (\<lambda>v w.
      answered (map_err (\<lambda>_. evidence_error) (pai_page v ''Jobs'' number 100), w) (\<lambda>page w.
      if announced \<noteq> None \<and> pg_total page \<noteq> announced then (Inl evidence_error, w)
      else
      let announced = (if announced = None then pg_total page else announced);
          received = received + length (pg_rows page)
      in
      answered (find_rows H p j (pg_rows page) found, w) (\<lambda>found w.
        case pg_next page of
          Some next_token \<Rightarrow> find_pages n H T p j next_token (token # tokens) found announced received w
        | None \<Rightarrow>
            if announced \<noteq> None \<and> announced \<noteq> Some received then (Inl evidence_error, w)
            else (Inr (snd found), w))))))"

definition find_job ::
    "'f hashing \<Rightarrow> 'p transport \<Rightarrow> pai_profile \<Rightarrow> cloud_job \<Rightarrow> 'p \<Rightarrow> (cloud_error + job_handle option) \<times> 'p" where
  "find_job H T p j w = find_pages 100 H T p j ''1'' [] ([], None) None 0 w"

definition stop_job ::
    "'f hashing \<Rightarrow> cloud_reader \<Rightarrow> 'p transport \<Rightarrow> pai_profile \<Rightarrow> cloud_job \<Rightarrow> job_handle \<Rightarrow> 'p
     \<Rightarrow> (cloud_error + job_observation) \<times> 'p" where
  "stop_job H Q T p j h w =
     answered (observe_job H Q T p j h w) (\<lambda>ob w.
     if is_terminal (jo_state ob) then (Inr ob, w)
     else
     answered (provider_call T (pai_stop H p (ha_job h)) w) (\<lambda>_ w.
       uncertain (observe_job H Q T p j h w)))"

definition read_quota :: "'f hashing \<Rightarrow> 'p transport \<Rightarrow> pai_profile \<Rightarrow> 'p \<Rightarrow> (cloud_error + json) \<times> 'p" where
  "read_quota H T p w =
     answered (provider_call T (pai_quota H p) w) (\<lambda>v w.
     let quota = (case jget v ''Quota'' of Some q \<Rightarrow> q | None \<Rightarrow> v) in
     if jidx quota ''QuotaId'' \<noteq> JStr (quota_id p) then (Inl evidence_error, w) else (Inr quota, w))"

fun pod_logs ::
    "'f hashing \<Rightarrow> 'p transport \<Rightarrow> pai_profile \<Rightarrow> string \<Rightarrow> json list \<Rightarrow> 'p \<Rightarrow> (cloud_error + json list) \<times> 'p" where
  "pod_logs H T p i [] w = (Inr [], w)"
| "pod_logs H T p i (pod # pods) w =
     answered (ok_or (as_str (jidx pod ''PodId'')) evidence_error, w) (\<lambda>pod_id w.
     answered (provider_call T (pai_pod_logs H p i pod_id 100) w) (\<lambda>log w.
     answered (pod_logs H T p i pods w) (\<lambda>logs w. (Inr (log # logs), w))))"

definition diagnostic_logs ::
    "'f hashing \<Rightarrow> 'p transport \<Rightarrow> pai_profile \<Rightarrow> cloud_job \<Rightarrow> job_handle \<Rightarrow> 'p \<Rightarrow> (cloud_error + json) \<times> 'p" where
  "diagnostic_logs H T p j h w =
     answered (validate_handle H p j h, w) (\<lambda>_ w.
     answered (raw_job H T p (ha_job h) w) (\<lambda>v w.
     answered (map_err (\<lambda>_. evidence_error) (validate_row H p v j (Some (ha_job h))), w) (\<lambda>_ w.
     answered (ok_or (as_array (jidx v ''Pods'')) evidence_error, w) (\<lambda>pods w.
     answered (pod_logs H T p (ha_job h) pods w) (\<lambda>logs w. (Inr (JArr logs), w))))))"

section \<open>What is sent\<close>

text \<open>A transport that records the requests it is given.\<close>

definition logged :: "'p transport \<Rightarrow> ('p \<times> cloud_request list) transport" where
  "logged T rq w = (case T rq (fst w) of (r, p) \<Rightarrow> (r, (p, snd w @ [rq])))"

definition mutations :: "cloud_request list \<Rightarrow> cloud_request list" where
  "mutations rqs = filter (\<lambda>r. \<not> rq_read_only r) rqs"

lemma mutations_simps [simp]: "mutations [] = []" "mutations (a @ b) = mutations a @ mutations b"
  "mutations (r # a) = (if rq_read_only r then mutations a else r # mutations a)"
  by (simp_all add: mutations_def)

lemma pai_request_Inr:
  "pai_request H p product meth action path query body = Inr rq \<Longrightarrow>
   rq_read_only rq = (meth = MGet) \<and> rq_action rq = action \<and> rq_path rq = path \<and> rq_body rq = body"
  by (auto simp: pai_request_def make_request_def Let_def res_simps)

lemma reads_are_read_only:
  "pai_get H p i = Inr rq \<Longrightarrow> rq_read_only rq" "pai_list H p j n = Inr rq \<Longrightarrow> rq_read_only rq"
  "pai_queue H p i = Inr rq \<Longrightarrow> rq_read_only rq" "pai_quota H p = Inr rq \<Longrightarrow> rq_read_only rq"
  "pai_pod_logs H p i pod tail = Inr rq \<Longrightarrow> rq_read_only rq" "pai_job_events H p i = Inr rq \<Longrightarrow> rq_read_only rq"
  by (auto simp: pai_get_def pai_list_def pai_queue_def pai_quota_def pai_pod_logs_def pai_job_events_def res_simps
      guard_eq_Inr dest!: pai_request_Inr)

lemma create_mutates: "pai_create H p j a = Inr rq \<Longrightarrow> \<not> rq_read_only rq \<and> rq_action rq = ''CreateJob''"
  by (auto simp: pai_create_def res_simps guard_eq_Inr dest!: pai_request_Inr)

lemma stop_mutates:
  "pai_stop H p i = Inr rq \<Longrightarrow> \<not> rq_read_only rq \<and> rq_action rq = ''StopJob'' \<and> rq_path rq = ''/api/v1/jobs/'' @ i @ ''/stop''"
  by (auto simp: pai_stop_def res_simps dest!: pai_request_Inr)

text \<open>A computation that, from a log, sends requests of which \<open>A\<close> holds.\<close>

definition sends :: "(cloud_request list \<Rightarrow> bool) \<Rightarrow> 'a \<times> 'p \<times> cloud_request list \<Rightarrow> cloud_request list \<Rightarrow> bool" where
  "sends A m log \<longleftrightarrow> (\<exists>rqs. snd (snd m) = log @ rqs \<and> A rqs)"

abbreviation quiet :: "'a \<times> 'p \<times> cloud_request list \<Rightarrow> cloud_request list \<Rightarrow> bool" where
  "quiet m log \<equiv> sends (\<lambda>rqs. mutations rqs = []) m log"

lemma quiet_const [intro, simp]: "quiet (r, (s, log)) log"
  by (simp add: sends_def)

lemma quiet_call: "(\<And>rq. r = Inr rq \<Longrightarrow> rq_read_only rq) \<Longrightarrow> quiet (provider_call (logged T) r (s, log)) log"
  by (auto simp: sends_def provider_call_def logged_def split: sum.split prod.split)

lemma sends_answered:
  assumes "quiet m log" and "\<And>x s l. sends A (f x (s, l)) l" and "A []"
    and "\<And>a b. mutations a = [] \<Longrightarrow> A b \<Longrightarrow> A (a @ b)"
  shows "sends A (answered m f) log"
proof -
  obtain r s l where m: "m = (r, s, l)" by (cases m) auto
  obtain rqs where l: "l = log @ rqs" "mutations rqs = []" using assms(1) by (auto simp: sends_def m)
  show ?thesis
  proof (cases r)
    case (Inl e)
    with m l assms(4) [OF l(2) assms(3)] show ?thesis by (simp add: sends_def)
  next
    case (Inr x)
    obtain more where "snd (snd (f x (s, l))) = l @ more" "A more" using assms(2) [of x s l] by (auto simp: sends_def)
    with m Inr l assms(4) show ?thesis by (simp add: sends_def)
  qed
qed

lemma quiet_answered [intro]: "quiet m log \<Longrightarrow> (\<And>x s l. quiet (f x (s, l)) l) \<Longrightarrow> quiet (answered m f) log"
  by (rule sends_answered) auto

lemma quiet_uncertain [intro]: "quiet m log \<Longrightarrow> quiet (uncertain m) log"
  by (auto simp: sends_def uncertain_def split: sum.splits prod.splits)

lemma raw_job_quiet [intro]: "quiet (raw_job H (logged T) p i (s, log)) log"
  unfolding raw_job_def by (rule quiet_call) (rule reads_are_read_only)

lemma with_queue_quiet [intro]: "quiet (with_queue H Q (logged T) p i ob (s, log)) log"
proof -
  have "quiet (provider_call (logged T) (pai_queue H p i) (s, log)) log"
    by (rule quiet_call) (rule reads_are_read_only)
  then show ?thesis by (auto simp: with_queue_def sends_def split: prod.split sum.split)
qed

lemma observe_quiet [intro]: "quiet (observe_job H Q (logged T) p j h (s, log)) log"
  unfolding observe_job_def by auto

lemma find_quiet [intro]: "quiet (find_job H (logged T) p j (s, log)) log"
proof -
  have list: "quiet (provider_call (logged T) (pai_list H p j k) (s, l)) l" for k s l
    by (rule quiet_call) (rule reads_are_read_only)
  have "quiet (find_pages n H (logged T) p j token tokens found announced received (s, log)) log"
    for n token tokens found announced received s log
  proof (induction n arbitrary: token tokens found announced received s log)
    case (Suc n)
    then show ?case using list by (auto simp: Let_def split: option.split intro!: quiet_answered)
  qed simp
  then show ?thesis by (simp add: find_job_def)
qed

lemma create_sends:
  "sends (\<lambda>rqs. rqs = [] \<or> (\<exists>rq rest. pai_create H p j a = Inr rq \<and> rqs = rq # rest \<and> mutations rest = []))
     (create_job H (logged T) p j a (s, log)) log"
proof (cases "pai_create H p j a")
  case (Inl e)
  then show ?thesis by (simp add: create_job_def provider_call_def sends_def)
next
  case (Inr rq)
  have rest: "quiet (case as_str (jidx response ''JobId'') of
         None \<Rightarrow> (Inl \<lparr>ce_code = ''CLOUD_CREATE_UNCONFIRMED'', ce_status = None, ce_uncertain = True\<rparr>, (s, l))
       | Some i \<Rightarrow>
           if \<not> is_ok (resource_component i)
           then (Inl \<lparr>ce_code = ''CLOUD_CREATE_UNCONFIRMED'', ce_status = None, ce_uncertain = True\<rparr>, (s, l))
           else
           answered (uncertain (raw_job H (logged T) p i (s, l))) (\<lambda>row w.
           answered (uncertain (row_handle H p j row, w)) (\<lambda>h w.
             if ha_job h \<noteq> i
             then (Inl \<lparr>ce_code = ''CLOUD_CREATE_IDENTITY_CONFLICT'', ce_status = None, ce_uncertain = True\<rparr>, w)
             else (Inr h, w)))) l" for response s l
    by (auto split: option.split intro!: quiet_answered quiet_uncertain)
  obtain r p' where r: "T rq s = (r, p')" by fastforce
  show ?thesis
  proof (cases r)
    case (Inl e)
    then show ?thesis by (auto simp: create_job_def provider_call_def Inr logged_def r sends_def)
  next
    case i: (Inr response)
    from rest [where response = response and s = p' and l = "log @ [rq]"] show ?thesis
      unfolding create_job_def provider_call_def Inr by (auto simp: logged_def r i sends_def)
  qed
qed

abbreviation stops_once :: "'f hashing \<Rightarrow> pai_profile \<Rightarrow> job_handle \<Rightarrow> cloud_request list \<Rightarrow> bool" where
  "stops_once H p h rqs \<equiv>
     mutations rqs = [] \<or> (\<exists>rq. pai_stop H p (ha_job h) = Inr rq \<and> mutations rqs = [rq])"

lemma stop_sends: "sends (stops_once H p h) (stop_job H Q (logged T) p j h (s, log)) log"
  unfolding stop_job_def
proof (rule sends_answered [OF observe_quiet])
  fix ob :: job_observation and s l
  show "sends (stops_once H p h)
    (if is_terminal (jo_state ob) then (Inr ob, (s, l))
     else answered (provider_call (logged T) (pai_stop H p (ha_job h)) (s, l)) (\<lambda>_ w. uncertain (observe_job H Q (logged T) p j h w)))
    l"
  proof (cases "pai_stop H p (ha_job h)")
    case (Inl e)
    then show ?thesis by (simp add: provider_call_def sends_def)
  next
    case (Inr rq)
    obtain r p' where r: "T rq s = (r, p')" by fastforce
    from quiet_uncertain [OF observe_quiet [of H Q T p j h p' "l @ [rq]"]] stop_mutates [OF Inr]
    show ?thesis by (cases r) (auto simp: provider_call_def Inr logged_def r sends_def)
  qed
qed auto

section \<open>Finding a job\<close>

lemma find_rows_start:
  "find_rows H p j rows ([], None) = Inr found \<longleftrightarrow>
     (rows = [] \<and> found = ([], None)) \<or>
     (\<exists>row h. rows = [row] \<and> row_handle H p j row = Inr h \<and> found = ([ha_job h], Some h))"
proof (cases rows)
  case (Cons row rest)
  then show ?thesis
    by (cases rest) (auto simp: and_then_eq_Inr)
qed auto

lemma answered_eq_Inr:
  "answered m f = (Inr y, w') \<longleftrightarrow> (\<exists>x w. m = (Inr x, w) \<and> f x w = (Inr y, w'))"
  by (cases m; cases "fst m") auto

lemma guarded_eq_Inr: "(if c then (Inl e, w) else m) = (Inr y, w') \<longleftrightarrow> \<not> c \<and> m = (Inr y, w')" by simp

lemma page_bounds:
  "(\<not> (l > 100 \<or> t > 10000) \<and> \<not> (l > t \<or> l < t \<and> l \<noteq> 100)) \<longleftrightarrow>
     (t \<le> 10000 \<and> (l = t \<and> t \<le> 100 \<or> l = 100 \<and> 100 < t))" for l t :: nat
  by auto

lemma first_page:
  "pai_page v ''Jobs'' 1 100 = Inr page \<longleftrightarrow>
     (\<exists>rows total. jidx v ''Jobs'' = JArr rows \<and> as_u64 (jidx v ''TotalCount'') = Some total \<and>
        (total \<le> 10000 \<and> (length rows = total \<and> total \<le> 100 \<or> length rows = 100 \<and> 100 < total)) \<and>
        page = \<lparr>pg_rows = rows, pg_total = Some total, pg_next = (if length rows < total then Some (show_nat 2) else None)\<rparr>)"
  unfolding page_bounds [symmetric]
  by (auto simp: pai_page_def res_simps guard_eq_Inr Let_def numeral_2_eq_2 simp del: show_nat.simps)

lemma case_eq_Inr:
  "(case x of Inl a \<Rightarrow> (Inl (g a), w) | Inr y \<Rightarrow> f y) = (Inr r, w') \<longleftrightarrow> (\<exists>y. x = Inr y \<and> f y = (Inr r, w'))"
  by (cases x) auto

lemma only_page:
  assumes "pai_page v ''Jobs'' 1 100 = Inr page" "find_rows H p j (pg_rows page) ([], None) = Inr found"
  shows "pg_next page = None \<and> pg_total page = Some (length (pg_rows page))"
  using assms unfolding first_page find_rows_start by auto

lemma find_first_page:
  "find_pages (Suc n) H T p j ''1'' [] ([], None) None 0 w =
     answered (provider_call T (pai_list H p j 1) w) (\<lambda>v w.
       case pai_page v ''Jobs'' 1 100 of
         Inl _ \<Rightarrow> (Inl evidence_error, w)
       | Inr page \<Rightarrow>
           (case find_rows H p j (pg_rows page) ([], None) of
              Inl e \<Rightarrow> (Inl e, w)
            | Inr found \<Rightarrow> (Inr (snd found), w)))"
proof -
  have one: "parse_unsigned (2 ^ 32) ''1'' = Some 1" by code_simp
  have "answered (map_err (\<lambda>_. evidence_error) (pai_page v ''Jobs'' 1 100), w) (\<lambda>page w.
      if None \<noteq> None \<and> pg_total page \<noteq> None then (Inl evidence_error, w)
      else
      let announced = (if None = None then pg_total page else None);
          received = 0 + length (pg_rows page)
      in
      answered (find_rows H p j (pg_rows page) ([], None), w) (\<lambda>found w.
        case pg_next page of
          Some next_token \<Rightarrow> find_pages n H T p j next_token [''1''] found announced received w
        | None \<Rightarrow>
            if announced \<noteq> None \<and> announced \<noteq> Some received then (Inl evidence_error, w)
            else (Inr (snd found), w))) =
      (case pai_page v ''Jobs'' 1 100 of
         Inl _ \<Rightarrow> (Inl evidence_error, w)
       | Inr page \<Rightarrow>
           (case find_rows H p j (pg_rows page) ([], None) of
              Inl e \<Rightarrow> (Inl e, w)
            | Inr found \<Rightarrow> (Inr (snd found), w)))" for v w
    using only_page [of v _ H p j] by (auto split: sum.split)
  then show ?thesis unfolding find_pages.simps one by simp
qed

text \<open>C18. Absence is certain. A search that succeeds has read one answer of the provider whose total is the number of
  its rows: none where the search says that there is no job, and exactly one, owned by this job, where it
  returns a handle. Every other answer, so one with more rows, with a row of another job, or of which a
  part is missing, is an error.\<close>

theorem absence_is_certain:
  "find_job H T p j w = (Inr r, w') \<longleftrightarrow>
     (\<exists>v rows. provider_call T (pai_list H p j 1) w = (Inr v, w') \<and> jidx v ''Jobs'' = JArr rows \<and>
        as_u64 (jidx v ''TotalCount'') = Some (length rows) \<and>
        (case r of None \<Rightarrow> rows = [] | Some h \<Rightarrow> \<exists>row. rows = [row] \<and> row_handle H p j row = Inr h))"
    (is "?l \<longleftrightarrow> ?r")
proof -
  have "?l \<longleftrightarrow> (\<exists>v page found. provider_call T (pai_list H p j 1) w = (Inr v, w') \<and> pai_page v ''Jobs'' 1 100 = Inr page \<and>
      find_rows H p j (pg_rows page) ([], None) = Inr found \<and> r = snd found)"
    unfolding find_job_def numeral_eq_Suc pred_numeral_simps find_first_page
    by (auto simp: answered_eq_Inr case_eq_Inr)
  also have "\<dots> \<longleftrightarrow> ?r"
    unfolding first_page find_rows_start by (auto split: option.splits) (fastforce simp: not_less)
  finally show ?thesis .
qed

end
