(* ===== verification/CloudOutbox.thy ===== *)
theory CloudOutbox
  imports CloudAdapter
begin

text \<open>
  The persistent one-effect boundary of the cloud backend
  (\<open>rust/crates/server/src/backends/cloud/outbox.rs\<close>): one entry per Attempt, saved before an effect
  starts and again when it ended, and the operations that prepare, execute, reconcile and stop it.
  A saved file is the entry it holds; a guard of the caller is a verdict given to each check.
\<close>

section \<open>Entries\<close>

record outbox_entry =
  oe_profile :: string
  oe_request :: string
  oe_job :: cloud_job
  oe_alloc :: pai_allocation
  oe_started :: bool
  oe_handle :: "job_handle option"
  oe_cancel :: bool
  oe_terminated :: bool
  oe_observation :: "job_observation option"
  oe_diagnostic :: "cloud_error option"

type_synonym slots = "string \<rightharpoonup> outbox_entry"

definition slot_of :: "'f hashing \<Rightarrow> cloud_job \<Rightarrow> cloud_error + string" where
  "slot_of H j =
     and_then (map_err (\<lambda>_. configuration_error) (validate_job j)) (\<lambda>_.
     and_then (map_err (\<lambda>_. configuration_error) (cloud_digest H
         (JObj [(''project'', JStr (cj_project j)), (''run_id'', JStr (cj_run j)), (''attempt_id'', JStr (cj_attempt j))])))
       (\<lambda>d. and_then (ok_or (strip_prefix ''sha256:'' d) configuration_error) (\<lambda>h. Inr (h @ ''.json''))))"

definition load_entry :: "'f hashing \<Rightarrow> slots \<Rightarrow> string \<Rightarrow> cloud_error + outbox_entry" where
  "load_entry H files slot =
     and_then (ok_or (files slot) evidence_error) (\<lambda>e.
     and_then (slot_of H (oe_job e)) (\<lambda>s.
     if s \<noteq> slot then Inl evidence_error
     else
     and_then (job_digest H (oe_job e)) (\<lambda>d.
     if oe_request e \<noteq> d \<or> oe_handle e \<noteq> None \<and> \<not> oe_started e \<or> oe_cancel e \<and> oe_handle e = None \<or>
        oe_terminated e \<and> \<not> oe_cancel e
     then Inl evidence_error else Inr e)))"

definition check_entry ::
    "'f hashing \<Rightarrow> outbox_entry \<Rightarrow> pai_profile \<Rightarrow> cloud_job \<Rightarrow> pai_allocation \<Rightarrow> cloud_error + unit" where
  "check_entry H e p j a =
     and_then (profile_digest H p) (\<lambda>pd.
     if oe_profile e \<noteq> pd \<or> oe_job e \<noteq> j then Inl evidence_error
     else
     and_then (job_digest H j) (\<lambda>jd.
     if oe_request e \<noteq> jd \<or> oe_alloc e \<noteq> a then Inl evidence_error
     else case oe_handle e of None \<Rightarrow> Inr () | Some h \<Rightarrow> validate_handle H p j h))"

text \<open>The state the entry is in, and whether its effect may still be tried.\<close>

definition entry_phase :: "outbox_entry \<Rightarrow> string" where
  "entry_phase e =
     (if oe_handle e \<noteq> None then ''OWNED'' else if oe_started e then ''RECONCILE_REQUIRED'' else ''PREPARED'')"

record entry_view =
  ev_slot :: string
  ev_phase :: string
  ev_entry :: outbox_entry
  ev_confirmation :: string
  ev_retry_safe :: bool

definition view_entry :: "'f hashing \<Rightarrow> outbox_entry \<Rightarrow> cloud_error + entry_view" where
  "view_entry H e =
     and_then (slot_of H (oe_job e)) (\<lambda>slot. Inr
       \<lparr>ev_slot = slot, ev_phase = entry_phase e, ev_entry = e, ev_confirmation = ''SUBMIT '' @ slot,
        ev_retry_safe = (\<not> oe_started e)\<rparr>)"

section \<open>Operations\<close>

type_synonym verdict = "cloud_error + unit"

definition fresh_entry :: "string \<Rightarrow> string \<Rightarrow> cloud_job \<Rightarrow> pai_allocation \<Rightarrow> outbox_entry" where
  "fresh_entry pd jd j a =
     \<lparr>oe_profile = pd, oe_request = jd, oe_job = j, oe_alloc = a, oe_started = False, oe_handle = None, oe_cancel = False,
      oe_terminated = False, oe_observation = None, oe_diagnostic = None\<rparr>"

text \<open>The guard is asked at the start, before a new entry is published, and at the end.\<close>

definition prepare_checks ::
    "'f hashing \<Rightarrow> pai_profile \<Rightarrow> cloud_job \<Rightarrow> pai_allocation \<Rightarrow> verdict \<Rightarrow> cloud_error + string" where
  "prepare_checks H p j a g =
     and_then g (\<lambda>_.
     and_then (checked_profile p) (\<lambda>_.
     and_then (map_err (\<lambda>_. configuration_error) (validate_job j)) (\<lambda>_.
     and_then (map_err (\<lambda>_. configuration_error) (pai_create H p j a)) (\<lambda>_. slot_of H j))))"

definition prepare_entry ::
    "'f hashing \<Rightarrow> pai_profile \<Rightarrow> cloud_job \<Rightarrow> pai_allocation \<Rightarrow> verdict \<Rightarrow> verdict \<Rightarrow> verdict \<Rightarrow> slots
     \<Rightarrow> (cloud_error + entry_view) \<times> slots" where
  "prepare_entry H p j a g1 g2 g3 files =
     answered (prepare_checks H p j a g1, files) (\<lambda>slot files.
     answered
       (if files slot \<noteq> None
        then answered (load_entry H files slot, files) (\<lambda>e files.
          answered (profile_digest H p, files) (\<lambda>pd files.
            if oe_profile e \<noteq> pd \<or> oe_job e \<noteq> j \<or> oe_alloc e \<noteq> a then (Inl evidence_error, files) else (Inr e, files)))
        else answered (profile_digest H p, files) (\<lambda>pd files.
          answered (job_digest H j, files) (\<lambda>jd files.
          answered (g2, files) (\<lambda>_ files.
            (Inr (fresh_entry pd jd j a), files(slot \<mapsto> fresh_entry pd jd j a))))))
       (\<lambda>e files. answered (g3, files) (\<lambda>_ files. (view_entry H e, files))))"

text \<open>What an operation decides before its effect: an answer, or the entry to save first.\<close>

datatype decision = Answer entry_view | Reserve outbox_entry

definition answer_with :: "'f hashing \<Rightarrow> outbox_entry \<Rightarrow> cloud_error + decision" where
  "answer_with H e = and_then (view_entry H e) (\<lambda>v. Inr (Answer v))"

definition checked_entry ::
    "'f hashing \<Rightarrow> slots \<Rightarrow> pai_profile \<Rightarrow> cloud_job \<Rightarrow> pai_allocation \<Rightarrow> cloud_error + string \<times> outbox_entry" where
  "checked_entry H files p j a =
     and_then (slot_of H j) (\<lambda>slot.
     and_then (load_entry H files slot) (\<lambda>e.
     and_then (check_entry H e p j a) (\<lambda>_. Inr (slot, e))))"

definition execute_begin ::
    "'f hashing \<Rightarrow> slots \<Rightarrow> pai_profile \<Rightarrow> cloud_job \<Rightarrow> pai_allocation \<Rightarrow> string \<Rightarrow> verdict \<Rightarrow> bool \<Rightarrow> verdict
     \<Rightarrow> cloud_error + decision" where
  "execute_begin H files p j a confirmation g1 cancelled g2 =
     and_then g1 (\<lambda>_.
     and_then (checked_entry H files p j a) (\<lambda>(slot, e).
     if confirmation \<noteq> ''SUBMIT '' @ slot then Inl configuration_error
     else if oe_started e then answer_with H e
     else if cancelled then Inl (transport_error False)
     else and_then g2 (\<lambda>_. Inr (Reserve (e\<lparr>oe_started := True\<rparr>)))))"

definition guarded_create ::
    "'f hashing \<Rightarrow> 'p transport \<Rightarrow> verdict \<Rightarrow> pai_profile \<Rightarrow> cloud_job \<Rightarrow> pai_allocation \<Rightarrow> 'p
     \<Rightarrow> (cloud_error + job_handle) \<times> 'p" where
  "guarded_create H T g p j a w = answered (g, w) (\<lambda>_ w. create_job H T p j a w)"

definition execute_end :: "outbox_entry \<Rightarrow> cloud_error + job_handle \<Rightarrow> outbox_entry" where
  "execute_end e oc =
     (case oc of
        Inr h \<Rightarrow> e\<lparr>oe_handle := Some h, oe_diagnostic := None\<rparr>
      | Inl err \<Rightarrow> e\<lparr>oe_diagnostic := Some err\<rparr>)"

definition reconcile_begin ::
    "'f hashing \<Rightarrow> slots \<Rightarrow> pai_profile \<Rightarrow> cloud_job \<Rightarrow> pai_allocation \<Rightarrow> verdict \<Rightarrow> cloud_error + decision" where
  "reconcile_begin H files p j a g =
     and_then g (\<lambda>_.
     and_then (checked_entry H files p j a) (\<lambda>(slot, e).
       if \<not> oe_started e then answer_with H e else Inr (Reserve e)))"

type_synonym outcome = "job_handle option \<times> job_observation option"

definition find_outcome ::
    "'f hashing \<Rightarrow> cloud_reader \<Rightarrow> 'p transport \<Rightarrow> pai_profile \<Rightarrow> cloud_job \<Rightarrow> 'p \<Rightarrow> (cloud_error + outcome) \<times> 'p" where
  "find_outcome H Q T p j w =
     answered (find_job H T p j w) (\<lambda>h w.
       case h of
         None \<Rightarrow> (Inr (None, None), w)
       | Some h \<Rightarrow> answered (observe_job H Q T p j h w) (\<lambda>ob w. (Inr (Some h, Some ob), w)))"

definition observe_outcome ::
    "'f hashing \<Rightarrow> cloud_reader \<Rightarrow> 'p transport \<Rightarrow> pai_profile \<Rightarrow> cloud_job \<Rightarrow> job_handle \<Rightarrow> 'p
     \<Rightarrow> (cloud_error + outcome) \<times> 'p" where
  "observe_outcome H Q T p j h w = answered (observe_job H Q T p j h w) (\<lambda>ob w. (Inr (Some h, Some ob), w))"

definition reconcile_end :: "outbox_entry \<Rightarrow> cloud_error + outcome \<Rightarrow> verdict \<Rightarrow> cloud_error + outbox_entry" where
  "reconcile_end e oc g =
     (case oc of
        Inl err \<Rightarrow> Inr (e\<lparr>oe_diagnostic := Some err\<rparr>)
      | Inr (h, ob) \<Rightarrow>
          and_then g (\<lambda>_.
          let e = e\<lparr>oe_handle := h\<rparr> in
          case ob of
            None \<Rightarrow> Inr (e\<lparr>oe_diagnostic := None\<rparr>)
          | Some ob \<Rightarrow>
              if (case oe_observation e of Some previous \<Rightarrow> \<not> allows (jo_state previous) (jo_state ob) | None \<Rightarrow> False)
              then Inl evidence_error
              else Inr (e\<lparr>oe_terminated := oe_cancel e \<and> is_terminal (jo_state ob), oe_observation := Some ob,
                oe_diagnostic := None\<rparr>)))"

text \<open>A reply read without the lock is committed only to the entry it was read for.\<close>

definition reconcile_commit ::
    "'f hashing \<Rightarrow> slots \<Rightarrow> pai_profile \<Rightarrow> cloud_job \<Rightarrow> pai_allocation \<Rightarrow> outbox_entry \<Rightarrow> cloud_error + outcome \<Rightarrow> verdict
     \<Rightarrow> cloud_error + decision" where
  "reconcile_commit H files p j a was oc g =
     and_then (checked_entry H files p j a) (\<lambda>(slot, e).
       if e \<noteq> was then answer_with H e
       else and_then (reconcile_end e oc g) (\<lambda>e. Inr (Reserve e)))"

definition stop_begin ::
    "'f hashing \<Rightarrow> slots \<Rightarrow> pai_profile \<Rightarrow> cloud_job \<Rightarrow> pai_allocation \<Rightarrow> string \<Rightarrow> verdict \<Rightarrow> bool \<Rightarrow> verdict
     \<Rightarrow> cloud_error + decision" where
  "stop_begin H files p j a confirmation g1 cancelled g2 =
     and_then g1 (\<lambda>_.
     and_then (checked_entry H files p j a) (\<lambda>(slot, e).
     if confirmation \<noteq> ''STOP '' @ slot then Inl configuration_error
     else
     and_then (ok_or (oe_handle e) evidence_error) (\<lambda>_.
     if oe_cancel e then answer_with H e
     else if cancelled then Inl (transport_error False)
     else and_then g2 (\<lambda>_. Inr (Reserve (e\<lparr>oe_cancel := True\<rparr>))))))"

definition guarded_stop ::
    "'f hashing \<Rightarrow> cloud_reader \<Rightarrow> 'p transport \<Rightarrow> verdict \<Rightarrow> pai_profile \<Rightarrow> cloud_job \<Rightarrow> job_handle \<Rightarrow> 'p
     \<Rightarrow> (cloud_error + job_observation) \<times> 'p" where
  "guarded_stop H Q T g p j h w = answered (g, w) (\<lambda>_ w. stop_job H Q T p j h w)"

definition stop_end :: "outbox_entry \<Rightarrow> cloud_error + job_observation \<Rightarrow> outbox_entry" where
  "stop_end e oc =
     (case oc of
        Inr ob \<Rightarrow> e\<lparr>oe_terminated := is_terminal (jo_state ob), oe_observation := Some ob, oe_diagnostic := None\<rparr>
      | Inl err \<Rightarrow> e\<lparr>oe_diagnostic := Some err\<rparr>)"

definition entry_status :: "'f hashing \<Rightarrow> slots \<Rightarrow> cloud_job \<Rightarrow> cloud_error + entry_view" where
  "entry_status H files j =
     and_then (slot_of H j) (\<lambda>slot.
     and_then (load_entry H files slot) (\<lambda>e.
       if oe_job e \<noteq> j then Inl evidence_error else view_entry H e))"

definition optional_status :: "'f hashing \<Rightarrow> slots \<Rightarrow> cloud_job \<Rightarrow> cloud_error + entry_view option" where
  "optional_status H files j =
     and_then (slot_of H j) (\<lambda>slot.
       if files slot = None then Inr None
       else
       and_then (load_entry H files slot) (\<lambda>e.
         if oe_job e \<noteq> j then Inl evidence_error else and_then (view_entry H e) (\<lambda>v. Inr (Some v))))"

definition recorded_job :: "'f hashing \<Rightarrow> slots \<Rightarrow> cloud_job \<Rightarrow> cloud_error + cloud_job option" where
  "recorded_job H files j =
     and_then (slot_of H j) (\<lambda>slot.
       if files slot = None then Inr None
       else and_then (load_entry H files slot) (\<lambda>e. Inr (Some (oe_job e))))"

section \<open>Runs\<close>

text \<open>The lock is held across the create and the stop of an entry; reads of a handle are out without it.\<close>

datatype held = Creating string outbox_entry pai_profile cloud_job pai_allocation
  | Stopping string outbox_entry pai_profile cloud_job job_handle

record 'p outbox_world =
  ow_files :: slots
  ow_provider :: 'p
  ow_sent :: "(string \<times> cloud_request) list"
  ow_lock :: "held option"
  ow_reads :: "(outbox_entry \<times> pai_profile \<times> cloud_job \<times> pai_allocation) list"

definition send_all :: "string \<Rightarrow> cloud_request list \<Rightarrow> 'p outbox_world \<Rightarrow> 'p outbox_world" where
  "send_all slot rqs w = w\<lparr>ow_sent := ow_sent w @ map (Pair slot) rqs\<rparr>"

definition save_entry :: "string \<Rightarrow> outbox_entry \<Rightarrow> 'p outbox_world \<Rightarrow> 'p outbox_world" where
  "save_entry slot e w = w\<lparr>ow_files := (ow_files w)(slot \<mapsto> e)\<rparr>"

text \<open>An effect may be lost: after any of its requests the process may stop, or the save that follows it may
  fail; the entry stays as it was saved before. The provider changes at any time.\<close>

inductive outbox_step ::
    "'f hashing \<Rightarrow> cloud_reader \<Rightarrow> 'p transport \<Rightarrow> 'p outbox_world \<Rightarrow> 'p outbox_world \<Rightarrow> bool"
  for H Q T
where
  prepare: "ow_lock w = None \<Longrightarrow>
     outbox_step H Q T w (w\<lparr>ow_files := snd (prepare_entry H p j a g1 g2 g3 (ow_files w))\<rparr>)"
| execute: "ow_lock w = None \<Longrightarrow> slot_of H j = Inr slot \<Longrightarrow>
     execute_begin H (ow_files w) p j a confirmation g1 cancelled g2 = Inr (Reserve e) \<Longrightarrow>
     outbox_step H Q T w ((save_entry slot e w)\<lparr>ow_lock := Some (Creating slot e p j a)\<rparr>)"
| create: "ow_lock w = Some (Creating slot e p j a) \<Longrightarrow>
     guarded_create H (logged T) g p j a (ow_provider w, []) = (oc, (q, rqs)) \<Longrightarrow>
     outbox_step H Q T w
       ((save_entry slot (execute_end e oc) (send_all slot rqs w))\<lparr>ow_provider := q, ow_lock := None\<rparr>)"
| create_lost: "ow_lock w = Some (Creating slot e p j a) \<Longrightarrow>
     guarded_create H (logged T) g p j a (ow_provider w, []) = (oc, (q, rqs)) \<Longrightarrow>
     outbox_step H Q T w ((send_all slot (take n rqs) w)\<lparr>ow_provider := q', ow_lock := None\<rparr>)"
| find: "ow_lock w = None \<Longrightarrow> slot_of H j = Inr slot \<Longrightarrow>
     reconcile_begin H (ow_files w) p j a g1 = Inr (Reserve e) \<Longrightarrow> oe_handle e = None \<Longrightarrow>
     find_outcome H Q (logged T) p j (ow_provider w, []) = (oc, (q, rqs)) \<Longrightarrow> reconcile_end e oc g2 = Inr e' \<Longrightarrow>
     outbox_step H Q T w ((save_entry slot e' (send_all slot rqs w))\<lparr>ow_provider := q\<rparr>)"
| find_lost: "ow_lock w = None \<Longrightarrow> slot_of H j = Inr slot \<Longrightarrow>
     find_outcome H Q (logged T) p j (ow_provider w, []) = (oc, (q, rqs)) \<Longrightarrow>
     outbox_step H Q T w ((send_all slot (take n rqs) w)\<lparr>ow_provider := q'\<rparr>)"
| read: "ow_lock w = None \<Longrightarrow> reconcile_begin H (ow_files w) p j a g1 = Inr (Reserve e) \<Longrightarrow>
     outbox_step H Q T w (w\<lparr>ow_reads := (e, p, j, a) # ow_reads w\<rparr>)"
| ask: "(e, p, j, a) \<in> set (ow_reads w) \<Longrightarrow> slot_of H j = Inr slot \<Longrightarrow> oe_handle e = Some h \<Longrightarrow>
     observe_job H Q (logged T) p j h (ow_provider w, []) = (ob, (q, rqs)) \<Longrightarrow>
     outbox_step H Q T w ((send_all slot (take n rqs) w)\<lparr>ow_provider := q\<rparr>)"
| commit: "ow_lock w = None \<Longrightarrow> (e, p, j, a) \<in> set (ow_reads w) \<Longrightarrow> slot_of H j = Inr slot \<Longrightarrow> oe_handle e = Some h \<Longrightarrow>
     observe_outcome H Q T p j h s = (oc, s') \<Longrightarrow> reconcile_commit H (ow_files w) p j a e oc g = Inr (Reserve e') \<Longrightarrow>
     outbox_step H Q T w (save_entry slot e' w)"
| stop: "ow_lock w = None \<Longrightarrow> slot_of H j = Inr slot \<Longrightarrow>
     stop_begin H (ow_files w) p j a confirmation g1 cancelled g2 = Inr (Reserve e) \<Longrightarrow> oe_handle e = Some h \<Longrightarrow>
     outbox_step H Q T w ((save_entry slot e w)\<lparr>ow_lock := Some (Stopping slot e p j h)\<rparr>)"
| stopped: "ow_lock w = Some (Stopping slot e p j h) \<Longrightarrow>
     guarded_stop H Q (logged T) g p j h (ow_provider w, []) = (ob, (q, rqs)) \<Longrightarrow>
     outbox_step H Q T w ((save_entry slot (stop_end e ob) (send_all slot rqs w))\<lparr>ow_provider := q, ow_lock := None\<rparr>)"
| stop_lost: "ow_lock w = Some (Stopping slot e p j h) \<Longrightarrow>
     guarded_stop H Q (logged T) g p j h (ow_provider w, []) = (ob, (q, rqs)) \<Longrightarrow>
     outbox_step H Q T w ((send_all slot (take n rqs) w)\<lparr>ow_provider := q', ow_lock := None\<rparr>)"
| provider: "outbox_step H Q T w (w\<lparr>ow_provider := q\<rparr>)"

inductive outbox_run :: "'f hashing \<Rightarrow> cloud_reader \<Rightarrow> 'p transport \<Rightarrow> 'p outbox_world \<Rightarrow> 'p outbox_world \<Rightarrow> bool"
  for H Q T
where
  here: "outbox_run H Q T w w"
| more: "outbox_run H Q T w v \<Longrightarrow> outbox_step H Q T v u \<Longrightarrow> outbox_run H Q T w u"

definition empty_outbox :: "'p \<Rightarrow> 'p outbox_world" where
  "empty_outbox q = \<lparr>ow_files = Map.empty, ow_provider = q, ow_sent = [], ow_lock = None, ow_reads = []\<rparr>"

text \<open>What was sent for a slot and changes the provider.\<close>

definition effects :: "(string \<times> cloud_request) list \<Rightarrow> string \<Rightarrow> cloud_request list" where
  "effects sent slot = mutations (map snd (filter (\<lambda>(s, _). s = slot) sent))"

definition a_create :: "'f hashing \<Rightarrow> outbox_entry \<Rightarrow> cloud_request \<Rightarrow> bool" where
  "a_create H e rq \<longleftrightarrow> (\<exists>p. profile_digest H p = Inr (oe_profile e) \<and> pai_create H p (oe_job e) (oe_alloc e) = Inr rq)"

definition a_stop :: "'f hashing \<Rightarrow> outbox_entry \<Rightarrow> cloud_request \<Rightarrow> bool" where
  "a_stop H e rq \<longleftrightarrow>
     (\<exists>p h. profile_digest H p = Inr (oe_profile e) \<and> oe_handle e = Some h \<and> pai_stop H p (ha_job h) = Inr rq)"

definition at_most_one :: "('a \<Rightarrow> bool) \<Rightarrow> 'a list \<Rightarrow> bool" where
  "at_most_one A xs \<longleftrightarrow> xs = [] \<or> (\<exists>x. xs = [x] \<and> A x)"

section \<open>Invariants\<close>

definition creating :: "held option \<Rightarrow> string \<Rightarrow> bool" where
  "creating lock s \<longleftrightarrow> (case lock of Some (Creating t _ _ _ _) \<Rightarrow> t = s | _ \<Rightarrow> False)"

definition stopping :: "held option \<Rightarrow> string \<Rightarrow> bool" where
  "stopping lock s \<longleftrightarrow> (case lock of Some (Stopping t _ _ _ _) \<Rightarrow> t = s | _ \<Rightarrow> False)"

lemma lock_simps [simp]: "\<not> creating None s" "\<not> stopping None s"
  "creating (Some (Creating t e p j a)) s \<longleftrightarrow> t = s" "\<not> creating (Some (Stopping t e p j h)) s"
  "stopping (Some (Stopping t e p j h)) s \<longleftrightarrow> t = s" "\<not> stopping (Some (Creating t e p j a)) s"
  by (simp_all add: creating_def stopping_def)

text \<open>An entry and the effects of its slot, with what the lock says of them.\<close>

definition entry_inv :: "'f hashing \<Rightarrow> held option \<Rightarrow> string \<Rightarrow> outbox_entry \<Rightarrow> cloud_request list \<Rightarrow> bool" where
  "entry_inv H lock s e sent \<longleftrightarrow>
     slot_of H (oe_job e) = Inr s \<and> job_digest H (oe_job e) = Inr (oe_request e) \<and>
     (oe_handle e \<noteq> None \<longrightarrow> oe_started e) \<and> (oe_cancel e \<longrightarrow> oe_handle e \<noteq> None) \<and>
     (oe_terminated e \<longrightarrow> oe_cancel e \<and> (\<exists>ob. oe_observation e = Some ob \<and> is_terminal (jo_state ob))) \<and>
     (\<exists>cs ss. sent = cs @ ss \<and> at_most_one (a_create H e) cs \<and> at_most_one (a_stop H e) ss \<and>
        (\<not> oe_started e \<longrightarrow> cs = []) \<and> (\<not> oe_cancel e \<longrightarrow> ss = []) \<and>
        (creating lock s \<longrightarrow> cs = []) \<and> (stopping lock s \<longrightarrow> ss = []))"

definition held_inv :: "'f hashing \<Rightarrow> held option \<Rightarrow> slots \<Rightarrow> bool" where
  "held_inv H lock files \<longleftrightarrow>
     (case lock of
        None \<Rightarrow> True
      | Some (Creating s e p j a) \<Rightarrow>
          files s = Some e \<and> oe_job e = j \<and> oe_alloc e = a \<and> profile_digest H p = Inr (oe_profile e) \<and>
          oe_started e \<and> oe_handle e = None \<and> \<not> oe_cancel e \<and> \<not> oe_terminated e
      | Some (Stopping s e p j h) \<Rightarrow>
          files s = Some e \<and> oe_job e = j \<and> profile_digest H p = Inr (oe_profile e) \<and> oe_handle e = Some h \<and>
          oe_cancel e \<and> \<not> oe_terminated e)"

definition outbox_inv :: "'f hashing \<Rightarrow> 'p outbox_world \<Rightarrow> bool" where
  "outbox_inv H w \<longleftrightarrow> held_inv H (ow_lock w) (ow_files w) \<and>
     (\<forall>s. case ow_files w s of
        None \<Rightarrow> effects (ow_sent w) s = []
      | Some e \<Rightarrow> entry_inv H (ow_lock w) s e (effects (ow_sent w) s))"

lemma effects_send [simp]:
  "effects (sent @ map (Pair slot) rqs) s = effects sent s @ (if s = slot then mutations rqs else [])"
  by (simp add: effects_def filter_map comp_def)

lemma load_entry_Inr:
  "load_entry H files s = Inr e \<longleftrightarrow> files s = Some e \<and> slot_of H (oe_job e) = Inr s \<and> job_digest H (oe_job e) = Inr (oe_request e) \<and>
     (oe_handle e \<noteq> None \<longrightarrow> oe_started e) \<and> (oe_cancel e \<longrightarrow> oe_handle e \<noteq> None) \<and> (oe_terminated e \<longrightarrow> oe_cancel e)"
  by (auto simp: load_entry_def res_simps guard_eq_Inr)

lemma entry_inv_loads: "files s = Some e \<Longrightarrow> entry_inv H lock s e sent \<Longrightarrow> load_entry H files s = Inr e"
  unfolding load_entry_Inr entry_inv_def by blast

lemma checked_entry_Inr:
  "checked_entry H files p j a = Inr (s, e) \<Longrightarrow>
     slot_of H j = Inr s \<and> files s = Some e \<and> oe_job e = j \<and> oe_alloc e = a \<and> profile_digest H p = Inr (oe_profile e)"
  by (auto simp: checked_entry_def check_entry_def load_entry_Inr res_simps guard_eq_Inr)

lemma answer_not_reserve [simp]: "answer_with H e \<noteq> Inr (Reserve e')"
  by (auto simp: answer_with_def res_simps)

text \<open>The entry an operation reserves, from the entry that is saved.\<close>

lemma execute_begin_Reserve:
  assumes "execute_begin H files p j a c g1 k g2 = Inr (Reserve e')" "slot_of H j = Inr s"
  obtains e where "files s = Some e" "oe_job e = j" "oe_alloc e = a" "profile_digest H p = Inr (oe_profile e)"
    "\<not> oe_started e" "e' = e\<lparr>oe_started := True\<rparr>"
  using assms by (auto simp: execute_begin_def res_simps guard_eq_Inr dest!: checked_entry_Inr split: if_splits)

lemma reconcile_begin_Reserve:
  assumes "reconcile_begin H files p j a g = Inr (Reserve e)" "slot_of H j = Inr s"
  shows "files s = Some e \<and> oe_job e = j \<and> profile_digest H p = Inr (oe_profile e) \<and> oe_started e"
  using assms by (auto simp: reconcile_begin_def res_simps guard_eq_Inr dest!: checked_entry_Inr split: if_splits)

lemma reconcile_commit_Reserve:
  assumes "reconcile_commit H files p j a e oc g = Inr (Reserve e')" "slot_of H j = Inr s"
  shows "files s = Some e \<and> oe_job e = j \<and> reconcile_end e oc g = Inr e'"
  using assms by (auto simp: reconcile_commit_def res_simps guard_eq_Inr dest!: checked_entry_Inr split: if_splits)

lemma stop_begin_Reserve:
  assumes "stop_begin H files p j a c g1 k g2 = Inr (Reserve e')" "slot_of H j = Inr s"
  obtains e where "files s = Some e" "oe_job e = j" "profile_digest H p = Inr (oe_profile e)" "oe_handle e \<noteq> None"
    "\<not> oe_cancel e" "e' = e\<lparr>oe_cancel := True\<rparr>"
  using assms by (auto simp: stop_begin_def res_simps guard_eq_Inr dest!: checked_entry_Inr split: if_splits)

lemma prepare_files:
  "snd (prepare_entry H p j a g1 g2 g3 files) = files \<or>
   (\<exists>slot pd jd. slot_of H j = Inr slot \<and> files slot = None \<and> profile_digest H p = Inr pd \<and> job_digest H j = Inr jd \<and>
      snd (prepare_entry H p j a g1 g2 g3 files) = files(slot \<mapsto> fresh_entry pd jd j a))"
proof (cases "prepare_checks H p j a g1")
  case (Inr slot)
  then have s: "slot_of H j = Inr slot" by (auto simp: prepare_checks_def res_simps)
  have "snd (prepare_entry H p j a g1 g2 g3 files) = files" if "files slot \<noteq> None"
    using that Inr by (auto simp: prepare_entry_def answered_def split: sum.split prod.split)
  with s Inr show ?thesis
    by (cases "files slot") (auto simp: prepare_entry_def answered_def split: sum.split prod.split)
qed (simp add: prepare_entry_def)

section \<open>Every step keeps the invariant\<close>

lemma filter_take: "\<exists>k. filter P (take n xs) = take k (filter P xs)"
proof (induction xs arbitrary: n)
  case (Cons x xs)
  show ?case
  proof (cases n)
    case (Suc m)
    obtain k where "filter P (take m xs) = take k (filter P xs)" using Cons.IH by blast
    then show ?thesis using Suc by (cases "P x") (auto intro: exI [of _ "Suc k"] exI [of _ k])
  qed (auto intro: exI [of _ 0])
qed simp

lemma at_most_one_take: "at_most_one A (mutations rqs) \<Longrightarrow> at_most_one A (mutations (take n rqs))"
proof -
  assume a: "at_most_one A (mutations rqs)"
  obtain k where "mutations (take n rqs) = take k (mutations rqs)"
    using filter_take unfolding mutations_def by blast
  with a show ?thesis by (cases k) (auto simp: at_most_one_def)
qed

lemma quiet_take: "mutations rqs = [] \<Longrightarrow> mutations (take n rqs) = []"
  using at_most_one_take [of "\<lambda>_. False" rqs n] by (simp add: at_most_one_def)

lemma guarded_create_sends:
  assumes "guarded_create H (logged T) g p j a (s, []) = (oc, (q, rqs))"
  shows "at_most_one (\<lambda>r. pai_create H p j a = Inr r) (mutations rqs)"
proof (cases g)
  case (Inl e)
  with assms show ?thesis by (auto simp: guarded_create_def at_most_one_def)
next
  case (Inr u)
  with assms create_sends [of H p j a T s "[]"] create_mutates [of H p j a] show ?thesis
    by (auto simp: guarded_create_def sends_def at_most_one_def)
qed

lemma guarded_stop_sends:
  assumes "guarded_stop H Q (logged T) g p j h (s, []) = (oc, (q, rqs))"
  shows "at_most_one (\<lambda>r. pai_stop H p (ha_job h) = Inr r) (mutations rqs)"
proof (cases g)
  case (Inl e)
  with assms show ?thesis by (auto simp: guarded_stop_def at_most_one_def)
next
  case (Inr u)
  with assms stop_sends [of H p h Q T j s "[]"] show ?thesis
    by (auto simp: guarded_stop_def sends_def at_most_one_def)
qed

lemma find_outcome_quiet:
  assumes "find_outcome H Q (logged T) p j (s, []) = (oc, (q, rqs))"
  shows "mutations rqs = []"
proof -
  have "quiet (find_outcome H Q (logged T) p j (s, [])) []"
    unfolding find_outcome_def by (rule quiet_answered [OF find_quiet]) (auto split: option.split)
  with assms show ?thesis by (auto simp: sends_def)
qed

lemma observe_job_quiet:
  "observe_job H Q (logged T) p j h (s, []) = (oc, (q, rqs)) \<Longrightarrow> mutations rqs = []"
  using observe_quiet [of H Q T p j h s "[]"] by (auto simp: sends_def)

fun lock_slot :: "held option \<Rightarrow> string option" where
  "lock_slot None = None"
| "lock_slot (Some (Creating s e p j a)) = Some s"
| "lock_slot (Some (Stopping s e p j h)) = Some s"

lemma lock_slot_other: "lock_slot lock \<noteq> Some t \<Longrightarrow> \<not> creating lock t \<and> \<not> stopping lock t"
  by (cases lock rule: lock_slot.cases) auto

lemma entry_inv_other: "entry_inv H lock t e es \<Longrightarrow> lock_slot lock' \<noteq> Some t \<Longrightarrow> entry_inv H lock' t e es"
  using lock_slot_other [of lock' t] unfolding entry_inv_def by blast

text \<open>Changing one slot under a lock that is free or holds that slot.\<close>

lemma outbox_inv_change:
  assumes "outbox_inv H w" "ow_files w' = (ow_files w)(s \<mapsto> e)" "\<And>t. t \<noteq> s \<Longrightarrow> effects (ow_sent w') t = effects (ow_sent w) t"
    and "lock_slot (ow_lock w') \<in> {None, Some s}" "held_inv H (ow_lock w') (ow_files w')"
    and "entry_inv H (ow_lock w') s e (effects (ow_sent w') s)"
  shows "outbox_inv H w'"
  unfolding outbox_inv_def
proof (intro conjI allI assms(5))
  fix t
  show "case ow_files w' t of None \<Rightarrow> effects (ow_sent w') t = []
      | Some e \<Rightarrow> entry_inv H (ow_lock w') t e (effects (ow_sent w') t)"
  proof (cases "t = s")
    case True
    with assms(2,6) show ?thesis by simp
  next
    case False
    have "case ow_files w t of None \<Rightarrow> effects (ow_sent w) t = []
      | Some e \<Rightarrow> entry_inv H (ow_lock w) t e (effects (ow_sent w) t)"
      using assms(1) by (simp add: outbox_inv_def)
    then show ?thesis using False assms(2-4) entry_inv_other [of H "ow_lock w" t _ _ "ow_lock w'"]
      by (auto split: option.splits)
  qed
qed

text \<open>Only reads were sent, and the entries are as they were.\<close>

lemma outbox_inv_quiet:
  assumes "outbox_inv H w" "ow_files w' = ow_files w" "\<And>t. effects (ow_sent w') t = effects (ow_sent w) t" "ow_lock w' = ow_lock w"
  shows "outbox_inv H w'"
proof -
  have same: "effects (ow_sent w') = effects (ow_sent w)" using assms(3) by auto
  show ?thesis using assms(1) unfolding outbox_inv_def assms(2,4) same .
qed

lemma outbox_inv_entry:
  "outbox_inv H w \<Longrightarrow> ow_files w s = Some e \<Longrightarrow> entry_inv H (ow_lock w) s e (effects (ow_sent w) s)"
  unfolding outbox_inv_def by (metis option.simps(5))

lemma outbox_inv_none: "outbox_inv H w \<Longrightarrow> ow_files w s = None \<Longrightarrow> effects (ow_sent w) s = []"
  unfolding outbox_inv_def by (metis option.simps(4))

lemma find_outcome_handle:
  "find_outcome H Q T p j w = (Inr (h, ob), w') \<Longrightarrow> h = None \<longrightarrow> ob = None"
  by (auto simp: find_outcome_def answered_def split: sum.splits prod.splits option.splits)

lemma observe_outcome_handle: "observe_outcome H Q T p j h w = (Inr (h', ob), w') \<Longrightarrow> h' = Some h"
  by (auto simp: observe_outcome_def answered_def split: sum.splits prod.splits)

text \<open>What a change of an entry keeps.\<close>

definition advances :: "outbox_entry \<Rightarrow> outbox_entry \<Rightarrow> bool" where
  "advances e e' \<longleftrightarrow>
     oe_profile e' = oe_profile e \<and> oe_request e' = oe_request e \<and> oe_job e' = oe_job e \<and> oe_alloc e' = oe_alloc e \<and>
     (oe_started e \<longrightarrow> oe_started e') \<and> (\<forall>h. oe_handle e = Some h \<longrightarrow> oe_handle e' = Some h) \<and>
     (oe_cancel e \<longrightarrow> oe_cancel e') \<and> (oe_terminated e \<longrightarrow> oe_terminated e')"

lemma advances_refl [simp]: "advances e e" by (simp add: advances_def)

lemma reconcile_end_keeps:
  assumes "reconcile_end e oc g = Inr e'" and "\<And>h ob. oc = Inr (h, ob) \<Longrightarrow> oe_handle e = None \<or> h = oe_handle e"
    and "oe_terminated e \<Longrightarrow> oe_cancel e \<and> (\<exists>ob. oe_observation e = Some ob \<and> is_terminal (jo_state ob))"
  shows "advances e e' \<and> oe_started e' = oe_started e \<and> oe_cancel e' = oe_cancel e \<and>
    (oe_handle e \<noteq> None \<longrightarrow> oe_handle e' = oe_handle e) \<and>
    (oe_terminated e' \<longrightarrow> oe_cancel e) \<and>
    (oe_terminated e' \<longrightarrow> (\<exists>ob. oe_observation e' = Some ob \<and> is_terminal (jo_state ob)))"
proof (cases oc)
  case (Inl err)
  with assms show ?thesis by (auto simp: reconcile_end_def advances_def)
next
  case (Inr x)
  obtain h ob where x: "x = (h, ob)" by fastforce
  show ?thesis
  proof (cases ob)
    case None
    with assms Inr x show ?thesis by (auto simp: reconcile_end_def advances_def res_simps Let_def)
  next
    case (Some b)
    have "is_terminal (jo_state b)" if "oe_terminated e" "oe_observation e = Some c" "allows (jo_state c) (jo_state b)" for c
      using that assms(3) by (auto simp: allows_def split: if_splits)
    with assms Inr x Some show ?thesis
      by (auto simp: reconcile_end_def advances_def res_simps guard_eq_Inr Let_def split: option.splits)
  qed
qed

lemma reconcile_end_inv:
  assumes "reconcile_end e oc g = Inr e'" and "\<And>h ob. oc = Inr (h, ob) \<Longrightarrow> oe_handle e = None \<or> h = oe_handle e"
    and "entry_inv H None s e es" and "oe_started e"
  shows "entry_inv H None s e' es \<and> advances e e'"
proof -
  have t: "oe_terminated e \<Longrightarrow> oe_cancel e \<and> (\<exists>ob. oe_observation e = Some ob \<and> is_terminal (jo_state ob))"
    using assms(3) by (auto simp: entry_inv_def)
  note k = reconcile_end_keeps [OF assms(1,2) t]
  have same: "a_create H e' = a_create H e" using k by (auto simp: fun_eq_iff a_create_def advances_def)
  obtain cs ss where es: "es = cs @ ss" "at_most_one (a_create H e) cs" "at_most_one (a_stop H e) ss" "\<not> oe_cancel e \<longrightarrow> ss = []"
    using assms(3) by (auto simp: entry_inv_def)
  have "at_most_one (a_stop H e') ss"
  proof (cases "oe_handle e")
    case None
    then have "\<not> oe_cancel e" using assms(3) by (auto simp: entry_inv_def)
    with es(4) show ?thesis by (simp add: at_most_one_def)
  next
    case (Some h)
    then show ?thesis using es(3) k by (auto simp: at_most_one_def a_stop_def advances_def)
  qed
  then show ?thesis using assms(3,4) k es same unfolding entry_inv_def advances_def by auto
qed

lemma kept_files:
  "ow_files w' = (ow_files w)(s \<mapsto> e') \<Longrightarrow> ow_files w s = Some e \<Longrightarrow> advances e e' \<Longrightarrow>
   \<forall>t d. ow_files w t = Some d \<longrightarrow> (\<exists>d'. ow_files w' t = Some d' \<and> advances d d')"
  by auto

lemma fresh_entry_inv:
  assumes "slot_of H j = Inr s" "job_digest H j = Inr jd"
  shows "entry_inv H None s (fresh_entry pd jd j a) []"
  using assms by (auto simp: entry_inv_def fresh_entry_def at_most_one_def)

lemma prepare_step:
  assumes "outbox_inv H w" "ow_lock w = None" "w' = w\<lparr>ow_files := snd (prepare_entry H p j a g1 g2 g3 (ow_files w))\<rparr>"
  shows "outbox_inv H w' \<and> (\<forall>t d. ow_files w t = Some d \<longrightarrow> (\<exists>d'. ow_files w' t = Some d' \<and> advances d d'))"
  using prepare_files [of H p j a g1 g2 g3 "ow_files w"]
proof (elim disjE exE conjE)
  assume "snd (prepare_entry H p j a g1 g2 g3 (ow_files w)) = ow_files w"
  then show ?thesis using assms by simp
next
  fix slot pd jd
  assume new: "slot_of H j = Inr slot" "ow_files w slot = None" "job_digest H j = Inr jd"
    and f: "snd (prepare_entry H p j a g1 g2 g3 (ow_files w)) = (ow_files w)(slot \<mapsto> fresh_entry pd jd j a)"
  have "effects (ow_sent w) slot = []" using outbox_inv_none [OF assms(1) new(2)] .
  then have "outbox_inv H w'"
    using fresh_entry_inv [OF new(1,3)] assms(2)
    by (intro outbox_inv_change [OF assms(1), of w' slot "fresh_entry pd jd j a"]) (auto simp: assms(3) f held_inv_def)
  then show ?thesis using new(2) by (auto simp: assms(3) f)
qed

lemma execute_step:
  assumes "outbox_inv H w" "ow_lock w = None" "slot_of H j = Inr s"
    and "execute_begin H (ow_files w) p j a c g1 k g2 = Inr (Reserve e')"
    and "w' = (save_entry s e' w)\<lparr>ow_lock := Some (Creating s e' p j a)\<rparr>"
  shows "outbox_inv H w' \<and> (\<forall>t d. ow_files w t = Some d \<longrightarrow> (\<exists>d'. ow_files w' t = Some d' \<and> advances d d'))"
proof -
  obtain e where e: "ow_files w s = Some e" "oe_job e = j" "oe_alloc e = a" "profile_digest H p = Inr (oe_profile e)"
      "\<not> oe_started e" "e' = e\<lparr>oe_started := True\<rparr>"
    using execute_begin_Reserve [OF assms(4,3)] .
  have inv: "entry_inv H None s e (effects (ow_sent w) s)" using outbox_inv_entry [OF assms(1) e(1)] assms(2) by simp
  then have idle: "oe_handle e = None" "\<not> oe_cancel e" "\<not> oe_terminated e" "effects (ow_sent w) s = []"
    using e(5) by (auto simp: entry_inv_def)
  have "entry_inv H (Some (Creating s e' p j a)) s e' []"
    using inv idle by (auto simp: entry_inv_def e(6) at_most_one_def)
  then have "outbox_inv H w'"
    using e idle
    by (intro outbox_inv_change [OF assms(1), of w' s e']) (auto simp: assms(5) save_entry_def held_inv_def)
  moreover have "advances e e'" by (simp add: e(6) advances_def)
  ultimately show ?thesis using kept_files [of w' w s e' e] e(1) by (simp add: assms(5) save_entry_def)
qed

lemma create_step:
  assumes "outbox_inv H w" "ow_lock w = Some (Creating s e p j a)" "mutations rqs = effs"
    and "at_most_one (\<lambda>r. pai_create H p j a = Inr r) effs"
    and "e' = e \<or> e' = execute_end e oc" and "w' = (save_entry s e' (send_all s rqs w))\<lparr>ow_provider := q, ow_lock := None\<rparr>"
  shows "outbox_inv H w' \<and> (\<forall>t d. ow_files w t = Some d \<longrightarrow> (\<exists>d'. ow_files w' t = Some d' \<and> advances d d'))"
proof -
  have held: "ow_files w s = Some e" "oe_job e = j" "oe_alloc e = a" "profile_digest H p = Inr (oe_profile e)"
      "oe_started e" "oe_handle e = None" "\<not> oe_cancel e" "\<not> oe_terminated e"
    using assms(1,2) by (auto simp: outbox_inv_def held_inv_def)
  have inv: "entry_inv H (Some (Creating s e p j a)) s e (effects (ow_sent w) s)"
    using outbox_inv_entry [OF assms(1) held(1)] assms(2) by simp
  then have none: "effects (ow_sent w) s = []" using held(7) by (auto simp: entry_inv_def)
  have keep: "oe_job e' = j" "oe_alloc e' = a" "oe_profile e' = oe_profile e" "oe_request e' = oe_request e"
      "oe_started e'" "\<not> oe_cancel e'" "\<not> oe_terminated e'" "advances e e'"
    using assms(5) held by (auto simp: execute_end_def advances_def split: sum.splits)
  have "at_most_one (a_create H e') effs"
    using assms(4) held(4) keep(1-3) by (auto simp: at_most_one_def a_create_def)
  then have "entry_inv H None s e' effs"
    using inv keep held(2) by (auto simp: entry_inv_def at_most_one_def [of "a_stop H e'"])
  then have "outbox_inv H w'"
    using none assms(3)
    by (intro outbox_inv_change [OF assms(1), of w' s e']) (auto simp: assms(6) save_entry_def send_all_def held_inv_def)
  then show ?thesis using kept_files [of w' w s e' e] held(1) keep(8) by (simp add: assms(6) save_entry_def send_all_def)
qed

lemma stop_step:
  assumes "outbox_inv H w" "ow_lock w = None" "slot_of H j = Inr s"
    and "stop_begin H (ow_files w) p j a c g1 k g2 = Inr (Reserve e')" "oe_handle e' = Some h"
    and "w' = (save_entry s e' w)\<lparr>ow_lock := Some (Stopping s e' p j h)\<rparr>"
  shows "outbox_inv H w' \<and> (\<forall>t d. ow_files w t = Some d \<longrightarrow> (\<exists>d'. ow_files w' t = Some d' \<and> advances d d'))"
proof -
  obtain e where e: "ow_files w s = Some e" "oe_job e = j" "profile_digest H p = Inr (oe_profile e)" "oe_handle e \<noteq> None"
      "\<not> oe_cancel e" "e' = e\<lparr>oe_cancel := True\<rparr>"
    using stop_begin_Reserve [OF assms(4,3)] .
  have inv: "entry_inv H None s e (effects (ow_sent w) s)" using outbox_inv_entry [OF assms(1) e(1)] assms(2) by simp
  then have idle: "\<not> oe_terminated e" "at_most_one (a_create H e) (effects (ow_sent w) s)" "oe_started e"
    using e(4,5) by (auto simp: entry_inv_def)
  have same: "a_create H e' = a_create H e" by (auto simp: fun_eq_iff a_create_def e(6))
  have "entry_inv H (Some (Stopping s e' p j h)) s e' (effects (ow_sent w) s)"
    using inv idle same e(4) by (auto simp: entry_inv_def e(6) at_most_one_def [of "a_stop H _"])
  then have "outbox_inv H w'"
    using e idle assms(5)
    by (intro outbox_inv_change [OF assms(1), of w' s e']) (auto simp: assms(6) save_entry_def held_inv_def)
  moreover have "advances e e'" by (simp add: e(6) advances_def)
  ultimately show ?thesis using kept_files [of w' w s e' e] e(1) by (simp add: assms(6) save_entry_def)
qed

lemma stopped_step:
  assumes "outbox_inv H w" "ow_lock w = Some (Stopping s e p j h)" "mutations rqs = effs"
    and "at_most_one (\<lambda>r. pai_stop H p (ha_job h) = Inr r) effs"
    and "e' = e \<or> e' = stop_end e ob" and "w' = (save_entry s e' (send_all s rqs w))\<lparr>ow_provider := q, ow_lock := None\<rparr>"
  shows "outbox_inv H w' \<and> (\<forall>t d. ow_files w t = Some d \<longrightarrow> (\<exists>d'. ow_files w' t = Some d' \<and> advances d d'))"
proof -
  have held: "ow_files w s = Some e" "oe_job e = j" "profile_digest H p = Inr (oe_profile e)" "oe_handle e = Some h"
      "oe_cancel e" "\<not> oe_terminated e"
    using assms(1,2) by (auto simp: outbox_inv_def held_inv_def)
  have inv: "entry_inv H (Some (Stopping s e p j h)) s e (effects (ow_sent w) s)"
    using outbox_inv_entry [OF assms(1) held(1)] assms(2) by simp
  then have cs: "at_most_one (a_create H e) (effects (ow_sent w) s)" "oe_started e"
    using held(4) by (auto simp: entry_inv_def)
  have keep: "oe_job e' = j" "oe_alloc e' = oe_alloc e" "oe_profile e' = oe_profile e" "oe_request e' = oe_request e"
      "oe_started e' = oe_started e" "oe_cancel e'" "oe_handle e' = Some h" "advances e e'"
      "oe_terminated e' \<longrightarrow> (\<exists>ob. oe_observation e' = Some ob \<and> is_terminal (jo_state ob))"
    using assms(5) held by (auto simp: stop_end_def advances_def split: sum.splits)
  have same: "a_create H e' = a_create H e" using keep held(2) by (auto simp: fun_eq_iff a_create_def)
  have "at_most_one (a_stop H e') effs"
    using assms(4) held(3) keep(3,7) by (auto simp: at_most_one_def a_stop_def)
  then have "entry_inv H None s e' (effects (ow_sent w) s @ effs)"
    using inv keep held(2) cs same unfolding entry_inv_def by auto
  then have "outbox_inv H w'"
    using assms(3)
    by (intro outbox_inv_change [OF assms(1), of w' s e']) (auto simp: assms(6) save_entry_def send_all_def held_inv_def)
  then show ?thesis using kept_files [of w' w s e' e] held(1) keep(8) by (simp add: assms(6) save_entry_def send_all_def)
qed

lemma reconcile_step:
  assumes "outbox_inv H w" "ow_lock w = None" "ow_files w s = Some e" "oe_started e" "reconcile_end e oc g = Inr e'"
    and "\<And>h ob. oc = Inr (h, ob) \<Longrightarrow> oe_handle e = None \<or> h = oe_handle e" and "mutations rqs = []"
    and "w' = (save_entry s e' (send_all s rqs w))\<lparr>ow_provider := q\<rparr>"
  shows "outbox_inv H w' \<and> (\<forall>t d. ow_files w t = Some d \<longrightarrow> (\<exists>d'. ow_files w' t = Some d' \<and> advances d d'))"
proof -
  have inv: "entry_inv H None s e (effects (ow_sent w) s)" using outbox_inv_entry [OF assms(1,3)] assms(2) by simp
  note new = reconcile_end_inv [OF assms(5,6) inv assms(4)]
  then have "outbox_inv H w'"
    using assms(2,7)
    by (intro outbox_inv_change [OF assms(1), of w' s e']) (auto simp: assms(8) save_entry_def send_all_def held_inv_def)
  then show ?thesis using kept_files [of w' w s e' e] assms(3) new by (simp add: assms(8) save_entry_def send_all_def)
qed

lemma outbox_step_inv:
  assumes "outbox_step H Q T w w'" "outbox_inv H w"
  shows "outbox_inv H w' \<and> (\<forall>t d. ow_files w t = Some d \<longrightarrow> (\<exists>d'. ow_files w' t = Some d' \<and> advances d d'))"
  using assms
proof (cases rule: outbox_step.cases)
  case (prepare p j a g1 g2 g3)
  with prepare_step [OF assms(2)] show ?thesis by simp
next
  case (execute j slot p a c g1 k g2 e)
  from execute_step [OF assms(2) execute(2,3,4) execute(1)] show ?thesis .
next
  case (create slot e p j a g oc q rqs)
  from create_step [OF assms(2) create(2) refl guarded_create_sends [OF create(3)] _ create(1)] show ?thesis by blast
next
  case (create_lost slot e p j a g oc q rqs q' n)
  have held: "ow_files w slot = Some e" using assms(2) create_lost(2) by (simp add: outbox_inv_def held_inv_def)
  have "w' = (save_entry slot e (send_all slot (take n rqs) w))\<lparr>ow_provider := q', ow_lock := None\<rparr>"
    using held by (simp add: create_lost(1) save_entry_def send_all_def fun_upd_idem)
  from create_step [OF assms(2) create_lost(2) refl at_most_one_take [OF guarded_create_sends [OF create_lost(3)]] _ this]
  show ?thesis by blast
next
  case (find j slot p a g1 e oc q rqs g2 e')
  have e: "ow_files w slot = Some e" "oe_started e" using reconcile_begin_Reserve [OF find(4,3)] by auto
  from reconcile_step [OF assms(2) find(2) e find(7) _ find_outcome_quiet [OF find(6)] find(1)] find(5) show ?thesis by blast
next
  case (find_lost j slot p oc q rqs q' n)
  have "mutations (take n rqs) = []" using quiet_take find_outcome_quiet [OF find_lost(4)] by blast
  then have "outbox_inv H w'" by (intro outbox_inv_quiet [OF assms(2)]) (auto simp: find_lost(1) send_all_def)
  then show ?thesis by (simp add: find_lost(1) send_all_def)
next
  case (read p j a g1 e)
  have "outbox_inv H w'" by (rule outbox_inv_quiet [OF assms(2)]) (simp_all add: read(1))
  then show ?thesis by (simp add: read(1))
next
  case (ask e p j a slot h ob q rqs n)
  have "mutations (take n rqs) = []" using quiet_take observe_job_quiet [OF ask(5)] by blast
  then have "outbox_inv H w'" by (intro outbox_inv_quiet [OF assms(2)]) (auto simp: ask(1) send_all_def)
  then show ?thesis by (simp add: ask(1) send_all_def)
next
  case (commit e p j a slot h s oc s' g e')
  note r = reconcile_commit_Reserve [OF commit(7,4)]
  have "oe_started e"
    using outbox_inv_entry [OF assms(2), of slot e] r commit(5) by (auto simp: entry_inv_def)
  moreover have "h' = oe_handle e" if "oc = Inr (h', ob)" for h' ob
    using observe_outcome_handle [of H Q T p j h s h' ob s'] commit(5,6) that by simp
  moreover have "w' = (save_entry slot e' (send_all slot [] w))\<lparr>ow_provider := ow_provider w\<rparr>"
    by (simp add: commit(1) save_entry_def send_all_def)
  ultimately show ?thesis
    using reconcile_step [OF assms(2) commit(2), of slot e oc g e' "[]"] r by auto
next
  case (stop j slot p a c g1 k g2 e h)
  from stop_step [OF assms(2) stop(2,3,4,5) stop(1)] show ?thesis .
next
  case (stopped slot e p j h g ob q rqs)
  from stopped_step [OF assms(2) stopped(2) refl guarded_stop_sends [OF stopped(3)] _ stopped(1)] show ?thesis by blast
next
  case (stop_lost slot e p j h g ob q rqs q' n)
  have held: "ow_files w slot = Some e" using assms(2) stop_lost(2) by (simp add: outbox_inv_def held_inv_def)
  have "w' = (save_entry slot e (send_all slot (take n rqs) w))\<lparr>ow_provider := q', ow_lock := None\<rparr>"
    using held by (simp add: stop_lost(1) save_entry_def send_all_def fun_upd_idem)
  from stopped_step [OF assms(2) stop_lost(2) refl at_most_one_take [OF guarded_stop_sends [OF stop_lost(3)]] _ this]
  show ?thesis by blast
next
  case (provider q)
  have "outbox_inv H w'" by (rule outbox_inv_quiet [OF assms(2)]) (simp_all add: provider)
  then show ?thesis by (simp add: provider)
qed

lemma outbox_run_inv: "outbox_run H Q T w v \<Longrightarrow> outbox_inv H w \<Longrightarrow> outbox_inv H v"
  by (induction rule: outbox_run.induct) (auto dest: outbox_step_inv)

lemma empty_outbox_inv: "outbox_inv H (empty_outbox q)"
  by (simp add: outbox_inv_def held_inv_def empty_outbox_def effects_def)

text \<open>C5. A cloud job is created at most once and stopped at most once. Over every sequence of operations on any
  jobs, with every verdict of the guards and answer of the provider, with effects lost after any of their
  requests and replies read while other operations ran: what was sent for a slot and changes the provider is
  at most one create of the entry's own job, followed by at most one stop of its recorded handle. Every saved
  entry loads again, and while its status calls a retry safe, nothing was sent for it.\<close>

theorem cloud_effects_happen_once:
  assumes "outbox_run H Q T (empty_outbox q) w"
  shows "(case ow_files w s of
       None \<Rightarrow> effects (ow_sent w) s = []
     | Some e \<Rightarrow>
         load_entry H (ow_files w) s = Inr e \<and>
         (\<exists>cs ss. effects (ow_sent w) s = cs @ ss \<and> at_most_one (a_create H e) cs \<and> at_most_one (a_stop H e) ss) \<and>
         (case view_entry H e of
            Inl _ \<Rightarrow> False
          | Inr v \<Rightarrow> ev_retry_safe v \<longrightarrow> effects (ow_sent w) s = []))"
proof -
  have inv: "outbox_inv H w" using outbox_run_inv [OF assms empty_outbox_inv] .
  show ?thesis
  proof (cases "ow_files w s")
    case None
    with outbox_inv_none [OF inv] show ?thesis by simp
  next
    case (Some e)
    note e = outbox_inv_entry [OF inv Some]
    have "effects (ow_sent w) s = []" if "\<not> oe_started e"
      using e that by (auto simp: entry_inv_def at_most_one_def)
    moreover have "slot_of H (oe_job e) = Inr s" using e by (simp add: entry_inv_def)
    ultimately show ?thesis
      using Some e entry_inv_loads [of "ow_files w" s e, OF Some e] by (auto simp: view_entry_def entry_inv_def)
  qed
qed

text \<open>C20. Entries only advance. No operation, lost effect or change of the provider takes back that an effect
  started, that a stop was asked for, or that termination was verified; a recorded handle, the job, its
  allocation and the profile it was prepared for never change.\<close>

theorem outbox_entries_only_advance:
  assumes "outbox_run H Q T (empty_outbox q) w" and "outbox_run H Q T w v" and "ow_files w s = Some e"
  shows "\<exists>e'. ow_files v s = Some e' \<and> advances e e'"
  using assms(2,1,3)
proof (induction rule: outbox_run.induct)
  case (here w)
  then show ?case by auto
next
  case (more w v u)
  have "outbox_inv H v" using outbox_run_inv [OF more(1)] outbox_run_inv [OF more(4) empty_outbox_inv] by blast
  with more(3) [OF more(4,5)] outbox_step_inv [OF more(2)] obtain e' e'' where
      "advances e e'" "ow_files u s = Some e''" "advances e' e''" by blast
  then show ?case by (auto simp: advances_def)
qed

section \<open>A sample run\<close>

text \<open>A provider that keeps the document it was given.\<close>

definition sample_transport :: "json option transport" where
  "sample_transport rq p =
     (if rq_action rq = ''CreateJob'' then (Inr (JObj [(''JobId'', JStr ''dlc1'')]), rq_body rq)
      else if rq_action rq = ''StopJob'' then (Inr JNull, p)
      else case p of Some doc \<Rightarrow> (Inr (sample_row doc), p) | None \<Rightarrow> (Inl (transport_error False), p))"

definition sample_reader :: cloud_reader where
  "sample_reader = \<lparr>redact_line = (\<lambda>s. s), object_of = (\<lambda>_. None)\<rparr>"

definition sample_slot :: string where
  "sample_slot = replicate 64 (CHR ''c'') @ ''.json''"

definition sample_sha :: string where
  "sample_sha = ''sha256:'' @ replicate 64 (CHR ''c'')"

definition sample_entry :: outbox_entry where
  "sample_entry = fresh_entry sample_sha sample_sha sample_job AllowIdle"

definition prepared_world :: "json option outbox_world" where
  "prepared_world = (empty_outbox None)\<lparr>ow_files := [sample_slot \<mapsto> sample_entry]\<rparr>"

definition started_world :: "json option outbox_world" where
  "started_world = (save_entry sample_slot (sample_entry\<lparr>oe_started := True\<rparr>) prepared_world)
     \<lparr>ow_lock := Some (Creating sample_slot (sample_entry\<lparr>oe_started := True\<rparr>) sample_profile sample_job AllowIdle)\<rparr>"

definition creation :: "(cloud_error + job_handle) \<times> json option \<times> cloud_request list" where
  "creation = guarded_create cloud_hashing (logged sample_transport) (Inr ()) sample_profile sample_job AllowIdle (None, [])"

definition created_world :: "json option outbox_world" where
  "created_world =
     (save_entry sample_slot (execute_end (sample_entry\<lparr>oe_started := True\<rparr>) (fst creation))
        (send_all sample_slot (snd (snd creation)) started_world))
       \<lparr>ow_provider := fst (snd creation), ow_lock := None\<rparr>"

lemma sample_digests:
  "slot_of cloud_hashing sample_job = Inr sample_slot" "job_digest cloud_hashing sample_job = Inr sample_sha"
  "profile_digest cloud_hashing sample_profile = Inr sample_sha"
  "prepare_checks cloud_hashing sample_profile sample_job AllowIdle (Inr ()) = Inr sample_slot"
  by code_simp+

lemma sample_creation: "is_ok (fst creation)" "map rq_action (mutations (snd (snd creation))) = [''CreateJob'']"
  by code_simp+

lemma sample_checked:
  "checked_entry cloud_hashing [sample_slot \<mapsto> sample_entry] sample_profile sample_job AllowIdle = Inr (sample_slot, sample_entry)"
  by (simp add: checked_entry_def load_entry_def check_entry_def sample_digests sample_entry_def fresh_entry_def)

lemma created_world_run: "outbox_run cloud_hashing sample_reader sample_transport (empty_outbox None) created_world"
proof -
  let ?step = "outbox_step cloud_hashing sample_reader sample_transport"
  have idle: "ow_lock (empty_outbox None :: json option outbox_world) = None" by (simp add: empty_outbox_def)
  have "snd (prepare_entry cloud_hashing sample_profile sample_job AllowIdle (Inr ()) (Inr ()) (Inr ()) Map.empty) =
      [sample_slot \<mapsto> sample_entry]"
    by (simp add: prepare_entry_def sample_digests sample_entry_def)
  with outbox_step.prepare [OF idle, of cloud_hashing sample_reader sample_transport sample_profile sample_job AllowIdle
      "Inr ()" "Inr ()" "Inr ()"]
  have "?step (empty_outbox None) prepared_world" by (simp add: prepared_world_def empty_outbox_def)
  moreover have "execute_begin cloud_hashing [sample_slot \<mapsto> sample_entry] sample_profile sample_job AllowIdle
      (''SUBMIT '' @ sample_slot) (Inr ()) False (Inr ()) = Inr (Reserve (sample_entry\<lparr>oe_started := True\<rparr>))"
    by (simp add: execute_begin_def sample_checked) (simp add: sample_entry_def fresh_entry_def)
  then have "?step prepared_world started_world"
    unfolding started_world_def
    by (intro outbox_step.execute [OF _ sample_digests(1)]) (simp_all add: prepared_world_def empty_outbox_def)
  moreover have "?step started_world created_world"
    unfolding created_world_def
    by (rule outbox_step.create [where oc = "fst creation" and g = "Inr ()"])
      (simp_all add: started_world_def creation_def prepared_world_def save_entry_def empty_outbox_def)
  ultimately show ?thesis using outbox_run.here outbox_run.more by metis
qed

lemma created_world_facts:
  "map rq_action (effects (ow_sent created_world) sample_slot) = [''CreateJob'']"
  "\<exists>e. ow_files created_world sample_slot = Some e \<and> oe_handle e \<noteq> None"
  using sample_creation
  by (auto simp: created_world_def started_world_def prepared_world_def save_entry_def send_all_def empty_outbox_def
      execute_end_def effects_def is_ok_iff filter_map comp_def)

theorem cloud_effects_happen_once_witness:
  "outbox_run cloud_hashing sample_reader sample_transport (empty_outbox None) created_world \<and>
   map rq_action (effects (ow_sent created_world) sample_slot) = [''CreateJob''] \<and>
   (case ow_files created_world sample_slot of
      None \<Rightarrow> False
    | Some e \<Rightarrow> load_entry cloud_hashing (ow_files created_world) sample_slot = Inr e)"
  using created_world_run created_world_facts cloud_effects_happen_once [OF created_world_run, of sample_slot]
  by (auto split: option.splits)

theorem outbox_entries_only_advance_witness:
  "\<exists>e e'. ow_files created_world sample_slot = Some e \<and> oe_handle e \<noteq> None \<and> oe_started e' \<and>
     ow_files created_world sample_slot = Some e' \<and> advances e e'"
proof -
  obtain e where e: "ow_files created_world sample_slot = Some e" "oe_handle e \<noteq> None"
    using created_world_facts(2) by auto
  have "oe_started e" using outbox_inv_entry [OF outbox_run_inv [OF created_world_run empty_outbox_inv] e(1)] e(2)
    by (simp add: entry_inv_def)
  with e outbox_entries_only_advance [OF created_world_run outbox_run.here e(1)] show ?thesis by auto
qed

end
