(* ===== verification/Artifacts.thy ===== *)
theory Artifacts
  imports SlurmHelper Actions
begin

text \<open>
  Receipts of result archives, download proofs and retention
  (\<open>rust/crates/core/src/artifacts.rs\<close>), and the bundle an Attempt publishes on its backend with the
  list of what the archive leaves out (\<open>core/src/artifacts/publication.rs\<close>).

  Everything here is a pure decision on a durable value. A \<open>u64\<close> size is a natural number, the
  counter of unlisted entries is a word because it saturates, and a \<open>BTreeMap\<close> is its list of entries
  in key order. The RFC 3339 parser \<open>R\<close> gives an instant; \<open>H\<close> holds the string writer and SHA-256.
\<close>

datatype artifact_error = AIdentity | AReceipt | AProofConflict | AUnavailable | ATransition

abbreviation MAX_RESULT_FILES :: nat where "MAX_RESULT_FILES \<equiv> 20000"
abbreviation MAX_RESULT_PATH :: nat where "MAX_RESULT_PATH \<equiv> 4096"
abbreviation MAX_RECEIPT_BYTES :: nat where "MAX_RECEIPT_BYTES \<equiv> 8 * 1024 * 1024"
abbreviation MAX_LISTED_BYTES :: nat where "MAX_LISTED_BYTES \<equiv> 6 * 1024 * 1024"

record file_receipt =
  fpath :: string
  fbytes :: nat
  fsha :: string

record archive_receipt =
  ar_project :: string
  ar_run :: string
  ar_attempt :: string
  ar_sha :: string
  ar_bytes :: nat
  ar_files :: "file_receipt list"
  ar_key :: string

datatype retention_status = Keep | Scheduled | Releasing | Released

record retention =
  rt_status :: retention_status
  rt_sha :: string
  rt_after :: "string option"
  rt_released :: "string option"

record download_proof =
  pf_sha :: string
  pf_bytes :: nat
  pf_files :: "(string \<times> file_receipt) list"

record acknowledgement =
  ak_proof :: download_proof
  ak_at :: string

section \<open>Receipts and proofs\<close>

definition artifact_sha256 :: "string \<Rightarrow> bool" where
  "artifact_sha256 v \<longleftrightarrow> length v = 64 \<and> list_all is_lower_hex v"

definition receipt_path :: "string \<Rightarrow> bool" where
  "receipt_path v \<longleftrightarrow>
     length v \<le> MAX_RESULT_PATH \<and> v \<noteq> [] \<and> CHR 0x5C \<notin> set v \<and> NUL \<notin> set v \<and>
     list_all (\<lambda>p. p \<noteq> [] \<and> p \<noteq> ''.'' \<and> p \<noteq> ''..'') (split_on CHR ''/'' v)"

definition listed_cost :: "string \<Rightarrow> nat" where
  "listed_cost p = 240 + 3 * (length p + count_list p CHR 0x22)"

definition bounded :: "'f hashing \<Rightarrow> json \<Rightarrow> artifact_error + unit" where
  "bounded H v =
     (if length (json_text (writer H) v) > MAX_RECEIPT_BYTES then Inl AReceipt else Inr ())"

definition artifact_timestamp :: "rfc3339 \<Rightarrow> string \<Rightarrow> artifact_error + int" where
  "artifact_timestamp R v =
     (if v = [] \<or> length v > 128 then Inl ATransition else ok_or (R v) ATransition)"

text \<open>What serde writes.\<close>

definition file_receipt_value :: "file_receipt \<Rightarrow> json" where
  "file_receipt_value f = JObj [(''path'', JStr (fpath f)), (''bytes'', jnat (fbytes f)),
     (''sha256'', JStr (fsha f))]"

definition archive_value :: "archive_receipt \<Rightarrow> json" where
  "archive_value r = JObj
     [(''project'', JStr (ar_project r)), (''run_id'', JStr (ar_run r)),
      (''attempt_id'', JStr (ar_attempt r)), (''sha256'', JStr (ar_sha r)),
      (''bytes'', jnat (ar_bytes r)), (''files'', JArr (map file_receipt_value (ar_files r))),
      (''object_key'', JStr (ar_key r))]"

definition proof_value :: "download_proof \<Rightarrow> json" where
  "proof_value p = JObj
     [(''archive_sha256'', JStr (pf_sha p)), (''archive_bytes'', jnat (pf_bytes p)),
      (''files'', JObj (map (\<lambda>(k, f). (k, file_receipt_value f)) (pf_files p)))]"

fun fresh_files :: "string list \<Rightarrow> file_receipt list \<Rightarrow> bool" where
  "fresh_files seen [] = True"
| "fresh_files seen (f # fs) =
     (receipt_path (fpath f) \<and> artifact_sha256 (fsha f) \<and> fpath f \<notin> set seen \<and>
      fresh_files (fpath f # seen) fs)"

definition object_key :: "string \<Rightarrow> string \<Rightarrow> string \<Rightarrow> string \<Rightarrow> string" where
  "object_key p r a sha = p @ ''/'' @ r @ ''/'' @ a @ ''/'' @ sha @ ''.tar''"

definition validate_receipt :: "'f hashing \<Rightarrow> archive_receipt \<Rightarrow> artifact_error + unit" where
  "validate_receipt H r =
     and_then (map_err (\<lambda>_. AIdentity) (validate_id (ar_project r))) (\<lambda>_.
     and_then (map_err (\<lambda>_. AIdentity) (validate_id (ar_run r))) (\<lambda>_.
     and_then (map_err (\<lambda>_. AIdentity) (validate_attempt (ar_attempt r))) (\<lambda>_.
     if ar_bytes r = 0 \<or> \<not> artifact_sha256 (ar_sha r) \<or> length (ar_files r) > MAX_RESULT_FILES
     then Inl AReceipt
     else if \<not> fresh_files [] (ar_files r) then Inl AReceipt
     else if ar_key r \<noteq> object_key (ar_project r) (ar_run r) (ar_attempt r) (ar_sha r)
     then Inl AReceipt
     else bounded H (archive_value r))))"

text \<open>The name of a result file in the archive.\<close>

definition member_name :: "string \<Rightarrow> string" where
  "member_name p = ''outputs/'' @ p"

lemma member_name_inject [simp]: "member_name p = member_name q \<longleftrightarrow> p = q"
  by (simp add: member_name_def)

lemma strip_member_name [simp]: "strip_prefix ''outputs/'' (member_name p) = Some p"
  unfolding member_name_def by (rule strip_prefix_append)

definition proof_covers :: "download_proof \<Rightarrow> file_receipt \<Rightarrow> bool" where
  "proof_covers p f =
     (case map_of (pf_files p) (member_name (fpath f)) of
        None \<Rightarrow> False
      | Some seen \<Rightarrow> fpath seen = fpath f \<and> fbytes seen = fbytes f \<and> fsha seen = fsha f)"

definition proof_matches ::
    "'f hashing \<Rightarrow> archive_receipt \<Rightarrow> download_proof \<Rightarrow> artifact_error + unit" where
  "proof_matches H r p =
     and_then (validate_receipt H r) (\<lambda>_.
     if pf_sha p \<noteq> ar_sha r \<or> pf_bytes p \<noteq> ar_bytes r \<or> length (pf_files p) \<noteq> length (ar_files r)
     then Inl AProofConflict
     else if \<not> list_all (proof_covers p) (ar_files r) then Inl AProofConflict
     else bounded H (proof_value p))"

section \<open>Retention\<close>

definition validate_retention :: "rfc3339 \<Rightarrow> retention \<Rightarrow> string \<Rightarrow> artifact_error + unit" where
  "validate_retention R t expected =
     (if rt_sha t \<noteq> expected \<or> \<not> artifact_sha256 (rt_sha t) then Inl ATransition
      else case rt_status t of
        Keep \<Rightarrow>
          (if rt_after t \<noteq> None \<or> rt_released t \<noteq> None then Inl ATransition else Inr ())
      | Released \<Rightarrow>
          (case (rt_after t, rt_released t) of
             (Some a, Some d) \<Rightarrow>
               and_then (artifact_timestamp R a) (\<lambda>_.
               and_then (artifact_timestamp R d) (\<lambda>_. Inr ()))
           | _ \<Rightarrow> Inl ATransition)
      | _ \<Rightarrow>
          and_then (ok_or (rt_after t) ATransition) (\<lambda>a.
          and_then (artifact_timestamp R a) (\<lambda>_.
          if rt_released t \<noteq> None then Inl ATransition else Inr ())))"

definition acknowledge_receipt ::
    "'f hashing \<Rightarrow> rfc3339 \<Rightarrow> archive_receipt \<Rightarrow> download_proof \<Rightarrow> string \<Rightarrow> bool
     \<Rightarrow> artifact_error + acknowledgement \<times> retention" where
  "acknowledge_receipt H R r p verified_at release =
     and_then (proof_matches H r p) (\<lambda>_.
     and_then (map_err (\<lambda>_. AProofConflict) (artifact_timestamp R verified_at)) (\<lambda>_.
     Inr (\<lparr>ak_proof = p, ak_at = verified_at\<rparr>,
       \<lparr>rt_status = (if release then Scheduled else Keep), rt_sha = ar_sha r,
        rt_after = (if release then Some verified_at else None), rt_released = None\<rparr>)))"

definition begin_release ::
    "'f hashing \<Rightarrow> rfc3339 \<Rightarrow> archive_receipt \<Rightarrow> retention \<Rightarrow> artifact_error + retention" where
  "begin_release H R r t =
     and_then (validate_receipt H r) (\<lambda>_.
     and_then (validate_retention R t (ar_sha r)) (\<lambda>_.
     case rt_status t of
       Keep \<Rightarrow> Inl AUnavailable
     | Released \<Rightarrow> Inr t
     | _ \<Rightarrow> Inr (t\<lparr>rt_status := Releasing\<rparr>)))"

definition finish_release ::
    "'f hashing \<Rightarrow> rfc3339 \<Rightarrow> archive_receipt \<Rightarrow> retention \<Rightarrow> string \<Rightarrow> artifact_error + retention" where
  "finish_release H R r t released_at =
     and_then (validate_receipt H r) (\<lambda>_.
     and_then (validate_retention R t (ar_sha r)) (\<lambda>_.
     if rt_status t \<noteq> Releasing then Inl ATransition
     else and_then (artifact_timestamp R released_at) (\<lambda>released.
          and_then (ok_or (rt_after t) ATransition) (\<lambda>a.
          and_then (artifact_timestamp R a) (\<lambda>release_after.
          if released < release_after then Inl ATransition
          else Inr (t\<lparr>rt_status := Released, rt_released := Some released_at\<rparr>))))))"

section \<open>What an archive leaves out\<close>

datatype skip_reason = SymbolicLink | SpecialFile | UnsupportedPath | FileLimit

record skipped_path =
  sp_path :: string
  sp_reason :: skip_reason

record skipped =
  sk_paths :: "skipped_path list"
  sk_unlisted :: u64

abbreviation MAX_SKIPPED_ROWS :: nat where "MAX_SKIPPED_ROWS \<equiv> 1024"
abbreviation MAX_SKIPPED_PATH :: nat where "MAX_SKIPPED_PATH \<equiv> 512"

definition nothing_skipped :: skipped where
  "nothing_skipped = \<lparr>sk_paths = [], sk_unlisted = 0\<rparr>"

text \<open>\<open>char::escape_default\<close> of a control character: three have a letter, the others their code point
  in hexadecimal without leading zeros.\<close>

definition hex_digit_of :: "nat \<Rightarrow> char" where
  "hex_digit_of d = (if d < 10 then char_of (48 + d) else char_of (87 + d))"

definition hex_small :: "nat \<Rightarrow> string" where
  "hex_small n = (if n < 16 then [hex_digit_of n] else [hex_digit_of (n div 16), hex_digit_of (n mod 16)])"

definition escape_control :: "string \<Rightarrow> string" where
  "escape_control g =
     (if g = [CHR 0x09] then [CHR 0x5C, CHR ''t'']
      else if g = [CHR 0x0D] then [CHR 0x5C, CHR ''r'']
      else if g = [CHR 0x0A] then [CHR 0x5C, CHR ''n'']
      else [CHR 0x5C, CHR ''u'', CHR 0x7B] @ hex_small (byte (last g)) @ [CHR 0x7D])"

fun shown_chars :: "string \<Rightarrow> string list \<Rightarrow> string" where
  "shown_chars acc [] = acc"
| "shown_chars acc (c # cs) =
     (if length acc \<ge> MAX_SKIPPED_PATH then acc @ ''...''
      else shown_chars (acc @ (if is_control c then escape_control c else c)) cs)"

definition shown_path :: "string \<Rightarrow> string" where
  "shown_path p = shown_chars [] (utf8_chars p)"

definition skip_add :: "skipped \<Rightarrow> string \<Rightarrow> skip_reason \<Rightarrow> skipped" where
  "skip_add s p why =
     (if length (sk_paths s) \<ge> MAX_SKIPPED_ROWS
      then s\<lparr>sk_unlisted := saturating_add (sk_unlisted s) 1\<rparr>
      else s\<lparr>sk_paths := sk_paths s @ [\<lparr>sp_path = shown_path p, sp_reason = why\<rparr>]\<rparr>)"

definition validate_skipped :: "skipped \<Rightarrow> artifact_error + unit" where
  "validate_skipped s =
     (if length (sk_paths s) > MAX_SKIPPED_ROWS \<or>
         list_ex (\<lambda>row. sp_path row = [] \<or> length (sp_path row) > MAX_SKIPPED_PATH + 16 \<or>
           has_control (sp_path row)) (sk_paths s)
      then Inl AReceipt else Inr ())"

section \<open>The bundle and its policy\<close>

definition export_path :: "string \<Rightarrow> bool" where
  "export_path p \<longleftrightarrow> receipt_path p \<and> \<not> has_control p"

text \<open>\<open>Policy\<close> has one field, the required files.\<close>

fun fresh_names :: "string list \<Rightarrow> string list \<Rightarrow> bool" where
  "fresh_names seen [] = True"
| "fresh_names seen (p # ps) =
     (export_path p \<and> p \<noteq> ''outputs'' \<and> \<not> starts_with ''outputs/'' p \<and> p \<notin> set seen \<and>
      fresh_names (p # seen) ps)"

definition validate_policy :: "string list \<Rightarrow> artifact_error + unit" where
  "validate_policy required =
     (if length required > MAX_RESULT_FILES \<or> \<not> fresh_names [] required
      then Inl AReceipt else Inr ())"

definition check_policy :: "string list \<Rightarrow> string list \<Rightarrow> artifact_error + unit" where
  "check_policy required paths =
     and_then (validate_policy required) (\<lambda>_.
     if list_ex (\<lambda>p. p \<notin> set paths) required then Inl AReceipt else Inr ())"

abbreviation ARTIFACT_CONTRACT :: string where "ARTIFACT_CONTRACT \<equiv> ''backend-artifacts.v1''"

record result_bundle =
  bd_contract :: string
  bd_intent :: string
  bd_config :: string
  bd_archive :: archive_receipt
  bd_skipped :: skipped

definition validate_bundle :: "'f hashing \<Rightarrow> result_bundle \<Rightarrow> artifact_error + unit" where
  "validate_bundle H b =
     and_then (validate_receipt H (bd_archive b)) (\<lambda>_.
     and_then (validate_skipped (bd_skipped b)) (\<lambda>_.
     if bd_contract b \<noteq> ARTIFACT_CONTRACT \<or> \<not> valid_digest (bd_intent b) \<or>
        \<not> valid_digest (bd_config b) \<or>
        list_ex (\<lambda>f. \<not> export_path (fpath f)) (ar_files (bd_archive b))
     then Inl AReceipt else Inr ()))"

definition bind_bundle ::
    "'f hashing \<Rightarrow> result_bundle \<Rightarrow> frozen_intent \<Rightarrow> string option \<Rightarrow> artifact_error + unit" where
  "bind_bundle H b i config =
     and_then (validate_bundle H b) (\<lambda>_.
     and_then (map_err (\<lambda>_. AIdentity) (intent_digest H i)) (\<lambda>digest.
     if bd_intent b \<noteq> digest \<or> ar_project (bd_archive b) \<noteq> project (scope i) \<or>
        ar_run (bd_archive b) \<noteq> run_id (scope i) \<or>
        ar_attempt (bd_archive b) \<noteq> attempt_id (scope i) \<or>
        (case config of None \<Rightarrow> False | Some v \<Rightarrow> v \<noteq> bd_config b)
     then Inl AIdentity else Inr ()))"

record publication =
  pb_bundle :: result_bundle
  pb_retention :: retention
  pb_ack :: "acknowledgement option"

definition new_publication :: "'f hashing \<Rightarrow> result_bundle \<Rightarrow> artifact_error + publication" where
  "new_publication H b =
     and_then (validate_bundle H b) (\<lambda>_.
     Inr \<lparr>pb_bundle = b,
       pb_retention = \<lparr>rt_status = Keep, rt_sha = ar_sha (bd_archive b), rt_after = None,
         rt_released = None\<rparr>,
       pb_ack = None\<rparr>)"

definition validate_publication :: "'f hashing \<Rightarrow> rfc3339 \<Rightarrow> publication \<Rightarrow> artifact_error + unit" where
  "validate_publication H R s =
     and_then (validate_bundle H (pb_bundle s)) (\<lambda>_.
     and_then (validate_retention R (pb_retention s) (ar_sha (bd_archive (pb_bundle s)))) (\<lambda>_.
     case pb_ack s of
       Some ack \<Rightarrow>
         and_then (proof_matches H (bd_archive (pb_bundle s)) (ak_proof ack)) (\<lambda>_.
         and_then (artifact_timestamp R (ak_at ack)) (\<lambda>_.
         if rt_status (pb_retention s) \<noteq> Keep \<and> rt_after (pb_retention s) \<noteq> Some (ak_at ack)
         then Inl ATransition else Inr ()))
     | None \<Rightarrow>
         if rt_status (pb_retention s) \<noteq> Keep then Inl ATransition else Inr ()))"

fun retention_rank :: "retention_status \<Rightarrow> nat" where
  "retention_rank Keep = 0"
| "retention_rank Scheduled = 1"
| "retention_rank Releasing = 2"
| "retention_rank Released = 3"

definition validate_successor ::
    "'f hashing \<Rightarrow> rfc3339 \<Rightarrow> publication \<Rightarrow> publication \<Rightarrow> artifact_error + unit" where
  "validate_successor H R old new =
     and_then (validate_publication H R old) (\<lambda>_.
     and_then (validate_publication H R new) (\<lambda>_.
     if pb_bundle old \<noteq> pb_bundle new \<or>
        retention_rank (rt_status (pb_retention new)) < retention_rank (rt_status (pb_retention old)) \<or>
        rt_status (pb_retention old) = Released \<and> old \<noteq> new
     then Inl ATransition
     else case pb_ack old of
       None \<Rightarrow> Inr ()
     | Some ack \<Rightarrow>
         if map_option ak_proof (pb_ack new) \<noteq> Some (ak_proof ack)
         then Inl AProofConflict else Inr ()))"

definition available :: "'f hashing \<Rightarrow> rfc3339 \<Rightarrow> publication \<Rightarrow> artifact_error + bool" where
  "available H R s =
     and_then (validate_publication H R s) (\<lambda>_. Inr (rt_status (pb_retention s) = Keep))"

definition acknowledge ::
    "'f hashing \<Rightarrow> rfc3339 \<Rightarrow> publication \<Rightarrow> download_proof \<Rightarrow> string \<Rightarrow> bool
     \<Rightarrow> artifact_error + publication" where
  "acknowledge H R s p verified_at release =
     and_then (validate_publication H R s) (\<lambda>_.
     and_then (acknowledge_receipt H R (bd_archive (pb_bundle s)) p verified_at release) (\<lambda>(ack, t).
     let next = \<lparr>pb_bundle = pb_bundle s, pb_retention = t, pb_ack = Some ack\<rparr> in
     case pb_ack s of
       None \<Rightarrow> Inr next
     | Some old \<Rightarrow>
         if ak_proof old \<noteq> ak_proof ack then Inl AProofConflict
         else if rt_status (pb_retention s) \<noteq> Keep \<or> \<not> release then Inr s
         else Inr next))"

datatype artifact_command =
    Collect
  | Download string
  | Acknowledge download_proof string bool

fun validate_command :: "rfc3339 \<Rightarrow> artifact_command \<Rightarrow> artifact_error + unit" where
  "validate_command R Collect = Inr ()"
| "validate_command R (Download sha) = (if \<not> artifact_sha256 sha then Inl AIdentity else Inr ())"
| "validate_command R (Acknowledge p verified_at release) =
     and_then (artifact_timestamp R verified_at) (\<lambda>_.
     if \<not> artifact_sha256 (pf_sha p) \<or> pf_bytes p = 0 \<or> length (pf_files p) > MAX_RESULT_FILES
     then Inl AProofConflict else Inr ())"

section \<open>A receipt has one proof\<close>

text \<open>The entries of a \<open>BTreeMap\<close>: keys ascend strictly.\<close>

definition key_order :: "(string \<times> 'a) list \<Rightarrow> bool" where
  "key_order m \<longleftrightarrow> sorted (map fst m) \<and> distinct (map fst m)"

definition proof_entries :: "file_receipt list \<Rightarrow> (string \<times> file_receipt) list" where
  "proof_entries fs = sort_key fst (map (\<lambda>f. (member_name (fpath f), f)) fs)"

definition proof_of :: "archive_receipt \<Rightarrow> download_proof" where
  "proof_of r = \<lparr>pf_sha = ar_sha r, pf_bytes = ar_bytes r, pf_files = proof_entries (ar_files r)\<rparr>"

lemma fresh_files_iff:
  "fresh_files seen fs \<longleftrightarrow>
     (\<forall>f\<in>set fs. receipt_path (fpath f) \<and> artifact_sha256 (fsha f)) \<and>
     distinct (map fpath fs) \<and> set seen \<inter> fpath ` set fs = {}"
  by (induction seen fs rule: fresh_files.induct) auto

lemma fresh_names_iff:
  "fresh_names seen ps \<longleftrightarrow>
     (\<forall>p\<in>set ps. export_path p \<and> p \<noteq> ''outputs'' \<and> \<not> starts_with ''outputs/'' p) \<and>
     distinct ps \<and> set seen \<inter> set ps = {}"
  by (induction seen ps rule: fresh_names.induct) auto

lemma validate_receiptD:
  assumes "validate_receipt H r = Inr ()"
  shows "\<And>f. f \<in> set (ar_files r) \<Longrightarrow> receipt_path (fpath f) \<and> artifact_sha256 (fsha f)"
    "distinct (map fpath (ar_files r))" "artifact_sha256 (ar_sha r)" "ar_bytes r \<noteq> 0"
    "length (ar_files r) \<le> MAX_RESULT_FILES"
    "ar_key r = object_key (ar_project r) (ar_run r) (ar_attempt r) (ar_sha r)"
  using assms by (auto simp: validate_receipt_def res_simps fresh_files_iff split: if_splits)

lemma proof_entries_order:
  assumes "distinct (map fpath fs)"
  shows "key_order (proof_entries fs)"
proof -
  have "map fst (map (\<lambda>f. (member_name (fpath f), f)) fs) = map member_name (map fpath fs)"
    by simp
  then have "distinct (map fst (map (\<lambda>f. (member_name (fpath f), f)) fs))"
    using assms by (simp only: distinct_map) (simp add: inj_on_def)
  then show ?thesis by (simp add: key_order_def proof_entries_def distinct_map inj_on_def)
qed

lemma set_proof_entries: "set (proof_entries fs) = (\<lambda>f. (member_name (fpath f), f)) ` set fs"
  by (simp add: proof_entries_def)

lemma proof_covers_iff:
  "proof_covers p f \<longleftrightarrow> map_of (pf_files p) (member_name (fpath f)) = Some f"
  by (auto simp: proof_covers_def split: option.splits)

lemma key_order_unique:
  assumes "key_order m" "key_order n" "set m \<subseteq> set n" "length m = length n"
  shows "m = n"
proof -
  have "distinct m" "distinct n" using assms(1,2) by (auto simp: key_order_def distinct_map)
  then have "set m = set n"
    using assms(3,4) by (metis List.finite_set card_subset_eq distinct_card)
  then show ?thesis
    using assms(1,2) by (intro map_sorted_distinct_set_unique [of fst]) (auto simp: key_order_def distinct_map)
qed

lemma proof_matches_iff:
  assumes "key_order (pf_files p)"
  shows "proof_matches H r p = Inr () \<longleftrightarrow>
    validate_receipt H r = Inr () \<and> p = proof_of r \<and> bounded H (proof_value p) = Inr ()"
proof
  assume ok: "proof_matches H r p = Inr ()"
  then have v: "validate_receipt H r = Inr ()" and len: "length (pf_files p) = length (ar_files r)"
    and head: "pf_sha p = ar_sha r" "pf_bytes p = ar_bytes r"
    and cov: "list_all (proof_covers p) (ar_files r)" and b: "bounded H (proof_value p) = Inr ()"
    by (auto simp: proof_matches_def res_simps split: if_splits)
  have "pf_files p = proof_entries (ar_files r)"
  proof (rule key_order_unique [symmetric])
    show "key_order (proof_entries (ar_files r))"
      using validate_receiptD(2) [OF v] by (rule proof_entries_order)
    show "set (proof_entries (ar_files r)) \<subseteq> set (pf_files p)"
      using cov by (auto simp: set_proof_entries list_all_iff proof_covers_iff dest: map_of_SomeD)
    show "length (proof_entries (ar_files r)) = length (pf_files p)"
      using len by (simp add: proof_entries_def)
  qed (rule assms)
  with v head b show "validate_receipt H r = Inr () \<and> p = proof_of r \<and> bounded H (proof_value p) = Inr ()"
    by (simp add: proof_of_def)
next
  assume a: "validate_receipt H r = Inr () \<and> p = proof_of r \<and> bounded H (proof_value p) = Inr ()"
  have "key_order (proof_entries (ar_files r))"
    using a validate_receiptD(2) [of H r] by (auto intro: proof_entries_order)
  then have "proof_covers (proof_of r) f" if "f \<in> set (ar_files r)" for f
    using that by (auto simp: proof_covers_iff proof_of_def set_proof_entries key_order_def intro: map_of_is_SomeI)
  with a show "proof_matches H r p = Inr ()"
    by (auto simp: proof_matches_def proof_of_def proof_entries_def list_all_iff)
qed

section \<open>Retention moves forward\<close>

lemma validate_retention_iff:
  "validate_retention R t sha = Inr () \<longleftrightarrow>
     rt_sha t = sha \<and> artifact_sha256 sha \<and>
     (if rt_status t = Keep then rt_after t = None \<and> rt_released t = None
      else (\<exists>a i. rt_after t = Some a \<and> artifact_timestamp R a = Inr i) \<and>
           (if rt_status t = Released
            then \<exists>d i. rt_released t = Some d \<and> artifact_timestamp R d = Inr i
            else rt_released t = None))"
  by (cases "rt_status t")
    (auto simp: validate_retention_def res_simps split: option.splits if_splits)

lemma validate_publication_iff:
  "validate_publication H R s = Inr () \<longleftrightarrow>
     validate_bundle H (pb_bundle s) = Inr () \<and>
     validate_retention R (pb_retention s) (ar_sha (bd_archive (pb_bundle s))) = Inr () \<and>
     (case pb_ack s of
        None \<Rightarrow> rt_status (pb_retention s) = Keep
      | Some ack \<Rightarrow>
          proof_matches H (bd_archive (pb_bundle s)) (ak_proof ack) = Inr () \<and>
          (\<exists>i. artifact_timestamp R (ak_at ack) = Inr i) \<and>
          (rt_status (pb_retention s) \<noteq> Keep \<longrightarrow> rt_after (pb_retention s) = Some (ak_at ack)))"
  by (auto simp: validate_publication_def res_simps split: option.splits if_splits)

lemma validate_bundle_receipt: "validate_bundle H b = Inr () \<Longrightarrow> validate_receipt H (bd_archive b) = Inr ()"
  by (auto simp: validate_bundle_def res_simps)

lemma validate_successor_iff:
  "validate_successor H R old new = Inr () \<longleftrightarrow>
     validate_publication H R old = Inr () \<and> validate_publication H R new = Inr () \<and>
     pb_bundle old = pb_bundle new \<and>
     retention_rank (rt_status (pb_retention old)) \<le> retention_rank (rt_status (pb_retention new)) \<and>
     (rt_status (pb_retention old) = Released \<longrightarrow> old = new) \<and>
     (\<forall>ack. pb_ack old = Some ack \<longrightarrow> map_option ak_proof (pb_ack new) = Some (ak_proof ack))"
  by (auto simp: validate_successor_def res_simps split: option.splits if_splits)

lemma successor_refl: "validate_publication H R s = Inr () \<Longrightarrow> validate_successor H R s s = Inr ()"
  by (simp add: validate_successor_iff)

lemma rank_Released: "3 \<le> retention_rank t \<longleftrightarrow> t = Released"
  by (cases t) simp_all

lemma successor_trans:
  assumes "validate_successor H R a b = Inr ()" "validate_successor H R b c = Inr ()"
  shows "validate_successor H R a c = Inr ()"
  using assms by (fastforce simp: validate_successor_iff)

lemma new_publication_valid:
  assumes "new_publication H b = Inr s"
  shows "validate_publication H R s = Inr ()"
proof -
  have "validate_bundle H b = Inr ()"
    using assms by (auto simp: new_publication_def res_simps)
  moreover from this have "artifact_sha256 (ar_sha (bd_archive b))"
    by (auto dest: validate_bundle_receipt validate_receiptD)
  ultimately show ?thesis
    using assms by (auto simp: new_publication_def validate_publication_iff validate_retention_iff res_simps)
qed

lemma acknowledge_successor:
  assumes "acknowledge H R s p at rel = Inr s'"
  shows "validate_successor H R s s' = Inr ()"
proof -
  have v: "validate_publication H R s = Inr ()"
    and m: "proof_matches H (bd_archive (pb_bundle s)) p = Inr ()"
    and t: "\<exists>i. artifact_timestamp R at = Inr i"
    using assms by (auto simp: acknowledge_def acknowledge_receipt_def res_simps)
  let ?t = "\<lparr>rt_status = (if rel then Scheduled else Keep), rt_sha = ar_sha (bd_archive (pb_bundle s)),
        rt_after = (if rel then Some at else None), rt_released = None\<rparr>"
  let ?n = "\<lparr>pb_bundle = pb_bundle s, pb_retention = ?t, pb_ack = Some \<lparr>ak_proof = p, ak_at = at\<rparr>\<rparr>"
  have s': "s' = s \<or> s' = ?n \<and> rt_status (pb_retention s) = Keep \<and>
      (\<forall>ack. pb_ack s = Some ack \<longrightarrow> ak_proof ack = p)"
    using assms v
    by (auto simp: acknowledge_def acknowledge_receipt_def res_simps validate_publication_iff Let_def
        split: option.splits if_splits)
  have "artifact_sha256 (ar_sha (bd_archive (pb_bundle s)))"
    using v by (auto simp: validate_publication_iff validate_retention_iff)
  then have "validate_publication H R ?n = Inr ()"
    using v m t by (auto simp: validate_publication_iff validate_retention_iff)
  with s' v show ?thesis by (auto simp: validate_successor_iff)
qed

lemma begin_release_successor:
  assumes "validate_publication H R s = Inr ()"
    and "begin_release H R (bd_archive (pb_bundle s)) (pb_retention s) = Inr t"
  shows "validate_successor H R s (s\<lparr>pb_retention := t\<rparr>) = Inr ()"
  using assms
  by (cases "rt_status (pb_retention s)")
    (auto simp: begin_release_def res_simps validate_successor_iff validate_publication_iff
      validate_retention_iff split: option.splits)

lemma finish_release_successor:
  assumes "validate_publication H R s = Inr ()"
    and "finish_release H R (bd_archive (pb_bundle s)) (pb_retention s) at = Inr t"
  shows "validate_successor H R s (s\<lparr>pb_retention := t\<rparr>) = Inr ()" "rt_status t = Released"
  using assms
  by (auto simp: finish_release_def res_simps validate_successor_iff validate_publication_iff
      validate_retention_iff split: option.splits if_splits)

section \<open>The skip list stays readable\<close>

text \<open>What the UTF-8 encoding of one character looks like.\<close>

definition utf8_char :: "string \<Rightarrow> bool" where
  "utf8_char g \<longleftrightarrow>
     g \<noteq> [] \<and> list_all is_continuation (tl g) \<and>
     length g = (let b = byte (hd g) in
       if b < 128 then 1 else if b < 192 then 0 else if b < 224 then 2 else if b < 240 then 3 else 4)"

definition utf8_text :: "string \<Rightarrow> bool" where
  "utf8_text s \<longleftrightarrow> list_all utf8_char (utf8_chars s)"

definition plain_char :: "char \<Rightarrow> bool" where
  "plain_char c \<longleftrightarrow> utf8_char [c] \<and> \<not> is_control [c]"

lemma byte_lt: "byte c < 256"
  by (simp add: byte_def)

lemma plain_hex_digits: "list_all plain_char (map hex_digit_of [0..<16])"
  by code_simp

lemma plain_hex_digit: "d < 16 \<Longrightarrow> plain_char (hex_digit_of d)"
  using plain_hex_digits by (simp add: list_all_iff)

lemma plain_escape: "list_all plain_char (escape_control g)" "length (escape_control g) \<le> 6"
proof -
  have b: "byte c div 16 < 16" for c
    using byte_lt [of c] by simp
  have "list_all plain_char (hex_small (byte c))" for c
    using b [of c] by (auto simp: hex_small_def plain_hex_digit)
  moreover have "list_all plain_char ([CHR 0x5C, CHR 0x7B, CHR 0x7D] @ ''trnu'')"
    by code_simp
  ultimately show "list_all plain_char (escape_control g)" by (auto simp: escape_control_def)
  show "length (escape_control g) \<le> 6" by (simp add: escape_control_def hex_small_def)
qed

text \<open>The characters of a shown path.\<close>

definition shown_group :: "string \<Rightarrow> string list" where
  "shown_group g = (if is_control g then map (\<lambda>c. [c]) (escape_control g) else [g])"

lemma concat_shown_group: "concat (shown_group g) = (if is_control g then escape_control g else g)"
  by (simp add: shown_group_def)

lemma shown_group_clean:
  "utf8_char g \<Longrightarrow> list_all (\<lambda>h. utf8_char h \<and> \<not> is_control h) (shown_group g)"
  using plain_escape(1) [of g] by (auto simp: shown_group_def list_all_iff plain_char_def)

lemma shown_chars_groups:
  "list_all utf8_char cs \<Longrightarrow>
   \<exists>gs. shown_chars acc cs = acc @ concat gs \<and> list_all (\<lambda>h. utf8_char h \<and> \<not> is_control h) gs \<and>
     (cs \<noteq> [] \<longrightarrow> gs \<noteq> [])"
proof (induction acc cs rule: shown_chars.induct)
  case (2 acc c cs)
  show ?case
  proof (cases "length acc \<ge> MAX_SKIPPED_PATH")
    case True
    have "list_all (\<lambda>h. utf8_char h \<and> \<not> is_control h) [''.'', ''.'', ''.'']" by code_simp
    with True show ?thesis by (intro exI [of _ "[''.'', ''.'', ''.'']"]) simp
  next
    case False
    from "2.IH" [OF False] "2.prems" obtain gs where
      gs: "shown_chars (acc @ (if is_control c then escape_control c else c)) cs =
           (acc @ (if is_control c then escape_control c else c)) @ concat gs"
          "list_all (\<lambda>h. utf8_char h \<and> \<not> is_control h) gs"
      by auto
    have "shown_group c \<noteq> []"
      by (simp add: shown_group_def escape_control_def)
    with False gs shown_group_clean [of c] "2.prems" show ?thesis
      by (intro exI [of _ "shown_group c @ gs"]) (simp add: concat_shown_group)
  qed
qed (simp add: exI [of _ "[]"])

lemma shown_chars_length:
  "list_all utf8_char cs \<Longrightarrow> length acc \<le> 517 \<Longrightarrow> length (shown_chars acc cs) \<le> 520"
proof (induction acc cs rule: shown_chars.induct)
  case (2 acc c cs)
  have "length c \<le> 4" using "2.prems"(1) by (auto simp: utf8_char_def Let_def split: if_splits)
  then have "length (if is_control c then escape_control c else c) \<le> 6"
    using plain_escape(2) [of c] by simp
  with 2 show ?case by (cases "length acc \<ge> MAX_SKIPPED_PATH") simp_all
qed simp

lemma is_continuation_iff: "utf8_char g \<Longrightarrow> \<not> is_continuation (hd g)"
  by (auto simp: utf8_char_def is_continuation_def Let_def split: if_splits)

lemma utf8_grouped:
  assumes "list_all utf8_char gs"
  shows "grouped gs"
proof -
  have "\<And>g. g \<in> set gs \<Longrightarrow> g \<noteq> [] \<and> list_all is_continuation (tl g) \<and> \<not> is_continuation (hd g)"
    using assms is_continuation_iff by (auto simp: list_all_iff utf8_char_def)
  moreover have "set (tl gs) \<subseteq> set gs" by (cases gs) auto
  ultimately show ?thesis by (auto simp: grouped_def list_all_iff subset_iff)
qed

lemma shown_path_row:
  assumes "utf8_text p" "p \<noteq> []"
  shows "shown_path p \<noteq> []" "length (shown_path p) \<le> 520" "\<not> has_control (shown_path p)"
    "utf8_text (shown_path p)"
proof -
  have u: "list_all utf8_char (utf8_chars p)" "utf8_chars p \<noteq> []"
    using assms by (auto simp: utf8_text_def) (cases p; simp)
  then obtain gs where gs: "shown_path p = concat gs"
      "list_all (\<lambda>h. utf8_char h \<and> \<not> is_control h) gs" "gs \<noteq> []"
    using shown_chars_groups [of "utf8_chars p" "[]"] by (auto simp: shown_path_def)
  have "list_all utf8_char gs" using gs(2) by (simp add: list_all_iff)
  then have chars: "utf8_chars (shown_path p) = gs"
    using gs(1) utf8_chars_concat [of gs] utf8_grouped [of gs] by simp
  then show "\<not> has_control (shown_path p)" "utf8_text (shown_path p)"
    using gs(2) by (auto simp: has_control_def list_ex_iff list_all_iff utf8_text_def)
  show "shown_path p \<noteq> []" using chars gs(3) by force
  show "length (shown_path p) \<le> 520"
    using shown_chars_length [OF u(1), of "[]"] by (simp add: shown_path_def)
qed

lemma skip_add_valid:
  assumes "validate_skipped s = Inr ()" "utf8_text p" "p \<noteq> []"
  shows "validate_skipped (skip_add s p why) = Inr ()"
  using assms shown_path_row [OF assms(2,3)]
  by (auto simp: validate_skipped_def skip_add_def split: if_splits)

end
