(* ===== verification/ResultWalk.thy ===== *)
theory ResultWalk
  imports Artifacts
begin

text \<open>
  The walk over an output directory that chooses what a result archive holds, the packing of the
  archive and its verification (\<open>rust/crates/io/src/artifacts.rs\<close>).

  A directory is the list of its entries in the byte order of their names, which is the order the
  walk reads them in. A name is the text it holds or, when it is not UTF-8, the text its lossy reading
  shows. A directory that cannot be opened has no entries to read, and an entry whose type cannot be
  read is \<open>Unreadable\<close>. Every \<open>io::Error\<close> is the same failure. The tar format is a parameter: what
  the builder writes for a list of members, and what the reader makes of a file.
\<close>

datatype os_name = Utf8 string | Lossy string

fun shown_name :: "os_name \<Rightarrow> string" where
  "shown_name (Utf8 s) = s"
| "shown_name (Lossy s) = s"

fun is_utf8 :: "os_name \<Rightarrow> bool" where
  "is_utf8 (Utf8 s) = True"
| "is_utf8 (Lossy s) = False"

datatype node =
    Regular string
  | Directory "(os_name \<times> node) list option"
  | SymbolicLinkNode
  | SpecialNode
  | Unreadable

type_synonym entries = "(os_name \<times> node) list"

datatype archive_error = InvalidArchive

abbreviation MAX_DEPTH :: nat where "MAX_DEPTH \<equiv> 128"

record walk =
  wk_found :: "string list"
  wk_skipped :: skipped
  wk_entries :: nat
  wk_listed :: nat

text \<open>\<open>BTreeSet::insert\<close>.\<close>

definition tree_insert :: "string \<Rightarrow> string list \<Rightarrow> string list" where
  "tree_insert p ps = (if p \<in> set ps then ps else insort p ps)"

section \<open>The walk\<close>

definition walk_skip :: "string \<Rightarrow> skip_reason \<Rightarrow> walk \<Rightarrow> walk" where
  "walk_skip p why w = w\<lparr>wk_skipped := skip_add (wk_skipped w) p why\<rparr>"

definition count_entry :: "walk \<Rightarrow> walk" where
  "count_entry w = w\<lparr>wk_entries := wk_entries w + 1\<rparr>"

definition take_file :: "string list \<Rightarrow> string \<Rightarrow> walk \<Rightarrow> walk" where
  "take_file required p w =
     w\<lparr>wk_listed := wk_listed w + (if p \<in> set required then 0 else listed_cost p),
       wk_found := tree_insert p (wk_found w)\<rparr>"

text \<open>The head of \<open>visit\<close>: a directory with more names than are read is itself a row.\<close>

definition enter :: "walk \<Rightarrow> string \<Rightarrow> entries \<Rightarrow> walk" where
  "enter w prefix es =
     (let more = length es - MAX_RESULT_FILES in
      if more > 0
      then let s = skip_add (wk_skipped w) (if prefix = [] then ''.'' else prefix) FileLimit in
           w\<lparr>wk_skipped := s\<lparr>sk_unlisted := saturating_add (sk_unlisted s) (of_nat more)\<rparr>\<rparr>
      else w)"

definition child_path :: "string \<Rightarrow> string \<Rightarrow> string" where
  "child_path prefix name = (if prefix = [] then name else prefix @ ''/'' @ name)"

text \<open>The loop of \<open>visit\<close> over the names read; \<open>room\<close> counts them down from the limit of one listing.\<close>

function visit ::
    "string list \<Rightarrow> nat \<Rightarrow> walk \<Rightarrow> string \<Rightarrow> nat \<Rightarrow> nat \<Rightarrow> entries \<Rightarrow> archive_error + walk" where
  "visit required limit w prefix depth room [] = Inr w"
| "visit required limit w prefix depth room ((name, node) # es) =
     (if room = 0 then Inr w
      else
      let path = child_path prefix (shown_name name);
          cost = listed_cost path;
          w = count_entry w;
          room = room - 1 in
      if wk_entries w > limit \<or> wk_listed w + cost > MAX_LISTED_BYTES
      then visit required limit (if path \<in> set required then w else walk_skip path FileLimit w)
             prefix depth room es
      else if \<not> is_utf8 name \<or> \<not> export_path path
      then visit required limit (walk_skip path UnsupportedPath w) prefix depth room es
      else case node of
        Unreadable \<Rightarrow> Inl InvalidArchive
      | SymbolicLinkNode \<Rightarrow> visit required limit (walk_skip path SymbolicLink w) prefix depth room es
      | SpecialNode \<Rightarrow> visit required limit (walk_skip path SpecialFile w) prefix depth room es
      | Directory below \<Rightarrow>
          if depth \<ge> MAX_DEPTH
          then visit required limit (walk_skip path UnsupportedPath w) prefix depth room es
          else (case below of
                  None \<Rightarrow> Inl InvalidArchive
                | Some ds \<Rightarrow>
                    and_then (visit required limit (enter w path ds) path (depth + 1)
                        MAX_RESULT_FILES ds)
                      (\<lambda>w. visit required limit w prefix depth room es))
      | Regular content \<Rightarrow>
          visit required limit (take_file required path w) prefix depth room es)"
  by pat_completeness auto
termination
  by (relation "measure (\<lambda>(_, _, _, _, _, _, es). size_list (size_prod (\<lambda>_. 0) size) es)") auto

text \<open>\<open>open\<close>: the path component by component, without following links.\<close>

fun open_at :: "entries \<Rightarrow> string list \<Rightarrow> string option" where
  "open_at es [] = None"
| "open_at es [n] = (case map_of es (Utf8 n) of Some (Regular content) \<Rightarrow> Some content | _ \<Rightarrow> None)"
| "open_at es (n # m # ns) =
     (case map_of es (Utf8 n) of Some (Directory (Some ds)) \<Rightarrow> open_at ds (m # ns) | _ \<Rightarrow> None)"

definition open_result :: "entries \<Rightarrow> string \<Rightarrow> string option" where
  "open_result root path =
     (if export_path path then open_at root (split_on CHR ''/'' path) else None)"

definition start_walk :: "string list \<Rightarrow> walk" where
  "start_walk required = \<lparr>wk_found = [], wk_skipped = nothing_skipped, wk_entries = 0,
     wk_listed = sum_list (map listed_cost required)\<rparr>"

definition add_required :: "entries \<Rightarrow> string list \<Rightarrow> string list \<Rightarrow> string list" where
  "add_required root = fold (\<lambda>p found.
     if p \<notin> set found \<and> open_result root p \<noteq> None then tree_insert p found else found)"

definition selected_results ::
    "entries \<Rightarrow> string list \<Rightarrow> archive_error + string list \<times> skipped" where
  "selected_results root required =
     and_then (visit required (MAX_RESULT_FILES - length required)
         (enter (start_walk required) [] root) [] 0 MAX_RESULT_FILES root) (\<lambda>w.
     Inr (add_required root required (wk_found w), wk_skipped w))"

section \<open>Every regular file is archived or listed as missing\<close>

text \<open>The regular files below a directory, by the names on their way.\<close>

fun files_of :: "entries \<Rightarrow> string list list" and files_in :: "node \<Rightarrow> string list list" where
  "files_of [] = []"
| "files_of ((name, node) # es) = map ((#) (shown_name name)) (files_in node) @ files_of es"
| "files_in (Regular c) = [[]]"
| "files_in (Directory (Some ds)) = files_of ds"
| "files_in n = []"

text \<open>What a file system gives: names are not empty, hold no slash and are UTF-8 when shown. No two
  names of a directory are shown alike, which can only fail for a name that is not UTF-8.\<close>

fun tree_ok :: "entries \<Rightarrow> bool" and node_ok :: "node \<Rightarrow> bool" where
  "tree_ok [] = True"
| "tree_ok ((name, node) # es) =
     (shown_name name \<noteq> [] \<and> CHR ''/'' \<notin> set (shown_name name) \<and> utf8_text (shown_name name) \<and>
      shown_name name \<notin> (shown_name \<circ> fst) ` set es \<and> node_ok node \<and> tree_ok es)"
| "node_ok (Directory (Some ds)) = tree_ok ds"
| "node_ok n = True"

abbreviation path_of :: "string list \<Rightarrow> string" where "path_of cs \<equiv> join ''/'' cs"

text \<open>A walk that returns, as a relation: one rule per way an entry is treated.\<close>

inductive visited ::
    "string list \<Rightarrow> nat \<Rightarrow> walk \<Rightarrow> string \<Rightarrow> nat \<Rightarrow> entries \<Rightarrow> walk \<Rightarrow> bool"
  for required :: "string list" and limit :: nat where
  Done: "visited required limit w prefix room [] w"
| Full: "visited required limit w prefix 0 es w"
| Reserved: "p = child_path prefix (shown_name name) \<Longrightarrow> p \<in> set required \<Longrightarrow>
    visited required limit (count_entry w) prefix room es w' \<Longrightarrow>
    visited required limit w prefix (Suc room) ((name, node) # es) w'"
| Skip: "p = child_path prefix (shown_name name) \<Longrightarrow>
    visited required limit (walk_skip p why (count_entry w)) prefix room es w' \<Longrightarrow>
    visited required limit w prefix (Suc room) ((name, node) # es) w'"
| Descend: "p = child_path prefix n \<Longrightarrow>
    visited required limit (enter (count_entry w) p ds) p MAX_RESULT_FILES ds w1 \<Longrightarrow>
    visited required limit w1 prefix room es w' \<Longrightarrow>
    visited required limit w prefix (Suc room) ((Utf8 n, Directory (Some ds)) # es) w'"
| Take: "p = child_path prefix n \<Longrightarrow> export_path p \<Longrightarrow> wk_entries w + 1 \<le> limit \<Longrightarrow>
    wk_listed w + listed_cost p \<le> MAX_LISTED_BYTES \<Longrightarrow>
    visited required limit (take_file required p (count_entry w)) prefix room es w' \<Longrightarrow>
    visited required limit w prefix (Suc room) ((Utf8 n, Regular content) # es) w'"

lemma count_entry_simps [simp]:
  "wk_entries (count_entry w) = wk_entries w + 1" "wk_listed (count_entry w) = wk_listed w"
  "wk_found (count_entry w) = wk_found w" "wk_skipped (count_entry w) = wk_skipped w"
  by (simp_all add: count_entry_def)

lemma visit_visited:
  "visit required limit w prefix depth room es = Inr w' \<Longrightarrow> visited required limit w prefix room es w'"
proof (induction required limit w prefix depth room es arbitrary: w' rule: visit.induct)
  case (2 required limit w prefix depth room name node es)
  show ?case
  proof (cases room)
    case (Suc rest)
    let ?p = "child_path prefix (shown_name name)"
    let ?w = "count_entry w"
    let ?over = "wk_entries ?w > limit \<or> wk_listed ?w + listed_cost ?p > MAX_LISTED_BYTES"
    note IH = "2.IH" [OF _ refl refl refl refl, unfolded Suc diff_Suc_1, simplified]
    have "visited required limit w prefix (Suc rest) ((name, node) # es) w'"
    proof (cases ?over)
      case True
      then have "visited required limit (if ?p \<in> set required then ?w else walk_skip ?p FileLimit ?w)
          prefix rest es w'"
        using "2.prems" Suc IH(1) by (simp add: Let_def)
      then show ?thesis by (auto intro: Reserved Skip split: if_splits)
    next
      case False
      note within = False
      show ?thesis
      proof (cases "\<not> is_utf8 name \<or> \<not> export_path ?p")
        case True
        then have "visited required limit (walk_skip ?p UnsupportedPath ?w) prefix rest es w'"
          using "2.prems" Suc within IH(2) by (simp add: Let_def)
        then show ?thesis by (auto intro: Skip)
      next
        case False
        then obtain n where n: "name = Utf8 n" "export_path ?p" by (cases name) auto
        note run = "2.prems" Suc within n
        show ?thesis
        proof (cases node)
          case (Regular c)
          then have "visited required limit (take_file required ?p ?w) prefix rest es w'"
            using run IH(3) by (simp add: Let_def)
          then show ?thesis using run Regular by (auto intro!: Take)
        next
          case (Directory below)
          show ?thesis
          proof (cases "depth \<ge> MAX_DEPTH \<or> below = None")
            case True
            then have "depth \<ge> MAX_DEPTH" using run Directory by (auto simp: Let_def split: if_splits)
            then have "visited required limit (walk_skip ?p UnsupportedPath ?w) prefix rest es w'"
              using run Directory IH(4) by (simp add: Let_def)
            then show ?thesis by (auto intro: Skip)
          next
            case False
            then obtain ds where ds: "below = Some ds" "\<not> depth \<ge> MAX_DEPTH" by auto
            with run Directory obtain w1 where
              w1: "visit required limit (enter ?w ?p ds) ?p (depth + 1) MAX_RESULT_FILES ds = Inr w1"
                "visit required limit w1 prefix depth rest es = Inr w'"
              by (auto simp: Let_def res_simps)
            show ?thesis
              using IH(5,6) w1 run Directory ds by (auto intro!: Descend)
          qed
        next
          case SymbolicLinkNode
          then show ?thesis using run IH(7) by (auto simp: Let_def intro!: Skip)
        next
          case SpecialNode
          then show ?thesis using run IH(8) by (auto simp: Let_def intro!: Skip)
        next
          case Unreadable
          then show ?thesis using run by (simp add: Let_def)
        qed
      qed
    qed
    then show ?thesis by (simp only: Suc)
  qed (use "2.prems" in \<open>simp add: Full\<close>)
qed (auto intro: Done)

text \<open>The selection is bounded: in number, and in what its rows cost a saved state.\<close>

definition walk_bounded :: "string list \<Rightarrow> nat \<Rightarrow> walk \<Rightarrow> bool" where
  "walk_bounded required limit w \<longleftrightarrow>
     length (wk_found w) \<le> min limit (wk_entries w) \<and>
     sum_list (map listed_cost required) +
       sum_list (map listed_cost (filter (\<lambda>p. p \<notin> set required) (wk_found w))) \<le> wk_listed w \<and>
     wk_listed w \<le> max MAX_LISTED_BYTES (sum_list (map listed_cost required))"

lemma mset_tree_insert:
  "mset (tree_insert p ps) = (if p \<in> set ps then mset ps else add_mset p (mset ps))"
  by (simp add: tree_insert_def)

lemma set_tree_insert [simp]: "set (tree_insert p ps) = insert p (set ps)"
  by (auto simp: tree_insert_def set_insort_key)

lemma sorted_tree_insert: "sorted ps \<Longrightarrow> sorted (tree_insert p ps)"
  by (simp add: tree_insert_def sorted_insort)

lemma distinct_tree_insert: "distinct ps \<Longrightarrow> distinct (tree_insert p ps)"
  by (simp add: tree_insert_def distinct_insort)

lemma length_tree_insert: "length (tree_insert p ps) \<le> length ps + 1"
  by (simp add: tree_insert_def)

lemma sum_filter_insort:
  "sum_list (map f (filter P (insort p ps))) = (if P p then f p else (0::nat)) + sum_list (map f (filter P ps))"
  by (induction ps) auto

lemma sum_tree_insert:
  "sum_list (map f (filter P (tree_insert p ps))) \<le> (if P p then f p else (0::nat)) + sum_list (map f (filter P ps))"
  by (simp add: tree_insert_def sum_filter_insort)

lemma walk_skip_simps [simp]:
  "wk_entries (walk_skip p why w) = wk_entries w" "wk_listed (walk_skip p why w) = wk_listed w"
  "wk_found (walk_skip p why w) = wk_found w"
  "wk_skipped (walk_skip p why w) = skip_add (wk_skipped w) p why"
  by (simp_all add: walk_skip_def)

lemma enter_simps [simp]:
  "wk_entries (enter w p es) = wk_entries w" "wk_listed (enter w p es) = wk_listed w"
  "wk_found (enter w p es) = wk_found w"
  by (simp_all add: enter_def Let_def)

lemma take_file_simps [simp]:
  "wk_entries (take_file req p w) = wk_entries w" "wk_found (take_file req p w) = tree_insert p (wk_found w)"
  "wk_listed (take_file req p w) = wk_listed w + (if p \<in> set req then 0 else listed_cost p)"
  "wk_skipped (take_file req p w) = wk_skipped w"
  by (simp_all add: take_file_def)

lemma visited_bounded:
  "visited required limit w prefix room es w' \<Longrightarrow> walk_bounded required limit w \<Longrightarrow>
   walk_bounded required limit w'"
proof (induction rule: visited.induct)
  case (Take p prefix n w room es w' content)
  have "walk_bounded required limit (take_file required p (count_entry w))"
    using Take.prems Take.hyps(3,4) length_tree_insert [of p "wk_found w"]
      sum_tree_insert [of listed_cost "\<lambda>p. p \<notin> set required" p "wk_found w"]
    by (auto simp: walk_bounded_def)
  then show ?case by (rule Take.IH)
qed (auto simp: walk_bounded_def)

text \<open>The skip list stays valid.\<close>

lemma utf8_text_append:
  assumes "utf8_text a" "utf8_text b"
  shows "utf8_text (a @ b)"
proof -
  have "list_all utf8_char (utf8_chars a @ utf8_chars b)" using assms by (simp add: utf8_text_def)
  moreover from this have "utf8_chars (concat (utf8_chars a @ utf8_chars b)) = utf8_chars a @ utf8_chars b"
    by (intro utf8_chars_concat utf8_grouped)
  ultimately show ?thesis by (simp add: utf8_text_def)
qed

lemma utf8_text_const: "utf8_text ''.''" "utf8_text ''/''" "utf8_text []"
  by code_simp+

lemma child_path_utf8: "utf8_text prefix \<Longrightarrow> utf8_text n \<Longrightarrow> utf8_text (child_path prefix n)"
  using utf8_text_append [of prefix "''/'' @ n"] utf8_text_append [OF utf8_text_const(2), of n]
  by (simp add: child_path_def)

lemma child_path_nonempty: "n \<noteq> [] \<Longrightarrow> child_path prefix n \<noteq> []"
  by (simp add: child_path_def)

lemma validate_skipped_unlisted:
  "validate_skipped (s\<lparr>sk_unlisted := u\<rparr>) = validate_skipped s"
  by (simp add: validate_skipped_def)

definition skips_ok :: "skipped \<Rightarrow> bool" where
  "skips_ok s \<longleftrightarrow> validate_skipped s = Inr () \<and> list_all (\<lambda>row. utf8_text (sp_path row)) (sk_paths s)"

lemma skips_ok_unlisted: "skips_ok (s\<lparr>sk_unlisted := u\<rparr>) = skips_ok s"
  by (simp add: skips_ok_def validate_skipped_unlisted)

lemma skips_ok_add: "skips_ok s \<Longrightarrow> utf8_text p \<Longrightarrow> p \<noteq> [] \<Longrightarrow> skips_ok (skip_add s p why)"
  using skip_add_valid shown_path_row(4) [of p] by (auto simp: skips_ok_def skip_add_def)

lemma enter_valid:
  assumes "skips_ok (wk_skipped w)" "utf8_text prefix"
  shows "skips_ok (wk_skipped (enter w prefix es))"
  using assms skips_ok_add [OF assms(1), of "if prefix = [] then ''.'' else prefix" FileLimit]
  by (auto simp: enter_def Let_def skips_ok_unlisted utf8_text_const split: if_splits)

lemma visited_skips_valid:
  "visited required limit w prefix room es w' \<Longrightarrow> tree_ok es \<Longrightarrow> utf8_text prefix \<Longrightarrow>
   skips_ok (wk_skipped w) \<Longrightarrow> skips_ok (wk_skipped w')"
proof (induction rule: visited.induct)
  case (Skip p prefix name why w room es w' node)
  then show ?case
    using skips_ok_add [of "wk_skipped w" p why] by (simp add: child_path_utf8 child_path_nonempty)
next
  case (Descend p prefix n w ds w1 room es w')
  then show ?case using enter_valid [of "count_entry w" p ds] by (simp add: child_path_utf8)
qed simp_all

text \<open>Only a file that opens by its names is found.\<close>

lemma join_snoc: "pre \<noteq> [] \<Longrightarrow> join d (pre @ [n]) = join d pre @ d @ n"
  by (induction pre rule: induct_list012) (auto simp: join_Cons)

lemma path_of_empty: "list_all (\<lambda>c. c \<noteq> []) pre \<Longrightarrow> path_of pre = [] \<longleftrightarrow> pre = []"
  by (cases pre; cases "tl pre") (auto simp: join_Cons)

lemma child_path_of:
  "list_all (\<lambda>c. c \<noteq> []) pre \<Longrightarrow> child_path (path_of pre) n = path_of (pre @ [n])"
  by (cases "pre = []") (simp_all add: child_path_def path_of_empty join_snoc)

lemma tree_ok_cases:
  "tree_ok ((name, node) # es) \<Longrightarrow> (m, x) \<in> set es \<Longrightarrow> shown_name m \<noteq> shown_name name"
  by force

lemma open_at_later:
  assumes "tree_ok (e # es)" "open_at es cs = Some c"
  shows "open_at (e # es) cs = Some c"
proof (cases cs)
  case (Cons n ns)
  obtain name node where e: "e = (name, node)" by (cases e)
  have "map_of es (Utf8 n) \<noteq> None"
    using assms(2) Cons by (cases ns) (auto split: option.splits)
  then have "(Utf8 n) \<in> fst ` set es" by (simp add: map_of_eq_None_iff)
  then have "name \<noteq> Utf8 n" using assms(1) e by force
  then show ?thesis using assms(2) Cons e by (cases ns) auto
qed (use assms(2) in simp)

lemma files_of_iff:
  "cs \<in> set (files_of es) \<longleftrightarrow>
     (\<exists>name node bs. (name, node) \<in> set es \<and> cs = shown_name name # bs \<and> bs \<in> set (files_in node))"
proof (induction es)
  case (Cons e es)
  then show ?case by (cases e) (simp, blast)
qed simp

lemma open_at_file: "open_at es cs = Some c \<Longrightarrow> cs \<in> set (files_of es)"
proof (induction es cs arbitrary: c rule: open_at.induct)
  case (2 es n)
  then obtain d where "(Utf8 n, Regular d) \<in> set es"
    by (auto split: option.splits node.splits dest: map_of_SomeD)
  then show ?case by (auto simp: files_of_iff intro!: exI [of _ "Utf8 n"])
next
  case (3 es n m ns)
  then obtain ds where ds: "map_of es (Utf8 n) = Some (Directory (Some ds))" "open_at ds (m # ns) = Some c"
    by (auto split: option.splits node.splits)
  with "3.IH" have "m # ns \<in> set (files_of ds)" by blast
  moreover have "(Utf8 n, Directory (Some ds)) \<in> set es" using ds(1) by (rule map_of_SomeD)
  ultimately show ?case
    by (auto simp: files_of_iff [of "n # m # ns"] intro!: exI [of _ "Utf8 n"] exI [of _ "Directory (Some ds)"])
qed simp

lemma visited_found:
  "visited required limit w prefix room es w' \<Longrightarrow> prefix = path_of pre \<Longrightarrow> tree_ok es \<Longrightarrow>
   list_all (\<lambda>c. c \<noteq> []) pre \<Longrightarrow> p \<in> set (wk_found w') \<Longrightarrow>
   p \<in> set (wk_found w) \<or> (\<exists>cs c. p = path_of (pre @ cs) \<and> open_at es cs = Some c \<and> export_path p)"
proof (induction arbitrary: pre rule: visited.induct)
  case (Reserved q prefix name w room es w' node)
  then show ?case using open_at_later by fastforce
next
  case (Skip q prefix name why w room es w' node)
  then show ?case using open_at_later by fastforce
next
  case (Descend q prefix n w ds w1 room es w')
  have n: "n \<noteq> []" "tree_ok ds" "tree_ok es" using Descend.prems(2) by auto
  consider (late) "p \<in> set (wk_found w1)" |
      (rest) cs c where "p = path_of (pre @ cs)" "open_at es cs = Some c" "export_path p"
    using Descend.IH(2) [OF Descend.prems(1) n(3) Descend.prems(3,4)] by blast
  then show ?case
  proof cases
    case late
    have "q = path_of (pre @ [n])" using Descend.hyps(1) Descend.prems(1,3) by (simp add: child_path_of)
    from Descend.IH(1) [OF this n(2) _ late] n(1) Descend.prems(3)
    consider "p \<in> set (wk_found w)" |
        (below) cs c where "p = path_of (pre @ n # cs)" "open_at ds cs = Some c" "export_path p"
      by auto
    then show ?thesis
    proof cases
      case below
      then have "cs \<noteq> []" by auto
      then have "open_at ((Utf8 n, Directory (Some ds)) # es) (n # cs) = Some c"
        using below by (cases cs) auto
      with below show ?thesis by blast
    qed simp
  next
    case rest
    then show ?thesis using open_at_later [OF Descend.prems(2)] by blast
  qed
next
  case (Take q prefix n w room es w' content)
  have t: "tree_ok es" using Take.prems(2) by auto
  have q: "q = path_of (pre @ [n])" using Take.hyps(1) Take.prems(1,3) by (simp add: child_path_of)
  consider "p = q" | "p \<in> set (wk_found w)" |
      (rest) cs c where "p = path_of (pre @ cs)" "open_at es cs = Some c" "export_path p"
    using Take.IH [OF Take.prems(1) t Take.prems(3,4)] by auto
  then show ?case
  proof cases
    case 1
    have "open_at ((Utf8 n, Regular content) # es) [n] = Some content" by simp
    with 1 q Take.hyps(2) show ?thesis by blast
  next
    case rest
    then show ?thesis using open_at_later [OF Take.prems(2)] by blast
  qed simp
qed auto

text \<open>A path is on record as missing when a row shows it, or when rows or names ran out.\<close>

definition walk_recorded :: "skipped \<Rightarrow> string \<Rightarrow> bool" where
  "walk_recorded s q \<longleftrightarrow>
     sk_unlisted s \<noteq> 0 \<or> list_ex (\<lambda>row. sp_path row = shown_path q) (sk_paths s)"

lemma saturating_add_nonzero: "(a::u64) \<noteq> 0 \<or> b \<noteq> 0 \<Longrightarrow> saturating_add a b \<noteq> 0"
proof -
  assume "a \<noteq> 0 \<or> b \<noteq> 0"
  then have "unat a + unat b > 0" by (auto simp: unat_gt_0)
  then have "unat (saturating_add a b) > 0" by (simp add: unat_saturating_add)
  then show ?thesis by auto
qed

lemma recorded_add: "walk_recorded (skip_add s p why) p"
  by (simp add: walk_recorded_def skip_add_def saturating_add_nonzero)

lemma recorded_mono: "walk_recorded s q \<Longrightarrow> walk_recorded (skip_add s p why) q"
  by (auto simp: walk_recorded_def skip_add_def saturating_add_nonzero)

lemma recorded_unlisted: "walk_recorded s q \<Longrightarrow> walk_recorded (s\<lparr>sk_unlisted := saturating_add (sk_unlisted s) n\<rparr>) q"
  by (auto simp: walk_recorded_def saturating_add_nonzero)

lemma enter_mono: "walk_recorded (wk_skipped w) q \<Longrightarrow> walk_recorded (wk_skipped (enter w p es)) q"
  by (simp add: enter_def Let_def recorded_mono recorded_unlisted)

lemma enter_recorded:
  "length es > MAX_RESULT_FILES \<Longrightarrow>
   walk_recorded (wk_skipped (enter w p es)) (if p = [] then ''.'' else p)"
  by (simp add: enter_def Let_def recorded_add recorded_unlisted)

lemma visited_mono:
  "visited required limit w prefix room es w' \<Longrightarrow>
   set (wk_found w) \<subseteq> set (wk_found w') \<and>
   (walk_recorded (wk_skipped w) q \<longrightarrow> walk_recorded (wk_skipped w') q)"
  by (induction rule: visited.induct) (auto simp: recorded_mono enter_mono)

text \<open>The ways a file below a directory is answered for: it is found, or a name on its way is
  recorded, or a name on its way is a required path, which \<open>Policy::check\<close> asks for itself.\<close>

definition answered_for :: "string list \<Rightarrow> walk \<Rightarrow> string list \<Rightarrow> string list \<Rightarrow> bool" where
  "answered_for required w pre cs \<longleftrightarrow>
     path_of (pre @ cs) \<in> set (wk_found w) \<or>
     (\<exists>ds rs. cs = ds @ rs \<and> ds \<noteq> [] \<and>
       (walk_recorded (wk_skipped w) (path_of (pre @ ds)) \<or> path_of (pre @ ds) \<in> set required))"

lemma answered_mono:
  "visited required limit w prefix room es w' \<Longrightarrow> answered_for required w pre cs \<Longrightarrow>
   answered_for required w' pre cs"
  using visited_mono by (fastforce simp: answered_for_def)

lemma answered_here:
  assumes "walk_recorded (wk_skipped w) (path_of (pre @ [n])) \<or> path_of (pre @ [n]) \<in> set required"
  shows "answered_for required w pre (n # cs)"
  unfolding answered_for_def using assms by (intro disjI2 exI [of _ "[n]"] exI [of _ cs]) simp

lemma answered_below:
  assumes "answered_for required w (pre @ [n]) cs"
  shows "answered_for required w pre (n # cs)"
proof (cases "path_of (pre @ n # cs) \<in> set (wk_found w)")
  case False
  with assms obtain ds rs where "cs = ds @ rs" "ds \<noteq> []"
      "walk_recorded (wk_skipped w) (path_of (pre @ n # ds)) \<or> path_of (pre @ n # ds) \<in> set required"
    by (auto simp: answered_for_def)
  then show ?thesis
    unfolding answered_for_def by (intro disjI2 exI [of _ "n # ds"] exI [of _ rs]) simp
qed (simp add: answered_for_def)

lemma visited_answers:
  "visited required limit w prefix room es w' \<Longrightarrow> prefix = path_of pre \<Longrightarrow> tree_ok es \<Longrightarrow>
   list_all (\<lambda>c. c \<noteq> []) pre \<Longrightarrow> cs \<in> set (files_of (take room es)) \<Longrightarrow>
   answered_for required w' pre cs"
proof (induction arbitrary: pre cs rule: visited.induct)
  case (Reserved q prefix name w room es w' node)
  have q: "q = path_of (pre @ [shown_name name])"
    using Reserved.hyps(1) Reserved.prems(1,3) by (simp add: child_path_of)
  show ?case
  proof (cases "cs \<in> set (files_of (take room es))")
    case True
    then show ?thesis using Reserved.IH Reserved.prems by simp
  next
    case False
    then obtain bs where "cs = shown_name name # bs" using Reserved.prems(4) by auto
    then show ?thesis using answered_here Reserved.hyps(2) q by blast
  qed
next
  case (Skip q prefix name why w room es w' node)
  have q: "q = path_of (pre @ [shown_name name])"
    using Skip.hyps(1) Skip.prems(1,3) by (simp add: child_path_of)
  show ?case
  proof (cases "cs \<in> set (files_of (take room es))")
    case True
    then show ?thesis using Skip.IH Skip.prems by simp
  next
    case False
    then obtain bs where cs: "cs = shown_name name # bs" using Skip.prems(4) by auto
    have "walk_recorded (wk_skipped (walk_skip q why (count_entry w))) q" by (simp add: recorded_add)
    then have "walk_recorded (wk_skipped w') q" using visited_mono [OF Skip.hyps(2)] by blast
    then show ?thesis using answered_here q cs by blast
  qed
next
  case (Descend q prefix n w ds w1 room es w')
  have q: "q = path_of (pre @ [n])"
    using Descend.hyps(1) Descend.prems(1,3) by (simp add: child_path_of)
  have t: "n \<noteq> []" "tree_ok ds" "tree_ok es" using Descend.prems(2) by auto
  show ?case
  proof (cases "cs \<in> set (files_of (take room es))")
    case True
    then show ?thesis using Descend.IH(2) Descend.prems t by simp
  next
    case False
    then obtain bs where cs: "cs = n # bs" "bs \<in> set (files_of ds)" using Descend.prems(4) by auto
    have "answered_for required w1 pre cs"
    proof (cases "bs \<in> set (files_of (take MAX_RESULT_FILES ds))")
      case True
      have "answered_for required w1 (pre @ [n]) bs"
        using Descend.IH(1) [OF q t(2) _ True] t(1) Descend.prems(3) by simp
      then show ?thesis using answered_below cs by blast
    next
      case False
      then have "length ds > MAX_RESULT_FILES" using cs(2) by (cases "length ds \<le> MAX_RESULT_FILES") auto
      moreover have "q \<noteq> []" using q t(1) Descend.prems(3) path_of_empty [of "pre @ [n]"] by simp
      ultimately have "walk_recorded (wk_skipped (enter (count_entry w) q ds)) q"
        using enter_recorded [of ds "count_entry w" q] by simp
      then have "walk_recorded (wk_skipped w1) q" using visited_mono [OF Descend.hyps(2)] by blast
      then show ?thesis using answered_here q cs by blast
    qed
    then show ?thesis using answered_mono [OF Descend.hyps(3)] by blast
  qed
next
  case (Take q prefix n w room es w' content)
  have q: "q = path_of (pre @ [n])"
    using Take.hyps(1) Take.prems(1,3) by (simp add: child_path_of)
  show ?case
  proof (cases "cs \<in> set (files_of (take room es))")
    case True
    then show ?thesis using Take.IH Take.prems by simp
  next
    case False
    then have "cs = [n]" using Take.prems(4) by auto
    moreover have "q \<in> set (wk_found w')" using visited_mono [OF Take.hyps(5)] by auto
    ultimately show ?thesis using q by (simp add: answered_for_def)
  qed
qed auto

section \<open>The selection\<close>

lemma clean_names:
  "tree_ok es \<Longrightarrow> cs \<in> set (files_of es) \<Longrightarrow> list_all (\<lambda>c. c \<noteq> [] \<and> CHR ''/'' \<notin> set c) cs \<and> cs \<noteq> []"
  "node_ok node \<Longrightarrow> cs \<in> set (files_in node) \<Longrightarrow> list_all (\<lambda>c. c \<noteq> [] \<and> CHR ''/'' \<notin> set c) cs"
proof (induction es and node arbitrary: cs and cs rule: files_of_files_in.induct)
  case (2 name node es)
  then show ?case by auto
qed auto

lemma split_path_of:
  "list_all (\<lambda>c. c \<noteq> [] \<and> CHR ''/'' \<notin> set c) cs \<Longrightarrow> cs \<noteq> [] \<Longrightarrow> split_on CHR ''/'' (path_of cs) = cs"
  by (rule split_on_join) (auto simp: list_all_iff)

text \<open>No file lies below another.\<close>

lemma tree_ok_names: "tree_ok es \<Longrightarrow> distinct (map (shown_name \<circ> fst) es)"
proof (induction es)
  case (Cons e es)
  then show ?case by (cases e) (force simp: image_comp)
qed simp

lemma tree_ok_node: "tree_ok es \<Longrightarrow> (name, node) \<in> set es \<Longrightarrow> node_ok node"
  by (induction es) auto

lemma same_entry:
  assumes "tree_ok es" "(a, x) \<in> set es" "(b, y) \<in> set es" "shown_name a = shown_name b"
  shows "x = y"
proof -
  have "inj_on (shown_name \<circ> fst) (set es)"
    using tree_ok_names [OF assms(1)] by (simp add: distinct_map)
  then have "(a, x) = (b, y)" using assms(2-4) by (elim inj_onD) simp_all
  then show ?thesis by simp
qed

lemma file_below_file:
  "tree_ok es \<Longrightarrow> ds \<in> set (files_of es) \<Longrightarrow> ds @ rs \<in> set (files_of es) \<Longrightarrow> rs = []"
proof (induction ds arbitrary: es)
  case (Cons n ns)
  obtain a x where a: "(a, x) \<in> set es" "n = shown_name a" "ns \<in> set (files_in x)"
    using Cons.prems(2) unfolding files_of_iff [of "n # ns"] by auto
  obtain b y where b: "(b, y) \<in> set es" "n = shown_name b" "ns @ rs \<in> set (files_in y)"
    using Cons.prems(3) unfolding append_Cons files_of_iff [of "n # ns @ rs"] by auto
  have "x = y" using same_entry [OF Cons.prems(1) a(1) b(1)] a(2) b(2) by simp
  show ?case
  proof (cases x)
    case (Directory below)
    then obtain es' where "x = Directory (Some es')" using a(3) by (cases below) auto
    moreover from this have "tree_ok es'" using tree_ok_node [OF Cons.prems(1) a(1)] by simp
    ultimately show ?thesis using Cons.IH [of es'] a(3) b(3) \<open>x = y\<close> by simp
  qed (use a(3) b(3) \<open>x = y\<close> in auto)
qed (simp add: files_of_iff)

lemma add_required_set:
  "set (add_required root req found) = set found \<union> {p \<in> set req. open_result root p \<noteq> None}"
  by (induction req arbitrary: found) (auto simp: add_required_def)

lemma add_required_sorted:
  "sorted found \<and> distinct found \<Longrightarrow>
   sorted (add_required root req found) \<and> distinct (add_required root req found)"
  by (induction req arbitrary: found)
    (auto simp: add_required_def sorted_tree_insert distinct_tree_insert)

lemma add_required_length: "length (add_required root req found) \<le> length found + length req"
proof (induction req arbitrary: found)
  case (Cons p req)
  let ?f = "if p \<notin> set found \<and> open_result root p \<noteq> None then tree_insert p found else found"
  have "length ?f \<le> length found + 1" using length_tree_insert [of p found] by simp
  then show ?case using Cons.IH [of ?f] by (simp add: add_required_def)
qed (simp add: add_required_def)

lemma filter_insort_out: "\<not> P p \<Longrightarrow> sorted ps \<Longrightarrow> filter P (insort p ps) = filter P ps"
  by (induction ps) auto

lemma add_required_others:
  "set req \<subseteq> R \<Longrightarrow> sorted found \<Longrightarrow>
   filter (\<lambda>p. p \<notin> R) (add_required root req found) = filter (\<lambda>p. p \<notin> R) found"
proof (induction req arbitrary: found)
  case (Cons p req)
  let ?f = "if p \<notin> set found \<and> open_result root p \<noteq> None then tree_insert p found else found"
  have "filter (\<lambda>p. p \<notin> R) ?f = filter (\<lambda>p. p \<notin> R) found"
    using Cons.prems by (simp add: tree_insert_def filter_insort_out)
  moreover have "sorted ?f" using Cons.prems by (simp add: sorted_tree_insert)
  ultimately show ?case using Cons.IH [of ?f] Cons.prems(1) by (simp add: add_required_def)
qed (simp add: add_required_def)

lemma distinct_sum_le:
  "distinct ps \<Longrightarrow> set ps \<subseteq> set qs \<Longrightarrow> distinct qs \<Longrightarrow>
   sum_list (map f ps) \<le> (sum_list (map f qs) :: nat)"
  by (simp add: sum_list_distinct_conv_sum_set sum_mono2)

lemma sum_list_partition:
  "sum_list (map f ps) = sum_list (map f (filter P ps)) + (sum_list (map f (filter (\<lambda>p. \<not> P p) ps)) :: nat)"
  by (induction ps) auto

lemma visited_sorted:
  "visited required limit w prefix room es w' \<Longrightarrow> sorted (wk_found w) \<and> distinct (wk_found w) \<Longrightarrow>
   sorted (wk_found w') \<and> distinct (wk_found w')"
  by (induction rule: visited.induct) (auto simp: sorted_tree_insert distinct_tree_insert)

lemma selected_run:
  assumes "selected_results root required = Inr (paths, s)"
  obtains w where "visited required (MAX_RESULT_FILES - length required)
      (enter (start_walk required) [] root) [] MAX_RESULT_FILES root w"
    "paths = add_required root required (wk_found w)" "s = wk_skipped w"
  using assms visit_visited by (fastforce simp: selected_results_def res_simps)

lemma selection_bounded:
  assumes "selected_results root required = Inr (paths, s)" "tree_ok root"
    and "validate_policy required = Inr ()"
  shows "sorted paths \<and> distinct paths \<and> length paths \<le> MAX_RESULT_FILES \<and>
    sum_list (map listed_cost paths) \<le> max MAX_LISTED_BYTES (sum_list (map listed_cost required)) \<and>
    skips_ok s \<and> (\<forall>p\<in>set paths. open_result root p \<noteq> None)"
proof -
  let ?limit = "MAX_RESULT_FILES - length required"
  obtain w where w: "visited required ?limit (enter (start_walk required) [] root) [] MAX_RESULT_FILES root w"
    "paths = add_required root required (wk_found w)" "s = wk_skipped w"
    using assms(1) by (rule selected_run)
  have req: "length required \<le> MAX_RESULT_FILES" "distinct required"
    using assms(3) by (auto simp: validate_policy_def fresh_names_iff split: if_splits)
  have b: "walk_bounded required ?limit w"
    using visited_bounded [OF w(1)] by (simp add: walk_bounded_def start_walk_def)
  have sd: "sorted (wk_found w) \<and> distinct (wk_found w)"
    using visited_sorted [OF w(1)] by (simp add: start_walk_def)
  have path: "sorted paths \<and> distinct paths" unfolding w(2) using sd by (rule add_required_sorted)
  have "length (wk_found w) \<le> MAX_RESULT_FILES - length required"
    using b by (simp add: walk_bounded_def)
  then have len: "length paths \<le> MAX_RESULT_FILES"
    using add_required_length [of root required "wk_found w"] req(1) unfolding w(2) by linarith
  have "filter (\<lambda>p. p \<notin> set required) paths = filter (\<lambda>p. p \<notin> set required) (wk_found w)"
    unfolding w(2) using sd by (intro add_required_others) auto
  moreover have "sum_list (map listed_cost (filter (\<lambda>p. p \<in> set required) paths))
      \<le> sum_list (map listed_cost required)"
    using path req(2) by (intro distinct_sum_le) auto
  ultimately have cost: "sum_list (map listed_cost paths)
      \<le> max MAX_LISTED_BYTES (sum_list (map listed_cost required))"
    using b sum_list_partition [of listed_cost paths "\<lambda>p. p \<in> set required"]
    by (simp add: walk_bounded_def)
  have "skips_ok (wk_skipped (enter (start_walk required) [] root))"
    by (rule enter_valid)
      (simp_all add: start_walk_def nothing_skipped_def skips_ok_def validate_skipped_def utf8_text_const)
  then have skips: "skips_ok s"
    using visited_skips_valid [OF w(1) assms(2)] w(3) by (simp add: utf8_text_const)
  have "open_result root p \<noteq> None" if p: "p \<in> set paths" for p
  proof (cases "p \<in> set (wk_found w)")
    case True
    then obtain cs c where cs: "p = path_of cs" "open_at root cs = Some c" "export_path p"
      using visited_found [OF w(1), of "[]" p] assms(2) by (auto simp: start_walk_def)
    then have "split_on CHR ''/'' p = cs"
      using clean_names(1) [OF assms(2)] open_at_file split_path_of by blast
    with cs show ?thesis by (simp add: open_result_def)
  qed (use p w(2) in \<open>simp add: add_required_set\<close>)
  with path len cost skips show ?thesis by blast
qed

text \<open>A row covers the path it shows and everything below it; \<open>.\<close> is the directory itself.\<close>

definition covered :: "skipped \<Rightarrow> string \<Rightarrow> bool" where
  "covered s p \<longleftrightarrow>
     sk_unlisted s \<noteq> 0 \<or>
     (\<exists>q. (q = p \<or> q = ''.'' \<or> starts_with (q @ ''/'') p) \<and>
          list_ex (\<lambda>row. sp_path row = shown_path q) (sk_paths s))"

lemma join_append: "as \<noteq> [] \<Longrightarrow> bs \<noteq> [] \<Longrightarrow> join d (as @ bs) = join d as @ d @ join d bs"
  by (induction as rule: induct_list012) (auto simp: join_Cons)

lemma recorded_covered:
  assumes "walk_recorded s (path_of ds)" "ds \<noteq> []"
  shows "covered s (path_of (ds @ rs))"
proof -
  have "path_of ds = path_of (ds @ rs) \<or> starts_with (path_of ds @ ''/'') (path_of (ds @ rs))"
    using join_append [OF assms(2), of rs "''/''"] by (cases "rs = []") (auto simp: starts_with_iff)
  then show ?thesis using assms(1) unfolding walk_recorded_def covered_def by blast
qed

text \<open>C14. Every regular file below the output directory is in the archive, or a row of the skip list shows
  its path or a directory above it, or it is counted as unlisted.\<close>

theorem skip_list_is_complete:
  assumes run: "selected_results root required = Inr (paths, s)"
    and policy: "check_policy required paths = Inr ()"
    and tree: "tree_ok root" and member: "cs \<in> set (files_of root)"
  shows "path_of cs \<in> set paths \<or> covered s (path_of cs)"
proof -
  obtain w where w: "visited required (MAX_RESULT_FILES - length required)
      (enter (start_walk required) [] root) [] MAX_RESULT_FILES root w"
    "paths = add_required root required (wk_found w)" "s = wk_skipped w"
    using run by (rule selected_run)
  have opened: "\<forall>p\<in>set paths. open_result root p \<noteq> None"
    using selection_bounded [OF run tree] policy by (auto simp: check_policy_def res_simps)
  show ?thesis
  proof (cases "cs \<in> set (files_of (take MAX_RESULT_FILES root))")
    case False
    then have "length root > MAX_RESULT_FILES"
      using member by (cases "length root \<le> MAX_RESULT_FILES") auto
    then have "walk_recorded (wk_skipped (enter (start_walk required) [] root)) ''.''"
      using enter_recorded [of root "start_walk required" "[]"] by simp
    then have "walk_recorded s ''.''" using visited_mono [OF w(1)] w(3) by blast
    then show ?thesis unfolding walk_recorded_def covered_def by blast
  next
    case True
    then have "answered_for required w [] cs"
      using visited_answers [OF w(1), of "[]"] tree by simp
    then consider "path_of cs \<in> set paths" | (row) ds rs where "cs = ds @ rs" "ds \<noteq> []" "walk_recorded s (path_of ds)"
      | (req) ds rs where "cs = ds @ rs" "ds \<noteq> []" "path_of ds \<in> set required"
      using w(2,3) by (auto simp: answered_for_def add_required_set)
    then show ?thesis
    proof cases
      case row
      then show ?thesis using recorded_covered by blast
    next
      case req
      then have p: "path_of ds \<in> set paths"
        using policy by (auto simp: check_policy_def list_ex_iff res_simps split: if_splits)
      have "split_on CHR ''/'' (path_of ds) = ds"
        using clean_names(1) [OF tree member] req(1,2) by (intro split_path_of) auto
      then have "ds \<in> set (files_of root)"
        using opened p open_at_file [of root ds] by (auto simp: open_result_def split: if_splits)
      then have "rs = []" using file_below_file [OF tree] member req(1) by blast
      then show ?thesis using p req(1) by simp
    qed simp
  qed
qed

section \<open>Packing\<close>

text \<open>A tar format: what the builder writes for members given by name and content, and what the
  reader yields for a file: every entry in order, or nothing when reading fails.\<close>

record tar_entry =
  te_file :: bool
  te_path :: "string option"
  te_size :: nat
  te_data :: string

record tar_format =
  tar_build :: "(string \<times> string) list \<Rightarrow> string"
  tar_read :: "string \<Rightarrow> tar_entry list option"

text \<open>While a file is packed the directory may change: \<open>still p\<close> says whether the metadata of \<open>p\<close>
  are the same before and after its bytes are read, and the selection and the hashes are then taken
  again. \<open>first\<close>, \<open>second\<close>, \<open>third\<close> and \<open>fourth\<close> are the directory as each pass finds it.\<close>

definition packed_file ::
    "'f hashing \<Rightarrow> entries \<Rightarrow> (string \<Rightarrow> bool) \<Rightarrow> string \<Rightarrow> archive_error + file_receipt \<times> string" where
  "packed_file H root still p =
     and_then (ok_or (open_result root p) InvalidArchive) (\<lambda>content.
     if \<not> still p then Inl InvalidArchive
     else Inr (\<lparr>fpath = p, fbytes = length content, fsha = sha_hex H content\<rparr>, content))"

fun packed_files ::
    "'f hashing \<Rightarrow> entries \<Rightarrow> (string \<Rightarrow> bool) \<Rightarrow> string list
     \<Rightarrow> archive_error + (file_receipt \<times> string) list" where
  "packed_files H root still [] = Inr []"
| "packed_files H root still (p # ps) =
     and_then (packed_file H root still p) (\<lambda>f.
     and_then (packed_files H root still ps) (\<lambda>fs. Inr (f # fs)))"

definition unchanged :: "'f hashing \<Rightarrow> entries \<Rightarrow> file_receipt \<Rightarrow> bool" where
  "unchanged H root f =
     (case open_result root (fpath f) of
        None \<Rightarrow> False
      | Some content \<Rightarrow> sha_hex H content = fsha f \<and> length content = fbytes f)"

record packed =
  pk_archive :: string
  pk_sha :: string
  pk_bytes :: nat
  pk_files :: "file_receipt list"
  pk_skipped :: skipped

definition pack ::
    "'f hashing \<Rightarrow> tar_format \<Rightarrow> string list \<Rightarrow> entries \<Rightarrow> entries \<Rightarrow> (string \<Rightarrow> bool)
     \<Rightarrow> entries \<Rightarrow> entries \<Rightarrow> archive_error + packed" where
  "pack H T required first second still third fourth =
     and_then (map_err (\<lambda>_. InvalidArchive) (validate_policy required)) (\<lambda>_.
     and_then (selected_results first required) (\<lambda>selected.
     and_then (map_err (\<lambda>_. InvalidArchive) (check_policy required (fst selected))) (\<lambda>_.
     and_then (packed_files H second still (fst selected)) (\<lambda>fs.
     let archive = tar_build T (map (\<lambda>(f, content). (member_name (fpath f), content)) fs);
         files = map fst fs in
     and_then (selected_results third required) (\<lambda>again.
     if selected \<noteq> again then Inl InvalidArchive
     else if \<not> list_all (unchanged H fourth) files then Inl InvalidArchive
     else Inr \<lparr>pk_archive = archive, pk_sha = sha_hex H archive, pk_bytes = length archive,
            pk_files = files, pk_skipped = snd selected\<rparr>)))))"

section \<open>Verification\<close>

definition receipt_for :: "file_receipt list \<Rightarrow> string \<Rightarrow> file_receipt option" where
  "receipt_for fs p = find (\<lambda>f. fpath f = p) fs"

text \<open>One member against the receipts; \<open>proofs\<close> holds the members before it. A \<open>BTreeMap\<close> inserts
  in key order.\<close>

definition verify_member ::
    "'f hashing \<Rightarrow> file_receipt list \<Rightarrow> tar_entry \<Rightarrow> (string \<times> file_receipt) list
     \<Rightarrow> archive_error + (string \<times> file_receipt) list" where
  "verify_member H fs row proofs =
     (if \<not> te_file row then Inl InvalidArchive
      else and_then (ok_or (te_path row) InvalidArchive) (\<lambda>path.
      and_then (ok_or (strip_prefix ''outputs/'' path) InvalidArchive) (\<lambda>name.
      and_then (ok_or (receipt_for fs name) InvalidArchive) (\<lambda>expected.
      if path \<in> fst ` set proofs \<or> te_size row \<noteq> fbytes expected \<or>
         sha_hex H (te_data row) \<noteq> fsha expected \<or> length (te_data row) \<noteq> fbytes expected
      then Inl InvalidArchive
      else Inr (insort_key fst (path, expected) proofs)))))"

fun verify_rows ::
    "'f hashing \<Rightarrow> file_receipt list \<Rightarrow> tar_entry list \<Rightarrow> (string \<times> file_receipt) list
     \<Rightarrow> archive_error + (string \<times> file_receipt) list" where
  "verify_rows H fs [] proofs = Inr proofs"
| "verify_rows H fs (row # rows) proofs =
     and_then (verify_member H fs row proofs) (\<lambda>proofs. verify_rows H fs rows proofs)"

definition checked_proof ::
    "'f hashing \<Rightarrow> archive_receipt \<Rightarrow> (string \<times> file_receipt) list \<Rightarrow> archive_error + download_proof" where
  "checked_proof H r proofs =
     (let p = \<lparr>pf_sha = ar_sha r, pf_bytes = ar_bytes r, pf_files = proofs\<rparr> in
      and_then (map_err (\<lambda>_. InvalidArchive) (proof_matches H r p)) (\<lambda>_. Inr p))"

text \<open>\<open>verify\<close> reads a local file: its bytes first, then its members.\<close>

definition verify ::
    "'f hashing \<Rightarrow> tar_format \<Rightarrow> string \<Rightarrow> archive_receipt \<Rightarrow> archive_error + download_proof" where
  "verify H T archive r =
     and_then (map_err (\<lambda>_. InvalidArchive) (validate_receipt H r)) (\<lambda>_.
     if sha_hex H archive \<noteq> ar_sha r \<or> length archive \<noteq> ar_bytes r then Inl InvalidArchive
     else and_then (ok_or (tar_read T archive) InvalidArchive) (\<lambda>rows.
          and_then (verify_rows H (ar_files r) rows []) (\<lambda>proofs. checked_proof H r proofs)))"

text \<open>\<open>verify_stream\<close> reads at most one byte more than the receipt says, members first; the rest of
  the stream is hashed after them.\<close>

definition verify_stream ::
    "'f hashing \<Rightarrow> tar_format \<Rightarrow> string \<Rightarrow> archive_receipt \<Rightarrow> archive_error + download_proof" where
  "verify_stream H T stream r =
     and_then (map_err (\<lambda>_. InvalidArchive) (validate_receipt H r)) (\<lambda>_.
     and_then (ok_or (checked_add_u64 (ar_bytes r) 1) InvalidArchive) (\<lambda>most.
     let seen = take most stream in
     and_then (ok_or (tar_read T seen) InvalidArchive) (\<lambda>rows.
     and_then (verify_rows H (ar_files r) rows []) (\<lambda>proofs.
     if sha_hex H seen \<noteq> ar_sha r \<or> length seen \<noteq> ar_bytes r \<or>
        length proofs \<noteq> length (ar_files r)
     then Inl InvalidArchive else checked_proof H r proofs))))"

text \<open>What is relied on of the tar format: members read back as they were written.\<close>

definition tar_reads_back :: "tar_format \<Rightarrow> bool" where
  "tar_reads_back T \<longleftrightarrow> (\<forall>ms. tar_read T (tar_build T ms) =
     Some (map (\<lambda>(p, d). \<lparr>te_file = True, te_path = Some p, te_size = length d, te_data = d\<rparr>) ms))"

lemma packed_files_rows:
  "packed_files H root still ps = Inr fs \<Longrightarrow>
   map (fpath \<circ> fst) fs = ps \<and>
   (\<forall>(f, d)\<in>set fs. fbytes f = length d \<and> fsha f = sha_hex H d)"
  by (induction ps arbitrary: fs) (auto simp: packed_file_def res_simps split: if_splits)

lemma receipt_for_member:
  "distinct (map fpath fs) \<Longrightarrow> f \<in> set fs \<Longrightarrow> receipt_for fs (fpath f) = Some f"
proof (induction fs)
  case (Cons g fs)
  then show ?case by (cases "fpath g = fpath f") (auto simp: receipt_for_def)
qed (simp add: receipt_for_def)

lemma insort_key_proof_entries:
  assumes "key_order ps" "fst e \<notin> fst ` set ps" 
  shows "key_order (insort_key fst e ps)"
proof -
  have "sorted (map fst (insort_key fst e ps))"
    using assms(1) by (simp add: key_order_def sorted_insort_key)
  moreover have "distinct (map fst (insort_key fst e ps))"
    using assms by (induction ps) (auto simp: key_order_def set_insort_key)
  ultimately show ?thesis by (simp add: key_order_def)
qed

definition member_entry :: "file_receipt \<times> string \<Rightarrow> tar_entry" where
  "member_entry m = \<lparr>te_file = True, te_path = Some (member_name (fpath (fst m))),
     te_size = length (snd m), te_data = snd m\<rparr>"

lemma verify_rows_packed:
  assumes "distinct (map fpath all)"
  shows "fst ` set ms \<subseteq> set all \<Longrightarrow> distinct (map (fpath \<circ> fst) ms) \<Longrightarrow>
   (\<forall>(f, d)\<in>set ms. fbytes f = length d \<and> fsha f = sha_hex H d) \<Longrightarrow>
   (\<forall>f\<in>fst ` set ms. member_name (fpath f) \<notin> fst ` set proofs) \<Longrightarrow> key_order proofs \<Longrightarrow>
   \<exists>out. verify_rows H all
       (map member_entry ms) proofs = Inr out \<and> key_order out \<and>
     set out = set proofs \<union> (\<lambda>(f, d). (member_name (fpath f), f)) ` set ms"
proof (induction ms arbitrary: proofs)
  case (Cons m ms)
  obtain f d where m: "m = (f, d)" by (cases m)
  let ?e = "(member_name (fpath f), f)"
  let ?row = "member_entry m"
  have "receipt_for all (fpath f) = Some f"
    using receipt_for_member [OF assms] Cons.prems(1) m by simp
  then have one: "verify_member H all ?row proofs = Inr (insort_key fst ?e proofs)"
    using Cons.prems(3,4) m by (simp add: verify_member_def member_entry_def)
  have "\<exists>out. verify_rows H all
       (map member_entry ms) (insort_key fst ?e proofs) = Inr out \<and> key_order out \<and>
     set out = set (insort_key fst ?e proofs) \<union> (\<lambda>(f, d). (member_name (fpath f), f)) ` set ms"
  proof (rule Cons.IH)
    have "\<forall>g\<in>fst ` set ms. fpath g \<noteq> fpath f"
      using Cons.prems(2) m by (auto simp: image_iff)
    then show "\<forall>g\<in>fst ` set ms. member_name (fpath g) \<notin> fst ` set (insort_key fst ?e proofs)"
      using Cons.prems(4) by (simp add: set_insort_key)
    show "key_order (insort_key fst ?e proofs)"
      using Cons.prems(4,5) m by (intro insort_key_proof_entries) auto
  qed (use Cons.prems m in auto)
  then show ?case using one m by (auto simp: set_insort_key)
qed simp

lemma packD:
  assumes "pack H T required first second still third fourth = Inr k"
  obtains fs where "selected_results first required = Inr (map fpath (pk_files k), pk_skipped k)"
    "check_policy required (map fpath (pk_files k)) = Inr ()"
    "packed_files H second still (map fpath (pk_files k)) = Inr fs" "pk_files k = map fst fs"
    "pk_archive k = tar_build T (map (\<lambda>(f, d). (member_name (fpath f), d)) fs)"
    "pk_sha k = sha_hex H (pk_archive k)" "pk_bytes k = length (pk_archive k)"
proof -
  obtain ps s fs where run: "selected_results first required = Inr (ps, s)"
    "check_policy required ps = Inr ()" "packed_files H second still ps = Inr fs"
    "k = \<lparr>pk_archive = tar_build T (map (\<lambda>(f, d). (member_name (fpath f), d)) fs),
       pk_sha = sha_hex H (tar_build T (map (\<lambda>(f, d). (member_name (fpath f), d)) fs)),
       pk_bytes = length (tar_build T (map (\<lambda>(f, d). (member_name (fpath f), d)) fs)),
       pk_files = map fst fs, pk_skipped = s\<rparr>"
    using assms by (auto simp: pack_def res_simps Let_def split: if_splits)
  have "map fpath (map fst fs) = ps" using packed_files_rows [OF run(3)] by simp
  with run show thesis by (intro that [of fs]) auto
qed

lemma verify_packed_rows:
  assumes "pack H T required first second still third fourth = Inr k" "tar_reads_back T"
    and "distinct (map fpath (pk_files k))"
  shows "\<exists>rows. tar_read T (pk_archive k) = Some rows \<and>
     verify_rows H (pk_files k) rows [] = Inr (proof_entries (pk_files k))"
proof -
  obtain fs where fs: "packed_files H second still (map fpath (pk_files k)) = Inr fs"
      "pk_files k = map fst fs"
      "pk_archive k = tar_build T (map (\<lambda>(f, d). (member_name (fpath f), d)) fs)"
    using packD [OF assms(1)] by metis
  let ?rows = "map member_entry fs"
  have "\<exists>out. verify_rows H (pk_files k) ?rows [] = Inr out \<and> key_order out \<and>
     set out = set [] \<union> (\<lambda>(f, d). (member_name (fpath f), f)) ` set fs"
  proof (rule verify_rows_packed)
    show "distinct (map fpath (pk_files k))" by (rule assms(3))
    show "distinct (map (fpath \<circ> fst) fs)" using assms(3) fs(2) by simp
    show "\<forall>(f, d)\<in>set fs. fbytes f = length d \<and> fsha f = sha_hex H d"
      using packed_files_rows [OF fs(1)] by blast
  qed (use fs(2) in \<open>simp_all add: key_order_def\<close>)
  then obtain out where out: "verify_rows H (pk_files k) ?rows [] = Inr out" "key_order out"
      "set out = (\<lambda>(f, d). (member_name (fpath f), f)) ` set fs"
    by auto
  have entries: "set (proof_entries (pk_files k)) = set out"
    using out(3) fs(2) by (simp add: set_proof_entries image_image case_prod_beta')
  have "key_order (proof_entries (pk_files k))" using assms(3) by (rule proof_entries_order)
  with out(2) entries have "out = proof_entries (pk_files k)"
    by (intro map_sorted_distinct_set_unique [of fst]) (auto simp: key_order_def distinct_map)
  moreover have "tar_read T (pk_archive k) = Some ?rows"
    using assms(2) fs(3) by (simp add: tar_reads_back_def comp_def case_prod_beta' member_entry_def [abs_def])
  ultimately show ?thesis using out(1) by blast
qed

text \<open>C16. What was packed is verified, from a file and from a stream, with the one proof that matches its
  receipt; a stream with further bytes is refused.\<close>

theorem packed_archive_verifies:
  assumes run: "pack H T required first second still third fourth = Inr k"
    and tar: "tar_reads_back T"
    and receipt: "ar_files r = pk_files k" "ar_sha r = pk_sha k" "ar_bytes r = pk_bytes k"
      "validate_receipt H r = Inr ()"
    and size: "bounded H (proof_value (proof_of r)) = Inr ()" "pk_bytes k + 1 < u64_limit"
  shows "verify H T (pk_archive k) r = Inr (proof_of r) \<and>
    verify_stream H T (pk_archive k) r = Inr (proof_of r) \<and>
    verify_stream H T (pk_archive k @ c # extra) r = Inl InvalidArchive"
proof -
  have d: "distinct (map fpath (pk_files k))" using validate_receiptD(2) [OF receipt(4)] receipt(1) by simp
  obtain rows where rows: "tar_read T (pk_archive k) = Some rows"
      "verify_rows H (pk_files k) rows [] = Inr (proof_entries (pk_files k))"
    using verify_packed_rows [OF run tar d] by blast
  have id: "pk_sha k = sha_hex H (pk_archive k)" "pk_bytes k = length (pk_archive k)"
    using packD [OF run] by metis+
  have "key_order (pf_files (proof_of r))"
    using d receipt(1) by (simp add: proof_of_def proof_entries_order)
  then have "proof_matches H r (proof_of r) = Inr ()"
    using receipt(4) size(1) by (simp add: proof_matches_iff)
  then have c: "checked_proof H r (proof_entries (pk_files k)) = Inr (proof_of r)"
    using receipt(1) by (simp add: checked_proof_def proof_of_def Let_def)
  have add: "checked_add_u64 (ar_bytes r) 1 = Some (pk_bytes k + 1)"
    using size(2) receipt(3) by (simp only: checked_add_u64_Some)
  have stream: "verify_stream H T x r =
      (let seen = take (pk_bytes k + 1) x in
       and_then (ok_or (tar_read T seen) InvalidArchive) (\<lambda>rows.
       and_then (verify_rows H (ar_files r) rows []) (\<lambda>proofs.
       if sha_hex H seen \<noteq> ar_sha r \<or> length seen \<noteq> ar_bytes r \<or> length proofs \<noteq> length (ar_files r)
       then Inl InvalidArchive else checked_proof H r proofs)))" for x
    by (simp only: verify_stream_def receipt(4) add map_err_simps and_then_simps ok_or_simps Let_def)
  have len: "length (proof_entries (pk_files k)) = length (ar_files r)"
    using receipt(1) by (simp add: proof_entries_def)
  have "verify H T (pk_archive k) r = Inr (proof_of r)"
    using receipt rows c id by (simp add: verify_def)
  moreover have "verify_stream H T (pk_archive k) r = Inr (proof_of r)"
    using receipt rows c id len by (simp add: stream Let_def)
  moreover have "verify_stream H T (pk_archive k @ c # extra) r = Inl InvalidArchive"
  proof (cases "tar_read T (pk_archive k @ [c])")
    case (Some other)
    show ?thesis
    proof (cases "verify_rows H (ar_files r) other []")
      case (Inr out)
      then show ?thesis using receipt id Some by (simp add: stream Let_def)
    next
      case (Inl e)
      then show ?thesis
        using receipt id Some by (cases e) (simp add: stream Let_def)
    qed
  qed (use id in \<open>simp add: stream Let_def\<close>)
  ultimately show ?thesis by blast
qed

section \<open>A sample directory and a sample format\<close>

definition sample_writer :: "string \<Rightarrow> string" where
  "sample_writer s = CHR 0x22 # concat (map (\<lambda>c.
     if c = CHR 0x22 \<or> c = CHR 0x5C then [CHR 0x5C, c] else [c]) s) @ [CHR 0x22]"

definition sample_results_hash :: "unit hashing" where
  "sample_results_hash = \<lparr>floats = \<lparr>as_f64 = (\<lambda>_. None), is_finite = (\<lambda>_. True), is_zero = (\<lambda>_. True),
     positive_zero = (), format_finite = (\<lambda>_. ''0.0'')\<rparr>,
     writer = sample_writer, sha_hex = (\<lambda>s. replicate 63 CHR ''a'' @ [if s = [] then CHR ''0'' else CHR ''1''])\<rparr>"

definition sample_outputs :: entries where
  "sample_outputs =
     [(Utf8 ''conf'', Directory (Some [(Utf8 ''a.yaml'', Regular ''x''), (Utf8 ''log'', SpecialNode)])),
      (Utf8 ''link'', SymbolicLinkNode), (Lossy ''odd'', Regular ''y''), (Utf8 ''w.pt'', Regular ''ww'')]"

definition sample_skipped :: skipped where
  "sample_skipped = \<lparr>sk_paths = [\<lparr>sp_path = ''conf/log'', sp_reason = SpecialFile\<rparr>,
     \<lparr>sp_path = ''link'', sp_reason = SymbolicLink\<rparr>, \<lparr>sp_path = ''odd'', sp_reason = UnsupportedPath\<rparr>],
     sk_unlisted = 0\<rparr>"

lemma sample_selected:
  "selected_results sample_outputs [''w.pt''] = Inr ([''conf/a.yaml'', ''w.pt''], sample_skipped)"
  by code_simp

text \<open>A format that writes the length of every string in unary before it.\<close>

definition unary_text :: "string \<Rightarrow> string" where
  "unary_text s = replicate (length s) CHR ''1'' @ CHR ''0'' # s"

definition unary_next :: "string \<Rightarrow> string \<times> string" where
  "unary_next t = (let n = length (takeWhile ((=) CHR ''1'') t) in
     (take n (drop (n + 1) t), drop n (drop (n + 1) t)))"

fun unary_build :: "(string \<times> string) list \<Rightarrow> string" where
  "unary_build [] = []"
| "unary_build ((p, d) # ms) = CHR ''m'' # unary_text p @ unary_text d @ unary_build ms"

lemma unary_next_text [simp]: "unary_next (unary_text s @ r) = (s, r)"
proof -
  have "takeWhile ((=) CHR ''1'') (replicate n CHR ''1'' @ CHR ''0'' # t) = replicate n CHR ''1''" for n t
    by (induction n) simp_all
  then show ?thesis by (simp add: unary_next_def unary_text_def Let_def)
qed

function unary_read :: "string \<Rightarrow> tar_entry list option" where
  "unary_read [] = Some []"
| "unary_read (c # t) =
     (if c \<noteq> CHR ''m'' then None
      else let (p, r) = unary_next t; (d, r') = unary_next r in
           map_option ((#) \<lparr>te_file = True, te_path = Some p, te_size = length d, te_data = d\<rparr>)
             (unary_read r'))"
  by pat_completeness auto
termination
  by (relation "measure length") (auto simp: unary_next_def Let_def)

definition sample_tar :: tar_format where
  "sample_tar = \<lparr>tar_build = unary_build, tar_read = unary_read\<rparr>"

lemma sample_tar_reads_back: "tar_reads_back sample_tar"
proof -
  have "unary_read (unary_build ms) =
     Some (map (\<lambda>(p, d). \<lparr>te_file = True, te_path = Some p, te_size = length d, te_data = d\<rparr>) ms)" for ms
    by (induction ms rule: unary_build.induct) simp_all
  then show ?thesis by (simp add: tar_reads_back_def sample_tar_def)
qed

definition sample_packed :: packed where
  "sample_packed =
     (let archive = unary_build [(''outputs/conf/a.yaml'', ''x''), (''outputs/w.pt'', ''ww'')] in
      \<lparr>pk_archive = archive, pk_sha = sha_hex sample_results_hash archive, pk_bytes = length archive,
       pk_files = [\<lparr>fpath = ''conf/a.yaml'', fbytes = 1, fsha = sha_hex sample_results_hash ''x''\<rparr>,
         \<lparr>fpath = ''w.pt'', fbytes = 2, fsha = sha_hex sample_results_hash ''ww''\<rparr>],
       pk_skipped = sample_skipped\<rparr>)"

lemma sample_pack:
  "pack sample_results_hash sample_tar [''w.pt''] sample_outputs sample_outputs (\<lambda>_. True)
     sample_outputs sample_outputs = Inr sample_packed"
  by code_simp

definition sample_receipt :: archive_receipt where
  "sample_receipt = \<lparr>ar_project = ''demo'', ar_run = ''train'', ar_attempt = ''attempt-001'',
     ar_sha = pk_sha sample_packed, ar_bytes = pk_bytes sample_packed, ar_files = pk_files sample_packed,
     ar_key = object_key ''demo'' ''train'' ''attempt-001'' (pk_sha sample_packed)\<rparr>"

lemma sample_receipt_ok:
  "validate_receipt sample_results_hash sample_receipt = Inr ()"
  "bounded sample_results_hash (proof_value (proof_of sample_receipt)) = Inr ()"
  "pk_bytes sample_packed + 1 < u64_limit"
  by code_simp+

theorem skip_list_is_complete_witness:
  "path_of [''odd''] \<in> {''conf/a.yaml'', ''w.pt''} \<or> covered sample_skipped (path_of [''odd''])"
proof -
  have "check_policy [''w.pt''] [''conf/a.yaml'', ''w.pt''] = Inr ()" "tree_ok sample_outputs"
      "[''odd''] \<in> set (files_of sample_outputs)"
    by code_simp+
  then show ?thesis using skip_list_is_complete [OF sample_selected, of "[''odd'']"] by auto
qed

theorem packed_archive_verifies_witness:
  "verify sample_results_hash sample_tar (pk_archive sample_packed) sample_receipt =
     Inr (proof_of sample_receipt) \<and>
   verify_stream sample_results_hash sample_tar (pk_archive sample_packed) sample_receipt =
     Inr (proof_of sample_receipt) \<and>
   verify_stream sample_results_hash sample_tar (pk_archive sample_packed @ ''x'') sample_receipt =
     Inl InvalidArchive"
proof -
  have "ar_files sample_receipt = pk_files sample_packed" "ar_sha sample_receipt = pk_sha sample_packed"
      "ar_bytes sample_receipt = pk_bytes sample_packed"
    by (simp_all add: sample_receipt_def)
  then show ?thesis
    using packed_archive_verifies [OF sample_pack sample_tar_reads_back _ _ _ sample_receipt_ok(1-3)] by blast
qed

end
