(* ===== verification/ResultBundle.thy ===== *)
theory ResultBundle
  imports ResultWalk CanonicalUnique
begin

text \<open>
  The bundle a backend makes of a packed archive (\<open>rust/crates/worker/src/slurm/ledger/artifacts.rs\<close>)
  and the size of the state that carries it: what the walk lists fits the limit on a saved or sent
  state (\<open>MAX_LISTED_BYTES\<close> of \<open>core/src/artifacts.rs\<close>) when the required paths, which it lists
  whatever they cost, fit that budget.
\<close>

definition packed_bundle :: "frozen_intent \<Rightarrow> string \<Rightarrow> string \<Rightarrow> packed \<Rightarrow> result_bundle" where
  "packed_bundle i digest config k =
     \<lparr>bd_contract = ARTIFACT_CONTRACT, bd_intent = digest, bd_config = config,
      bd_archive =
        \<lparr>ar_project = project (scope i), ar_run = run_id (scope i), ar_attempt = attempt_id (scope i),
         ar_sha = pk_sha k, ar_bytes = pk_bytes k, ar_files = pk_files k,
         ar_key = object_key (project (scope i)) (run_id (scope i)) (attempt_id (scope i)) (pk_sha k)\<rparr>,
      bd_skipped = pk_skipped k\<rparr>"

section \<open>The state as serde writes it\<close>

fun skip_reason_name :: "skip_reason \<Rightarrow> string" where
  "skip_reason_name SymbolicLink = ''symbolic_link''"
| "skip_reason_name SpecialFile = ''special_file''"
| "skip_reason_name UnsupportedPath = ''unsupported_path''"
| "skip_reason_name FileLimit = ''file_limit''"

fun retention_name :: "retention_status \<Rightarrow> string" where
  "retention_name Keep = ''KEEP''"
| "retention_name Scheduled = ''SCHEDULED''"
| "retention_name Releasing = ''RELEASING''"
| "retention_name Released = ''RELEASED''"

definition text_value :: "string option \<Rightarrow> json" where
  "text_value v = (case v of None \<Rightarrow> JNull | Some t \<Rightarrow> JStr t)"

definition skipped_row_value :: "skipped_path \<Rightarrow> json" where
  "skipped_row_value row = JObj [(''path'', JStr (sp_path row)),
     (''reason'', JStr (skip_reason_name (sp_reason row)))]"

definition skipped_value :: "skipped \<Rightarrow> json" where
  "skipped_value s = JObj [(''paths'', JArr (map skipped_row_value (sk_paths s))),
     (''unlisted'', jnat (unat (sk_unlisted s)))]"

definition bundle_value :: "result_bundle \<Rightarrow> json" where
  "bundle_value b = JObj [(''contract'', JStr (bd_contract b)), (''intent_sha256'', JStr (bd_intent b)),
     (''config_sha256'', JStr (bd_config b)), (''archive'', archive_value (bd_archive b)),
     (''skipped'', skipped_value (bd_skipped b))]"

definition retention_value :: "retention \<Rightarrow> json" where
  "retention_value t = JObj [(''status'', JStr (retention_name (rt_status t))),
     (''sha256'', JStr (rt_sha t)), (''release_after'', text_value (rt_after t)),
     (''released_at'', text_value (rt_released t))]"

definition acknowledgement_value :: "acknowledgement option \<Rightarrow> json" where
  "acknowledgement_value a = (case a of None \<Rightarrow> JNull
     | Some ack \<Rightarrow> JObj [(''proof'', proof_value (ak_proof ack)), (''verified_at'', JStr (ak_at ack))])"

definition publication_value :: "publication \<Rightarrow> json" where
  "publication_value s = JObj [(''bundle'', bundle_value (pb_bundle s)),
     (''retention'', retention_value (pb_retention s)),
     (''acknowledgement'', acknowledgement_value (pb_ack s))]"

section \<open>How long strings get\<close>

definition printable_text :: "string \<Rightarrow> bool" where
  "printable_text s \<longleftrightarrow> list_all (\<lambda>c. 32 \<le> byte c) s"

definition text_cost :: "string \<Rightarrow> nat" where
  "text_cost s = length s + count_list s CHR 0x22 + count_list s CHR 0x5C"

text \<open>What is relied on of the JSON writer: above the control characters only the quote and the
  backslash are escaped, by one character.\<close>

definition plain_writer :: "(string \<Rightarrow> string) \<Rightarrow> bool" where
  "plain_writer W \<longleftrightarrow> (\<forall>s. printable_text s \<longrightarrow> length (W s) = text_cost s + 2)"

definition unescaped :: "string \<Rightarrow> bool" where
  "unescaped s \<longleftrightarrow> list_all (\<lambda>c. 32 \<le> byte c \<and> c \<noteq> CHR 0x22 \<and> c \<noteq> CHR 0x5C) s"

lemma rfc_escape_plain: "plain_writer rfc_escape"
proof -
  have "length (concat (map escape_char s)) = text_cost s" if "printable_text s" for s
    using that by (induction s) (auto simp: printable_text_def text_cost_def escape_char_def)
  then show ?thesis by (simp add: plain_writer_def rfc_escape_def)
qed

lemma quiet_append [simp]: "unescaped (a @ b) \<longleftrightarrow> unescaped a \<and> unescaped b"
  by (simp add: unescaped_def)

lemma quiet_cost: "unescaped s \<Longrightarrow> text_cost s = length s"
  by (induction s) (auto simp: unescaped_def text_cost_def)

lemma quiet_length: "plain_writer W \<Longrightarrow> unescaped s \<Longrightarrow> length (W s) = length s + 2"
  using quiet_cost [of s] by (auto simp: plain_writer_def unescaped_def printable_text_def list_all_iff)

lemma count_sum_le: "c \<noteq> d \<Longrightarrow> count_list s c + count_list s d \<le> length s"
  by (induction s) auto

lemma text_cost_le: "text_cost s \<le> 2 * length s"
  using count_sum_le [of "CHR 0x22" "CHR 0x5C" s] by (simp add: text_cost_def)

lemma printable_text_length: "plain_writer W \<Longrightarrow> printable_text s \<Longrightarrow> length (W s) \<le> 2 * length s + 2"
  using text_cost_le [of s] by (simp add: plain_writer_def)

abbreviation state_words :: "string list" where
  "state_words \<equiv>
     [''path'', ''bytes'', ''sha256'', ''project'', ''run_id'', ''attempt_id'', ''files'', ''object_key'',
      ''archive_sha256'', ''archive_bytes'', ''reason'', ''paths'', ''unlisted'', ''contract'',
      ''intent_sha256'', ''config_sha256'', ''archive'', ''skipped'', ''status'', ''release_after'',
      ''released_at'', ''proof'', ''verified_at'', ''bundle'', ''retention'', ''acknowledgement'',
      ''symbolic_link'', ''special_file'', ''unsupported_path'', ''file_limit'', ''KEEP'', ''SCHEDULED'',
      ''RELEASING'', ''RELEASED'', ''backend-artifacts.v1'']"

lemma state_words_quiet: "list_all unescaped state_words" "unescaped ''/''" "unescaped ''.tar''" "unescaped ''outputs/''" "unescaped ''sha256:''"
  by code_simp+

lemma word_length:
  assumes "plain_writer W"
  shows "list_all (\<lambda>s. length (W s) = length s + 2) state_words"
  using state_words_quiet(1) by (rule list.pred_mono_strong) (simp only: quiet_length [OF assms])

lemma hex_quiet: "is_lower_hex c \<Longrightarrow> 32 \<le> byte c \<and> c \<noteq> CHR 0x22 \<and> c \<noteq> CHR 0x5C"
  by (auto simp: is_lower_hex_def is_ascii_digit_def byte_def)

lemma id_quiet: "id_byte c \<Longrightarrow> 32 \<le> byte c \<and> c \<noteq> CHR 0x22 \<and> c \<noteq> CHR 0x5C"
  by (auto simp: id_byte_def str_simps)

lemma sha_quiet: "artifact_sha256 s \<Longrightarrow> unescaped s \<and> length s = 64"
  using hex_quiet by (auto simp: artifact_sha256_def unescaped_def list_all_iff)

lemma id_text_quiet: "list_all id_byte s \<Longrightarrow> unescaped s"
  using id_quiet by (auto simp: unescaped_def list_all_iff)

lemma control_free_printable:
  assumes "utf8_text s" "\<not> has_control s"
  shows "printable_text s"
proof -
  have "32 \<le> byte c" if "c \<in> set g" "g \<in> set (utf8_chars s)" for c g
  proof -
    have u: "utf8_char g" "\<not> is_control g"
      using assms that(2) by (auto simp: utf8_text_def has_control_def list_all_iff list_ex_iff)
    show ?thesis
    proof (cases "byte (hd g) < 128")
      case True
      then have "length g = 1" using u(1) by (simp add: utf8_char_def)
      then have "g = [c]" using that(1) by (cases g) auto
      then show ?thesis using u(2) by (simp add: is_control_def c0_control_def)
    next
      case False
      have "c = hd g \<or> is_continuation c"
        using u(1) that(1) by (cases g) (auto simp: utf8_char_def list_all_iff)
      then show ?thesis using False by (auto simp: is_continuation_def)
    qed
  qed
  then have "\<forall>c\<in>set (concat (utf8_chars s)). 32 \<le> byte c" unfolding set_concat by blast
  then show ?thesis by (simp add: printable_text_def list_all_iff)
qed

section \<open>The size of a state\<close>

lemma file_receipt_length:
  assumes "plain_writer W" "artifact_sha256 (fsha f)" "printable_text (fpath f)" "fbytes f < u64_limit"
  shows "length (json_text W (file_receipt_value f)) \<le> 116 + text_cost (fpath f)"
proof -
  have "length (W (fsha f)) = 66"
    using sha_quiet [OF assms(2)] quiet_length [OF assms(1)] by simp
  moreover have "length (W (fpath f)) = text_cost (fpath f) + 2"
    using assms(1,3) by (simp add: plain_writer_def)
  moreover have "length (show_nat (fbytes f)) \<le> 20"
    using assms(4) by (intro show_nat_Suc_length) simp_all
  moreover have "length (W ''path'') = 6" "length (W ''bytes'') = 7" "length (W ''sha256'') = 8"
    using word_length [OF assms(1)] by simp_all
  ultimately show ?thesis by (simp add: file_receipt_value_def jnat_def)
qed

text \<open>The receipts of a listing, and the proof of them, in what \<open>listed_cost\<close> counts.\<close>

definition listed_files :: "file_receipt list \<Rightarrow> bool" where
  "listed_files fs \<longleftrightarrow>
     (\<forall>f\<in>set fs. export_path (fpath f) \<and> utf8_text (fpath f) \<and> artifact_sha256 (fsha f) \<and>
        fbytes f < u64_limit)"

lemma listed_path:
  assumes "export_path p" "utf8_text p"
  shows "printable_text p" "listed_cost p = 240 + 3 * text_cost p"
proof -
  show "printable_text p" using assms control_free_printable by (simp add: export_path_def)
  have "CHR 0x5C \<notin> set p" using assms(1) by (simp add: export_path_def receipt_path_def)
  then show "listed_cost p = 240 + 3 * text_cost p"
    by (simp add: listed_cost_def text_cost_def count_notin)
qed

lemma receipts_length:
  assumes "plain_writer W" "listed_files fs"
  shows "length (item_text W (map file_receipt_value fs)) \<le>
    (\<Sum>f\<leftarrow>fs. 117 + text_cost (fpath f))"
proof -
  have "(\<Sum>f\<leftarrow>fs. length (json_text W (file_receipt_value f)) + 1) \<le> (\<Sum>f\<leftarrow>fs. 117 + text_cost (fpath f))"
    using assms file_receipt_length [OF assms(1)] listed_path(1)
    by (intro sum_list_mono) (force simp: listed_files_def)
  then show ?thesis using item_text_length [of W "map file_receipt_value fs"]
    by (simp add: comp_def split: if_splits)
qed

lemma member_name_cost:
  assumes "plain_writer W" "printable_text p"
  shows "length (W (member_name p)) = text_cost p + 10"
proof -
  have "printable_text (member_name p)" "text_cost (member_name p) = text_cost p + 8"
    using assms(2) state_words_quiet(4)
    by (auto simp: member_name_def printable_text_def unescaped_def text_cost_def list_all_iff)
  then show ?thesis using assms(1) by (simp add: plain_writer_def)
qed

lemma proofs_length:
  assumes "plain_writer W" "listed_files fs"
  shows "length (json_text W (JObj (map (\<lambda>(k, f). (k, file_receipt_value f)) (proof_entries fs)))) \<le>
    (\<Sum>f\<leftarrow>fs. 128 + 2 * text_cost (fpath f)) + 2"
proof -
  let ?len = "\<lambda>f. length (W (member_name (fpath f))) + length (json_text W (file_receipt_value f)) + 2"
  let ?m = "map (\<lambda>(k, f). (k, file_receipt_value f)) (proof_entries fs)"
  let ?entry = "\<lambda>(k, f). length (W k) + length (json_text W (file_receipt_value f)) + 2"
  have "mset (map ?entry (proof_entries fs)) = mset (map ?len fs)"
    by (simp add: proof_entries_def multiset.map_comp comp_def)
  then have "sum_list (map ?entry (proof_entries fs)) = (\<Sum>f\<leftarrow>fs. ?len f)"
    by (simp only: flip: sum_mset_sum_list)
  then have "(\<Sum>(k, v)\<leftarrow>?m. length (W k) + length (json_text W v) + 2) = (\<Sum>f\<leftarrow>fs. ?len f)"
    by (simp add: comp_def case_prod_beta')
  moreover have "(\<Sum>f\<leftarrow>fs. ?len f) \<le> (\<Sum>f\<leftarrow>fs. 128 + 2 * text_cost (fpath f))"
    using assms file_receipt_length [OF assms(1)] member_name_cost [OF assms(1)] listed_path(1)
    by (intro sum_list_mono) (force simp: listed_files_def)
  ultimately show ?thesis
    using json_text_obj_length [of W ?m] by (simp split: if_splits)
qed

lemma listed_sum:
  assumes "listed_files fs"
  shows "(\<Sum>f\<leftarrow>fs. 117 + text_cost (fpath f)) + (\<Sum>f\<leftarrow>fs. 128 + 2 * text_cost (fpath f)) =
    sum_list (map listed_cost (map fpath fs)) + 5 * length fs"
  using assms by (induction fs) (auto simp: listed_files_def listed_path(2))

lemma sum_list_le_const: "(\<And>x. x \<in> set xs \<Longrightarrow> f x \<le> (c::nat)) \<Longrightarrow> (\<Sum>x\<leftarrow>xs. f x) \<le> length xs * c"
  by (induction xs) fastforce+

lemma unlisted_digits: "length (show_nat (unat (u::u64))) \<le> 20"
proof (rule show_nat_Suc_length)
  have "unat u < 2 ^ 64" using unsigned_less [of u, where ?'a = nat] by simp
  then show "unat u < 10 ^ 20" by simp
qed simp

lemma skipped_row_length:
  assumes "plain_writer W" "printable_text (sp_path row)" "length (sp_path row) \<le> 528"
  shows "length (json_text W (skipped_row_value row)) + 1 \<le> 1096"
proof -
  have "length (W (skip_reason_name (sp_reason row))) \<le> 18"
    using word_length [OF assms(1)] by (cases "sp_reason row") simp_all
  moreover have "length (W (sp_path row)) \<le> 1058"
    using printable_text_length [OF assms(1,2)] assms(3) by linarith
  moreover have "length (W ''path'') = 6" "length (W ''reason'') = 8"
    using word_length [OF assms(1)] by simp_all
  ultimately show ?thesis by (simp add: skipped_row_value_def)
qed

lemma skipped_length:
  assumes "plain_writer W" "skips_ok s"
  shows "length (json_text W (skipped_value s)) \<le> 1122400"
proof -
  have rows: "printable_text (sp_path row) \<and> length (sp_path row) \<le> 528" if "row \<in> set (sk_paths s)" for row
    using assms(2) that control_free_printable
    by (auto simp: skips_ok_def validate_skipped_def list_ex_iff list_all_iff split: if_splits)
  have n: "length (sk_paths s) \<le> 1024"
    using assms(2) by (auto simp: skips_ok_def validate_skipped_def split: if_splits)
  have "(\<Sum>row\<leftarrow>sk_paths s. length (json_text W (skipped_row_value row)) + 1) \<le> length (sk_paths s) * 1096"
    using rows skipped_row_length [OF assms(1)] by (intro sum_list_le_const) blast
  also have "\<dots> \<le> 1122304" using n by simp
  finally have "length (item_text W (map skipped_row_value (sk_paths s))) \<le> 1122304"
    using item_text_length [of W "map skipped_row_value (sk_paths s)"]
    by (simp add: comp_def split: if_splits)
  moreover have "length (W ''paths'') = 7" "length (W ''unlisted'') = 10"
    using word_length [OF assms(1)] by simp_all
  ultimately show ?thesis
    using unlisted_digits [of "sk_unlisted s"] by (simp add: skipped_value_def jnat_def)
qed

definition receipt_head :: "archive_receipt \<Rightarrow> bool" where
  "receipt_head r \<longleftrightarrow>
     (is_ok (validate_id (ar_project r)) \<and> is_ok (validate_id (ar_run r)) \<and>
      is_ok (validate_attempt (ar_attempt r)) \<and> length (ar_attempt r) \<le> 1024 \<and>
      artifact_sha256 (ar_sha r) \<and> ar_bytes r < u64_limit \<and>
      ar_key r = object_key (ar_project r) (ar_run r) (ar_attempt r) (ar_sha r))"

lemma attempt_quiet: "is_ok (validate_attempt a) \<Longrightarrow> unescaped a"
  using attempt_suffix_id_bytes by (auto simp: is_ok_iff validate_attempt_eq_Inr intro!: id_text_quiet)

lemma archive_length:
  assumes "plain_writer W" "receipt_head r" "listed_files (ar_files r)"
  shows "length (json_text W (archive_value r)) \<le> 4000 + (\<Sum>f\<leftarrow>ar_files r. 117 + text_cost (fpath f))"
proof -
  have q: "unescaped (ar_project r)" "unescaped (ar_run r)" "unescaped (ar_attempt r)" "unescaped (ar_sha r)"
      "length (ar_sha r) = 64" "length (ar_project r) \<le> 128" "length (ar_run r) \<le> 128"
      "length (ar_attempt r) \<le> 1024"
    using assms(2) sha_quiet [of "ar_sha r"] attempt_quiet
    by (auto simp: receipt_head_def is_ok_validate_id intro!: id_text_quiet)
  then have "unescaped (ar_key r)" "length (ar_key r) \<le> 1360"
    using assms(2) state_words_quiet(2,3) by (auto simp: receipt_head_def object_key_def unescaped_def)
  then have "length (W (ar_key r)) \<le> 1362" using quiet_length [OF assms(1)] by simp
  moreover have "length (W (ar_project r)) \<le> 130" "length (W (ar_run r)) \<le> 130"
      "length (W (ar_attempt r)) \<le> 1026" "length (W (ar_sha r)) = 66"
    using q quiet_length [OF assms(1)] by simp_all
  moreover have "length (show_nat (ar_bytes r)) \<le> 20"
    using assms(2) by (intro show_nat_Suc_length) (simp_all add: receipt_head_def)
  moreover have "length (W ''project'') = 9" "length (W ''run_id'') = 8" "length (W ''attempt_id'') = 12"
      "length (W ''sha256'') = 8" "length (W ''bytes'') = 7" "length (W ''files'') = 7"
      "length (W ''object_key'') = 12"
    using word_length [OF assms(1)] by simp_all
  ultimately show ?thesis
    using receipts_length [OF assms(1,3)] by (simp add: archive_value_def jnat_def)
qed

lemma proof_length:
  assumes "plain_writer W" "receipt_head r" "listed_files (ar_files r)"
  shows "length (json_text W (proof_value (proof_of r))) \<le>
    200 + (\<Sum>f\<leftarrow>ar_files r. 128 + 2 * text_cost (fpath f))"
proof -
  have "length (W (ar_sha r)) = 66"
    using assms(2) sha_quiet [of "ar_sha r"] quiet_length [OF assms(1)] by (simp add: receipt_head_def)
  moreover have "length (show_nat (ar_bytes r)) \<le> 20"
    using assms(2) by (intro show_nat_Suc_length) (simp_all add: receipt_head_def)
  moreover have "length (W ''archive_sha256'') = 16" "length (W ''archive_bytes'') = 15" "length (W ''files'') = 7"
    using word_length [OF assms(1)] by simp_all
  moreover have "length (json_text W (proof_value (proof_of r))) =
      length (W ''archive_sha256'') + length (W (ar_sha r)) + length (W ''archive_bytes'') +
      length (show_nat (ar_bytes r)) + length (W ''files'') + 7 +
      length (json_text W (JObj (map (\<lambda>(k, f). (k, file_receipt_value f)) (proof_entries (ar_files r)))))"
    by (simp add: proof_value_def proof_of_def jnat_def)
  ultimately show ?thesis using proofs_length [OF assms(1,3)] by linarith
qed

text \<open>A timestamp that was validated is short and printable_text.\<close>

definition plain_clock :: "rfc3339 \<Rightarrow> bool" where
  "plain_clock R \<longleftrightarrow> (\<forall>v. R v \<noteq> None \<longrightarrow> printable_text v)"

lemma timestamp_length:
  assumes "plain_writer W" "plain_clock R" "artifact_timestamp R v = Inr t"
  shows "length (W v) \<le> 258"
proof -
  have "printable_text v" "length v \<le> 128"
    using assms(2,3) by (auto simp: artifact_timestamp_def plain_clock_def res_simps split: if_splits)
  then show ?thesis using printable_text_length [OF assms(1)] by fastforce
qed

lemma text_value_length:
  assumes "plain_writer W" "plain_clock R" "\<And>v. x = Some v \<Longrightarrow> \<exists>t. artifact_timestamp R v = Inr t"
  shows "length (json_text W (text_value x)) \<le> 258"
  using assms(3) timestamp_length [OF assms(1,2)] by (cases x) (auto simp: text_value_def)

lemma retention_length:
  assumes "plain_writer W" "plain_clock R" "validate_retention R t sha = Inr ()"
  shows "length (json_text W (retention_value t)) \<le> 1000"
proof -
  have "length (W (rt_sha t)) = 66"
    using assms(3) sha_quiet [of "rt_sha t"] quiet_length [OF assms(1)] by (simp add: validate_retention_iff)
  moreover have "length (json_text W (text_value (rt_after t))) \<le> 258"
      "length (json_text W (text_value (rt_released t))) \<le> 258"
    using assms(3)
    by (auto intro!: text_value_length [OF assms(1,2)] simp: validate_retention_iff split: if_splits)
  moreover have "length (W (retention_name (rt_status t))) \<le> 12"
    using word_length [OF assms(1)] by (cases "rt_status t") simp_all
  moreover have "length (W ''status'') = 8" "length (W ''sha256'') = 8" "length (W ''release_after'') = 15"
      "length (W ''released_at'') = 13"
    using word_length [OF assms(1)] by simp_all
  ultimately show ?thesis by (simp add: retention_value_def)
qed

lemma digest_length:
  assumes "plain_writer W" "valid_digest d"
  shows "length (W d) = 73"
proof -
  obtain h where h: "d = ''sha256:'' @ h" "length h = 64" "list_all is_lower_hex h"
    using assms(2) by (auto simp: valid_digest_def split: option.splits)
  have "unescaped h" using h(3) hex_quiet by (auto simp: unescaped_def list_all_iff)
  then have "unescaped d" using h(1) state_words_quiet(5) by (simp only: quiet_append)
  then show ?thesis using quiet_length [OF assms(1)] h(1,2) by simp
qed

lemma bundle_length:
  assumes "plain_writer W" "receipt_head (bd_archive b)" "listed_files (ar_files (bd_archive b))"
    "skips_ok (bd_skipped b)" "valid_digest (bd_intent b)" "valid_digest (bd_config b)"
    "bd_contract b = ARTIFACT_CONTRACT"
  shows "length (json_text W (bundle_value b)) \<le>
    1126800 + (\<Sum>f\<leftarrow>ar_files (bd_archive b). 117 + text_cost (fpath f))"
proof -
  have "length (W ARTIFACT_CONTRACT) = 22" "length (W ''contract'') = 10" "length (W ''intent_sha256'') = 15"
      "length (W ''config_sha256'') = 15" "length (W ''archive'') = 9" "length (W ''skipped'') = 9"
    using word_length [OF assms(1)] by simp_all
  then show ?thesis
    using archive_length [OF assms(1-3)] skipped_length [OF assms(1,4)]
      digest_length [OF assms(1,5)] digest_length [OF assms(1,6)] assms(7)
    by (simp add: bundle_value_def)
qed

lemma acknowledgement_length:
  assumes "plain_writer W" "plain_clock R" "receipt_head r" "listed_files (ar_files r)"
    and "\<And>ack. a = Some ack \<Longrightarrow> ak_proof ack = proof_of r \<and> (\<exists>t. artifact_timestamp R (ak_at ack) = Inr t)"
  shows "length (json_text W (acknowledgement_value a)) \<le>
    600 + (\<Sum>f\<leftarrow>ar_files r. 128 + 2 * text_cost (fpath f))"
proof (cases a)
  case (Some ack)
  have "length (W ''proof'') = 7" "length (W ''verified_at'') = 13"
    using word_length [OF assms(1)] by simp_all
  moreover have "length (W (ak_at ack)) \<le> 258"
    using assms(5) [OF Some] timestamp_length [OF assms(1,2)] by blast
  ultimately show ?thesis
    using proof_length [OF assms(1,3,4)] assms(5) [OF Some] Some by (simp add: acknowledgement_value_def)
qed (simp add: acknowledgement_value_def)

text \<open>Everything the walk lists within its budget.\<close>

definition within_budget :: "file_receipt list \<Rightarrow> bool" where
  "within_budget fs \<longleftrightarrow> listed_files fs \<and> length fs \<le> MAX_RESULT_FILES \<and>
     sum_list (map listed_cost (map fpath fs)) \<le> MAX_LISTED_BYTES"

lemma budget_sum:
  assumes "within_budget fs"
  shows "(\<Sum>f\<leftarrow>fs. 117 + text_cost (fpath f)) + (\<Sum>f\<leftarrow>fs. 128 + 2 * text_cost (fpath f)) \<le> 6391456"
  using assms listed_sum [of fs] by (simp only: within_budget_def) linarith

lemma budget_bounded:
  assumes "plain_writer (writer H)" "receipt_head r" "within_budget (ar_files r)"
  shows "bounded H (archive_value r) = Inr ()" "bounded H (proof_value (proof_of r)) = Inr ()"
proof -
  have l: "listed_files (ar_files r)" using assms(3) by (simp add: within_budget_def)
  show "bounded H (archive_value r) = Inr ()"
    using archive_length [OF assms(1,2) l] budget_sum [OF assms(3)] by (simp add: bounded_def)
  show "bounded H (proof_value (proof_of r)) = Inr ()"
    using proof_length [OF assms(1,2) l] budget_sum [OF assms(3)] by (simp add: bounded_def)
qed

lemma publication_length:
  assumes "plain_writer W" "plain_clock R" "receipt_head (bd_archive (pb_bundle s))"
    "within_budget (ar_files (bd_archive (pb_bundle s)))" "skips_ok (bd_skipped (pb_bundle s))"
    "validate_publication H R s = Inr ()"
    "\<And>ack. pb_ack s = Some ack \<Longrightarrow> ak_proof ack = proof_of (bd_archive (pb_bundle s))"
  shows "length (json_text W (publication_value s)) \<le> MAX_METADATA_BYTES"
proof -
  let ?r = "bd_archive (pb_bundle s)"
  have l: "listed_files (ar_files ?r)" using assms(4) by (simp add: within_budget_def)
  have v: "validate_bundle H (pb_bundle s) = Inr ()"
      "validate_retention R (pb_retention s) (ar_sha ?r) = Inr ()"
    using assms(6) by (auto simp: validate_publication_iff)
  then have b: "valid_digest (bd_intent (pb_bundle s))" "valid_digest (bd_config (pb_bundle s))"
      "bd_contract (pb_bundle s) = ARTIFACT_CONTRACT"
    by (auto simp: validate_bundle_def res_simps split: if_splits)
  have "length (json_text W (acknowledgement_value (pb_ack s))) \<le>
      600 + (\<Sum>f\<leftarrow>ar_files ?r. 128 + 2 * text_cost (fpath f))"
    using assms(6,7) by (intro acknowledgement_length [OF assms(1-3) l]) (auto simp: validate_publication_iff)
  moreover have "length (W ''bundle'') = 8" "length (W ''retention'') = 11" "length (W ''acknowledgement'') = 17"
    using word_length [OF assms(1)] by simp_all
  ultimately show ?thesis
    using bundle_length [OF assms(1,3) l assms(5) b] retention_length [OF assms(1,2) v(2)] budget_sum [OF assms(4)]
    by (simp add: publication_value_def)
qed

section \<open>A policy nobody can collect\<close>

text \<open>
  Why the budget of the required paths is a hypothesis below: this policy validates, and no receipt
  that lists what it requires does.
\<close>

definition wide_policy :: "string list" where
  "wide_policy = map (\<lambda>n. replicate 500 CHR ''a'' @ show_nat n) [0..<20000]"

lemma digit_bytes: "c \<in> set (show_nat n) \<Longrightarrow> 48 \<le> byte c \<and> byte c \<le> 57"
  using all_digits_show_nat [of n] by (auto simp: all_digits_def list_all_iff is_ascii_digit_def)

lemma wide_name:
  assumes "p \<in> set wide_policy"
  shows "export_path p" "500 \<le> length p" "printable_text p" "hd p = CHR ''a''"
proof -
  from assms obtain n where n: "p = replicate 500 CHR ''a'' @ show_nat n" "n < 10 ^ 5"
    by (auto simp: wide_policy_def)
  have c: "48 \<le> byte c \<and> byte c \<le> 97" if "c \<in> set p" for c
    using that digit_bytes [of c n] by (auto simp: n(1) byte_def)
  then have no: "d \<notin> set p" if "byte d < 48 \<or> 97 < byte d \<or> byte d = 92" for d
    using that digit_bytes [of d n] by (force simp: n(1) byte_def)
  show len: "500 \<le> length p" and "hd p = CHR ''a''" by (simp_all add: n(1))
  have "length p \<le> 505" using show_nat_Suc_length [OF n(2)] by (simp add: n(1))
  show "printable_text p" using c by (fastforce simp: printable_text_def list_all_iff)
  have "utf8_chars p = map (\<lambda>c. [c]) p"
    using c by (intro utf8_chars_ascii) (fastforce simp: list_all_iff is_ascii_def)
  then have "\<not> has_control p"
    using c by (fastforce simp: has_control_def list_ex_iff is_control_def c0_control_def)
  moreover have "split_on CHR ''/'' p = [p]" using no by (intro split_on_no_sep) (simp add: byte_def)
  moreover have "CHR 0x5C \<notin> set p" "NUL \<notin> set p" using no by (simp_all add: byte_def)
  moreover have "p \<noteq> []" "p \<noteq> ''.''" "p \<noteq> ''..''" using len by auto
  ultimately show "export_path p"
    using \<open>length p \<le> 505\<close> by (simp add: export_path_def receipt_path_def)
qed

lemma wide_policy_valid:
  "validate_policy wide_policy = Inr ()" "distinct wide_policy" "length wide_policy = MAX_RESULT_FILES"
proof -
  show d: "distinct wide_policy" by (simp add: wide_policy_def distinct_map inj_on_def)
  have "p \<noteq> ''outputs'' \<and> \<not> starts_with ''outputs/'' p" if "p \<in> set wide_policy" for p
    using wide_name(4) [OF that] by (auto simp: starts_with_iff)
  then have "fresh_names [] wide_policy" using d wide_name(1) by (simp add: fresh_names_iff)
  then show "validate_policy wide_policy = Inr ()"
    by (simp add: validate_policy_def wide_policy_def)
  show "length wide_policy = MAX_RESULT_FILES" by (simp add: wide_policy_def)
qed

lemma paths_in_text:
  assumes "plain_writer W" "distinct ps" "\<forall>p\<in>set ps. printable_text p"
  shows "set ps \<subseteq> fpath ` set fs \<Longrightarrow>
    sum_list (map length ps) \<le> length (item_text W (map file_receipt_value fs))"
  using assms(2,3)
proof (induction fs arbitrary: ps)
  case (Cons f fs)
  let ?qs = "filter (\<lambda>p. p \<noteq> fpath f) ps"
  have "sum_list (map length ?qs) \<le> length (item_text W (map file_receipt_value fs))"
    using Cons.prems by (intro Cons.IH) auto
  moreover have "sum_list (map length ps) \<le>
      sum_list (map length ?qs) + (if fpath f \<in> set ps then length (fpath f) else 0)"
    using Cons.prems(2) by (induction ps) auto
  moreover have "(if fpath f \<in> set ps then length (fpath f) else 0) \<le> length (json_text W (file_receipt_value f))"
    using assms(1) Cons.prems(3)
    by (auto simp: plain_writer_def file_receipt_value_def text_cost_def)
  moreover have "length (json_text W (file_receipt_value f)) + length (item_text W (map file_receipt_value fs)) \<le>
      length (item_text W (map file_receipt_value (f # fs)))" by simp
  ultimately show ?case by linarith
qed simp

lemma wide_policy_is_never_collected:
  assumes "plain_writer (writer H)" "check_policy wide_policy (map fpath (ar_files r)) = Inr ()"
  shows "validate_receipt H r \<noteq> Inr ()"
proof
  assume "validate_receipt H r = Inr ()"
  then have "length (json_text (writer H) (archive_value r)) \<le> MAX_RECEIPT_BYTES"
    by (auto simp: validate_receipt_def bounded_def res_simps split: if_splits)
  then have "length (item_text (writer H) (map file_receipt_value (ar_files r))) \<le> MAX_RECEIPT_BYTES"
    by (simp add: archive_value_def)
  moreover have "set wide_policy \<subseteq> fpath ` set (ar_files r)"
    using assms(2) by (fastforce simp: check_policy_def list_ex_iff res_simps split: if_splits)
  then have "sum_list (map length wide_policy) \<le> length (item_text (writer H) (map file_receipt_value (ar_files r)))"
    using paths_in_text [OF assms(1) wide_policy_valid(2)] wide_name(3) by blast
  moreover have "length wide_policy * 500 \<le> sum_list (map length wide_policy)"
    using wide_name(2) sum_list_mono [of wide_policy "\<lambda>_. 500" length] by (simp add: sum_list_triv)
  ultimately show False using wide_policy_valid(3) by simp
qed

section \<open>A collection never outgrows the limit\<close>

lemma names_utf8:
  "tree_ok es \<Longrightarrow> cs \<in> set (files_of es) \<Longrightarrow> list_all utf8_text cs"
  "node_ok node \<Longrightarrow> cs \<in> set (files_in node) \<Longrightarrow> list_all utf8_text cs"
  by (induction es and node arbitrary: cs and cs rule: files_of_files_in.induct) auto

lemma path_of_utf8: "list_all utf8_text cs \<Longrightarrow> utf8_text (path_of cs)"
proof (induction cs rule: induct_list012)
  case (3 x y cs)
  then have "utf8_text (x @ ''/'' @ path_of (y # cs))"
    by (intro utf8_text_append utf8_text_const) simp_all
  then show ?case by (simp add: join_Cons)
qed (simp_all add: utf8_text_const)

lemma opened_path:
  assumes "tree_ok root" "open_result root p \<noteq> None"
  shows "export_path p" "utf8_text p"
proof -
  show "export_path p" using assms(2) by (simp add: open_result_def split: if_splits)
  then obtain c where "open_at root (split_on CHR ''/'' p) = Some c"
    using assms(2) by (auto simp: open_result_def)
  then have "list_all utf8_text (split_on CHR ''/'' p)"
    using names_utf8(1) [OF assms(1)] open_at_file by blast
  then show "utf8_text p" using path_of_utf8 [of "split_on CHR ''/'' p"] by simp
qed

lemma pack_within_budget:
  assumes run: "pack H T required first second still third fourth = Inr k"
    and tree: "tree_ok first" and req: "sum_list (map listed_cost required) \<le> MAX_LISTED_BYTES"
    and sha: "\<forall>x. artifact_sha256 (sha_hex H x)" and sizes: "\<forall>f\<in>set (pk_files k). fbytes f < u64_limit"
  shows "within_budget (pk_files k)" "skips_ok (pk_skipped k)" "distinct (map fpath (pk_files k))"
proof -
  obtain fs where fs: "selected_results first required = Inr (map fpath (pk_files k), pk_skipped k)"
    "check_policy required (map fpath (pk_files k)) = Inr ()"
    "packed_files H second still (map fpath (pk_files k)) = Inr fs" "pk_files k = map fst fs"
    using packD [OF run] by metis
  have "validate_policy required = Inr ()" using fs(2) by (auto simp: check_policy_def res_simps)
  note b = selection_bounded [OF fs(1) tree this]
  show "skips_ok (pk_skipped k)" "distinct (map fpath (pk_files k))" using b by blast+
  have "fsha f = sha_hex H d" if "(f, d) \<in> set fs" for f d
    using packed_files_rows [OF fs(3)] that by blast
  then have "artifact_sha256 (fsha f)" if "f \<in> set (pk_files k)" for f
    using that fs(4) sha by auto
  moreover have "export_path (fpath f) \<and> utf8_text (fpath f)" if "f \<in> set (pk_files k)" for f
    using b that opened_path [OF tree, of "fpath f"] by auto
  ultimately have "listed_files (pk_files k)" using sizes by (simp add: listed_files_def)
  then show "within_budget (pk_files k)" using b req by (simp add: within_budget_def max_def split: if_splits)
qed

lemma intent_scope:
  assumes "intent_digest H i = Inr digest"
  shows "is_ok (validate_id (project (scope i)))" "is_ok (validate_id (run_id (scope i)))"
    "is_ok (validate_attempt (attempt_id (scope i)))" "length (attempt_id (scope i)) \<le> 128"
  using assms
  by (auto simp: intent_digest_def validate_intent_def validate_helper_scope_def scheduler_job_name_def
      is_ok_iff res_simps split: if_splits)

lemma sha256_bytes_valid: "artifact_sha256 (sha_hex H x) \<Longrightarrow> valid_digest (''sha256:'' @ sha_hex H x)"
  unfolding valid_digest_def strip_prefix_append by (simp add: artifact_sha256_def)

lemma intent_digest_valid:
  assumes "intent_digest H i = Inr digest" "\<forall>x. artifact_sha256 (sha_hex H x)"
  shows "valid_digest digest"
proof -
  obtain x where "digest = ''sha256:'' @ sha_hex H x"
    using assms(1)
    by (auto simp: intent_digest_def value_digest_def protocol_identity_def
        canonical_digest_def res_simps)
  then show ?thesis using assms(2) sha256_bytes_valid by blast
qed

text \<open>C15. When the required paths fit the listing budget, every collection is one that can be saved: whatever
  the walk selected beside them, the bundle of the packed archive is valid, its proof matches, and
  every valid state of it fits the limit on a saved or sent state, also once it is acknowledged.
  The policy itself does not bound the required paths: it admits \<open>MAX_FILES\<close> of them of \<open>MAX_PATH\<close>
  bytes each, and the walk archives them whatever they cost, so the budget is a hypothesis here.
  The others say that names in one directory differ, that SHA-256 prints 64 hexadecimal digits,
  that the JSON writer escapes only quotes and backslashes, and that sizes are 64-bit.\<close>

theorem collected_state_fits:
  assumes run: "pack H T required first second still third fourth = Inr k"
    and tree: "tree_ok first" and req: "sum_list (map listed_cost required) \<le> MAX_LISTED_BYTES"
    and writer: "plain_writer (writer H)" and sha: "\<forall>x. artifact_sha256 (sha_hex H x)"
    and sizes: "\<forall>f\<in>set (pk_files k). fbytes f < u64_limit" "0 < pk_bytes k" "pk_bytes k < u64_limit"
    and intent: "intent_digest H i = Inr digest"
    and made: "b = packed_bundle i digest (sha256_bytes H config) k"
  shows "(\<exists>s. new_publication H b = Inr s) \<and>
    proof_matches H (bd_archive b) (proof_of (bd_archive b)) = Inr () \<and>
    (plain_clock R \<and> pb_bundle s = b \<and> validate_publication H R s = Inr () \<and>
       (\<forall>ack. pb_ack s = Some ack \<longrightarrow> key_order (pf_files (ak_proof ack)))
     \<longrightarrow> length (json_text (writer H) (publication_value s)) \<le> MAX_METADATA_BYTES)"
proof -
  note k = pack_within_budget [OF run tree req sha sizes(1)]
  have archive_sha: "artifact_sha256 (pk_sha k)" using packD [OF run] sha by metis
  have files: "ar_files (bd_archive b) = pk_files k" by (simp add: made packed_bundle_def)
  have head: "receipt_head (bd_archive b)"
    using intent_scope [OF intent] archive_sha sizes(3)
    by (simp add: made packed_bundle_def receipt_head_def)
  have budget: "within_budget (ar_files (bd_archive b))" using k(1) files by simp
  note bounds = budget_bounded [OF writer head budget]
  have listed: "export_path (fpath f) \<and> receipt_path (fpath f) \<and> artifact_sha256 (fsha f)"
    if "f \<in> set (pk_files k)" for f
    using k(1) that by (auto simp: within_budget_def listed_files_def export_path_def)
  have receipt: "validate_receipt H (bd_archive b) = Inr ()"
  proof -
    have "fresh_files [] (pk_files k)" using listed k(3) by (simp add: fresh_files_iff)
    moreover have "length (pk_files k) \<le> MAX_RESULT_FILES" using k(1) by (simp add: within_budget_def)
    ultimately show ?thesis
      using intent_scope [OF intent] archive_sha sizes(2) bounds(1)
      by (auto simp: validate_receipt_def made packed_bundle_def is_ok_iff res_simps)
  qed
  have "valid_digest (sha256_bytes H config)"
    using sha256_bytes_valid [of H config] sha by (simp only: sha256_bytes_def)
  then have bundle_ok: "validate_bundle H b = Inr ()"
    using receipt k(2) listed intent_digest_valid [OF intent sha]
    by (simp add: validate_bundle_def made packed_bundle_def skips_ok_def list_ex_iff)
  have order: "key_order (pf_files (proof_of (bd_archive b)))"
    using k(3) files by (simp add: proof_of_def proof_entries_order)
  have "length (json_text (writer H) (publication_value s)) \<le> MAX_METADATA_BYTES"
    if s: "plain_clock R" "pb_bundle s = b" "validate_publication H R s = Inr ()"
      "\<forall>ack. pb_ack s = Some ack \<longrightarrow> key_order (pf_files (ak_proof ack))"
  proof (rule publication_length [OF writer s(1)])
    show "ak_proof ack = proof_of (bd_archive (pb_bundle s))" if "pb_ack s = Some ack" for ack
      using s(3,4) that by (simp add: validate_publication_iff proof_matches_iff)
  qed (use s head budget k(2) in \<open>simp_all add: made packed_bundle_def\<close>)
  moreover have "\<exists>s. new_publication H b = Inr s" using bundle_ok by (simp add: new_publication_def)
  moreover have "proof_matches H (bd_archive b) (proof_of (bd_archive b)) = Inr ()"
    using receipt bounds(2) order by (simp add: proof_matches_iff)
  ultimately show ?thesis by blast
qed

end
