(* ===== verification/ArtifactLedger.thy ===== *)
theory ArtifactLedger
  imports ResultBundle SlurmLedger
begin

text \<open>
  The results of an Attempt on its backend and their record on the server
  (\<open>rust/crates/worker/src/slurm/ledger/artifacts.rs\<close>,
  \<open>rust/crates/server/src/backends/slurm/service/engine/artifacts.rs\<close>).

  An operation of the helper is a program over the results directory that yields the directory after
  each of its durable writes. A run that stops anywhere, by a crash, a cancelled request or a failed
  call, leaves the directory as it was after some of these writes; a write that reports an error may
  have happened. The server keeps one saved state per Attempt and calls the helper over a connection
  that may lose the request or the reply. What other parts of the program decide on the way (the
  evidence that the Attempt finished, the configuration digest, the manifest's policy, free space, the
  packing) is the environment of a run.
\<close>

datatype results_error = ResultsUnavailable

record results_dir =
  rd_owner :: "string slot"
  rd_archive :: "(string \<times> bool) option"
  rd_bundle :: "result_bundle slot"
  rd_state :: "publication slot"
  rd_strangers :: bool

record results_env =
  ev_found :: bool
  ev_config :: string
  ev_policy :: "string list option"
  ev_room :: bool
  ev_partial :: string
  ev_packed :: "archive_error + packed"
  ev_issued :: bool
  ev_cancelled :: bool

section \<open>Programs of durable writes\<close>

type_synonym 'a result_io = "results_dir \<Rightarrow> results_dir list \<times> (results_error + 'a)"

definition r_return :: "'a \<Rightarrow> 'a result_io" where
  "r_return x d = ([], Inr x)"

definition r_bind :: "'a result_io \<Rightarrow> ('a \<Rightarrow> 'b result_io) \<Rightarrow> 'b result_io" where
  "r_bind m f d =
     (let (ws, r) = m d in
      case r of
        Inl e \<Rightarrow> (ws, Inl e)
      | Inr x \<Rightarrow> let (vs, s) = f x (last (d # ws)) in (ws @ vs, s))"

definition r_read :: "(results_dir \<Rightarrow> 'e + 'a) \<Rightarrow> 'a result_io" where
  "r_read f d = ([], map_err (\<lambda>_. ResultsUnavailable) (f d))"

definition r_check :: "(results_dir \<Rightarrow> bool) \<Rightarrow> unit result_io" where
  "r_check b = r_read (\<lambda>d. require (b d) ())"

definition r_write :: "(results_dir \<Rightarrow> results_dir) \<Rightarrow> unit result_io" where
  "r_write f d = ([f d], Inr ())"

definition r_if :: "(results_dir \<Rightarrow> bool) \<Rightarrow> 'a result_io \<Rightarrow> 'a result_io \<Rightarrow> 'a result_io" where
  "r_if b m n d = (if b d then m d else n d)"

definition r_when :: "(results_dir \<Rightarrow> bool) \<Rightarrow> unit result_io \<Rightarrow> unit result_io" where
  "r_when b m = r_if b m (r_return ())"

section \<open>The helper\<close>

definition state_readable :: "'f hashing \<Rightarrow> publication \<Rightarrow> bool" where
  "state_readable H st \<longleftrightarrow>
     length (json_text (writer H) (publication_value st)) \<le> MAX_METADATA_BYTES"

definition bundle_readable :: "'f hashing \<Rightarrow> result_bundle \<Rightarrow> bool" where
  "bundle_readable H b \<longleftrightarrow> length (json_text (writer H) (bundle_value b)) \<le> MAX_METADATA_BYTES"

definition read_bundle :: "'f hashing \<Rightarrow> results_dir \<Rightarrow> results_error + result_bundle" where
  "read_bundle H d =
     (case rd_bundle d of
        Holds b \<Rightarrow> if bundle_readable H b then Inr b else Inl ResultsUnavailable
      | _ \<Rightarrow> Inl ResultsUnavailable)"

definition read_results :: "'f hashing \<Rightarrow> rfc3339 \<Rightarrow> results_dir \<Rightarrow> results_error + publication" where
  "read_results H R d =
     (case rd_state d of
        Holds st \<Rightarrow>
          if \<not> state_readable H st then Inl ResultsUnavailable
          else and_then (map_err (\<lambda>_. ResultsUnavailable) (validate_publication H R st)) (\<lambda>_.
               and_then (read_bundle H d) (\<lambda>b.
               if b \<noteq> pb_bundle st then Inl ResultsUnavailable else Inr st))
      | _ \<Rightarrow> Inl ResultsUnavailable)"

definition save_state :: "'f hashing \<Rightarrow> rfc3339 \<Rightarrow> publication \<Rightarrow> unit result_io" where
  "save_state H R st =
     r_bind (r_read (\<lambda>_. validate_publication H R st)) (\<lambda>_.
     r_write (\<lambda>d. d\<lparr>rd_state := Holds st\<rparr>))"

text \<open>The owner marker: only an empty directory is given one.\<close>

definition claim_directory :: "string \<Rightarrow> bool \<Rightarrow> unit result_io" where
  "claim_directory digest collect =
     r_bind (r_check (\<lambda>d. case rd_owner d of
         Holds owner \<Rightarrow> owner = digest
       | Malformed \<Rightarrow> False
       | Absent \<Rightarrow> collect \<and> \<not> rd_strangers d \<and> rd_archive d = None \<and> rd_bundle d = Absent \<and>
           rd_state d = Absent)) (\<lambda>_.
     r_when (\<lambda>d. rd_owner d = Absent) (r_write (\<lambda>d. d\<lparr>rd_owner := Holds digest\<rparr>)))"

definition pack_bundle ::
    "'f hashing \<Rightarrow> results_env \<Rightarrow> frozen_intent \<Rightarrow> string \<Rightarrow> result_bundle result_io" where
  "pack_bundle H e i digest =
     r_bind (r_when (\<lambda>d. rd_archive d \<noteq> None) (r_write (\<lambda>d. d\<lparr>rd_archive := None\<rparr>))) (\<lambda>_.
     r_bind (r_check (\<lambda>_. ev_policy e \<noteq> None \<and> ev_room e)) (\<lambda>_.
     r_bind (r_write (\<lambda>d. d\<lparr>rd_archive := Some (ev_partial e, False)\<rparr>)) (\<lambda>_.
     case ev_packed e of
       Inl _ \<Rightarrow>
         r_bind (r_write (\<lambda>d. d\<lparr>rd_archive := None\<rparr>)) (\<lambda>_. r_read (\<lambda>_. Inl ResultsUnavailable))
     | Inr k \<Rightarrow>
         r_bind (r_write (\<lambda>d. d\<lparr>rd_archive := Some (pk_archive k, False)\<rparr>)) (\<lambda>_.
         r_bind (r_write (\<lambda>d. d\<lparr>rd_archive := Some (pk_archive k, True)\<rparr>)) (\<lambda>_.
         let b = packed_bundle i digest (ev_config e) k in
         r_bind (r_read (\<lambda>_. validate_bundle H b)) (\<lambda>_.
         r_bind (r_write (\<lambda>d. d\<lparr>rd_bundle := Holds b\<rparr>)) (\<lambda>_. r_return b)))))))"

definition publish_results ::
    "'f hashing \<Rightarrow> results_env \<Rightarrow> frozen_intent \<Rightarrow> string \<Rightarrow> bool \<Rightarrow> unit result_io" where
  "publish_results H e i digest collect =
     r_if (\<lambda>d. rd_state d \<noteq> Absent) (r_return ())
       (r_bind (r_check (\<lambda>_. collect)) (\<lambda>_.
        r_bind (r_if (\<lambda>d. rd_bundle d \<noteq> Absent) (r_read (read_bundle H))
          (pack_bundle H e i digest)) (\<lambda>b.
        r_bind (r_read (\<lambda>_. new_publication H b)) (\<lambda>st.
        r_write (\<lambda>d. d\<lparr>rd_state := Holds st\<rparr>)))))"

definition result_state ::
    "'f hashing \<Rightarrow> rfc3339 \<Rightarrow> results_env \<Rightarrow> frozen_intent \<Rightarrow> bool \<Rightarrow> publication result_io" where
  "result_state H R e i collect =
     r_bind (r_check (\<lambda>_. ev_found e)) (\<lambda>_.
     r_bind (r_read (\<lambda>_. intent_digest H i)) (\<lambda>digest.
     r_bind (claim_directory digest collect) (\<lambda>_.
     r_bind (publish_results H e i digest collect) (\<lambda>_.
     r_bind (r_read (read_results H R)) (\<lambda>st.
     r_bind (r_read (\<lambda>_. bind_bundle H (pb_bundle st) i (Some (ev_config e)))) (\<lambda>_.
     r_bind (r_check (\<lambda>_. ev_issued e)) (\<lambda>_. r_return st)))))))"

text \<open>The removal of the generated copy: it must be the sealed file of the recorded size.\<close>

definition release_copy ::
    "'f hashing \<Rightarrow> rfc3339 \<Rightarrow> publication \<Rightarrow> string \<Rightarrow> publication result_io" where
  "release_copy H R st verified_at =
     (let r = bd_archive (pb_bundle st) in
      r_bind (r_read (\<lambda>_. begin_release H R r (pb_retention st))) (\<lambda>t.
      let st = st\<lparr>pb_retention := t\<rparr> in
      r_bind (save_state H R st) (\<lambda>_.
      r_bind (r_check (\<lambda>d. case rd_archive d of
          None \<Rightarrow> True | Some (bytes, sealed) \<Rightarrow> sealed \<and> length bytes = ar_bytes r)) (\<lambda>_.
      r_bind (r_when (\<lambda>d. rd_archive d \<noteq> None) (r_write (\<lambda>d. d\<lparr>rd_archive := None\<rparr>))) (\<lambda>_.
      r_bind (r_read (\<lambda>_. finish_release H R r (pb_retention st) verified_at)) (\<lambda>t.
      let st = st\<lparr>pb_retention := t\<rparr> in
      r_bind (save_state H R st) (\<lambda>_. r_return st)))))))"

definition artifact_operation ::
    "'f hashing \<Rightarrow> rfc3339 \<Rightarrow> results_env \<Rightarrow> frozen_intent \<Rightarrow> artifact_command \<Rightarrow> publication result_io" where
  "artifact_operation H R e i command =
     r_bind (result_state H R e i (command = Collect)) (\<lambda>st.
     r_bind (r_check (\<lambda>_. \<not> ev_cancelled e)) (\<lambda>_.
     case command of
       Collect \<Rightarrow> r_return st
     | Download sha \<Rightarrow> r_read (\<lambda>_. Inl ResultsUnavailable)
     | Acknowledge p verified_at release \<Rightarrow>
         r_bind (r_read (\<lambda>_. acknowledge H R st p verified_at release)) (\<lambda>st.
         r_bind (save_state H R st) (\<lambda>_.
         if rt_status (pb_retention st) \<in> {Scheduled, Releasing}
         then release_copy H R st verified_at
         else r_return st))))"

text \<open>A download only reads; the open file outlives the lock.\<close>

definition artifact_download ::
    "'f hashing \<Rightarrow> rfc3339 \<Rightarrow> results_env \<Rightarrow> frozen_intent \<Rightarrow> string \<Rightarrow> (publication \<times> string) result_io" where
  "artifact_download H R e i sha =
     r_bind (result_state H R e i False) (\<lambda>st.
     r_bind (r_read (\<lambda>_. available H R st)) (\<lambda>free.
     r_bind (r_check (\<lambda>_. free \<and> ar_sha (bd_archive (pb_bundle st)) = sha)) (\<lambda>_.
     r_read (\<lambda>d. case rd_archive d of
       Some (bytes, True) \<Rightarrow>
         if length bytes = ar_bytes (bd_archive (pb_bundle st)) then Inr (st, bytes)
         else Inl ResultsUnavailable
     | _ \<Rightarrow> Inl ResultsUnavailable))))"

text \<open>A run that stops after \<open>n\<close> of its writes, or is complete and answers.\<close>

definition run_results :: "'a result_io \<Rightarrow> nat \<Rightarrow> results_dir \<Rightarrow> results_dir \<times> 'a option" where
  "run_results m n d =
     (let (ws, r) = m d in
      if n < length ws then (last (d # take n ws), None) else (last (d # ws), ok r))"

section \<open>The server\<close>

datatype results_fault = SAuthority | SConflict | SUnavailable

type_synonym saved_results = "(string \<times> publication) slot"

text \<open>\<open>artifact_saved\<close>: the file carries the digest of the prepared request it belongs to.\<close>

definition artifact_saved ::
    "'f hashing \<Rightarrow> rfc3339 \<Rightarrow> frozen_intent \<Rightarrow> string \<Rightarrow> saved_results \<Rightarrow> results_fault + publication option" where
  "artifact_saved H R i request saved =
     (case saved of
        Absent \<Rightarrow> Inr None
      | Malformed \<Rightarrow> Inl SAuthority
      | Holds (owner, st) \<Rightarrow>
          if owner \<noteq> request then Inl SAuthority
          else and_then (map_err (\<lambda>_. SAuthority) (validate_publication H R st)) (\<lambda>_.
               and_then (map_err (\<lambda>_. SAuthority) (bind_bundle H (pb_bundle st) i None)) (\<lambda>_.
               Inr (Some st))))"

definition artifact_save ::
    "'f hashing \<Rightarrow> rfc3339 \<Rightarrow> frozen_intent \<Rightarrow> string \<Rightarrow> saved_results \<Rightarrow> publication
     \<Rightarrow> results_fault + saved_results" where
  "artifact_save H R i request saved st =
     and_then (map_err (\<lambda>_. SAuthority) (validate_publication H R st)) (\<lambda>_.
     and_then (map_err (\<lambda>_. SAuthority) (bind_bundle H (pb_bundle st) i None)) (\<lambda>_.
     and_then (artifact_saved H R i request saved) (\<lambda>old.
     and_then (case old of
         None \<Rightarrow> Inr ()
       | Some o' \<Rightarrow> map_err (\<lambda>_. SConflict) (validate_successor H R o' st)) (\<lambda>_.
     Inr (Holds (request, st))))))"

text \<open>The acknowledgement is durable on the server before the helper is asked for it.\<close>

definition local_acknowledge ::
    "'f hashing \<Rightarrow> rfc3339 \<Rightarrow> frozen_intent \<Rightarrow> string \<Rightarrow> artifact_command \<Rightarrow> saved_results
     \<Rightarrow> results_fault + saved_results" where
  "local_acknowledge H R i request command saved =
     (case command of
        Acknowledge p verified_at release \<Rightarrow>
          and_then (artifact_saved H R i request saved) (\<lambda>old.
          and_then (ok_or old SUnavailable) (\<lambda>st.
          and_then (map_err (\<lambda>_. SConflict) (acknowledge H R st p verified_at release)) (\<lambda>st.
          artifact_save H R i request saved st)))
      | _ \<Rightarrow> Inr saved)"

text \<open>What the server meets during one change: whether its observation guard holds before and after
  the call, whether the job is known, how many writes of the helper happen (or none, when the request
  is lost), and whether the reply comes back.\<close>

record exchange =
  ex_guard :: bool
  ex_job :: bool
  ex_writes :: "nat option"
  ex_reply :: bool
  ex_live :: bool

definition artifact_change ::
    "'f hashing \<Rightarrow> rfc3339 \<Rightarrow> frozen_intent \<Rightarrow> string \<Rightarrow> results_env \<Rightarrow> exchange \<Rightarrow> artifact_command
     \<Rightarrow> results_dir \<Rightarrow> saved_results \<Rightarrow> results_dir \<times> saved_results \<times> (results_fault + publication)" where
  "artifact_change H R i request e x command d saved =
     (if \<not> ex_guard x then (d, saved, Inl SAuthority)
      else case local_acknowledge H R i request command saved of
        Inl f \<Rightarrow> (d, saved, Inl f)
      | Inr saved \<Rightarrow>
          if \<not> ex_job x then (d, saved, Inl SAuthority)
          else case ex_writes x of
            None \<Rightarrow> (d, saved, Inl SUnavailable)
          | Some n \<Rightarrow>
              let (d, reply) = run_results (artifact_operation H R e i command) n d in
              if \<not> ex_reply x then (d, saved, Inl SUnavailable)
              else if \<not> ex_live x then (d, saved, Inl SAuthority)
              else case reply of
                None \<Rightarrow> (d, saved, Inl SUnavailable)
              | Some st \<Rightarrow>
                  (case artifact_save H R i request saved st of
                     Inl f \<Rightarrow> (d, saved, Inl f)
                   | Inr saved \<Rightarrow> (d, saved, Inr st)))"

section \<open>Reasoning over every write\<close>

text \<open>From \<open>P\<close>, every directory a run leaves on its way satisfies \<open>I\<close>, and an answer satisfies \<open>Q\<close>
  with the directory it leaves.\<close>

definition r_triple ::
    "(results_dir \<Rightarrow> bool) \<Rightarrow> (results_dir \<Rightarrow> bool) \<Rightarrow> 'a result_io \<Rightarrow> ('a \<Rightarrow> results_dir \<Rightarrow> bool) \<Rightarrow> bool" where
  "r_triple I P m Q \<longleftrightarrow>
     (\<forall>d ws r. P d \<longrightarrow> m d = (ws, r) \<longrightarrow>
        list_all I ws \<and> (\<forall>x. r = Inr x \<longrightarrow> Q x (last (d # ws))))"

named_theorems result_rules "one rule per construct of a results program"

lemma last_append_cons: "last (d # ws @ vs) = last (last (d # ws) # vs)"
  by (cases "vs = []") simp_all

lemma r_triple_bind [result_rules]:
  assumes "r_triple I P m Q" "\<And>x. r_triple I (Q x) (f x) S"
  shows "r_triple I P (r_bind m f) S"
proof (unfold r_triple_def, intro allI impI)
  fix d us t
  assume P: "P d" and run: "r_bind m f d = (us, t)"
  obtain ws r where m: "m d = (ws, r)" by (cases "m d")
  have ws: "list_all I ws" "\<And>x. r = Inr x \<Longrightarrow> Q x (last (d # ws))"
    using assms(1) P m unfolding r_triple_def by blast+
  show "list_all I us \<and> (\<forall>x. t = Inr x \<longrightarrow> S x (last (d # us)))"
  proof (cases r)
    case (Inl u)
    with ws(1) run m show ?thesis by (auto simp: r_bind_def)
  next
    case (Inr x)
    obtain vs s where f: "f x (last (d # ws)) = (vs, s)" by (cases "f x (last (d # ws))")
    have "list_all I vs" "\<And>y. s = Inr y \<Longrightarrow> S y (last (last (d # ws) # vs))"
      using assms(2) ws(2) [OF Inr] f unfolding r_triple_def by blast+
    moreover have "us = ws @ vs" "t = s"
      using run m Inr f by (simp_all add: r_bind_def Let_def del: last.simps)
    ultimately show ?thesis using ws(1) by (simp only: list_all_append last_append_cons) blast
  qed
qed

lemma r_triple_return [result_rules]: "(\<And>d. P d \<Longrightarrow> Q x d) \<Longrightarrow> r_triple I P (r_return x) Q"
  by (simp add: r_triple_def r_return_def)

lemma r_triple_read [result_rules]:
  "(\<And>d x. P d \<Longrightarrow> f d = Inr x \<Longrightarrow> Q x d) \<Longrightarrow> r_triple I P (r_read f) Q"
  by (auto simp: r_triple_def r_read_def map_err_def split: sum.splits)

lemma r_triple_check [result_rules]:
  "(\<And>d. P d \<Longrightarrow> b d \<Longrightarrow> Q () d) \<Longrightarrow> r_triple I P (r_check b) Q"
  unfolding r_check_def by (rule r_triple_read) (simp add: res_simps)

lemma r_triple_write [result_rules]:
  "(\<And>d. P d \<Longrightarrow> I (f d) \<and> Q () (f d)) \<Longrightarrow> r_triple I P (r_write f) Q"
  by (simp add: r_triple_def r_write_def)

lemma r_triple_if [result_rules]:
  assumes "r_triple I (\<lambda>d. P d \<and> b d) m Q" "r_triple I (\<lambda>d. P d \<and> \<not> b d) n Q"
  shows "r_triple I P (r_if b m n) Q"
  unfolding r_triple_def
proof (intro allI impI)
  fix d ws r
  assume "P d" "r_if b m n d = (ws, r)"
  then show "list_all I ws \<and> (\<forall>x. r = Inr x \<longrightarrow> Q x (last (d # ws)))"
    using assms unfolding r_triple_def by (cases "b d") (simp_all add: r_if_def)
qed

lemma r_triple_when [result_rules]:
  assumes "r_triple I (\<lambda>d. P d \<and> b d) m Q" "\<And>d. P d \<Longrightarrow> \<not> b d \<Longrightarrow> Q () d"
  shows "r_triple I P (r_when b m) Q"
  unfolding r_when_def using assms by (intro r_triple_if r_triple_return) simp_all

lemma r_triple_weaken:
  assumes "r_triple I P' m Q'" "\<And>d. P d \<Longrightarrow> P' d" "\<And>x d. Q' x d \<Longrightarrow> Q x d"
  shows "r_triple I P m Q"
  using assms unfolding r_triple_def by blast

lemma run_results_triple:
  assumes "r_triple I P m Q" "P d" "I d" "run_results m n d = (d', reply)"
  shows "I d'" "\<And>x. reply = Some x \<Longrightarrow> Q x d'"
proof -
  obtain ws r where m: "m d = (ws, r)" by (cases "m d")
  have ws: "list_all I ws" "\<And>x. r = Inr x \<Longrightarrow> Q x (last (d # ws))"
    using assms(1,2) m unfolding r_triple_def by blast+
  have all: "I (last (d # take k ws))" for k
  proof -
    have "set (d # take k ws) \<subseteq> set (d # ws)" using set_take_subset [of k ws] by auto
    then have "last (d # take k ws) \<in> set (d # ws)"
      using last_in_set [of "d # take k ws"] by blast
    then show ?thesis using ws(1) assms(3) by (auto simp: list_all_iff)
  qed
  have run: "(d', reply) = (if n < length ws then (last (d # take n ws), None) else (last (d # ws), ok r))"
    using assms(4) m by (simp add: run_results_def del: last.simps)
  show "I d'" using run all [of n] all [of "length ws"] by (simp del: last.simps split: if_splits)
  show "Q x d'" if "reply = Some x" for x
  proof -
    have "\<not> n < length ws" using that run by (auto simp del: last.simps)
    then have "d' = last (d # ws)" "ok r = Some x" using that run by (simp_all del: last.simps)
    then show ?thesis using ws(2) by (simp only: ok_eq_Some)
  qed
qed

section \<open>The results directory\<close>

text \<open>The sealed copy is the archive of the bundle, and a state that gives it up names the one proof
  of its receipt.\<close>

definition intact :: "'f hashing \<Rightarrow> result_bundle \<Rightarrow> results_dir \<Rightarrow> bool" where
  "intact H b d \<longleftrightarrow>
     (case rd_archive d of
        Some (bytes, sealed) \<Rightarrow> sealed \<and> sha_hex H bytes = ar_sha (bd_archive b) \<and>
          length bytes = ar_bytes (bd_archive b)
      | None \<Rightarrow> False)"

definition proven :: "publication \<Rightarrow> bool" where
  "proven st \<longleftrightarrow> (\<exists>ack. pb_ack st = Some ack \<and> ak_proof ack = proof_of (bd_archive (pb_bundle st)))"

definition state_ok :: "'f hashing \<Rightarrow> rfc3339 \<Rightarrow> publication \<Rightarrow> bool" where
  "state_ok H R st \<longleftrightarrow> validate_publication H R st = Inr () \<and> (pb_ack st \<noteq> None \<longrightarrow> proven st)"

definition dir_ok :: "'f hashing \<Rightarrow> rfc3339 \<Rightarrow> results_dir \<Rightarrow> bool" where
  "dir_ok H R d \<longleftrightarrow>
     rd_bundle d \<noteq> Malformed \<and> rd_state d \<noteq> Malformed \<and>
     (\<forall>st. rd_state d = Holds st \<longrightarrow> rd_bundle d = Holds (pb_bundle st) \<and> state_ok H R st \<and>
        (rt_status (pb_retention st) = Released \<longrightarrow> rd_archive d = None)) \<and>
     (\<forall>b. rd_bundle d = Holds b \<longrightarrow> intact H b d \<or>
        (\<exists>st. rd_state d = Holds st \<and> rt_status (pb_retention st) \<in> {Releasing, Released} \<and> proven st))"

text \<open>How a directory relates to the one an operation started from: the published bundle stays, a
  state has only advanced, and only an operation that may release has begun a release.\<close>

definition kept :: "'f hashing \<Rightarrow> rfc3339 \<Rightarrow> bool \<Rightarrow> results_dir \<Rightarrow> results_dir \<Rightarrow> bool" where
  "kept H R rel d0 d \<longleftrightarrow>
     dir_ok H R d \<and>
     (\<forall>b. rd_bundle d0 = Holds b \<longrightarrow> rd_bundle d = Holds b) \<and>
     (\<forall>w. rd_state d0 = Holds w \<longrightarrow>
        (\<exists>w'. rd_state d = Holds w' \<and> validate_successor H R w w' = Inr ())) \<and>
     (\<forall>w'. rd_state d = Holds w' \<longrightarrow> rt_status (pb_retention w') \<noteq> Keep \<longrightarrow>
        rel \<or> (\<exists>w. rd_state d0 = Holds w \<and> rt_status (pb_retention w) \<noteq> Keep))"

lemma dir_okD:
  assumes "dir_ok H R d" "rd_state d = Holds st"
  shows "rd_bundle d = Holds (pb_bundle st)" "state_ok H R st" "validate_publication H R st = Inr ()"
    "rt_status (pb_retention st) = Released \<Longrightarrow> rd_archive d = None"
  using assms by (auto simp: dir_ok_def state_ok_def)

lemma kept_refl:
  assumes "dir_ok H R d"
  shows "kept H R rel d d"
  using assms dir_okD(3) [OF assms] by (auto simp: kept_def intro: successor_refl)

lemma kept_dir: "kept H R rel d0 d \<Longrightarrow> dir_ok H R d"
  by (simp add: kept_def)

text \<open>A state is saved over the one it succeeds, while the copy is there or its release has begun.\<close>

lemma kept_save:
  assumes "kept H R rel d0 d" "rd_state d = Holds st" "validate_successor H R st st' = Inr ()"
    and "pb_ack st' \<noteq> None \<longrightarrow> proven st'"
    and "rt_status (pb_retention st') = Keep \<or> rt_status (pb_retention st) \<noteq> Keep \<or> rel"
    and "rt_status (pb_retention st') = Released \<longrightarrow> rd_archive d = None"
  shows "kept H R rel d0 (d\<lparr>rd_state := Holds st'\<rparr>)"
proof -
  have d: "rd_bundle d = Holds (pb_bundle st)" "dir_ok H R d"
    using dir_okD(1) [OF kept_dir [OF assms(1)] assms(2)] kept_dir [OF assms(1)] by blast+
  have v: "validate_publication H R st' = Inr ()" "pb_bundle st' = pb_bundle st"
      "retention_rank (rt_status (pb_retention st)) \<le> retention_rank (rt_status (pb_retention st'))"
      "validate_publication H R st = Inr ()"
    using assms(3) by (auto simp: validate_successor_iff)
  have "intact H (pb_bundle st) d \<or> rt_status (pb_retention st') \<in> {Releasing, Released} \<and> proven st'"
  proof -
    have "intact H (pb_bundle st) d \<or> rt_status (pb_retention st) \<in> {Releasing, Released}"
      using d assms(2) by (auto simp: dir_ok_def)
    moreover have "rt_status (pb_retention st') \<in> {Releasing, Released}"
      if "rt_status (pb_retention st) \<in> {Releasing, Released}"
      using that v(3) by (cases "rt_status (pb_retention st')") auto
    moreover have "proven st'" if "rt_status (pb_retention st') \<in> {Releasing, Released}"
      using that v(1) assms(4) by (auto simp: validate_publication_iff split: option.splits)
    ultimately show ?thesis by blast
  qed
  then have "dir_ok H R (d\<lparr>rd_state := Holds st'\<rparr>)"
    using d v(1,2) assms(4,6) by (auto simp: dir_ok_def state_ok_def intact_def)
  moreover have "\<exists>w'. rd_state (d\<lparr>rd_state := Holds st'\<rparr>) = Holds w' \<and> validate_successor H R w w' = Inr ()"
    if "rd_state d0 = Holds w" for w
    using assms(1-3) that successor_trans by (fastforce simp: kept_def)
  moreover have "rel \<or> (\<exists>w. rd_state d0 = Holds w \<and> rt_status (pb_retention w) \<noteq> Keep)"
    if "rt_status (pb_retention st') \<noteq> Keep"
    using that assms(1,2,5) by (auto simp: kept_def)
  ultimately show ?thesis using assms(1) by (auto simp: kept_def)
qed

text \<open>The copy goes only while the saved state is releasing.\<close>

lemma kept_remove:
  assumes "kept H R rel d0 d" "rd_state d = Holds st"
    and "rt_status (pb_retention st) \<in> {Releasing, Released}"
  shows "kept H R rel d0 (d\<lparr>rd_archive := None\<rparr>)"
proof -
  have "pb_ack st \<noteq> None"
    using assms(3) dir_okD(3) [OF kept_dir [OF assms(1)] assms(2)]
    by (auto simp: validate_publication_iff split: option.splits)
  then have "proven st"
    using dir_okD(2) [OF kept_dir [OF assms(1)] assms(2)] by (simp add: state_ok_def)
  then show ?thesis using assms by (auto simp: kept_def dir_ok_def)
qed

text \<open>Before a bundle is published everything but its publication is free.\<close>

lemma kept_unpublished:
  assumes "kept H R rel d0 d" "rd_bundle d = Absent"
  shows "kept H R rel d0 (d\<lparr>rd_archive := a\<rparr>)" "kept H R rel d0 (d\<lparr>rd_owner := o'\<rparr>)"
  using assms by (auto simp: kept_def dir_ok_def)

lemma kept_owner: "kept H R rel d0 d \<Longrightarrow> kept H R rel d0 (d\<lparr>rd_owner := o'\<rparr>)"
  by (auto simp: kept_def dir_ok_def intact_def)

lemma kept_publish:
  assumes "kept H R rel d0 d" "rd_bundle d = Absent" "intact H b d"
  shows "kept H R rel d0 (d\<lparr>rd_bundle := Holds b\<rparr>)"
  using assms by (auto simp: kept_def dir_ok_def intact_def)

lemma kept_first_state:
  assumes "kept H R rel d0 d" "rd_bundle d = Holds b" "rd_state d = Absent"
    and "new_publication H b = Inr st"
  shows "kept H R rel d0 (d\<lparr>rd_state := Holds st\<rparr>)"
proof -
  have "state_ok H R st" "pb_bundle st = b" "rt_status (pb_retention st) = Keep"
    using assms(4) new_publication_valid [OF assms(4), of R]
    by (auto simp: state_ok_def new_publication_def res_simps)
  moreover have "intact H b d" using assms(1-3) by (auto simp: kept_def dir_ok_def)
  ultimately show ?thesis using assms(1-3) by (auto simp: kept_def dir_ok_def intact_def)
qed

definition packing_ok :: "'f hashing \<Rightarrow> results_env \<Rightarrow> bool" where
  "packing_ok H e \<longleftrightarrow>
     (\<forall>k. ev_packed e = Inr k \<longrightarrow> pk_sha k = sha_hex H (pk_archive k) \<and> pk_bytes k = length (pk_archive k))"

lemma claim_kept:
  "r_triple (kept H R rel d0) (kept H R rel d0) (claim_directory digest collect) (\<lambda>_. kept H R rel d0)"
  unfolding claim_directory_def by (intro result_rules) (auto simp: kept_owner)

lemma pack_kept:
  assumes "packing_ok H e"
  shows "r_triple (kept H R rel d0) (\<lambda>d. kept H R rel d0 d \<and> rd_bundle d = Absent \<and> rd_state d = Absent)
    (pack_bundle H e i digest) (\<lambda>b d. kept H R rel d0 d \<and> rd_bundle d = Holds b \<and> rd_state d = Absent)"
  unfolding pack_bundle_def
proof (intro r_triple_bind)
  show "r_triple (kept H R rel d0) (\<lambda>d. kept H R rel d0 d \<and> rd_bundle d = Absent \<and> rd_state d = Absent)
    (r_when (\<lambda>d. rd_archive d \<noteq> None) (r_write (\<lambda>d. d\<lparr>rd_archive := None\<rparr>)))
    (\<lambda>_ d. kept H R rel d0 d \<and> rd_bundle d = Absent \<and> rd_state d = Absent)"
    by (intro result_rules) (auto simp: kept_unpublished)
  show "r_triple (kept H R rel d0) (\<lambda>d. kept H R rel d0 d \<and> rd_bundle d = Absent \<and> rd_state d = Absent)
    (r_check (\<lambda>_. ev_policy e \<noteq> None \<and> ev_room e)) (\<lambda>_ d. kept H R rel d0 d \<and> rd_bundle d = Absent \<and> rd_state d = Absent)"
    by (intro result_rules) auto
  show "r_triple (kept H R rel d0) (\<lambda>d. kept H R rel d0 d \<and> rd_bundle d = Absent \<and> rd_state d = Absent)
    (r_write (\<lambda>d. d\<lparr>rd_archive := Some (ev_partial e, False)\<rparr>))
    (\<lambda>_ d. kept H R rel d0 d \<and> rd_bundle d = Absent \<and> rd_state d = Absent)"
    by (intro result_rules) (auto simp: kept_unpublished)
  show "r_triple (kept H R rel d0) (\<lambda>d. kept H R rel d0 d \<and> rd_bundle d = Absent \<and> rd_state d = Absent)
    (case ev_packed e of
       Inl _ \<Rightarrow> r_bind (r_write (\<lambda>d. d\<lparr>rd_archive := None\<rparr>)) (\<lambda>_. r_read (\<lambda>_. Inl ResultsUnavailable))
     | Inr k \<Rightarrow>
         r_bind (r_write (\<lambda>d. d\<lparr>rd_archive := Some (pk_archive k, False)\<rparr>)) (\<lambda>_.
         r_bind (r_write (\<lambda>d. d\<lparr>rd_archive := Some (pk_archive k, True)\<rparr>)) (\<lambda>_.
         let b = packed_bundle i digest (ev_config e) k in
         r_bind (r_read (\<lambda>_. validate_bundle H b)) (\<lambda>_.
         r_bind (r_write (\<lambda>d. d\<lparr>rd_bundle := Holds b\<rparr>)) (\<lambda>_. r_return b)))))
    (\<lambda>b d. kept H R rel d0 d \<and> rd_bundle d = Holds b \<and> rd_state d = Absent)"
  proof (cases "ev_packed e")
    case (Inl u)
    then show ?thesis
      unfolding Inl sum.case
      by (intro result_rules [where Q = "\<lambda>_ d. kept H R rel d0 d \<and> rd_bundle d = Absent \<and> rd_state d = Absent"])
        (auto simp: kept_unpublished intro: r_triple_read)
  next
    case (Inr k)
    let ?b = "packed_bundle i digest (ev_config e) k"
    have whole: "intact H ?b (d\<lparr>rd_archive := Some (pk_archive k, True)\<rparr>)" for d
      using assms Inr by (simp add: packing_ok_def intact_def packed_bundle_def)
    show ?thesis
      unfolding Inr sum.case Let_def
    proof (intro r_triple_bind)
      show "r_triple (kept H R rel d0) (\<lambda>d. kept H R rel d0 d \<and> rd_bundle d = Absent \<and> rd_state d = Absent)
        (r_write (\<lambda>d. d\<lparr>rd_archive := Some (pk_archive k, False)\<rparr>))
        (\<lambda>_ d. kept H R rel d0 d \<and> rd_bundle d = Absent \<and> rd_state d = Absent)"
        by (intro result_rules) (auto simp: kept_unpublished)
      show "r_triple (kept H R rel d0) (\<lambda>d. kept H R rel d0 d \<and> rd_bundle d = Absent \<and> rd_state d = Absent)
        (r_write (\<lambda>d. d\<lparr>rd_archive := Some (pk_archive k, True)\<rparr>))
        (\<lambda>_ d. kept H R rel d0 d \<and> rd_bundle d = Absent \<and> rd_state d = Absent \<and> intact H ?b d)"
        by (intro result_rules) (auto simp: kept_unpublished whole)
      show "r_triple (kept H R rel d0) (\<lambda>d. kept H R rel d0 d \<and> rd_bundle d = Absent \<and> rd_state d = Absent \<and> intact H ?b d)
        (r_read (\<lambda>_. validate_bundle H ?b))
        (\<lambda>_ d. kept H R rel d0 d \<and> rd_bundle d = Absent \<and> rd_state d = Absent \<and> intact H ?b d)"
        by (intro result_rules) auto
      show "r_triple (kept H R rel d0) (\<lambda>d. kept H R rel d0 d \<and> rd_bundle d = Absent \<and> rd_state d = Absent \<and> intact H ?b d)
        (r_write (\<lambda>d. d\<lparr>rd_bundle := Holds ?b\<rparr>))
        (\<lambda>_ d. kept H R rel d0 d \<and> rd_bundle d = Holds ?b \<and> rd_state d = Absent)"
        by (intro result_rules) (auto simp: kept_publish)
    qed (intro result_rules)
  qed
qed

lemma publish_kept:
  assumes "packing_ok H e"
  shows "r_triple (kept H R rel d0) (kept H R rel d0) (publish_results H e i digest collect)
    (\<lambda>_. kept H R rel d0)"
  unfolding publish_results_def
proof (rule r_triple_if)
  show "r_triple (kept H R rel d0) (\<lambda>d. kept H R rel d0 d \<and> rd_state d \<noteq> Absent) (r_return ())
      (\<lambda>_. kept H R rel d0)"
    by (intro result_rules) auto
  let ?P = "\<lambda>d. kept H R rel d0 d \<and> \<not> rd_state d \<noteq> Absent"
  let ?Q = "\<lambda>b d. kept H R rel d0 d \<and> rd_bundle d = Holds b \<and> rd_state d = Absent"
  show "r_triple (kept H R rel d0) ?P
     (r_bind (r_check (\<lambda>_. collect)) (\<lambda>_.
      r_bind (r_if (\<lambda>d. rd_bundle d \<noteq> Absent) (r_read (read_bundle H)) (pack_bundle H e i digest)) (\<lambda>b.
      r_bind (r_read (\<lambda>_. new_publication H b)) (\<lambda>st.
      r_write (\<lambda>d. d\<lparr>rd_state := Holds st\<rparr>))))) (\<lambda>_. kept H R rel d0)"
  proof (intro r_triple_bind)
    show "r_triple (kept H R rel d0) ?P (r_check (\<lambda>_. collect)) (\<lambda>_. ?P)"
      by (intro result_rules) auto
    show "r_triple (kept H R rel d0) ?P
      (r_if (\<lambda>d. rd_bundle d \<noteq> Absent) (r_read (read_bundle H)) (pack_bundle H e i digest)) ?Q"
    proof (rule r_triple_if)
      show "r_triple (kept H R rel d0) (\<lambda>d. ?P d \<and> rd_bundle d \<noteq> Absent) (r_read (read_bundle H)) ?Q"
        by (intro result_rules) (auto simp: read_bundle_def split: slot.splits if_splits)
      show "r_triple (kept H R rel d0) (\<lambda>d. ?P d \<and> \<not> rd_bundle d \<noteq> Absent) (pack_bundle H e i digest) ?Q"
        by (rule r_triple_weaken [OF pack_kept [OF assms]]) auto
    qed
    show "r_triple (kept H R rel d0) (?Q b) (r_read (\<lambda>_. new_publication H b))
      (\<lambda>st d. ?Q b d \<and> new_publication H b = Inr st)" for b
      by (intro result_rules) auto
    show "r_triple (kept H R rel d0) (\<lambda>d. ?Q b d \<and> new_publication H b = Inr st)
      (r_write (\<lambda>d. d\<lparr>rd_state := Holds st\<rparr>)) (\<lambda>_. kept H R rel d0)" for b st
      by (intro result_rules) (auto simp: kept_first_state)
  qed
qed

lemma bind_without_config: "bind_bundle H b i (Some c) = Inr () \<Longrightarrow> bind_bundle H b i None = Inr ()"
  by (auto simp: bind_bundle_def res_simps split: if_splits)

lemma read_state_kept:
  "kept H R rel d0 d \<Longrightarrow> read_results H R d = Inr st \<Longrightarrow> rd_state d = Holds st"
  by (auto simp: read_results_def res_simps split: slot.splits if_splits)

text \<open>The answer of an operation is the state on disk, bound to its intent.\<close>

definition answer_ok :: "'f hashing \<Rightarrow> rfc3339 \<Rightarrow> bool \<Rightarrow> results_dir \<Rightarrow> frozen_intent \<Rightarrow> publication \<Rightarrow> results_dir \<Rightarrow> bool" where
  "answer_ok H R rel d0 i st d \<longleftrightarrow>
     kept H R rel d0 d \<and> rd_state d = Holds st \<and> bind_bundle H (pb_bundle st) i None = Inr ()"

lemma result_state_kept:
  assumes "packing_ok H e"
  shows "r_triple (kept H R rel d0) (kept H R rel d0) (result_state H R e i collect)
    (answer_ok H R rel d0 i)"
proof -
  let ?K = "kept H R rel d0"
  let ?S = "\<lambda>st d. ?K d \<and> rd_state d = Holds st"
  show ?thesis
    unfolding result_state_def
  proof (intro r_triple_bind)
    show "r_triple ?K ?K (r_check (\<lambda>_. ev_found e)) (\<lambda>_. ?K)" by (intro result_rules)
    show "r_triple ?K ?K (r_read (\<lambda>_. intent_digest H i)) (\<lambda>_. ?K)" by (intro result_rules)
    show "r_triple ?K ?K (claim_directory digest collect) (\<lambda>_. ?K)" for digest by (rule claim_kept)
    show "r_triple ?K ?K (publish_results H e i digest collect) (\<lambda>_. ?K)" for digest
      by (rule publish_kept [OF assms])
    show "r_triple ?K ?K (r_read (read_results H R)) ?S"
      by (intro result_rules) (auto simp: read_state_kept)
    show "r_triple ?K (?S st) (r_read (\<lambda>_. bind_bundle H (pb_bundle st) i (Some (ev_config e))))
      (\<lambda>_. answer_ok H R rel d0 i st)" for st
      by (intro result_rules) (auto simp: answer_ok_def intro: bind_without_config)
    show "r_triple ?K (answer_ok H R rel d0 i st) (r_check (\<lambda>_. ev_issued e)) (\<lambda>_. answer_ok H R rel d0 i st)"
      for st by (intro result_rules)
    show "r_triple ?K (answer_ok H R rel d0 i st) (r_return st) (answer_ok H R rel d0 i)" for st
      by (intro result_rules)
  qed
qed

lemma save_kept:
  assumes "validate_successor H R st st' = Inr ()" "pb_ack st' \<noteq> None \<longrightarrow> proven st'"
    and "rt_status (pb_retention st') = Keep \<or> rt_status (pb_retention st) \<noteq> Keep \<or> rel"
    and "\<And>d. P d \<Longrightarrow> answer_ok H R rel d0 i st d \<and>
      (rt_status (pb_retention st') = Released \<longrightarrow> rd_archive d = None)"
  shows "r_triple (kept H R rel d0) P (save_state H R st') (\<lambda>_. answer_ok H R rel d0 i st')"
  unfolding save_state_def
proof (intro r_triple_bind)
  show "r_triple (kept H R rel d0) P (r_read (\<lambda>_. validate_publication H R st')) (\<lambda>_. P)"
    by (intro result_rules)
  have "pb_bundle st' = pb_bundle st" using assms(1) by (simp add: validate_successor_iff)
  then show "r_triple (kept H R rel d0) P (r_write (\<lambda>d. d\<lparr>rd_state := Holds st'\<rparr>))
      (\<lambda>_. answer_ok H R rel d0 i st')"
    using kept_save [OF _ _ assms(1-3)] assms(4) by (intro result_rules) (simp add: answer_ok_def)
qed

lemma begin_releasing:
  assumes "begin_release H R r t = Inr t'" "rt_status t \<in> {Scheduled, Releasing}"
  shows "rt_status t' = Releasing"
  using assms by (auto simp: begin_release_def res_simps)

lemma release_kept:
  assumes "rt_status (pb_retention st) \<in> {Scheduled, Releasing}" "proven st"
  shows "r_triple (kept H R rel d0) (answer_ok H R rel d0 i st) (release_copy H R st verified_at)
    (\<lambda>st' d. answer_ok H R rel d0 i st' d \<and> rt_status (pb_retention st') = Released)"
proof -
  let ?K = "kept H R rel d0"
  let ?A = "answer_ok H R rel d0 i"
  let ?r = "bd_archive (pb_bundle st)"
  let ?s = "\<lambda>t. st\<lparr>pb_retention := t\<rparr>"
  let ?next = "\<lambda>old t. validate_successor H R old (?s t) = Inr ()"
  have valid: "?A old d \<Longrightarrow> validate_publication H R old = Inr ()" for old d
    using dir_okD(3) [OF kept_dir] unfolding answer_ok_def by blast
  have proven: "proven (?s t)" for t using assms(2) by (simp add: proven_def)
  show ?thesis
    unfolding release_copy_def Let_def
  proof (intro r_triple_bind)
    show "r_triple ?K (?A st) (r_read (\<lambda>_. begin_release H R ?r (pb_retention st)))
      (\<lambda>t d. ?A st d \<and> ?next st t \<and> rt_status t = Releasing)"
      using begin_release_successor valid begin_releasing assms(1) by (intro result_rules) blast
    show "r_triple ?K (\<lambda>d. ?A st d \<and> ?next st t \<and> rt_status t = Releasing)
      (save_state H R (?s t)) (\<lambda>_ d. ?A (?s t) d \<and> rt_status t = Releasing)" for t
    proof (cases "?next st t \<and> rt_status t = Releasing")
      case True
      then have "r_triple ?K (\<lambda>d. ?A st d \<and> ?next st t \<and> rt_status t = Releasing) (save_state H R (?s t))
          (\<lambda>_. ?A (?s t))"
        using assms(1) proven by (intro save_kept) auto
      then show ?thesis using True by (auto intro: r_triple_weaken)
    qed (auto simp: r_triple_def)
    show "r_triple ?K (\<lambda>d. ?A (?s t) d \<and> rt_status t = Releasing)
      (r_check (\<lambda>d. case rd_archive d of
          None \<Rightarrow> True | Some (bytes, sealed) \<Rightarrow> sealed \<and> length bytes = ar_bytes ?r))
      (\<lambda>_ d. ?A (?s t) d \<and> rt_status t = Releasing)" for t
      by (intro result_rules)
    show "r_triple ?K (\<lambda>d. ?A (?s t) d \<and> rt_status t = Releasing)
      (r_when (\<lambda>d. rd_archive d \<noteq> None) (r_write (\<lambda>d. d\<lparr>rd_archive := None\<rparr>)))
      (\<lambda>_ d. ?A (?s t) d \<and> rt_status t = Releasing \<and> rd_archive d = None)" for t
      using kept_remove [of H R rel d0 _ "?s t"] by (intro result_rules)
        (simp_all add: answer_ok_def del: not_None_eq)
    show "r_triple ?K (\<lambda>d. ?A (?s t) d \<and> rt_status t = Releasing \<and> rd_archive d = None)
      (r_read (\<lambda>_. finish_release H R ?r (pb_retention (?s t)) verified_at))
      (\<lambda>u d. ?A (?s t) d \<and> rt_status t = Releasing \<and> rd_archive d = None \<and>
         ?next (?s t) u \<and> rt_status u = Released)" for t
      using finish_release_successor [of H R "?s t" verified_at] valid
      by (intro result_rules) auto
    show "r_triple ?K (\<lambda>d. ?A (?s t) d \<and> rt_status t = Releasing \<and> rd_archive d = None \<and>
         ?next (?s t) u \<and> rt_status u = Released)
      (save_state H R (st\<lparr>pb_retention := t, pb_retention := u\<rparr>))
      (\<lambda>_ d. ?A (?s u) d \<and> rt_status u = Released)" for t u
    proof (cases "?next (?s t) u \<and> rt_status t = Releasing \<and> rt_status u = Released")
      case True
      then have "r_triple ?K (\<lambda>d. ?A (?s t) d \<and> rt_status t = Releasing \<and> rd_archive d = None \<and>
         ?next (?s t) u \<and> rt_status u = Released) (save_state H R (?s u)) (\<lambda>_. ?A (?s u))"
        using proven by (intro save_kept [of H R "?s t"]) auto
      then show ?thesis using True by (auto intro: r_triple_weaken)
    qed (auto simp: r_triple_def)
    show "r_triple ?K (\<lambda>d. ?A (?s u) d \<and> rt_status u = Released)
      (r_return (st\<lparr>pb_retention := t, pb_retention := u\<rparr>))
      (\<lambda>st' d. ?A st' d \<and> rt_status (pb_retention st') = Released)" for t u
      by (intro result_rules) simp
  qed
qed

lemma acknowledged_proven:
  assumes "acknowledge H R st p at rel = Inr st'" "state_ok H R st" "key_order (pf_files p)"
  shows "pb_ack st' \<noteq> None \<and> proven st'"
proof -
  have "proof_matches H (bd_archive (pb_bundle st)) p = Inr ()"
    using assms(1) by (auto simp: acknowledge_def acknowledge_receipt_def res_simps)
  then have "p = proof_of (bd_archive (pb_bundle st))"
    using assms(3) by (simp add: proof_matches_iff)
  then show ?thesis
    using assms(1,2)
    by (auto simp: acknowledge_def acknowledge_receipt_def res_simps proven_def state_ok_def Let_def
        split: option.splits if_splits)
qed

lemma acknowledged_status:
  assumes "acknowledge H R st p at rel = Inr st'"
  shows "rt_status (pb_retention st') = Keep \<or> rt_status (pb_retention st) \<noteq> Keep \<or> rel"
    "rel \<Longrightarrow> rt_status (pb_retention st') \<noteq> Keep"
    "rt_status (pb_retention st') = Released \<Longrightarrow> st' = st"
  using assms
  by (auto simp: acknowledge_def acknowledge_receipt_def validate_publication_iff res_simps Let_def
      split: option.splits if_splits)

fun releases :: "artifact_command \<Rightarrow> bool" where
  "releases (Acknowledge p verified_at release) = release"
| "releases _ = False"

fun command_ok :: "artifact_command \<Rightarrow> bool" where
  "command_ok (Acknowledge p verified_at release) = key_order (pf_files p)"
| "command_ok _ = True"

lemma operation_kept:
  assumes "packing_ok H e" "command_ok command"
  shows "r_triple (kept H R (releases command) d0) (kept H R (releases command) d0)
    (artifact_operation H R e i command)
    (\<lambda>st d. answer_ok H R (releases command) d0 i st d \<and>
       (releases command \<longrightarrow> rt_status (pb_retention st) = Released))"
proof -
  let ?K = "kept H R (releases command) d0"
  let ?A = "answer_ok H R (releases command) d0 i"
  let ?Q = "\<lambda>st d. ?A st d \<and> (releases command \<longrightarrow> rt_status (pb_retention st) = Released)"
  show ?thesis
    unfolding artifact_operation_def
  proof (intro r_triple_bind)
    show "r_triple ?K ?K (result_state H R e i (command = Collect)) ?A"
      by (rule result_state_kept [OF assms(1)])
    show "r_triple ?K (?A st) (r_check (\<lambda>_. \<not> ev_cancelled e)) (\<lambda>_. ?A st)" for st
      by (intro result_rules)
    show "r_triple ?K (?A st)
      (case command of
         Collect \<Rightarrow> r_return st
       | Download sha \<Rightarrow> r_read (\<lambda>_. Inl ResultsUnavailable)
       | Acknowledge p verified_at release \<Rightarrow>
           r_bind (r_read (\<lambda>_. acknowledge H R st p verified_at release)) (\<lambda>st.
           r_bind (save_state H R st) (\<lambda>_.
           if rt_status (pb_retention st) \<in> {Scheduled, Releasing}
           then release_copy H R st verified_at else r_return st))) ?Q" for st
    proof (cases command)
      case Collect
      then show ?thesis unfolding Collect artifact_command.case by (intro result_rules) simp
    next
      case (Download sha)
      then show ?thesis unfolding Download artifact_command.case by (intro result_rules) simp
    next
      case (Acknowledge p at release)
      let ?ack = "\<lambda>st'. acknowledge H R st p at release = Inr st'"
      show ?thesis
        unfolding Acknowledge artifact_command.case
      proof (intro r_triple_bind)
        show "r_triple (kept H R (releases (Acknowledge p at release)) d0)
          (answer_ok H R (releases (Acknowledge p at release)) d0 i st)
          (r_read (\<lambda>_. acknowledge H R st p at release))
          (\<lambda>st' d. ?A st d \<and> ?ack st')"
          unfolding Acknowledge by (intro result_rules) simp
        show "r_triple (kept H R (releases (Acknowledge p at release)) d0) (\<lambda>d. ?A st d \<and> ?ack st')
          (save_state H R st') (\<lambda>_ d. ?A st' d \<and> ?ack st' \<and> proven st')" for st'
        proof (cases "?ack st' \<and> state_ok H R st")
          case True
          have "rd_archive d = None" if "?A st d" "rt_status (pb_retention st') = Released" for d
          proof -
            have "st' = st" using acknowledged_status(3) True that(2) by blast
            then show ?thesis
              using that kept_dir unfolding answer_ok_def by (metis dir_okD(4))
          qed
          then have "r_triple ?K (?A st) (save_state H R st') (\<lambda>_. ?A st')"
            using acknowledge_successor acknowledged_proven acknowledged_status(1) True assms(2) Acknowledge
            by (intro save_kept) fastforce+
          then show ?thesis
            using acknowledged_proven True assms(2) Acknowledge unfolding r_triple_def by fastforce
        next
          case False
          have "?A st d \<Longrightarrow> state_ok H R st" for d
            using dir_okD(2) [OF kept_dir] unfolding answer_ok_def by blast
          then show ?thesis using False unfolding r_triple_def by blast
        qed
        show "r_triple (kept H R (releases (Acknowledge p at release)) d0)
          (\<lambda>d. ?A st' d \<and> ?ack st' \<and> proven st')
          (if rt_status (pb_retention st') \<in> {Scheduled, Releasing}
           then release_copy H R st' at else r_return st')
          (\<lambda>st d. answer_ok H R (releases (Acknowledge p at release)) d0 i st d \<and>
             (releases (Acknowledge p at release) \<longrightarrow> rt_status (pb_retention st) = Released))" for st'
        proof (cases "rt_status (pb_retention st') \<in> {Scheduled, Releasing} \<and> proven st'")
          case True
          then have in_set: "rt_status (pb_retention st') \<in> {Scheduled, Releasing}" by blast
          have "r_triple (kept H R (releases (Acknowledge p at release)) d0)
            (answer_ok H R (releases (Acknowledge p at release)) d0 i st') (release_copy H R st' at)
            (\<lambda>st d. answer_ok H R (releases (Acknowledge p at release)) d0 i st d \<and>
               rt_status (pb_retention st) = Released)"
            by (rule release_kept) (use True in blast)+
          then show ?thesis
            unfolding if_P [OF in_set] by (rule r_triple_weaken) (simp_all add: Acknowledge)
        next
          case False
          have "release \<Longrightarrow> ?ack st' \<Longrightarrow> rt_status (pb_retention st') \<noteq> Keep"
            using acknowledged_status(2) by blast
          then have over: "release \<Longrightarrow> ?ack st' \<Longrightarrow> proven st' \<Longrightarrow> rt_status (pb_retention st') = Released"
            using False by (cases "rt_status (pb_retention st')") auto
          show ?thesis
          proof (cases "rt_status (pb_retention st') \<in> {Scheduled, Releasing}")
            case True
            then have "\<not> proven st'" using False by blast
            then show ?thesis unfolding r_triple_def by blast
          next
            case False
            show ?thesis
              unfolding if_not_P [OF False]
            proof (rule r_triple_return)
              fix d
              assume "?A st' d \<and> ?ack st' \<and> proven st'"
              then show "answer_ok H R (releases (Acknowledge p at release)) d0 i st' d \<and>
                  (releases (Acknowledge p at release) \<longrightarrow> rt_status (pb_retention st') = Released)"
                using over unfolding Acknowledge by (cases release) simp_all
            qed
          qed
        qed
      qed
    qed
  qed
qed

section \<open>The whole exchange\<close>

text \<open>The server's state is of the published bundle, is the state on disk once it says released, and
  asks for the release before the helper begins one.\<close>

definition saved_ok ::
    "'f hashing \<Rightarrow> rfc3339 \<Rightarrow> frozen_intent \<Rightarrow> string \<Rightarrow> results_dir \<Rightarrow> saved_results \<Rightarrow> bool" where
  "saved_ok H R i request d saved \<longleftrightarrow>
     dir_ok H R d \<and>
     (\<forall>w. rd_state d = Holds w \<longrightarrow> rt_status (pb_retention w) \<noteq> Keep \<longrightarrow>
        (\<exists>st. saved = Holds (request, st) \<and> rt_status (pb_retention st) \<noteq> Keep \<and> proven st)) \<and>
     (saved = Absent \<or>
      (\<exists>st w. saved = Holds (request, st) \<and> rd_state d = Holds w \<and> pb_bundle st = pb_bundle w \<and>
         state_ok H R st \<and> bind_bundle H (pb_bundle st) i None = Inr () \<and>
         (rt_status (pb_retention st) = Released \<longrightarrow> st = w)))"

lemma saved_ok_dir: "saved_ok H R i request d saved \<Longrightarrow> dir_ok H R d"
  by (simp add: saved_ok_def)

lemma saved_ok_begun:
  "saved_ok H R i request d saved \<Longrightarrow> rd_state d = Holds w \<Longrightarrow> rt_status (pb_retention w) \<noteq> Keep \<Longrightarrow>
   \<exists>st. saved = Holds (request, st) \<and> rt_status (pb_retention st) \<noteq> Keep \<and> proven st"
  by (simp add: saved_ok_def)

lemma saved_ok_holds:
  assumes "saved_ok H R i request d saved" "saved = Holds (rq, st)"
  obtains w where "rq = request" "rd_state d = Holds w" "pb_bundle st = pb_bundle w" "state_ok H R st"
    "bind_bundle H (pb_bundle st) i None = Inr ()" "rt_status (pb_retention st) = Released \<Longrightarrow> st = w"
  using assms by (auto simp: saved_ok_def)

lemma saved_okI:
  assumes "dir_ok H R d" "rd_state d = Holds w" "pb_bundle st = pb_bundle w" "state_ok H R st"
    "bind_bundle H (pb_bundle st) i None = Inr ()" "rt_status (pb_retention st) = Released \<Longrightarrow> st = w"
    "rt_status (pb_retention w) \<noteq> Keep \<Longrightarrow> rt_status (pb_retention st) \<noteq> Keep \<and> proven st"
  shows "saved_ok H R i request d (Holds (request, st))"
  using assms by (simp add: saved_ok_def)

lemma artifact_saved_Holds:
  "artifact_saved H R i request (Holds (request, st)) = Inr o' \<longleftrightarrow>
     validate_publication H R st = Inr () \<and> bind_bundle H (pb_bundle st) i None = Inr () \<and> o' = Some st"
  by (auto simp: artifact_saved_def res_simps)

lemma artifact_save_iff:
  "artifact_save H R i request saved st = Inr saved' \<longleftrightarrow>
     saved' = Holds (request, st) \<and> validate_publication H R st = Inr () \<and>
     bind_bundle H (pb_bundle st) i None = Inr () \<and>
     (\<exists>old. artifact_saved H R i request saved = Inr old \<and>
        (\<forall>o'. old = Some o' \<longrightarrow> validate_successor H R o' st = Inr ()))"
  by (auto simp: artifact_save_def res_simps split: option.splits)

lemma local_ok:
  assumes "saved_ok H R i request d saved" "local_acknowledge H R i request command saved = Inr saved'"
    and "command_ok command"
  shows "saved_ok H R i request d saved'"
    "releases command \<longrightarrow>
      (\<exists>st. saved' = Holds (request, st) \<and> rt_status (pb_retention st) \<noteq> Keep \<and> proven st)"
proof -
  have both: "saved_ok H R i request d saved' \<and> (releases command \<longrightarrow>
      (\<exists>st. saved' = Holds (request, st) \<and> rt_status (pb_retention st) \<noteq> Keep \<and> proven st))"
  proof (cases command)
    case (Acknowledge p at release)
    obtain st st' where st: "artifact_saved H R i request saved = Inr (Some st)"
        "acknowledge H R st p at release = Inr st'" "artifact_save H R i request saved st' = Inr saved'"
      using assms(2) by (auto simp: Acknowledge local_acknowledge_def res_simps)
    then have saved: "saved = Holds (request, st)"
      using assms(1) by (auto simp: saved_ok_def artifact_saved_def res_simps)
    obtain w where w: "rd_state d = Holds w" "pb_bundle st = pb_bundle w" "state_ok H R st"
        "rt_status (pb_retention st) = Released \<Longrightarrow> st = w"
      using saved_ok_holds [OF assms(1) saved] by metis
    have p: "proven st'"
      using acknowledged_proven [OF st(2) w(3)] assms(3) by (simp add: Acknowledge)
    have succ: "validate_successor H R st st' = Inr ()" using st(2) by (rule acknowledge_successor)
    have s': "saved' = Holds (request, st')" "validate_publication H R st' = Inr ()"
        "bind_bundle H (pb_bundle st') i None = Inr ()"
      using st(3) by (simp_all add: artifact_save_iff)
    have released: "st' = w" if "rt_status (pb_retention st') = Released"
    proof -
      have "st' = st"
        using st(2) that by (auto simp: acknowledge_def acknowledge_receipt_def res_simps Let_def
            split: option.splits if_splits)
      then show ?thesis using that w(4) by simp
    qed
    have begun: "rt_status (pb_retention st') \<noteq> Keep" if "rt_status (pb_retention w) \<noteq> Keep"
    proof -
      have "rt_status (pb_retention st) \<noteq> Keep"
        using saved_ok_begun [OF assms(1) w(1) that] saved by auto
      then show ?thesis using succ by (cases "rt_status (pb_retention st)") (auto simp: validate_successor_iff)
    qed
    have "pb_bundle st' = pb_bundle w" using succ w(2) by (simp add: validate_successor_iff)
    moreover have "state_ok H R st'" using p s'(2) by (simp add: state_ok_def)
    ultimately have "saved_ok H R i request d saved'"
      using saved_okI [OF saved_ok_dir [OF assms(1)] w(1) _ _ s'(3) released] begun p s'(1) by blast
    moreover have "release \<longrightarrow> rt_status (pb_retention st') \<noteq> Keep"
      using acknowledged_status(2) [OF st(2)] by blast
    ultimately show ?thesis using s'(1) p Acknowledge by simp
  qed (use assms(1,2) in \<open>simp_all add: local_acknowledge_def\<close>)
  show "saved_ok H R i request d saved'" using both by blast
  show "releases command \<longrightarrow>
      (\<exists>st. saved' = Holds (request, st) \<and> rt_status (pb_retention st) \<noteq> Keep \<and> proven st)"
    using both by blast
qed

lemma operation_ok:
  assumes "saved_ok H R i request d saved" "packing_ok H e" "command_ok command"
    and "releases command \<longrightarrow>
      (\<exists>st. saved = Holds (request, st) \<and> rt_status (pb_retention st) \<noteq> Keep \<and> proven st)"
    and "run_results (artifact_operation H R e i command) n d = (d', reply)"
  shows "saved_ok H R i request d' saved"
    "\<And>st. reply = Some st \<Longrightarrow> rd_state d' = Holds st \<and> state_ok H R st \<and>
      bind_bundle H (pb_bundle st) i None = Inr () \<and>
      (releases command \<longrightarrow> rt_status (pb_retention st) = Released)"
proof -
  let ?K = "kept H R (releases command) d"
  have ok: "dir_ok H R d" using assms(1) by (simp add: saved_ok_def)
  note run = run_results_triple [OF operation_kept [OF assms(2,3)] kept_refl [OF ok] kept_refl [OF ok] assms(5)]
  have k: "?K d'" using run(1) by blast
  have begun: "\<exists>st. saved = Holds (request, st) \<and> rt_status (pb_retention st) \<noteq> Keep \<and> proven st"
    if w': "rd_state d' = Holds w'" "rt_status (pb_retention w') \<noteq> Keep" for w'
  proof -
    have "releases command \<or> (\<exists>w. rd_state d = Holds w \<and> rt_status (pb_retention w) \<noteq> Keep)"
      using k w' unfolding kept_def by blast
    then show ?thesis using assms(4) saved_ok_begun [OF assms(1)] by blast
  qed
  show "saved_ok H R i request d' saved"
  proof (cases "saved = Absent")
    case True
    then show ?thesis using kept_dir [OF k] begun by (auto simp: saved_ok_def)
  next
    case False
    then obtain st where st: "saved = Holds (request, st)" using assms(1) by (auto simp: saved_ok_def)
    obtain w where w: "rd_state d = Holds w" "pb_bundle st = pb_bundle w" "state_ok H R st"
        "bind_bundle H (pb_bundle st) i None = Inr ()" "rt_status (pb_retention st) = Released \<Longrightarrow> st = w"
      using saved_ok_holds [OF assms(1) st] by metis
    obtain w' where w': "rd_state d' = Holds w'" "validate_successor H R w w' = Inr ()"
      using k w(1) unfolding kept_def by blast
    have "pb_bundle st = pb_bundle w'" using w(2) w'(2) by (simp add: validate_successor_iff)
    moreover have "st = w'" if "rt_status (pb_retention st) = Released"
      using w(5) [OF that] that w'(2) by (simp add: validate_successor_iff)
    ultimately show ?thesis
      unfolding st using saved_okI [OF kept_dir [OF k] w'(1) _ w(3,4)] begun [OF w'(1)] st by blast
  qed
  show "rd_state d' = Holds st \<and> state_ok H R st \<and> bind_bundle H (pb_bundle st) i None = Inr () \<and>
      (releases command \<longrightarrow> rt_status (pb_retention st) = Released)" if "reply = Some st" for st
    using run(2) [OF that] dir_okD(2) [OF kept_dir [OF k]] by (auto simp: answer_ok_def)
qed

lemma change_ok:
  assumes "saved_ok H R i request d saved" "packing_ok H e" "command_ok command"
    and "artifact_change H R i request e x command d saved = (d', saved', answer)"
  shows "saved_ok H R i request d' saved'"
proof (cases "ex_guard x")
  case False
  then show ?thesis using assms(1,4) by (simp add: artifact_change_def)
next
  case guard: True
  show ?thesis
  proof (cases "local_acknowledge H R i request command saved")
    case (Inl f)
    then show ?thesis using assms(1,4) guard by (simp add: artifact_change_def)
  next
    case (Inr saved1)
    note local_step = local_ok [OF assms(1) Inr assms(3)]
    show ?thesis
    proof (cases "ex_job x \<and> ex_writes x \<noteq> None")
      case False
      then show ?thesis using local_step(1) assms(4) guard Inr
        by (auto simp: artifact_change_def split: if_splits)
    next
      case True
      then obtain n where n: "ex_job x" "ex_writes x = Some n" by auto
      obtain d1 reply where run: "run_results (artifact_operation H R e i command) n d = (d1, reply)"
        by (cases "run_results (artifact_operation H R e i command) n d")
      note op = operation_ok [OF local_step(1) assms(2,3) local_step(2) run]
      have rest: "(d', saved', answer) =
        (if \<not> ex_reply x then (d1, saved1, Inl SUnavailable)
         else if \<not> ex_live x then (d1, saved1, Inl SAuthority)
         else case reply of
           None \<Rightarrow> (d1, saved1, Inl SUnavailable)
         | Some st \<Rightarrow>
             (case artifact_save H R i request saved1 st of
                Inl f \<Rightarrow> (d1, saved1, Inl f)
              | Inr saved \<Rightarrow> (d1, saved, Inr st)))"
        using assms(4) guard Inr n run by (simp add: artifact_change_def)
      show ?thesis
      proof (cases "d' = d1 \<and> saved' = saved1")
        case True
        then show ?thesis using op(1) by simp
      next
        case False
        then obtain st where st: "reply = Some st" "d' = d1" "artifact_save H R i request saved1 st = Inr saved'"
          using rest by (auto split: if_splits option.splits sum.splits)
        have s': "saved' = Holds (request, st)" using st(3) by (simp add: artifact_save_iff)
        have "rt_status (pb_retention st) \<noteq> Keep \<Longrightarrow> proven st"
          using op(2) [OF st(1)] by (auto simp: state_ok_def validate_publication_iff split: option.splits)
        then show ?thesis
          unfolding s' st(2) using op(2) [OF st(1)] saved_ok_dir [OF op(1)]
          by (intro saved_okI [of H R d1 st]) simp_all
      qed
    qed
  qed
qed

text \<open>Every life of the results of one Attempt.\<close>

inductive results_history ::
    "'f hashing \<Rightarrow> rfc3339 \<Rightarrow> tar_format \<Rightarrow> frozen_intent \<Rightarrow> string \<Rightarrow> results_dir \<Rightarrow> saved_results \<Rightarrow> bool"
  for H :: "'f hashing" and R :: rfc3339 and T :: tar_format and i :: frozen_intent and request :: string where
  Start: "rd_bundle d = Absent \<Longrightarrow> rd_state d = Absent \<Longrightarrow> results_history H R T i request d Absent"
| Change: "results_history H R T i request d saved \<Longrightarrow>
    ev_packed e = pack H T required first second still third fourth \<Longrightarrow> command_ok command \<Longrightarrow>
    artifact_change H R i request e x command d saved = (d', saved', answer) \<Longrightarrow>
    results_history H R T i request d' saved'"

lemma pack_packing_ok: "ev_packed e = pack H T required first second still third fourth \<Longrightarrow> packing_ok H e"
  unfolding packing_ok_def using packD by metis

lemma history_ok: "results_history H R T i request d saved \<Longrightarrow> saved_ok H R i request d saved"
proof (induction rule: results_history.induct)
  case (Start d)
  then show ?case by (auto simp: saved_ok_def dir_ok_def)
next
  case (Change d saved e required first second still third fourth command x d' saved' answer)
  show ?case
    using change_ok [OF Change.IH pack_packing_ok [OF Change.hyps(2)] Change.hyps(3,4)] .
qed

text \<open>C6. After every sequence of changes, with crashes of the helper after any write and lost requests and
  replies, the published copy is whole, or the server has saved an acknowledgement of exactly this bundle
  that releases it.\<close>

theorem copy_kept_until_proven:
  assumes "results_history H R T i request d saved" "rd_bundle d = Holds b"
  shows "intact H b d \<or>
    (\<exists>st. saved = Holds (request, st) \<and> pb_bundle st = b \<and> rt_status (pb_retention st) \<noteq> Keep \<and>
       (\<exists>ack. pb_ack st = Some ack \<and> ak_proof ack = proof_of (bd_archive b)))"
proof (cases "intact H b d")
  case False
  have ok: "saved_ok H R i request d saved" using assms(1) by (rule history_ok)
  obtain w where w: "rd_state d = Holds w" "rt_status (pb_retention w) \<noteq> Keep"
    using saved_ok_dir [OF ok] assms(2) False by (auto simp: dir_ok_def)
  obtain st where st: "saved = Holds (request, st)" "rt_status (pb_retention st) \<noteq> Keep" "proven st"
    using saved_ok_begun [OF ok w] by blast
  obtain w' where "rd_state d = Holds w'" "pb_bundle st = pb_bundle w'"
    using saved_ok_holds [OF ok st(1)] by metis
  moreover have "pb_bundle w = b" using dir_okD(1) [OF saved_ok_dir [OF ok] w(1)] assms(2) by simp
  ultimately have "pb_bundle st = b" using w(1) by simp
  then show ?thesis using st by (auto simp: proven_def)
qed simp

text \<open>C17. In every such history, a release that the helper completes and whose reply arrives is saved: the
  server never refuses it, both sides are released and the copy is gone.\<close>

theorem answered_release_is_saved:
  assumes history: "results_history H R T i request d saved"
    and pack: "ev_packed e = pack H T required first second still third fourth"
    and order: "key_order (pf_files p)"
    and way: "ex_guard x" "ex_job x" "ex_writes x = Some n" "ex_reply x" "ex_live x"
    and asked: "local_acknowledge H R i request (Acknowledge p at True) saved = Inr saved1"
    and run: "run_results (artifact_operation H R e i (Acknowledge p at True)) n d = (d', Some st)"
  shows "artifact_change H R i request e x (Acknowledge p at True) d saved = (d', Holds (request, st), Inr st) \<and>
    rt_status (pb_retention st) = Released \<and> rd_state d' = Holds st \<and> rd_archive d' = None"
proof -
  have ok: "saved_ok H R i request d saved" using history by (rule history_ok)
  have c: "command_ok (Acknowledge p at True)" using order by simp
  note local_step = local_ok [OF ok asked c]
  note op = operation_ok [OF local_step(1) pack_packing_ok [OF pack] c local_step(2) run]
  have st: "rd_state d' = Holds st" "state_ok H R st" "bind_bundle H (pb_bundle st) i None = Inr ()"
      "rt_status (pb_retention st) = Released"
    using op(2) by auto
  obtain old where old: "saved1 = Holds (request, old)" using local_step(2) by auto
  obtain w where w: "rd_state d' = Holds w" "pb_bundle old = pb_bundle w" "state_ok H R old"
      "bind_bundle H (pb_bundle old) i None = Inr ()" "rt_status (pb_retention old) = Released \<Longrightarrow> old = w"
    using saved_ok_holds [OF op(1) old] by metis
  have proofs: "map_option ak_proof (pb_ack st) = Some (ak_proof ack)" if "pb_ack old = Some ack" for ack
  proof -
    have "pb_ack st \<noteq> None"
      using st(2,4) by (auto simp: state_ok_def validate_publication_iff split: option.splits)
    then show ?thesis using that w st(1,2) by (auto simp: state_ok_def proven_def)
  qed
  have "w = st" using w(1) st(1) by simp
  have rank: "retention_rank (rt_status (pb_retention old)) \<le> 3"
    by (cases "rt_status (pb_retention old)") simp_all
  have "validate_successor H R old st = Inr ()"
    unfolding validate_successor_iff
    using w(2,3,5) st(2,4) rank proofs \<open>w = st\<close> by (simp add: state_ok_def)
  then have "artifact_save H R i request saved1 st = Inr (Holds (request, st))"
    using st w(3,4) old by (simp add: artifact_save_iff artifact_saved_Holds state_ok_def)
  then have "artifact_change H R i request e x (Acknowledge p at True) d saved = (d', Holds (request, st), Inr st)"
    using way asked run by (simp add: artifact_change_def)
  then show ?thesis using st dir_okD(4) [OF saved_ok_dir [OF op(1)] st(1)] by simp
qed

section \<open>A sample exchange\<close>

definition results_clock :: rfc3339 where
  "results_clock v = (if v = ''2026-01-01T00:00:00Z'' then Some 0
     else if v = ''2026-01-01T00:01:00Z'' then Some 60 else None)"

definition results_config :: string where
  "results_config = sha256_bytes sample_results_hash ''c''"

definition sample_env :: results_env where
  "sample_env = \<lparr>ev_found = True, ev_config = results_config, ev_policy = Some [''w.pt''], ev_room = True,
     ev_partial = [], ev_packed = Inr sample_packed, ev_issued = True, ev_cancelled = False\<rparr>"

definition whole_exchange :: "nat \<Rightarrow> exchange" where
  "whole_exchange n = \<lparr>ex_guard = True, ex_job = True, ex_writes = Some n, ex_reply = True, ex_live = True\<rparr>"

definition fresh_results :: results_dir where
  "fresh_results = \<lparr>rd_owner = Absent, rd_archive = None, rd_bundle = Absent, rd_state = Absent,
     rd_strangers = False\<rparr>"

abbreviation sample_change ::
    "nat \<Rightarrow> artifact_command \<Rightarrow> results_dir \<Rightarrow> saved_results
     \<Rightarrow> results_dir \<times> saved_results \<times> (results_fault + publication)" where
  "sample_change n command d saved \<equiv>
     artifact_change sample_results_hash results_clock sample_intent ''request'' sample_env
       (whole_exchange n) command d saved"

definition proven_release :: artifact_command where
  "proven_release = Acknowledge (proof_of sample_receipt) ''2026-01-01T00:01:00Z'' True"

definition sample_intent_digest :: string where
  "sample_intent_digest = (case intent_digest sample_results_hash sample_intent of Inr t \<Rightarrow> t | Inl _ \<Rightarrow> [])"

definition sample_bundle :: result_bundle where
  "sample_bundle = packed_bundle sample_intent sample_intent_digest results_config sample_packed"

definition sample_state :: "retention_status \<Rightarrow> acknowledgement option \<Rightarrow> publication" where
  "sample_state rank ack = \<lparr>pb_bundle = sample_bundle,
     pb_retention = \<lparr>rt_status = rank, rt_sha = pk_sha sample_packed,
       rt_after = map_option ak_at ack, rt_released = None\<rparr>,
     pb_ack = ack\<rparr>"

definition sample_ack :: acknowledgement where
  "sample_ack = \<lparr>ak_proof = proof_of sample_receipt, ak_at = ''2026-01-01T00:01:00Z''\<rparr>"

definition sample_results_dir :: "publication \<Rightarrow> (string \<times> bool) option \<Rightarrow> results_dir" where
  "sample_results_dir st archive = \<lparr>rd_owner = Holds sample_intent_digest, rd_archive = archive,
     rd_bundle = Holds sample_bundle, rd_state = Holds st, rd_strangers = False\<rparr>"

abbreviation sample_scheduled :: publication where "sample_scheduled \<equiv> sample_state Scheduled (Some sample_ack)"
abbreviation sample_releasing :: publication where "sample_releasing \<equiv> sample_state Releasing (Some sample_ack)"

lemma sample_digest_ok: "intent_digest sample_results_hash sample_intent = Inr sample_intent_digest"
proof -
  have "is_ok (intent_digest sample_results_hash sample_intent)" by code_simp
  then show ?thesis by (auto simp: is_ok_iff sample_intent_digest_def)
qed

lemma sample_bundle_ok: "validate_bundle sample_results_hash sample_bundle = Inr ()"
  by code_simp

lemma sample_bundle_readable: "bundle_readable sample_results_hash sample_bundle"
  by code_simp

lemma sample_archive: "bd_archive sample_bundle = sample_receipt"
  by (simp add: sample_bundle_def packed_bundle_def sample_receipt_def sample_intent_def)

lemma sample_bound:
  "bind_bundle sample_results_hash sample_bundle sample_intent None = Inr ()"
  "bind_bundle sample_results_hash sample_bundle sample_intent (Some results_config) = Inr ()"
  using sample_bundle_ok sample_digest_ok
  by (simp_all add: bind_bundle_def sample_bundle_def packed_bundle_def)

lemma sample_proof_order: "key_order (pf_files (proof_of sample_receipt))"
  by code_simp

lemma sample_proof: "proof_matches sample_results_hash sample_receipt (proof_of sample_receipt) = Inr ()"
  using sample_proof_order sample_receipt_ok by (simp add: proof_matches_iff)

lemma sample_sha: "artifact_sha256 (sha_hex sample_results_hash x)"
proof -
  have "artifact_sha256 (replicate 63 CHR ''a'' @ [CHR ''0''])" "artifact_sha256 (replicate 63 CHR ''a'' @ [CHR ''1''])"
    by code_simp+
  then show ?thesis by (simp add: sample_results_hash_def)
qed

lemma sample_times:
  "artifact_timestamp results_clock ''2026-01-01T00:00:00Z'' = Inr 0"
  "artifact_timestamp results_clock ''2026-01-01T00:01:00Z'' = Inr 60"
  by (simp_all add: artifact_timestamp_def results_clock_def)

lemma sample_packed_sha: "pk_sha sample_packed = sha_hex sample_results_hash (pk_archive sample_packed)"
  "ar_sha sample_receipt = pk_sha sample_packed" "artifact_sha256 (pk_sha sample_packed)"
  using sample_sha by (simp_all add: sample_packed_def sample_receipt_def Let_def)

lemma sample_valid:
  "validate_publication sample_results_hash results_clock (sample_state Keep None) = Inr ()"
  "validate_publication sample_results_hash results_clock sample_scheduled = Inr ()"
  "validate_publication sample_results_hash results_clock sample_releasing = Inr ()"
  using sample_bundle_ok sample_proof sample_times sample_packed_sha
  by (simp_all add: validate_publication_iff validate_retention_iff sample_state_def sample_archive sample_ack_def)

lemma sample_publication: "new_publication sample_results_hash sample_bundle = Inr (sample_state Keep None)"
  using sample_bundle_ok by (simp add: new_publication_def sample_state_def sample_archive sample_packed_sha)

lemma sample_acknowledges:
  "acknowledge sample_results_hash results_clock (sample_state Keep None) (proof_of sample_receipt)
     ''2026-01-01T00:01:00Z'' True = Inr sample_scheduled"
  "acknowledge sample_results_hash results_clock sample_scheduled (proof_of sample_receipt)
     ''2026-01-01T00:01:00Z'' True = Inr sample_scheduled"
  "acknowledge sample_results_hash results_clock sample_releasing (proof_of sample_receipt)
     ''2026-01-01T00:01:00Z'' True = Inr sample_releasing"
  using sample_valid sample_proof sample_times
  by (simp_all add: acknowledge_def acknowledge_receipt_def sample_state_def sample_archive sample_ack_def
      sample_packed_sha)

lemma sample_writer_plain: "plain_writer sample_writer"
proof -
  have "length (concat (map (\<lambda>c. if c = CHR 0x22 \<or> c = CHR 0x5C then [CHR 0x5C, c] else [c]) s)) = text_cost s" for s
    by (induction s) (auto simp: text_cost_def)
  then show ?thesis by (simp add: plain_writer_def sample_writer_def)
qed

lemma sample_collection:
  "tree_ok sample_outputs" "sum_list (map listed_cost [''w.pt'']) \<le> MAX_LISTED_BYTES"
  "plain_writer (writer sample_results_hash)" "\<forall>x. artifact_sha256 (sha_hex sample_results_hash x)"
  "\<forall>f\<in>set (pk_files sample_packed). fbytes f < u64_limit" "0 < pk_bytes sample_packed"
  "pk_bytes sample_packed < u64_limit"
  "sample_bundle = packed_bundle sample_intent sample_intent_digest (sha256_bytes sample_results_hash ''c'') sample_packed"
proof -
  show "tree_ok sample_outputs" by code_simp
  show "sum_list (map listed_cost [''w.pt'']) \<le> MAX_LISTED_BYTES" by (simp add: listed_cost_def)
  show "plain_writer (writer sample_results_hash)"
    by (simp add: sample_results_hash_def sample_writer_plain)
  show "\<forall>x. artifact_sha256 (sha_hex sample_results_hash x)" using sample_sha by blast
  show "\<forall>f\<in>set (pk_files sample_packed). fbytes f < u64_limit" by (simp add: sample_packed_def Let_def)
  show "0 < pk_bytes sample_packed" "pk_bytes sample_packed < u64_limit" by code_simp+
  show "sample_bundle = packed_bundle sample_intent sample_intent_digest (sha256_bytes sample_results_hash ''c'') sample_packed"
    by (simp add: sample_bundle_def results_config_def)
qed

lemma sample_clock_plain: "plain_clock results_clock"
proof -
  have "printable_text ''2026-01-01T00:00:00Z''" "printable_text ''2026-01-01T00:01:00Z''" by code_simp+
  then show ?thesis by (simp add: plain_clock_def results_clock_def)
qed

lemma sample_readable:
  assumes "pb_bundle s = sample_bundle" "validate_publication sample_results_hash results_clock s = Inr ()"
    and "pb_ack s = None \<or> pb_ack s = Some sample_ack"
  shows "state_readable sample_results_hash s"
proof -
  note budget = pack_within_budget [OF sample_pack sample_collection(1,2,4,5)]
  have "receipt_head (bd_archive (pb_bundle s))"
    unfolding assms(1) sample_archive by code_simp
  moreover have "within_budget (ar_files (bd_archive (pb_bundle s)))" "skips_ok (bd_skipped (pb_bundle s))"
    using budget(1,2) by (simp_all add: assms(1) sample_bundle_def packed_bundle_def)
  moreover have "ak_proof ack = proof_of (bd_archive (pb_bundle s))" if "pb_ack s = Some ack" for ack
    using assms(1,3) that by (auto simp: sample_archive sample_ack_def)
  ultimately show ?thesis
    unfolding state_readable_def
    using publication_length [OF sample_collection(3) sample_clock_plain _ _ _ assms(2)] by blast
qed

theorem collected_state_fits_witness:
  "(\<exists>s. new_publication sample_results_hash sample_bundle = Inr s) \<and>
   proof_matches sample_results_hash (bd_archive sample_bundle) (proof_of (bd_archive sample_bundle)) = Inr () \<and>
   length (json_text (writer sample_results_hash) (publication_value sample_releasing)) \<le> MAX_METADATA_BYTES"
proof -
  have "pb_bundle sample_releasing = sample_bundle"
      "\<forall>ack. pb_ack sample_releasing = Some ack \<longrightarrow> key_order (pf_files (ak_proof ack))"
    using sample_proof_order by (simp_all add: sample_state_def sample_ack_def)
  then show ?thesis
    using collected_state_fits [OF sample_pack sample_collection(1-7) sample_digest_ok sample_collection(8),
        of results_clock sample_releasing] sample_clock_plain sample_valid(3)
    by blast
qed

lemmas run_defs = artifact_change_def local_acknowledge_def run_results_def artifact_operation_def
  result_state_def claim_directory_def publish_results_def pack_bundle_def r_bind_def r_read_def r_check_def
  r_write_def r_if_def r_when_def r_return_def read_results_def read_bundle_def artifact_save_def artifact_saved_def
  save_state_def release_copy_def whole_exchange_def sample_env_def

lemma sample_state_fields [simp]:
  "pb_bundle (sample_state rank ack) = sample_bundle" "pb_ack (sample_state rank ack) = ack"
  "rt_status (pb_retention (sample_state rank ack)) = rank"
  by (simp_all add: sample_state_def)

lemma sample_collects:
  "sample_change 100 Collect fresh_results Absent =
     (sample_results_dir (sample_state Keep None) (Some (pk_archive sample_packed, True)),
      Holds (''request'', sample_state Keep None), Inr (sample_state Keep None))"
  using sample_digest_ok sample_bundle_ok sample_bundle_readable sample_bound sample_valid
    sample_readable [of "sample_state Keep None"] sample_publication
  by (simp add: run_defs sample_results_dir_def fresh_results_def flip: sample_bundle_def)

text \<open>The connection is lost when the copy is gone and the release not yet recorded.\<close>

lemma sample_begins_release:
  "begin_release sample_results_hash results_clock sample_receipt (pb_retention sample_scheduled) =
     Inr (pb_retention sample_releasing)"
  "begin_release sample_results_hash results_clock sample_receipt (pb_retention sample_releasing) =
     Inr (pb_retention sample_releasing)"
proof -
  have "validate_retention results_clock (pb_retention (sample_state t (Some sample_ack))) (ar_sha sample_receipt) = Inr ()"
    if "t \<in> {Scheduled, Releasing}" for t
    using that sample_times sample_packed_sha
    by (auto simp: validate_retention_iff sample_state_def sample_ack_def)
  then show "begin_release sample_results_hash results_clock sample_receipt (pb_retention sample_scheduled) =
      Inr (pb_retention sample_releasing)"
    "begin_release sample_results_hash results_clock sample_receipt (pb_retention sample_releasing) =
      Inr (pb_retention sample_releasing)"
    using sample_receipt_ok by (simp_all add: begin_release_def) (simp_all add: sample_state_def)
qed

lemma sample_moves: "sample_scheduled\<lparr>pb_retention := pb_retention sample_releasing\<rparr> = sample_releasing"
  "sample_releasing\<lparr>pb_retention := pb_retention sample_releasing\<rparr> = sample_releasing"
  by (simp_all add: sample_state_def)

definition sample_released :: publication where
  "sample_released = sample_releasing\<lparr>pb_retention := (pb_retention sample_releasing)
     \<lparr>rt_status := Released, rt_released := Some ''2026-01-01T00:01:00Z''\<rparr>\<rparr>"

lemma release_finishes:
  "finish_release sample_results_hash results_clock sample_receipt (pb_retention sample_releasing)
     ''2026-01-01T00:01:00Z'' = Inr (pb_retention sample_released)"
proof -
  have "validate_retention results_clock (pb_retention sample_releasing) (ar_sha sample_receipt) = Inr ()"
    using sample_times sample_packed_sha
    by (auto simp: validate_retention_iff sample_state_def sample_ack_def)
  then show ?thesis
    using sample_receipt_ok sample_times
    by (simp add: finish_release_def) (simp add: sample_state_def sample_ack_def sample_released_def)
qed

lemma sample_released_ok:
  "validate_publication sample_results_hash results_clock sample_released = Inr ()"
  "sample_releasing\<lparr>pb_retention := pb_retention sample_released\<rparr> = sample_released"
  "sample_scheduled\<lparr>pb_retention := pb_retention sample_released\<rparr> = sample_released"
proof -
  show step: "sample_releasing\<lparr>pb_retention := pb_retention sample_released\<rparr> = sample_released"
    by (simp add: sample_released_def)
  show "sample_scheduled\<lparr>pb_retention := pb_retention sample_released\<rparr> = sample_released"
    by (simp add: sample_released_def sample_state_def)
  show "validate_publication sample_results_hash results_clock sample_released = Inr ()"
    using finish_release_successor(1) [of sample_results_hash results_clock sample_releasing
        "''2026-01-01T00:01:00Z''" "pb_retention sample_released"] sample_valid release_finishes sample_archive step
    by (simp add: validate_successor_iff)
qed

lemma sample_crashes:
  "sample_change 3 proven_release
     (sample_results_dir (sample_state Keep None) (Some (pk_archive sample_packed, True)))
     (Holds (''request'', sample_state Keep None)) =
     (sample_results_dir sample_releasing None, Holds (''request'', sample_scheduled), Inl SUnavailable)"
proof -
  have "length (pk_archive sample_packed) = ar_bytes sample_receipt"
    by (simp add: sample_receipt_def sample_packed_def Let_def)
  then show ?thesis
    using sample_digest_ok sample_bundle_ok sample_bundle_readable sample_bound sample_valid
      sample_readable [of "sample_state Keep None"] sample_acknowledges sample_archive
      acknowledge_successor [OF sample_acknowledges(1)] sample_begins_release release_finishes sample_released_ok(1)
    by (simp add: run_defs sample_results_dir_def proven_release_def Let_def sample_moves sample_released_ok(2,3) all_bool_eq ex_bool_eq)
qed

lemma sample_retry:
  "local_acknowledge sample_results_hash results_clock sample_intent ''request'' proven_release
     (Holds (''request'', sample_scheduled)) = Inr (Holds (''request'', sample_scheduled))"
  "run_results (artifact_operation sample_results_hash results_clock sample_env sample_intent proven_release) 100
     (sample_results_dir sample_releasing None) = (sample_results_dir sample_released None, Some sample_released)"
proof -
  show "local_acknowledge sample_results_hash results_clock sample_intent ''request'' proven_release
     (Holds (''request'', sample_scheduled)) = Inr (Holds (''request'', sample_scheduled))"
    using sample_bound sample_valid sample_acknowledges successor_refl [OF sample_valid(2)]
    by (simp add: run_defs proven_release_def)
  show "run_results (artifact_operation sample_results_hash results_clock sample_env sample_intent proven_release) 100
     (sample_results_dir sample_releasing None) = (sample_results_dir sample_released None, Some sample_released)"
    using sample_digest_ok sample_bundle_ok sample_bundle_readable sample_bound sample_valid
      sample_readable [of sample_releasing] sample_acknowledges sample_archive
      sample_begins_release release_finishes sample_released_ok(1)
    by (simp add: run_defs sample_results_dir_def proven_release_def Let_def sample_moves sample_released_ok(2,3) all_bool_eq ex_bool_eq)
qed

lemma release_history:
  "results_history sample_results_hash results_clock sample_tar sample_intent ''request''
     (sample_results_dir sample_releasing None) (Holds (''request'', sample_scheduled))"
proof -
  let ?history = "results_history sample_results_hash results_clock sample_tar sample_intent ''request''"
  have pack: "ev_packed sample_env = pack sample_results_hash sample_tar [''w.pt''] sample_outputs
      sample_outputs (\<lambda>_. True) sample_outputs sample_outputs"
    by (simp add: sample_env_def sample_pack)
  have "?history fresh_results Absent" by (rule Start) (simp_all add: fresh_results_def)
  then have "?history (sample_results_dir (sample_state Keep None) (Some (pk_archive sample_packed, True)))
      (Holds (''request'', sample_state Keep None))"
    by (rule Change [OF _ pack _ sample_collects]) simp
  then show ?thesis
    by (rule Change [OF _ pack _ sample_crashes]) (simp add: proven_release_def sample_proof_order)
qed

theorem copy_kept_until_proven_witness:
  "\<not> intact sample_results_hash sample_bundle (sample_results_dir sample_releasing None) \<and>
   rt_status (pb_retention sample_scheduled) \<noteq> Keep \<and>
   (\<exists>ack. pb_ack sample_scheduled = Some ack \<and> ak_proof ack = proof_of (bd_archive sample_bundle))"
proof -
  have "rd_bundle (sample_results_dir sample_releasing None) = Holds sample_bundle"
    and gone: "\<not> intact sample_results_hash sample_bundle (sample_results_dir sample_releasing None)"
    by (simp_all add: sample_results_dir_def intact_def)
  then show ?thesis using copy_kept_until_proven [OF release_history] by auto
qed

theorem answered_release_is_saved_witness:
  "sample_change 100 proven_release (sample_results_dir sample_releasing None)
     (Holds (''request'', sample_scheduled)) =
     (sample_results_dir sample_released None, Holds (''request'', sample_released), Inr sample_released) \<and>
   rt_status (pb_retention sample_released) = Released"
proof -
  have "ev_packed sample_env = pack sample_results_hash sample_tar [''w.pt''] sample_outputs
      sample_outputs (\<lambda>_. True) sample_outputs sample_outputs"
    by (simp add: sample_env_def sample_pack)
  then show ?thesis
    using answered_release_is_saved [OF release_history _ sample_proof_order _ _ _ _ _
        sample_retry(1) [unfolded proven_release_def] sample_retry(2) [unfolded proven_release_def],
        where x = "whole_exchange 100"]
    unfolding proven_release_def by (simp add: whole_exchange_def)
qed

end
