(* ===== verification/Spec2Isabelle.thy ===== *)
theory Spec2Isabelle
  imports Identity RunState Upload ActionStore Durable Cancel Polling Capacity Renewal Distribution SlurmStatus SlurmAllocation SlurmLedger Checkpoints History Publication Projects CloudOutbox ArtifactLedger
begin

text \<open>
  ML experiment control: a verification development of its Rust crates (\<open>rust/crates\<close>).

  \<^bold>\<open>The program.\<close> A server keeps projects, runs and attempts of machine-learning experiments under
  directories it owns, and lets reviewed Actions submit, cancel and renew them on a Slurm cluster or on a
  cloud provider. The decisions are pure functions of the crate \<open>core\<close>; the crate \<open>server\<close> stores their
  results (SQLite tables, JSON heads with journals, entry files) and polls the backends; the crate
  \<open>worker\<close> runs on a Slurm gateway and on the compute nodes, keeps the ledger of submissions and
  serves pages of the metrics files; the crates \<open>io\<close> and \<open>client\<close> are confined file access and the
  command line. A claim of an Action grants the one submission it was reviewed for; the backend repeats
  nothing whose outcome is unknown; observations only move an Attempt forward; metrics are ingested
  into a journal of events, which a publisher sends to a tracking service.

  \<^bold>\<open>How the code is modelled.\<close> A struct is a record, an enum a datatype, \<open>serde_json::Value\<close> the
  datatype \<open>json\<close> of theory \<open>Json\<close> (objects keep the order of their members, numbers keep their text, as
  the configuration of the parser has it), a string its UTF-8 bytes, \<open>Result\<close> a sum with the error left
  and \<open>?\<close> the combinator \<open>and_then\<close>. Integers whose wrap-around matters are words; elsewhere
  they are naturals or integers with the checks of the code. A store that outlives a crash is a state
  with an inductive step relation, in which a process stops between any two of its durable writes;
  theorems about such a store hold for every run.

  \<^bold>\<open>Parameters.\<close> Code outside the repository is an argument: SHA-256 (\<open>sha\<close>, \<open>sha_hex\<close>), the writer of JSON
  strings (\<open>W\<close>, \<open>writer\<close>), parsing and printing of doubles (\<open>float_ops\<close>), the RFC 3339 parser, the JSON parser and
  text of nonfinite numbers (\<open>metric_ops\<close>), regular expressions for redaction (\<open>cloud_reader\<close>), the tar
  format (\<open>tar_reads_back\<close>: what is written is read back; only packed names are used), what a
  filesystem resolves a path to (\<open>resolve\<close>), the answers of a provider (\<open>transport\<close>), and the verdicts of
  callers' guards, clocks and admission. Theorems name what they need of them.

  \<^bold>\<open>Theories and sources.\<close>
  \<^item> \<open>Prelude\<close>: results, checked integers, byte and character classes, splitting and joining of strings,
    decimal text; \<open>Json\<close>: documents, accessors, equality.
  \<^item> \<open>Identity\<close>: \<open>core/identity.rs\<close>, \<open>core/auth.rs\<close>. \<open>RunState\<close>: \<open>core/state.rs\<close>. \<open>Upload\<close>: \<open>core/multipart.rs\<close>,
    \<open>core/retry.rs\<close> and the pacing of polls.
  \<^item> \<open>Canonical\<close>, \<open>CanonicalUnique\<close>: \<open>core/canonical.rs\<close>, its digests and the outward projections; the
    second shows that the bytes determine the document, for every writer that meets the locale
    \<open>json_writer\<close>, interpreted by the escapes of RFC 8259.
  \<^item> \<open>Actions\<close>: the decisions of \<open>core/operations.rs\<close>. \<open>RevisionCell\<close>: the locale \<open>revision_cell\<close>, a
    compare-and-swap contract, interpreted by the Action rows of \<open>ActionStore\<close>
    (\<open>server/operations/database.rs\<close>, \<open>server/operations.rs\<close>) and by the project registry of \<open>Durable\<close>
    (\<open>core/durable.rs\<close> and the store of \<open>server/projects\<close>).
  \<^item> \<open>Projects\<close>: \<open>core/projects.rs\<close> and the authored project file.
  \<^item> \<open>Cancel\<close>: \<open>core/submission.rs\<close>. \<open>Polling\<close>: \<open>core/polling.rs\<close>. \<open>Capacity\<close>: \<open>core/capacity.rs\<close>. \<open>Renewal\<close>: \<open>core/renewal.rs\<close>.
    \<open>Distribution\<close>: \<open>core/distribution.rs\<close>.
  \<^item> \<open>Slurm\<close>, \<open>SlurmPlans\<close>, \<open>SlurmStatus\<close>, \<open>SlurmAllocation\<close>, \<open>SlurmHelper\<close>: \<open>core/slurm.rs\<close> and \<open>core/slurm/\<close>
    (configuration, command plans, scheduler evidence, capacity text, the gateway protocol);
    \<open>SlurmLedger\<close>: \<open>worker/slurm/ledger.rs\<close>, the submission ledger with its one \<open>sbatch\<close>.
  \<^item> \<open>Cloud\<close>: \<open>core/cloud/mod.rs\<close>, \<open>pai.rs\<close>, \<open>observation.rs\<close>; \<open>CloudAdapter\<close> and \<open>CloudOutbox\<close>:
    \<open>server/backends/cloud/adapter.rs\<close> and \<open>outbox.rs\<close>, requests of a provider and the boundary that sends
    each effect once.
  \<^item> \<open>Checkpoints\<close>: \<open>core/checkpoints.rs\<close>.
  \<^item> \<open>Metrics\<close>, \<open>MetricLine\<close>, \<open>Records\<close>: \<open>core/metrics/observation.rs\<close>, \<open>core/records/metric_line.rs\<close> and
    \<open>core/records.rs\<close>; \<open>Journal\<close>: the event tables of \<open>server/records/store.rs\<close>; \<open>History\<close>:
    \<open>core/managed/history.rs\<close>, its page server in \<open>worker\<close> and the ingestion in \<open>server\<close>. The locales
    \<open>event_journal\<close> and \<open>sourced_journal\<close> state what ingestion needs of a journal; \<open>Journal\<close> provides it.
  \<^item> \<open>Publication\<close>: \<open>core/tracking/publication.rs\<close>, the confirmation of a cursor in \<open>core/records.rs\<close>, the
    visits of \<open>server/tracking/publisher.rs\<close>, and the automatic and the operator's repair of
    \<open>publisher/repair.rs\<close>, as one step relation over the journal, the cursor, the saved reservations and
    what the service holds.
  \<^item> \<open>Artifacts\<close>: receipts, proofs, skip lists, retention and acknowledgements of \<open>core/artifacts.rs\<close> and
    \<open>core/artifacts/publication.rs\<close>. \<open>ResultWalk\<close>: the walk below an output directory, packing and both
    verifiers of \<open>io/artifacts.rs\<close>. \<open>ResultBundle\<close>: the bundle made of an archive and the size of the state
    that carries it. \<open>ArtifactLedger\<close>: the helper's operations of \<open>worker/slurm/ledger/artifacts.rs\<close> and
    the server's side in \<open>server/backends/slurm/service/engine/artifacts.rs\<close>, with every crash and lost
    reply between them.

  \<^bold>\<open>What is shown.\<close> Numbered texts state the properties, most important first.
  \<^item> Once only, over every history: an Action is granted to at most one claimant; \<open>sbatch\<close> runs at most
    once per intent, and a recorded job is one that was reported; a cloud job is created and stopped at
    most once; a cancellation is issued once; events of a metrics file enter the journal
    exactly once; publishing sends a row only after everything sent before it, also by repairs, and
    cursors cover only rows the service holds.
  \<^item> Results: the generated copy of an archive is kept until the server holds a saved proof of every byte of
    it; a release that is answered is saved; no file below an output directory is dropped unsaid; an
    archive that was packed verifies. A collection whose required files fit the listing budget fits
    the limit on a state; \<open>wide_policy_is_never_collected\<close> shows a valid policy whose files do not.
  \<^item> Durable state: what a reader loads after a crash at any point is the state before or after the commit;
    changes are compare-and-swap on a revision; the audit trail is complete; the registry refines a
    map from projects to states; entries of the outbox only advance.
  \<^item> Decisions: exactly which claims, views, renewals and status replies are accepted, spelled out over the
    members of the plan, and agreement of the views shown to a user with what a claim would do;
    scheduler evidence is monotone and owned.
  \<^item> Encodings: canonical bytes identify documents; joined commands split back under a shell with its own
    list of special characters (\<open>posix_special\<close>); frames and checkpoints are read back; importing
    a metrics file in any pieces equals importing it by lines.
  \<^item> Types, bounds, termination and errors: a valid observation is finite and of its declared unit; parts of an
    upload tile the archive; cluster capacity is what the lines that name the partition say, added up; ingestion needs a bounded number of pages; which
    batches of derived records are refused.

  \<^bold>\<open>Bounds and fuel.\<close> Loops are structural recursion or carry a termination proof. The one loop with a counter is the search
  for a cloud job (\<open>find_pages\<close>), which the code itself limits to a hundred pages; a search
  that succeeds ends on its first page, as \<open>absence_is_certain\<close> shows.

  \<^bold>\<open>Not modelled.\<close> HTTP routing and handlers, the read model and displays (projections for
  display); the strict JSON reader, which drives the deserializer outside the repository; process, file and network
  calls of the worker, the client and the crate \<open>io\<close>, whose results are the environment of the state
  machines; SSH and request signing; the engines that order the modelled decisions. Of the parts modelled in
  part: job scripts and staged packages of Slurm, helper operations about workers, reading rows back from the
  journal, artifacts of the cloud backends, the audit record and pacing of repairs, reopening and
  rebuilding a tracking run.

  \<^bold>\<open>Plan.\<close> Next: managed launches (\<open>core/managed.rs\<close>, \<open>core/launch.rs\<close>), native creation and retry requests
  (\<open>core/first_submission\<close>, \<open>core/preparation.rs\<close>), sources and datasets, cloud artifacts, and the cloud launch and retry documents.
\<close>

end
